(* ===== verification/Prelude.thy ===== *)
theory Prelude
  imports Main "HOL-Library.List_Lexorder" "HOL-Library.Char_ord" "HOL-Library.Code_Target_Nat"
begin

text \<open>
  Shared vocabulary of the development: Go's \<open>error\<close> values, results as
  \<open>error + 'a\<close>, database tables as lists of rows in insertion order, and the
  lemmas about them that several components use.
\<close>

named_theorems table_simps \<open>rewrite rules of the table operations\<close>
named_theorems err_simps \<open>rewrite rules of error values\<close>

section \<open>Errors\<close>

text \<open>
  One constructor per sentinel the source compares with \<open>errors.Is\<close>.  \<open>Errf f xs\<close> is an
  error made by \<open>errors.New\<close> or \<open>fmt.Errorf\<close> from the format \<open>f\<close> and its arguments,
  \<open>Wrapf f xs e\<close> one whose format ends in the verb for a wrapped error, and \<open>Join\<close> is
  \<open>errors.Join\<close>.  \<open>ErrDB\<close> is a failure reported by the database driver, \<open>ErrHelper\<close> one
  reported by the privileged helper (or by the connection to it), \<open>ErrSys\<close> one of a
  system call (an \<open>os.PathError\<close> without its path), and \<open>ErrCanceled\<close> is
  \<open>context.Canceled\<close>.
\<close>

datatype errno =
    ENOENT | EEXIST | ENOTDIR | EISDIR | ENOTEMPTY | EINVAL | ELOOP | EACCES | EIO | ENOSPC | EDQUOT
  | ENOSYS

fun errno_text :: "errno \<Rightarrow> string" where
  "errno_text ENOENT = ''no such file or directory''"
| "errno_text EEXIST = ''file exists''"
| "errno_text ENOTDIR = ''not a directory''"
| "errno_text EISDIR = ''is a directory''"
| "errno_text ENOTEMPTY = ''directory not empty''"
| "errno_text EINVAL = ''invalid argument''"
| "errno_text ELOOP = ''too many levels of symbolic links''"
| "errno_text EACCES = ''permission denied''"
| "errno_text EIO = ''input/output error''"
| "errno_text ENOSPC = ''no space left on device''"
| "errno_text EDQUOT = ''disk quota exceeded''"
| "errno_text ENOSYS = ''function not implemented''"

datatype go_error =
    Errf string "string list"
  | ErrDB string
  | ErrSys errno
  | ErrHelper string
  | ErrCanceled
  | ErrNoRows
  | ErrJobNotFound
  | ErrJobTerminal
  | ErrModuleNotFound
  | ErrModuleBusy
  | ErrModuleAlreadyInstalled
  | ErrAlreadyInitialized
  | ErrUserExists
  | ErrUserCredentialChanged
  | ErrLastEnabledAdministrator
  | ErrInvalidCredentials
  | ErrUnauthorized
  | ErrLastAdministrator
  | ErrAdministratorRequired
  | ErrInvalidBootstrapToken
  | ErrCapacityLimit
  | ErrUploadNotFound
  | ErrUploadOffsetMismatch
  | ErrUploadChecksumMismatch
  | ErrUploadChunkTooLarge
  | ErrUploadTargetExists
  | ErrUploadAlreadyActive
  | ErrLogicalFolderNotEmpty
  | ErrNASPoolExists
  | ErrNASPoolNotFound
  | ErrNASFolderExists
  | ErrNASFolderNotFound
  | ErrNoUpdate
  | ErrNoRollback
  | ErrUpdateBusy
  | Wrapf string "string list" go_error
  | Join go_error go_error

type_synonym 'a res = "go_error + 'a"

abbreviation Err :: "string \<Rightarrow> go_error" where "Err s \<equiv> Errf s []"
abbreviation Wrap :: "string \<Rightarrow> go_error \<Rightarrow> go_error" where "Wrap s e \<equiv> Wrapf s [] e"

fun errors_is :: "go_error \<Rightarrow> go_error \<Rightarrow> bool" where
  "errors_is (Wrapf f xs e) t = (Wrapf f xs e = t \<or> errors_is e t)"
| "errors_is (Join a b) t = (Join a b = t \<or> errors_is a t \<or> errors_is b t)"
| "errors_is e t = (e = t)"

text \<open>
  The text of an error.  \<open>quote_char\<close> is the escaping of the verb \<open>q\<close> for the quotation
  mark and the backslash; other bytes are shown as they are.
\<close>

definition quote_char :: "char \<Rightarrow> string" where
  "quote_char c = (if c \<in> {CHR 0x22, CHR 0x5C} then [CHR 0x5C, c] else [c])"

fun format_text :: "string \<Rightarrow> string list \<Rightarrow> string" where
  "format_text [] xs = []"
| "format_text [c] xs = [c]"
| "format_text (c # v # f) xs =
     (if c = CHR ''%'' then
        (case xs of
           [] \<Rightarrow> format_text f []
         | x # xs' \<Rightarrow>
             (if v = CHR ''q'' then [CHR 0x22] @ concat (map quote_char x) @ [CHR 0x22] else x)
             @ format_text f xs')
      else c # format_text (v # f) xs)"

fun error_text :: "go_error \<Rightarrow> string" where
  "error_text (Errf f xs) = format_text f xs"
| "error_text (ErrDB s) = s"
| "error_text (ErrSys e) = errno_text e"
| "error_text (ErrHelper s) = s"
| "error_text ErrCanceled = ''context canceled''"
| "error_text ErrNoRows = ''sql: no rows in result set''"
| "error_text ErrJobNotFound = ''job not found''"
| "error_text ErrJobTerminal = ''job is already terminal''"
| "error_text ErrModuleNotFound = ''module not found''"
| "error_text ErrModuleBusy = ''a module lifecycle operation is in progress; retry later''"
| "error_text ErrModuleAlreadyInstalled =
     ''module already installed; automatic replacement is disabled until rollback-safe upgrades are implemented''"
| "error_text ErrAlreadyInitialized = ''security already initialized''"
| "error_text ErrUserExists = ''user already exists''"
| "error_text ErrUserCredentialChanged = ''user credentials changed; authenticate again''"
| "error_text ErrLastEnabledAdministrator = ''at least one enabled administrator must remain''"
| "error_text ErrInvalidCredentials = ''invalid credentials''"
| "error_text ErrUnauthorized = ''authentication required''"
| "error_text ErrLastAdministrator = ''at least one enabled administrator must remain''"
| "error_text ErrAdministratorRequired =
     ''administrator profile is required to manage user access''"
| "error_text ErrInvalidBootstrapToken =
     ''a valid one-time setup code from the server console is required''"
| "error_text ErrCapacityLimit = ''write exceeds allowed storage capacity''"
| "error_text ErrUploadNotFound = ''upload session not found''"
| "error_text ErrUploadOffsetMismatch = ''upload offset does not match received bytes''"
| "error_text ErrUploadChecksumMismatch = ''upload checksum mismatch''"
| "error_text ErrUploadChunkTooLarge = ''upload chunk exceeds limit''"
| "error_text ErrUploadTargetExists = ''upload target already exists''"
| "error_text ErrUploadAlreadyActive = ''upload already active for target path''"
| "error_text ErrLogicalFolderNotEmpty =
     ''logical folder contains files, directories, uploads or trashed items''"
| "error_text ErrNASPoolExists = ''NAS pool already exists''"
| "error_text ErrNASPoolNotFound = ''NAS pool not found''"
| "error_text ErrNASFolderExists = ''NAS folder already exists''"
| "error_text ErrNASFolderNotFound = ''NAS folder not found''"
| "error_text ErrNoUpdate = ''no update available''"
| "error_text ErrNoRollback = ''no rollback backup available''"
| "error_text ErrUpdateBusy = ''update operation already in progress''"
| "error_text (Wrapf f xs e) = format_text f xs @ error_text e"
| "error_text (Join a b) = error_text a @ [CHR 0x0A] @ error_text b"

definition is_ok :: "'a res \<Rightarrow> bool" where
  "is_ok r = (case r of Inl _ \<Rightarrow> False | Inr _ \<Rightarrow> True)"

lemma is_ok_simps [simp]: "is_ok (Inr x)" "\<not> is_ok (Inl e)"
  by (simp_all add: is_ok_def)

lemma is_ok_iff: "is_ok r \<longleftrightarrow> (\<exists>x. r = Inr x)"
  by (cases r) auto

text \<open>The rest of a function after a fallible call.\<close>

definition bind_res :: "'a res \<Rightarrow> ('a \<Rightarrow> 'b res) \<Rightarrow> 'b res" where
  "bind_res r f = (case r of Inl e \<Rightarrow> Inl e | Inr x \<Rightarrow> f x)"

lemma bind_res_Inr: "bind_res r f = Inr y \<longleftrightarrow> (\<exists>x. r = Inr x \<and> f x = Inr y)"
  by (cases r) (simp_all add: bind_res_def)

text \<open>Sequencing of fallible checks: the first error wins, as with early returns.\<close>

fun first_error :: "go_error option list \<Rightarrow> go_error option" where
  "first_error [] = None"
| "first_error (Some e # _) = Some e"
| "first_error (None # es) = first_error es"

lemma first_error_None_iff [err_simps]: "first_error es = None \<longleftrightarrow> (\<forall>e\<in>set es. e = None)"
  by (induction es rule: first_error.induct) auto

lemma first_error_Cons:
  "first_error (e # es) = (case e of None \<Rightarrow> first_error es | Some x \<Rightarrow> Some x)"
  by (cases e) auto

text \<open>\<open>fail_if b e\<close> is Go's \<open>if b { return e }\<close>.\<close>

definition fail_if :: "bool \<Rightarrow> go_error \<Rightarrow> go_error option" where
  "fail_if b e = (if b then Some e else None)"

lemma fail_if_None [simp, err_simps]: "fail_if b e = None \<longleftrightarrow> \<not> b"
  by (simp add: fail_if_def)

lemma fail_if_Some [simp, err_simps]: "fail_if b e = Some x \<longleftrightarrow> b \<and> x = e"
  by (auto simp: fail_if_def)

section \<open>Operations on a state\<close>

text \<open>
  A function of the source that works on some state: it returns an error or a result, and the state
  it leaves, whichever of the two it returned.
\<close>

type_synonym ('s, 'a) op = "'s \<Rightarrow> 'a res \<times> 's"

definition ret :: "'a \<Rightarrow> ('s, 'a) op" where
  "ret x = (\<lambda>d. (Inr x, d))"

definition throw :: "go_error \<Rightarrow> ('s, 'a) op" where
  "throw e = (\<lambda>d. (Inl e, d))"

definition bind_io :: "('s, 'a) op \<Rightarrow> ('a \<Rightarrow> ('s, 'b) op) \<Rightarrow> ('s, 'b) op" where
  "bind_io m k = (\<lambda>d. case m d of (Inl e, d') \<Rightarrow> (Inl e, d') | (Inr x, d') \<Rightarrow> k x d')"

text \<open>\<open>attempt m k\<close>: \<open>k\<close> looks at the error itself, as \<open>if err := m(); err != nil\<close> does.\<close>

definition attempt :: "('s, 'a) op \<Rightarrow> ('a res \<Rightarrow> ('s, 'b) op) \<Rightarrow> ('s, 'b) op" where
  "attempt m k = (\<lambda>d. case m d of (r, d') \<Rightarrow> k r d')"

definition ignore :: "('s, 'a) op \<Rightarrow> ('s, unit) op" where
  "ignore m = attempt m (\<lambda>_. ret ())"

definition guard_io :: "bool \<Rightarrow> go_error \<Rightarrow> ('s, unit) op" where
  "guard_io b e = (if b then ret () else throw e)"

definition lift_res :: "'a res \<Rightarrow> ('s, 'a) op" where
  "lift_res r = (\<lambda>d. (r, d))"

text \<open>\<open>or_else m c f\<close>: when \<open>m\<close> fails with \<open>e\<close>, clean up with \<open>c\<close> and return \<open>f e\<close>.\<close>

definition or_else :: "('s, 'a) op \<Rightarrow> ('s, 'b) op \<Rightarrow> (go_error \<Rightarrow> go_error) \<Rightarrow> ('s, 'a) op" where
  "or_else m c f = attempt m (\<lambda>r. case r of
     Inr x \<Rightarrow> ret x
   | Inl e \<Rightarrow> bind_io (ignore c) (\<lambda>_. throw (f e)))"

abbreviation wrapping :: "('s, 'a) op \<Rightarrow> string \<Rightarrow> ('s, 'a) op" where
  "wrapping m s \<equiv> or_else m (ret ()) (Wrap s)"

text \<open>\<open>m\<close>, then the deferred call \<open>c\<close> whose error is dropped, on every path.\<close>

definition deferring :: "('s, 'a) op \<Rightarrow> ('s, 'b) op \<Rightarrow> ('s, 'a) op" where
  "deferring m c = attempt m (\<lambda>r. bind_io (ignore c) (\<lambda>_. lift_res r))"

section \<open>Tables\<close>

text \<open>
  A table is the list of its rows in insertion (rowid) order; \<open>key\<close> reads the primary
  key.  \<open>update_where\<close> is SQL \<open>UPDATE \<dots> SET \<dots> WHERE \<dots>\<close>: every right-hand side
  reads the old row, and the number of matching rows is \<open>RowsAffected\<close>.
\<close>

definition select_key :: "('r \<Rightarrow> 'k) \<Rightarrow> 'k \<Rightarrow> 'r list \<Rightarrow> 'r option" where
  "select_key key k t = List.find (\<lambda>r. key r = k) t"

definition update_where :: "('r \<Rightarrow> bool) \<Rightarrow> ('r \<Rightarrow> 'r) \<Rightarrow> 'r list \<Rightarrow> 'r list" where
  "update_where c f t = map (\<lambda>r. if c r then f r else r) t"

definition rows_matching :: "('r \<Rightarrow> bool) \<Rightarrow> 'r list \<Rightarrow> nat" where
  "rows_matching c t = length (filter c t)"

definition delete_where :: "('r \<Rightarrow> bool) \<Rightarrow> 'r list \<Rightarrow> 'r list" where
  "delete_where c t = filter (\<lambda>r. \<not> c r) t"

definition unique_key :: "('r \<Rightarrow> 'k) \<Rightarrow> 'r list \<Rightarrow> bool" where
  "unique_key key t = distinct (map key t)"

lemma select_key_Nil [simp]: "select_key key k [] = None"
  by (simp add: select_key_def)

lemma select_key_Cons:
  "select_key key k (r # t) = (if key r = k then Some r else select_key key k t)"
  by (simp add: select_key_def)

lemma select_key_Some:
  "select_key key k t = Some r \<Longrightarrow> r \<in> set t \<and> key r = k"
  by (auto simp: select_key_def find_Some_iff)

lemma select_key_None_iff:
  "select_key key k t = None \<longleftrightarrow> k \<notin> key ` set t"
  by (auto simp: select_key_def find_None_iff)

lemma select_key_append:
  "select_key key k (t @ u) =
     (case select_key key k t of None \<Rightarrow> select_key key k u | Some r \<Rightarrow> Some r)"
  by (induction t) (auto simp: select_key_Cons)

lemma select_key_unique:
  "unique_key key t \<Longrightarrow> r \<in> set t \<Longrightarrow> select_key key (key r) t = Some r"
  by (induction t) (auto simp: select_key_Cons unique_key_def)

lemma select_key_unique_iff:
  "unique_key key t \<Longrightarrow> select_key key k t = Some r \<longleftrightarrow> r \<in> set t \<and> key r = k"
  using select_key_unique select_key_Some by metis

lemma set_update_where: "set (update_where c f t) = (\<lambda>r. if c r then f r else r) ` set t"
  by (simp add: update_where_def)

lemma map_update_where [table_simps]:
  "(\<And>r. key (f r) = key r) \<Longrightarrow> map key (update_where c f t) = map key t"
  by (induction t) (auto simp: update_where_def)

lemma unique_update_where [table_simps]:
  "(\<And>r. key (f r) = key r) \<Longrightarrow> unique_key key (update_where c f t) = unique_key key t"
  by (simp add: unique_key_def map_update_where)

lemma select_update_where [table_simps]:
  "(\<And>r. key (f r) = key r) \<Longrightarrow>
   select_key key k (update_where c f t) =
     map_option (\<lambda>r. if c r then f r else r) (select_key key k t)"
  by (induction t) (auto simp: update_where_def select_key_Cons)

lemma unique_delete_where: "unique_key key t \<Longrightarrow> unique_key key (delete_where c t)"
  by (simp add: unique_key_def delete_where_def distinct_map_filter)

lemma unique_snoc [table_simps]:
  "unique_key key (t @ [r]) \<longleftrightarrow> unique_key key t \<and> select_key key (key r) t = None"
  by (auto simp: unique_key_def select_key_None_iff)

lemma select_delete_key [table_simps]:
  "select_key key k (delete_where (\<lambda>r. key r = k') t) =
     (if k = k' then None else select_key key k t)"
  by (induction t) (auto simp: delete_where_def select_key_Cons)

lemma rows_matching_key:
  "unique_key key t \<Longrightarrow>
   rows_matching (\<lambda>r. key r = k \<and> c r) t =
     (case select_key key k t of None \<Rightarrow> 0 | Some r \<Rightarrow> if c r then 1 else 0)"
proof (induction t)
  case (Cons r t)
  have none: "key r = k \<Longrightarrow> rows_matching (\<lambda>r. key r = k \<and> c r) t = 0"
    using Cons.prems unfolding rows_matching_def unique_key_def
    by (auto simp: filter_empty_conv intro: rev_image_eqI)
  show ?case
  proof (cases "key r = k")
    case True
    with none show ?thesis by (simp add: rows_matching_def select_key_Cons)
  next
    case False
    with Cons show ?thesis by (simp add: rows_matching_def select_key_Cons unique_key_def)
  qed
qed (simp add: rows_matching_def)

lemma rows_matching_0_iff: "rows_matching c t = 0 \<longleftrightarrow> (\<forall>r\<in>set t. \<not> c r)"
  by (auto simp: rows_matching_def filter_empty_conv)

lemma update_where_none: "(\<forall>r\<in>set t. \<not> c r) \<Longrightarrow> update_where c f t = t"
  by (induction t) (auto simp: update_where_def)

lemma update_where_id: "(\<And>r. r \<in> set t \<Longrightarrow> c r \<Longrightarrow> f r = r) \<Longrightarrow> update_where c f t = t"
  by (induction t) (auto simp: update_where_def)

lemma length_update_where [simp]: "length (update_where c f t) = length t"
  by (simp add: update_where_def)

section \<open>Finite sets kept as lists\<close>

text \<open>A Go \<open>map[string]struct{}\<close> is the duplicate-free list of its keys.\<close>

definition set_add :: "'a \<Rightarrow> 'a list \<Rightarrow> 'a list" where
  "set_add x xs = (if x \<in> set xs then xs else xs @ [x])"

lemma set_set_add [simp]: "set (set_add x xs) = insert x (set xs)"
  by (auto simp: set_add_def)

lemma distinct_set_add [simp]: "distinct (set_add x xs) = distinct xs"
  by (auto simp: set_add_def)

definition set_add_all :: "'a list \<Rightarrow> 'a list \<Rightarrow> 'a list" where
  "set_add_all ys xs = fold set_add ys xs"

lemma set_set_add_all [simp]: "set (set_add_all ys xs) = set ys \<union> set xs"
  unfolding set_add_all_def by (induction ys arbitrary: xs) auto

lemma distinct_set_add_all [simp]: "distinct (set_add_all ys xs) = distinct xs"
  unfolding set_add_all_def by (induction ys arbitrary: xs) auto

text \<open>The first repeated element, as the \<open>seen\<close> maps of the source find it.\<close>

fun first_dup :: "'a list \<Rightarrow> 'a list \<Rightarrow> 'a option" where
  "first_dup seen [] = None"
| "first_dup seen (x # xs) = (if x \<in> set seen then Some x else first_dup (x # seen) xs)"

lemma first_dup_None: "first_dup seen xs = None \<longleftrightarrow> distinct xs \<and> set xs \<inter> set seen = {}"
  by (induction xs arbitrary: seen) auto

end
