(* ===== verification/GoText.thy ===== *)
theory GoText
  imports Prelude
begin

text \<open>
  Go strings are byte sequences; \<open>string\<close> is a list of 8-bit characters, so it is used for
  them as it is.  This theory models the functions of the packages strings, strconv and
  unicode/utf8 that the modelled code calls.
\<close>

section \<open>Bytes\<close>

definition byte :: "char \<Rightarrow> nat" where
  "byte c = of_char c"

lemma byte_inject [simp]: "byte c = byte d \<longleftrightarrow> c = d"
  by (simp add: byte_def)

lemma byte_less_256 [simp]: "byte c < 256"
  by (simp add: byte_def)

definition byte_in :: "nat \<Rightarrow> nat \<Rightarrow> char \<Rightarrow> bool" where
  "byte_in lo hi c = (lo \<le> byte c \<and> byte c \<le> hi)"

definition is_digit :: "char \<Rightarrow> bool" where
  "is_digit c = byte_in 48 57 c"

definition ascii :: "string \<Rightarrow> bool" where
  "ascii s = list_all (\<lambda>c. byte c < 128) s"

lemma ascii_simps [simp]:
  "ascii []" "ascii (c # s) \<longleftrightarrow> byte c < 128 \<and> ascii s" "ascii (s @ t) \<longleftrightarrow> ascii s \<and> ascii t"
  by (simp_all add: ascii_def)

lemma is_digit_less_128: "is_digit c \<Longrightarrow> byte c < 128"
  by (simp add: is_digit_def byte_in_def)

section \<open>Prefixes, suffixes, splitting\<close>

definition has_prefix :: "string \<Rightarrow> string \<Rightarrow> bool" where
  "has_prefix s p = (take (length p) s = p)"

definition has_suffix :: "string \<Rightarrow> string \<Rightarrow> bool" where
  "has_suffix s p = has_prefix (rev s) (rev p)"

definition trim_prefix :: "string \<Rightarrow> string \<Rightarrow> string" where
  "trim_prefix s p = (if has_prefix s p then drop (length p) s else s)"

definition trim_suffix :: "string \<Rightarrow> string \<Rightarrow> string" where
  "trim_suffix s p = (if has_suffix s p then take (length s - length p) s else s)"

definition contains_any :: "string \<Rightarrow> string \<Rightarrow> bool" where
  "contains_any s chars = list_ex (\<lambda>c. c \<in> set chars) s"

lemma has_prefix_iff: "has_prefix s p \<longleftrightarrow> (\<exists>t. s = p @ t)"
  unfolding has_prefix_def by (metis append_eq_conv_conj append_take_drop_id)

lemma has_suffix_iff: "has_suffix s p \<longleftrightarrow> (\<exists>t. s = t @ p)"
  unfolding has_suffix_def has_prefix_iff
  by (metis rev_append rev_rev_ident)

lemma has_prefix_append [simp]: "has_prefix (p @ s) p"
  by (auto simp: has_prefix_iff)

lemma has_suffix_append [simp]: "has_suffix (s @ p) p"
  by (auto simp: has_suffix_iff)

lemma trim_prefix_append [simp]: "trim_prefix (p @ s) p = s"
  by (simp add: trim_prefix_def)

lemma trim_suffix_append [simp]: "trim_suffix (s @ p) p = s"
  by (simp add: trim_suffix_def)

text \<open>\<open>strings.Split(s, sep)\<close> for a separator of one byte: never the empty list.\<close>

fun split_on :: "char \<Rightarrow> string \<Rightarrow> string list" where
  "split_on c [] = [[]]"
| "split_on c (x # xs) =
     (if x = c then [] # split_on c xs
      else (case split_on c xs of [] \<Rightarrow> [[x]] | p # ps \<Rightarrow> (x # p) # ps))"

fun join_on :: "char \<Rightarrow> string list \<Rightarrow> string" where
  "join_on c [] = []"
| "join_on c [p] = p"
| "join_on c (p # ps) = p @ c # join_on c ps"

lemma split_on_not_Nil [simp]: "split_on c s \<noteq> []"
  by (induction s) (auto split: list.splits)

lemma join_split [simp]: "join_on c (split_on c s) = s"
proof (induction s)
  case (Cons x xs)
  obtain p ps where "split_on c xs = p # ps"
    by (cases "split_on c xs") auto
  with Cons show ?case by (cases ps) auto
qed simp

lemma split_on_no_sep: "c \<notin> set s \<Longrightarrow> split_on c s = [s]"
  by (induction s) auto

lemma split_on_append: "c \<notin> set p \<Longrightarrow> split_on c (p @ c # s) = p # split_on c s"
  by (induction p) auto

lemma split_join:
  "ps \<noteq> [] \<Longrightarrow> (\<forall>p\<in>set ps. c \<notin> set p) \<Longrightarrow> split_on c (join_on c ps) = ps"
  by (induction c ps rule: join_on.induct) (auto simp: split_on_no_sep split_on_append)

lemma split_on_parts: "p \<in> set (split_on c s) \<Longrightarrow> c \<notin> set p"
proof (induction s arbitrary: p)
  case (Cons x xs)
  obtain q qs where "split_on c xs = q # qs"
    by (cases "split_on c xs") auto
  with Cons show ?case by (auto split: if_splits)
qed simp

text \<open>\<open>strings.Cut(s, sep)\<close> for a separator of one byte: before, after, found.\<close>

fun cut_on :: "char \<Rightarrow> string \<Rightarrow> string \<times> string \<times> bool" where
  "cut_on c [] = ([], [], False)"
| "cut_on c (x # xs) =
     (if x = c then ([], xs, True)
      else (case cut_on c xs of (a, b, f) \<Rightarrow> (x # a, b, f)))"

text \<open>\<open>s[:idx]\<close> for the first index of one of the bytes, the whole string without one.\<close>

definition before_any :: "string \<Rightarrow> string \<Rightarrow> string" where
  "before_any s chars = takeWhile (\<lambda>c. c \<notin> set chars) s"

section \<open>UTF-8\<close>

text \<open>
  \<open>utf8.DecodeRuneInString\<close>: the code point and its width; an invalid byte is
  U+FFFD of width 1.  The table is the one of unicode/utf8: the size of a sequence and the
  bounds of its second byte by the first byte.
\<close>

definition utf8_first :: "nat \<Rightarrow> nat \<times> nat \<times> nat" where
  "utf8_first b =
     (if 0xC2 \<le> b \<and> b \<le> 0xDF then (2, 0x80, 0xBF)
      else if b = 0xE0 then (3, 0xA0, 0xBF)
      else if b = 0xED then (3, 0x80, 0x9F)
      else if 0xE1 \<le> b \<and> b \<le> 0xEF then (3, 0x80, 0xBF)
      else if b = 0xF0 then (4, 0x90, 0xBF)
      else if 0xF1 \<le> b \<and> b \<le> 0xF3 then (4, 0x80, 0xBF)
      else if b = 0xF4 then (4, 0x80, 0x8F)
      else (0, 0, 0))"

definition rune_error :: nat where "rune_error = 0xFFFD"

fun decode_rune :: "string \<Rightarrow> nat \<times> nat" where
  "decode_rune [] = (rune_error, 0)"
| "decode_rune (c0 # cs) =
     (let b0 = byte c0; (size, lo, hi) = utf8_first b0 in
      if b0 < 0x80 then (b0, 1)
      else if size = 0 \<or> length cs + 1 < size then (rune_error, 1)
      else if \<not> byte_in lo hi (cs ! 0) then (rune_error, 1)
      else if size = 2 then ((b0 - 0xC0) * 64 + (byte (cs ! 0) - 0x80), 2)
      else if \<not> byte_in 0x80 0xBF (cs ! 1) then (rune_error, 1)
      else if size = 3 then
        ((b0 - 0xE0) * 4096 + (byte (cs ! 0) - 0x80) * 64 + (byte (cs ! 1) - 0x80), 3)
      else if \<not> byte_in 0x80 0xBF (cs ! 2) then (rune_error, 1)
      else ((b0 - 0xF0) * 262144 + (byte (cs ! 0) - 0x80) * 4096
            + (byte (cs ! 1) - 0x80) * 64 + (byte (cs ! 2) - 0x80), 4))"

text \<open>A string cut into its runes, each with the bytes it is written with.\<close>

function runes :: "string \<Rightarrow> (nat \<times> string) list" where
  "runes [] = []"
| "runes (c # cs) =
     (case decode_rune (c # cs) of
        (r, w) \<Rightarrow> (r, c # take (w - 1) cs) # runes (drop (w - 1) cs))"
  by pat_completeness auto
termination by (relation "measure length") auto

definition rune_count :: "string \<Rightarrow> nat" where
  "rune_count s = length (runes s)"

lemma runes_concat: "concat (map snd (runes s)) = s"
  by (induction s rule: runes.induct) (auto split: prod.splits)

lemma runes_ascii: "ascii s \<Longrightarrow> runes s = map (\<lambda>c. (byte c, [c])) s"
  by (induction s) (auto simp: Let_def split: prod.splits)

lemma rune_count_ascii: "ascii s \<Longrightarrow> rune_count s = length s"
  by (simp add: rune_count_def runes_ascii)

lemma rune_count_le: "rune_count s \<le> length s"
proof (induction s rule: runes.induct)
  case (2 c cs)
  obtain r w where d: "decode_rune (c # cs) = (r, w)" by fastforce
  have "rune_count (drop (w - 1) cs) \<le> length (drop (w - 1) cs)"
    using 2 d by metis
  with d show ?case by (simp add: rune_count_def)
qed (simp add: rune_count_def)

text \<open>\<open>unicode.IsSpace\<close>.\<close>

definition is_space :: "nat \<Rightarrow> bool" where
  "is_space r = (r \<in> {0x09, 0x0A, 0x0B, 0x0C, 0x0D, 0x20, 0x85, 0xA0, 0x1680,
                       0x2028, 0x2029, 0x202F, 0x205F, 0x3000} \<or> (0x2000 \<le> r \<and> r \<le> 0x200A))"

definition runes_text :: "(nat \<times> string) list \<Rightarrow> string" where
  "runes_text rs = concat (map snd rs)"

definition trim_space :: "string \<Rightarrow> string" where
  "trim_space s =
     runes_text (rev (dropWhile (is_space \<circ> fst) (rev (dropWhile (is_space \<circ> fst) (runes s)))))"

definition ascii_space :: "char \<Rightarrow> bool" where
  "ascii_space c = is_space (byte c)"

lemma dropWhile_rune_map:
  "dropWhile (is_space \<circ> fst) (map (\<lambda>c. (byte c, [c])) s) =
     map (\<lambda>c. (byte c, [c])) (dropWhile ascii_space s)"
  by (simp add: dropWhile_map comp_def ascii_space_def [abs_def])

lemma runes_text_map [simp]: "runes_text (map (\<lambda>c. (f c, [c])) s) = s"
  by (induction s) (auto simp: runes_text_def)

lemma trim_space_ascii:
  "ascii s \<Longrightarrow> trim_space s = rev (dropWhile ascii_space (rev (dropWhile ascii_space s)))"
  by (simp add: trim_space_def runes_ascii dropWhile_rune_map rev_map)

lemma trim_space_id:
  assumes "ascii s" and "\<forall>c\<in>set s. \<not> ascii_space c"
  shows "trim_space s = s"
proof -
  have "dropWhile ascii_space s = s" and "dropWhile ascii_space (rev s) = rev s"
    using assms(2) by (auto simp: dropWhile_eq_self_iff hd_rev)
  with assms(1) show ?thesis by (simp add: trim_space_ascii)
qed

lemma trim_space_Nil [simp]: "trim_space [] = []"
  by (simp add: trim_space_def runes_text_def)

text \<open>\<open>strings.Fields\<close>: the maximal runs of runes that are not spaces.\<close>

fun fields_from :: "string \<Rightarrow> (nat \<times> string) list \<Rightarrow> string list" where
  "fields_from acc [] = (if acc = [] then [] else [acc])"
| "fields_from acc ((r, bs) # rs) =
     (if is_space r then (if acc = [] then fields_from [] rs else acc # fields_from [] rs)
      else fields_from (acc @ bs) rs)"

definition text_fields :: "string \<Rightarrow> string list" where
  "text_fields s = fields_from [] (runes s)"

section \<open>Decimal numbers\<close>

definition digit_value :: "char \<Rightarrow> nat" where
  "digit_value c = byte c - 48"

definition digits_value :: "string \<Rightarrow> nat" where
  "digits_value s = foldl (\<lambda>n c. 10 * n + digit_value c) 0 s"

definition max_int64 :: int where "max_int64 = 9223372036854775807"
definition min_int64 :: int where "min_int64 = - 9223372036854775808"

text \<open>\<open>strconv.Atoi\<close> on a 64-bit platform: an optional sign, digits, the range of int.\<close>

definition atoi :: "string \<Rightarrow> int option" where
  "atoi s =
     (let neg = has_prefix s ''-'';
          body = (if neg \<or> has_prefix s ''+'' then tl s else s);
          v = (if neg then - int (digits_value body) else int (digits_value body))
      in if body \<noteq> [] \<and> list_all is_digit body \<and> min_int64 \<le> v \<and> v \<le> max_int64
         then Some v else None)"

definition digit_char :: "nat \<Rightarrow> char" where
  "digit_char n = char_of (48 + n)"

fun itoa :: "nat \<Rightarrow> string" where
  "itoa n = (if n < 10 then [digit_char n] else itoa (n div 10) @ [digit_char (n mod 10)])"

declare itoa.simps [simp del]

definition int_text :: "int \<Rightarrow> string" where
  "int_text i = (if i < 0 then ''-'' @ itoa (nat (- i)) else itoa (nat i))"

lemma byte_digit_char [simp]: "n < 10 \<Longrightarrow> byte (digit_char n) = 48 + n"
  by (simp add: byte_def digit_char_def)

lemma is_digit_digit_char [simp]: "n < 10 \<Longrightarrow> is_digit (digit_char n)"
  by (simp add: is_digit_def byte_in_def)

lemma digit_value_digit_char [simp]: "n < 10 \<Longrightarrow> digit_value (digit_char n) = n"
  by (simp add: digit_value_def)

lemma digit_char_value: "is_digit c \<Longrightarrow> digit_char (digit_value c) = c"
  by (auto simp: digit_char_def digit_value_def is_digit_def byte_in_def byte_def)

lemma digit_value_less: "is_digit c \<Longrightarrow> digit_value c < 10"
  by (auto simp: digit_value_def is_digit_def byte_in_def)

lemma digits_value_snoc [simp]: "digits_value (s @ [c]) = 10 * digits_value s + digit_value c"
  by (simp add: digits_value_def)

lemma digits_value_single [simp]: "digits_value [c] = digit_value c"
  by (simp add: digits_value_def)

lemma itoa_digits: "list_all is_digit (itoa n)"
  by (induction n rule: itoa.induct) (subst itoa.simps, auto)

lemma itoa_not_Nil [simp]: "itoa n \<noteq> []"
  by (subst itoa.simps) simp

lemma digits_value_itoa [simp]: "digits_value (itoa n) = n"
  by (induction n rule: itoa.induct) (subst itoa.simps, auto)

text \<open>A digit string without a superfluous zero in front is the numeral of its value.\<close>

definition canonical_digits :: "string \<Rightarrow> bool" where
  "canonical_digits s = (s \<noteq> [] \<and> list_all is_digit s \<and> (length s > 1 \<longrightarrow> hd s \<noteq> CHR ''0''))"

lemma digits_value_pos:
  "list_all is_digit s \<Longrightarrow> s \<noteq> [] \<Longrightarrow> hd s \<noteq> CHR ''0'' \<Longrightarrow> digits_value s > 0"
proof (induction s rule: rev_induct)
  case (snoc c s)
  show ?case
  proof (cases "s = []")
    case True
    have "digit_value c \<noteq> 0"
    proof
      assume "digit_value c = 0"
      with snoc.prems True have "byte c = byte CHR ''0''"
        by (auto simp: digit_value_def is_digit_def byte_in_def byte_def)
      with snoc.prems True show False by (simp del: of_char_eq_iff)
    qed
    with True show ?thesis by simp
  next
    case False
    with snoc show ?thesis by simp
  qed
qed simp

lemma itoa_digits_value:
  "canonical_digits s \<Longrightarrow> itoa (digits_value s) = s"
proof (induction s rule: rev_induct)
  case (snoc c s)
  have c: "is_digit c" using snoc.prems by (simp add: canonical_digits_def)
  show ?case
  proof (cases "s = []")
    case True
    with c show ?thesis by (simp add: itoa.simps digit_value_less digit_char_value)
  next
    case False
    with snoc.prems have s: "canonical_digits s" and pos: "digits_value s > 0"
      by (auto simp: canonical_digits_def hd_append intro: digits_value_pos)
    have "itoa (digits_value (s @ [c])) =
        itoa (digits_value s) @ [digit_char (digit_value c)]"
      using pos digit_value_less [OF c] by (subst itoa.simps) simp
    with snoc.IH [OF s] c show ?thesis by (simp add: digit_char_value)
  qed
qed (simp add: canonical_digits_def)

lemma hd_itoa_zero: "hd (itoa n) = CHR ''0'' \<Longrightarrow> n = 0"
proof (induction n rule: itoa.induct)
  case (1 n)
  show ?case
  proof (cases "n < 10")
    case True
    have "byte (hd (itoa n)) = byte CHR ''0''" using "1.prems" by simp
    with True have "48 + n = byte CHR ''0''" by (subst (asm) itoa.simps) simp
    then show ?thesis by (simp add: byte_def)
  next
    case False
    with "1.prems" have "hd (itoa (n div 10)) = CHR ''0''"
      by (subst (asm) itoa.simps) (simp add: hd_append)
    with "1.IH" False show ?thesis by simp
  qed
qed

lemma length_itoa: "length (itoa n) > 1 \<Longrightarrow> n \<ge> 10"
  by (subst (asm) itoa.simps) (auto split: if_splits)

lemma canonical_itoa [simp]: "canonical_digits (itoa n)"
  using itoa_digits [of n] hd_itoa_zero [of n] length_itoa [of n]
  by (auto simp: canonical_digits_def)

end
