(* ===== verification/Access.thy ===== *)
theory Access
  imports GoText "HOL-Library.AList" "HOL-Library.Product_Lexorder"
begin

text \<open>
  Who may do what: the parts of internal/security that are functions of their arguments, the names
  of users (identity.go), the actor of a request and its permissions (service.go), and the profiles
  and the normalisation of the access an administrator assigns (profiles.go).
\<close>

section \<open>Lower case\<close>

text \<open>
  \<open>strings.ToLower\<close>.  The Unicode table of the standard library above the ASCII range is the
  function \<open>tbl\<close> on code points; an invalid byte becomes the replacement rune when the text is not
  ASCII.
\<close>

definition lower_char :: "char \<Rightarrow> char" where
  "lower_char c = (if byte_in 65 90 c then char_of (byte c + 32) else c)"

definition encode_rune :: "nat \<Rightarrow> string" where
  "encode_rune r =
     (let r = (if r > 0x10FFFF \<or> (0xD800 \<le> r \<and> r \<le> 0xDFFF) then rune_error else r)
      in map char_of
        (if r < 0x80 then [r]
         else if r < 0x800 then [0xC0 + r div 64, 0x80 + r mod 64]
         else if r < 0x10000 then [0xE0 + r div 4096, 0x80 + r div 64 mod 64, 0x80 + r mod 64]
         else [0xF0 + r div 262144, 0x80 + r div 4096 mod 64, 0x80 + r div 64 mod 64, 0x80 + r mod 64]))"

definition lower_rune :: "(nat \<Rightarrow> nat) \<Rightarrow> nat \<Rightarrow> nat" where
  "lower_rune tbl r = (if r < 128 then (if 65 \<le> r \<and> r \<le> 90 then r + 32 else r) else tbl r)"

definition to_lower :: "(nat \<Rightarrow> nat) \<Rightarrow> string \<Rightarrow> string" where
  "to_lower tbl s =
     (if ascii s then map lower_char s
      else concat (map (\<lambda>(r, _). encode_rune (lower_rune tbl r)) (runes s)))"

section \<open>Names of users (identity.go)\<close>

definition username_rune :: "nat \<Rightarrow> bool" where
  "username_rune r = ((97 \<le> r \<and> r \<le> 122) \<or> (48 \<le> r \<and> r \<le> 57))"

definition username_mark :: "nat \<Rightarrow> bool" where
  "username_mark r = (r = 46 \<or> r = 95 \<or> r = 45)"

fun username_runes_ok :: "nat \<Rightarrow> (nat \<times> string) list \<Rightarrow> bool" where
  "username_runes_ok i [] = True"
| "username_runes_ok i ((r, w) # rs) =
     ((username_rune r \<or> username_mark r \<and> i > 0) \<and> username_runes_ok (i + length w) rs)"

definition normalize_username :: "(nat \<Rightarrow> nat) \<Rightarrow> string \<Rightarrow> string res" where
  "normalize_username tbl value =
     (let v = to_lower tbl (trim_space value)
      in if length v < 3 \<or> length v > 64
         then Inl (Err ''username must contain 3 to 64 characters'')
         else if \<not> username_runes_ok 0 (runes v)
         then Inl (Err ''username contains unsupported characters'')
         else Inr v)"

definition normalize_display_name :: "string \<Rightarrow> string \<Rightarrow> string res" where
  "normalize_display_name value fallback =
     (let t = trim_space value; v = (if t = [] then fallback else t)
      in if rune_count v > 128 then Inl (Err ''display name is too long'') else Inr v)"

definition username_char :: "char \<Rightarrow> bool" where
  "username_char c = (username_rune (byte c) \<or> username_mark (byte c))"

definition valid_username :: "string \<Rightarrow> bool" where
  "valid_username u =
     (3 \<le> length u \<and> length u \<le> 64 \<and> list_all username_char u \<and> username_rune (byte (hd u)))"

section \<open>Actors (service.go)\<close>

record permission_scope =
  scope_permission :: string
  scope_type :: string
  scope_id :: string

record actor =
  act_type :: string
  act_id :: string
  act_username :: string
  act_display_name :: string
  act_session_id :: string
  act_roles :: "string list"
  act_permissions :: "string list"
  act_scopes :: "permission_scope list"
  act_csrf_hash :: string

definition actor_has :: "actor \<Rightarrow> string \<Rightarrow> bool" where
  "actor_has a p = (p \<in> set (act_permissions a))"

definition actor_allows :: "actor \<Rightarrow> string \<Rightarrow> string \<Rightarrow> string \<Rightarrow> bool" where
  "actor_allows a p t i =
     (if actor_has a p then True
      else if p = [] \<or> t = [] \<or> i = [] then False
      else list_ex (\<lambda>s. scope_permission s = p \<and> scope_type s = t \<and> scope_id s = i) (act_scopes a))"

text \<open>\<open>hash_secret\<close> is the digest of token.go.\<close>

definition valid_csrf :: "(string \<Rightarrow> string) \<Rightarrow> actor \<Rightarrow> string \<Rightarrow> bool" where
  "valid_csrf hash_secret a token =
     (if token = [] \<or> act_csrf_hash a = [] then False else hash_secret token = act_csrf_hash a)"

definition actor_is_administrator :: "actor \<Rightarrow> bool" where
  "actor_is_administrator a = list_ex (\<lambda>r. r = ''administrator'' \<or> r = ''owner'') (act_roles a)"

section \<open>Profiles (profiles.go)\<close>

definition profiles :: "string list" where
  "profiles = [''administrator'', ''parent'', ''child'', ''guest'', ''friend'']"

definition normalize_profile :: "(nat \<Rightarrow> nat) \<Rightarrow> string \<Rightarrow> string res" where
  "normalize_profile tbl value =
     (let v = to_lower tbl (trim_space value)
      in if v \<in> set profiles then Inr v
         else Inl (Err ''profile must be administrator, parent, child, guest or friend''))"

definition profile_role_id :: "string \<Rightarrow> string res" where
  "profile_role_id p =
     (if p = ''administrator'' then Inr ''role_owner''
      else if p = ''parent'' then Inr ''role_parent''
      else if p = ''child'' then Inr ''role_child''
      else if p = ''guest'' then Inr ''role_guest''
      else if p = ''friend'' then Inr ''role_member''
      else Inl (Errf ''unsupported user profile %q'' [p]))"

fun profile_from_roles :: "string list \<Rightarrow> string" where
  "profile_from_roles [] = ''friend''"
| "profile_from_roles (r # rs) =
     (if r = ''administrator'' \<or> r = ''owner'' then ''administrator''
      else if r = ''parent'' then ''parent''
      else if r = ''child'' then ''child''
      else if r = ''guest'' then ''guest''
      else if r = ''friend'' \<or> r = ''member'' then ''friend''
      else profile_from_roles rs)"

definition administrator_only_permission :: "string \<Rightarrow> bool" where
  "administrator_only_permission p =
     (p \<in> set [''security.users.manage'', ''security.roles.manage'', ''modules.manage'', ''system.console''])"

text \<open>
  The catalog: the permissions in the database (with their categories), the profile templates, and
  one resource per folder, given as (id, owner).
\<close>

record resource_definition =
  res_type :: string
  res_id :: string
  res_permissions :: "string list"
  res_owner :: string

record profile_template =
  tmpl_id :: string
  tmpl_full_access :: bool
  tmpl_permissions :: "string list"

record access_catalog =
  cat_profiles :: "profile_template list"
  cat_permissions :: "(string \<times> string) list"
  cat_resources :: "resource_definition list"

definition permission_category :: "string \<Rightarrow> string" where
  "permission_category name = (case cut_on CHR ''.'' name of (p, _, ok) \<Rightarrow> if ok then p else name)"

definition filter_permissions :: "string list \<Rightarrow> string list \<Rightarrow> string list" where
  "filter_permissions available requested = sort (filter (\<lambda>p. p \<in> set available) requested)"

definition make_catalog :: "string list \<Rightarrow> (string \<times> string) list \<Rightarrow> access_catalog" where
  "make_catalog names folders =
     \<lparr>cat_profiles =
        [\<lparr>tmpl_id = ''administrator'', tmpl_full_access = True, tmpl_permissions = sort names\<rparr>,
         \<lparr>tmpl_id = ''parent'', tmpl_full_access = False, tmpl_permissions = filter_permissions names
            [''system.read'', ''events.read'', ''jobs.read'', ''modules.read'', ''updates.read'',
             ''storage.read'', ''network.read'']\<rparr>,
         \<lparr>tmpl_id = ''child'', tmpl_full_access = False, tmpl_permissions = filter_permissions names
            [''system.read'', ''events.read'']\<rparr>,
         \<lparr>tmpl_id = ''friend'', tmpl_full_access = False, tmpl_permissions = []\<rparr>,
         \<lparr>tmpl_id = ''guest'', tmpl_full_access = False, tmpl_permissions = []\<rparr>],
      cat_permissions = map (\<lambda>n. (n, permission_category n)) names,
      cat_resources = map (\<lambda>(i, owner). \<lparr>res_type = ''file_folder'', res_id = i,
        res_permissions = [''files.read'', ''files.write''], res_owner = owner\<rparr>) folders\<rparr>"

record user_access_input =
  ua_profile :: string
  ua_permissions :: "string list"
  ua_scopes :: "permission_scope list"
  ua_disabled :: bool

text \<open>The loop over the requested permissions, collecting the set.\<close>

fun collect_permissions ::
  "string list \<Rightarrow> string \<Rightarrow> string list \<Rightarrow> string list \<Rightarrow> string list res" where
  "collect_permissions available profile [] acc = Inr acc"
| "collect_permissions available profile (p # ps) acc =
     (let q = trim_space p
      in if q = [] then collect_permissions available profile ps acc
         else if q \<notin> set available then Inl (Errf ''unknown permission %q'' [q])
         else if profile \<noteq> ''administrator'' \<and> administrator_only_permission q
         then Inl (Errf ''permission %q requires administrator profile'' [q])
         else collect_permissions available profile ps (set_add q acc))"

definition nul :: char where "nul = CHR 0x00"

definition resource_key :: "string \<Rightarrow> string \<Rightarrow> string" where
  "resource_key t i = t @ nul # i"

definition scope_key :: "permission_scope \<Rightarrow> string" where
  "scope_key s = scope_permission s @ nul # scope_type s @ nul # scope_id s"

definition trim_scope :: "permission_scope \<Rightarrow> permission_scope" where
  "trim_scope s = \<lparr>scope_permission = trim_space (scope_permission s),
                   scope_type = trim_space (scope_type s), scope_id = trim_space (scope_id s)\<rparr>"

text \<open>\<open>resourcePermissions[key]\<close>: the last resource with the key.\<close>

definition allowed_on :: "resource_definition list \<Rightarrow> string \<Rightarrow> string list option" where
  "allowed_on resources key =
     map_of (rev (map (\<lambda>r. (resource_key (res_type r) (res_id r), res_permissions r)) resources)) key"

definition check_scope :: "access_catalog \<Rightarrow> permission_scope \<Rightarrow> go_error option" where
  "check_scope cat s =
     (if scope_permission s = [] \<or> scope_type s = [] \<or> scope_id s = []
      then Some (Err ''resource permission requires permission, resource type and resource id'')
      else if scope_permission s \<notin> fst ` set (cat_permissions cat)
      then Some (Errf ''unknown permission %q'' [scope_permission s])
      else case allowed_on (cat_resources cat) (resource_key (scope_type s) (scope_id s)) of
          None \<Rightarrow> Some (Errf ''unknown access resource %s/%s'' [scope_type s, scope_id s])
        | Some allowed \<Rightarrow>
            fail_if (scope_permission s \<notin> set allowed)
              (Errf ''permission %q is not supported by resource %s/%s''
                [scope_permission s, scope_type s, scope_id s]))"

type_synonym scope_map = "(string \<times> permission_scope) list"

definition put_scope :: "permission_scope \<Rightarrow> scope_map \<Rightarrow> scope_map" where
  "put_scope s m = AList.update (scope_key s) s m"

fun collect_scopes :: "access_catalog \<Rightarrow> permission_scope list \<Rightarrow> scope_map \<Rightarrow> scope_map res" where
  "collect_scopes cat [] m = Inr m"
| "collect_scopes cat (s0 # ss) m =
     (let s = trim_scope s0
      in case check_scope cat s of
           Some e \<Rightarrow> Inl e
         | None \<Rightarrow>
             (let m' = put_scope s m;
                  m'' = (if scope_permission s = ''files.write''
                         then put_scope (s\<lparr>scope_permission := ''files.read''\<rparr>) m' else m')
              in collect_scopes cat ss m''))"

definition normalize_access ::
  "(nat \<Rightarrow> nat) \<Rightarrow> access_catalog \<Rightarrow> user_access_input \<Rightarrow> (string \<times> string list \<times> permission_scope list) res" where
  "normalize_access tbl cat access =
     (case normalize_profile tbl (ua_profile access) of
        Inl e \<Rightarrow> Inl e
      | Inr profile \<Rightarrow>
        (let available = map fst (cat_permissions cat)
         in case collect_permissions available profile (ua_permissions access) [] of
              Inl e \<Rightarrow> Inl e
            | Inr ps \<Rightarrow>
              (let ps' = (if ''files.write'' \<in> set ps then set_add ''files.read'' ps else ps)
               in case collect_scopes cat (ua_scopes access) [] of
                    Inl e \<Rightarrow> Inl e
                  | Inr m \<Rightarrow>
                      Inr (profile,
                           if profile = ''administrator'' then sort available else sort ps',
                           sort_key (\<lambda>s. (scope_type s, scope_id s, scope_permission s)) (map snd m)))))"

section \<open>Lemmas\<close>

lemma decode_rune_ascii:
  assumes "decode_rune (c # cs) = (r, w)" "r < 128"
  shows "byte c = r \<and> w = 1"
proof (cases "byte c < 128")
  case True
  then show ?thesis using assms(1) by (auto simp: Let_def split: prod.splits)
next
  case False
  obtain size lo hi where u: "utf8_first (byte c) = (size, lo, hi)" by (cases "utf8_first (byte c)")
  have "r \<ge> 128"
    using assms(1) False u
    by (auto simp: Let_def rune_error_def utf8_first_def byte_in_def split: if_splits)
  with assms(2) show ?thesis by simp
qed

lemma username_rune_less: "username_rune r \<Longrightarrow> r < 128" "username_mark r \<Longrightarrow> r < 128"
  by (auto simp: username_rune_def username_mark_def)

lemma runes_ok_chars: "username_runes_ok i (runes s) \<Longrightarrow> list_all username_char s"
proof (induction s arbitrary: i rule: runes.induct)
  case (2 c cs)
  obtain r w where d: "decode_rune (c # cs) = (r, w)" by fastforce
  then have ok: "username_rune r \<or> username_mark r"
    "username_runes_ok (i + length (c # take (w - 1) cs)) (runes (drop (w - 1) cs))"
    using 2(2) by auto
  have b: "byte c = r" "w = 1" using decode_rune_ascii [OF d] ok(1) username_rune_less by blast+
  have "list_all username_char (drop (w - 1) cs)" using 2(1) [OF d [symmetric]] ok(2) d by auto
  then show ?case using ok(1) b by (simp add: username_char_def [of c])
qed simp

lemma username_char_ascii: "list_all username_char s \<Longrightarrow> ascii s"
  unfolding ascii_def list_all_iff username_char_def using username_rune_less by blast

lemma runes_ok_ascii: "ascii s \<Longrightarrow> username_runes_ok i (runes s) \<longleftrightarrow>
   list_all username_char s \<and> (i = 0 \<longrightarrow> s = [] \<or> username_rune (byte (hd s)))"
proof -
  assume a: "ascii s"
  have "username_runes_ok i (map (\<lambda>c. (byte c, [c])) s) \<longleftrightarrow>
      list_all username_char s \<and> (i = 0 \<longrightarrow> s = [] \<or> username_rune (byte (hd s)))" for i
    by (induction s arbitrary: i)
      (auto simp: username_char_def username_rune_def username_mark_def)
  then show ?thesis by (simp add: runes_ascii [OF a])
qed

lemma valid_username_lower: "valid_username u \<Longrightarrow> to_lower tbl u = u"
proof -
  assume v: "valid_username u"
  then have chars: "list_all username_char u" by (simp add: valid_username_def)
  have "map lower_char u = u"
    using chars by (induction u)
      (auto simp: username_char_def username_rune_def username_mark_def lower_char_def byte_in_def)
  then show ?thesis using username_char_ascii [OF chars] by (simp add: to_lower_def)
qed

lemma valid_username_trim: "valid_username u \<Longrightarrow> trim_space u = u"
proof -
  assume v: "valid_username u"
  then have chars: "list_all username_char u" and a: "ascii u" and ne: "u \<noteq> []"
    using username_char_ascii by (auto simp: valid_username_def)
  have no: "\<not> ascii_space c" if "c \<in> set u" for c
    using chars that by (auto simp: list_all_iff username_char_def username_rune_def username_mark_def
        ascii_space_def is_space_def)
  show ?thesis using no ne a by (intro trim_space_id) auto
qed

lemma collect_permissions_sound:
  assumes "collect_permissions available profile ps acc = Inr out"
  shows "set out = set acc \<union> (trim_space ` set ps - {[]}) \<and> (distinct acc \<longrightarrow> distinct out) \<and>
    (\<forall>p\<in>trim_space ` set ps - {[]}. p \<in> set available \<and>
       (profile = ''administrator'' \<or> \<not> administrator_only_permission p))"
  using assms
proof (induction ps arbitrary: acc)
  case (Cons p ps)
  show ?case
  proof (cases "trim_space p = []")
    case True
    then show ?thesis using Cons by (simp add: Let_def)
  next
    case False
    with Cons.prems have *: "trim_space p \<in> set available"
      "profile = ''administrator'' \<or> \<not> administrator_only_permission (trim_space p)"
      "collect_permissions available profile ps (set_add (trim_space p) acc) = Inr out"
      by (auto simp: Let_def split: if_splits)
    show ?thesis using Cons.IH [OF *(3)] *(1,2) False by auto
  qed
qed simp

definition scope_granted :: "access_catalog \<Rightarrow> permission_scope \<Rightarrow> bool" where
  "scope_granted cat s = (check_scope cat s = None)"

lemma put_scope_set: "set (map snd (put_scope s m)) \<subseteq> insert s (set (map snd m))"
  unfolding put_scope_def by (induction m) auto

lemma put_scope_mem: "s \<in> set (map snd (put_scope s m))"
  unfolding put_scope_def by (induction m) auto

text \<open>The keys of the map are the keys of its scopes, and no key is there twice.\<close>

definition scope_map_ok :: "scope_map \<Rightarrow> bool" where
  "scope_map_ok m = (distinct (map fst m) \<and> (\<forall>(k, s)\<in>set m. k = scope_key s))"

lemma put_scope_ok: "scope_map_ok m \<Longrightarrow> scope_map_ok (put_scope s m)"
  unfolding scope_map_ok_def put_scope_def
  by (auto simp: distinct_update) (induction m, auto split: if_splits)

lemma put_scope_keys: "fst ` set (put_scope s m) = insert (scope_key s) (fst ` set m)"
  unfolding put_scope_def by (induction m) auto

text \<open>The scopes one requested scope yields.\<close>

definition scope_yields :: "permission_scope \<Rightarrow> permission_scope list" where
  "scope_yields s0 =
     (let s = trim_scope s0
      in if scope_permission s = ''files.write'' then [s, s\<lparr>scope_permission := ''files.read''\<rparr>] else [s])"

lemma collect_scopes_Cons:
  "collect_scopes cat (s0 # ss) m =
     (case check_scope cat (trim_scope s0) of
        Some e \<Rightarrow> Inl e
      | None \<Rightarrow> collect_scopes cat ss (fold put_scope (scope_yields s0) m))"
  by (simp add: Let_def scope_yields_def split: option.split)

lemma put_scopes:
  "scope_map_ok m \<Longrightarrow> scope_map_ok (fold put_scope ss m)"
  "set (map snd (fold put_scope ss m)) \<subseteq> set ss \<union> set (map snd m)"
  "fst ` set (fold put_scope ss m) = scope_key ` set ss \<union> fst ` set m"
proof (induction ss arbitrary: m)
  case (Cons s ss)
  { case 1 then show ?case using Cons.IH(1) by (simp add: put_scope_ok) }
  { case 2
    have "set (map snd (fold put_scope ss (put_scope s m))) \<subseteq> set ss \<union> set (map snd (put_scope s m))"
      by (rule Cons.IH(2))
    then show ?case using put_scope_set [of s m] by (simp only: fold_Cons comp_apply list.set) blast }
  { case 3
    show ?case using Cons.IH(3) [of "put_scope s m"] by (simp add: put_scope_keys) }
qed simp_all

lemma collect_scopes_ok:
  "collect_scopes cat ss m = Inr out \<Longrightarrow> scope_map_ok m \<Longrightarrow> scope_map_ok out"
proof (induction ss arbitrary: m)
  case (Cons s0 ss)
  then show ?case
    unfolding collect_scopes_Cons by (auto split: option.splits intro: put_scopes(1))
qed simp

lemma collect_scopes_from:
  "collect_scopes cat ss m = Inr out \<Longrightarrow> s \<in> set (map snd out) \<Longrightarrow>
   s \<in> set (map snd m) \<or> (\<exists>s0\<in>set ss. check_scope cat (trim_scope s0) = None \<and> s \<in> set (scope_yields s0))"
proof (induction ss arbitrary: m)
  case (Cons s0 ss)
  from Cons.prems(1) have ok: "check_scope cat (trim_scope s0) = None"
    and rest: "collect_scopes cat ss (fold put_scope (scope_yields s0) m) = Inr out"
    unfolding collect_scopes_Cons by (auto split: option.splits)
  from Cons.IH [OF rest Cons.prems(2)] show ?case
    using put_scopes(2) [of "scope_yields s0" m] ok unfolding list.set bex_simps by blast
qed simp

lemma collect_scopes_keys:
  "collect_scopes cat ss m = Inr out \<Longrightarrow>
   fst ` set m \<subseteq> fst ` set out \<and> (\<forall>s0\<in>set ss. scope_key ` set (scope_yields s0) \<subseteq> fst ` set out)"
proof (induction ss arbitrary: m)
  case (Cons s0 ss)
  from Cons.prems(1)
  have rest: "collect_scopes cat ss (fold put_scope (scope_yields s0) m) = Inr out"
    unfolding collect_scopes_Cons by (auto split: option.splits)
  from Cons.IH [OF rest] show ?case unfolding put_scopes(3) list.set ball_simps by blast
qed simp

text \<open>A resource of the catalog with the given type and id, when neither holds a NUL.\<close>

lemma split_at_nul:
  "nul \<notin> set a \<Longrightarrow> nul \<notin> set a' \<Longrightarrow> a @ nul # b = a' @ nul # b' \<longleftrightarrow> a = a' \<and> b = b'"
  by (induction a arbitrary: a') (case_tac a', auto)+

lemma resource_key_inj:
  assumes "resource_key t i = resource_key t' i'" "nul \<notin> set t'" "nul \<notin> set i'"
  shows "t = t' \<and> i = i'"
proof -
  have "length (filter (\<lambda>c. c = nul) (t @ i)) = length (filter (\<lambda>c. c = nul) (t' @ i'))"
    using arg_cong [OF assms(1), of "\<lambda>s. length (filter (\<lambda>c. c = nul) s)"]
    by (simp add: resource_key_def)
  moreover have "filter (\<lambda>c. c = nul) (t' @ i') = []" using assms(2,3) by (auto simp: filter_empty_conv)
  ultimately have "nul \<notin> set t" by (auto simp: filter_empty_conv)
  then show ?thesis using assms(1,2) by (simp add: resource_key_def split_at_nul)
qed

lemma scope_key_inj:
  assumes "scope_key s = scope_key s'"
    and "nul \<notin> set (scope_permission s)" "nul \<notin> set (scope_type s)"
    and "nul \<notin> set (scope_permission s')" "nul \<notin> set (scope_type s')"
  shows "s = s'"
  using assms by (simp add: scope_key_def split_at_nul)

lemma allowed_on_folder:
  assumes "allowed_on (cat_resources (make_catalog names folders)) (resource_key t i) = Some allowed"
    and "\<forall>f\<in>set folders. nul \<notin> set (fst f)"
  shows "t = ''file_folder'' \<and> i \<in> fst ` set folders \<and> allowed = [''files.read'', ''files.write'']"
proof -
  have "(resource_key t i, allowed) \<in>
      set (map (\<lambda>r. (resource_key (res_type r) (res_id r), res_permissions r))
        (cat_resources (make_catalog names folders)))"
    using assms(1) unfolding allowed_on_def by (auto dest: map_of_SomeD)
  then obtain f where f: "f \<in> set folders" "resource_key t i = resource_key ''file_folder'' (fst f)"
    "allowed = [''files.read'', ''files.write'']"
    by (auto simp: make_catalog_def)
  have "nul \<notin> set ''file_folder''" by (simp add: nul_def)
  then show ?thesis using resource_key_inj [OF f(2)] f(1,3) assms(2) by auto
qed

section \<open>Properties\<close>

text \<open>An accepted user name is 3 to 64 bytes of a-z, 0-9, '.', '_' and '-', does not start with
  a mark, and is canonical: normalising it again, under any Unicode table, gives it back.\<close>

theorem normalize_username_canonical:
  assumes "normalize_username tbl value = Inr u"
  shows "valid_username u \<and> normalize_username tbl' u = Inr u"
proof -
  have len: "3 \<le> length u" "length u \<le> 64" and ok: "username_runes_ok 0 (runes u)"
    using assms by (auto simp: normalize_username_def Let_def split: if_splits)
  have chars: "list_all username_char u" by (rule runes_ok_chars [OF ok])
  then have a: "ascii u" by (rule username_char_ascii)
  have "u \<noteq> []" using len by auto
  with runes_ok_ascii [OF a, of 0] ok chars len have v: "valid_username u"
    by (simp add: valid_username_def)
  show ?thesis
    using v len ok by (simp add: normalize_username_def Let_def valid_username_trim valid_username_lower)
qed

theorem normalize_username_canonical_witness:
  "valid_username ''alice_2'' \<and> normalize_username (\<lambda>r. r + 1) ''alice_2'' = Inr ''alice_2''"
proof -
  have "normalize_username id ''  Alice_2 '' = Inr ''alice_2''" by code_simp
  from normalize_username_canonical [OF this] show ?thesis .
qed

text \<open>The scopes collected from a catalog of folders: sound, and closed under reading.\<close>

lemma check_scope_folder:
  assumes "check_scope (make_catalog names folders) s = None" "\<forall>f\<in>set folders. nul \<notin> set (fst f)"
  shows "scope_permission s \<in> {''files.read'', ''files.write''} \<and>
    scope_type s = ''file_folder'' \<and> scope_id s \<in> fst ` set folders"
proof -
  let ?cat = "make_catalog names folders"
  obtain allowed where al: "allowed_on (cat_resources ?cat) (resource_key (scope_type s) (scope_id s)) = Some allowed"
    "scope_permission s \<in> set allowed"
    using assms(1) by (auto simp: check_scope_def split: if_splits option.splits)
  from allowed_on_folder [OF al(1) assms(2)] al(2) show ?thesis by auto
qed

lemma collected_scopes_sound:
  assumes m: "collect_scopes (make_catalog names folders) ss [] = Inr m"
    and nul: "\<forall>f\<in>set folders. nul \<notin> set (fst f)" and s: "s \<in> set (map snd m)"
  shows "scope_permission s \<in> {''files.read'', ''files.write''} \<and>
    scope_type s = ''file_folder'' \<and> scope_id s \<in> fst ` set folders"
proof -
  obtain s0 where s0: "check_scope (make_catalog names folders) (trim_scope s0) = None" "s \<in> set (scope_yields s0)"
    using collect_scopes_from [OF m s] by auto
  then have "s = trim_scope s0 \<or> s = (trim_scope s0)\<lparr>scope_permission := ''files.read''\<rparr>"
    by (auto simp: scope_yields_def Let_def split: if_splits)
  with check_scope_folder [OF s0(1) nul] show ?thesis by (elim disjE) simp_all
qed

lemma collected_scopes_closed:
  assumes m: "collect_scopes (make_catalog names folders) ss [] = Inr m"
    and nul: "\<forall>f\<in>set folders. nul \<notin> set (fst f)"
    and s: "s \<in> set (map snd m)" "scope_permission s = ''files.write''"
  shows "s\<lparr>scope_permission := ''files.read''\<rparr> \<in> set (map snd m)"
proof -
  let ?r = "s\<lparr>scope_permission := ''files.read''\<rparr>"
  have mo: "scope_map_ok m" by (rule collect_scopes_ok [OF m]) (simp add: scope_map_ok_def)
  obtain s0 where s0: "s0 \<in> set ss" "s = trim_scope s0"
    using collect_scopes_from [OF m s(1)] s(2) by (auto simp: scope_yields_def Let_def split: if_splits)
  have "?r \<in> set (scope_yields s0)" using s0(2) s(2) by (simp add: scope_yields_def Let_def)
  then have "scope_key ?r \<in> fst ` set m" using collect_scopes_keys [OF m] s0(1) by blast
  then obtain s' where s': "(scope_key ?r, s') \<in> set m" by auto
  then have mem: "s' \<in> set (map snd m)" by force
  moreover have "scope_key ?r = scope_key s'" using mo s' by (auto simp: scope_map_ok_def)
  ultimately have "?r = s'"
    using collected_scopes_sound [OF m nul s(1)] collected_scopes_sound [OF m nul mem]
    by (intro scope_key_inj) (auto simp: nul_def)
  with mem show ?thesis by simp
qed

text \<open>C26. The access an administrator assigns, after \<open>normalizeAccess\<close>: the profile is one of the five;
  an administrator gets every permission of the catalog; another profile gets exactly the requested
  permissions, all known and none reserved to administrators, closed under "write implies read"; and
  every scope grants reading or writing one existing folder, writing never without reading.\<close>

theorem normalize_access_sound:
  assumes "normalize_access tbl (make_catalog names folders) access = Inr (profile, ps, scopes)"
    and "\<forall>f\<in>set folders. nul \<notin> set (fst f)"
  shows "profile \<in> set profiles \<and> sorted ps \<and>
    (profile = ''administrator'' \<longrightarrow> set ps = set names) \<and>
    (profile \<noteq> ''administrator'' \<longrightarrow>
       set ps = trim_space ` set (ua_permissions access) - {[]} \<union>
                (if ''files.write'' \<in> trim_space ` set (ua_permissions access) then {''files.read''} else {}) \<and>
       (\<forall>p\<in>set ps. (p \<in> set names \<or> p = ''files.read'') \<and> \<not> administrator_only_permission p)) \<and>
    (\<forall>s\<in>set scopes. scope_permission s \<in> {''files.read'', ''files.write''} \<and>
       scope_type s = ''file_folder'' \<and> scope_id s \<in> fst ` set folders) \<and>
    (\<forall>s\<in>set scopes. scope_permission s = ''files.write'' \<longrightarrow> s\<lparr>scope_permission := ''files.read''\<rparr> \<in> set scopes)"
proof -
  let ?cat = "make_catalog names folders"
  have names: "map fst (cat_permissions ?cat) = names" by (simp add: make_catalog_def comp_def)
  obtain acc m where prof: "normalize_profile tbl (ua_profile access) = Inr profile"
    and acc: "collect_permissions names profile (ua_permissions access) [] = Inr acc"
    and m: "collect_scopes ?cat (ua_scopes access) [] = Inr m"
    and ps: "ps = (if profile = ''administrator'' then sort names
       else sort (if ''files.write'' \<in> set acc then set_add ''files.read'' acc else acc))"
    and scopes: "set scopes = set (map snd m)"
    using assms(1) by (auto simp: normalize_access_def names Let_def split: sum.splits)
  note A = collect_permissions_sound [OF acc]
  have profile: "profile \<in> set profiles"
    using prof by (auto simp: normalize_profile_def Let_def split: if_splits)
  note sound = collected_scopes_sound [OF m assms(2), folded scopes]
  note closed = collected_scopes_closed [OF m assms(2), folded scopes]
  have accset: "set acc = trim_space ` set (ua_permissions access) - {[]}" using A by simp
  have free: "\<not> administrator_only_permission ''files.read''"
    by (simp add: administrator_only_permission_def)
  have perms: "set ps = set acc \<union> (if ''files.write'' \<in> set acc then {''files.read''} else {})"
    if "profile \<noteq> ''administrator''"
    using that by (simp add: ps)
  have w: "''files.write'' \<in> trim_space ` set (ua_permissions access) \<longleftrightarrow> ''files.write'' \<in> set acc"
    unfolding accset by simp
  have each: "(p \<in> set names \<or> p = ''files.read'') \<and> \<not> administrator_only_permission p"
    if "profile \<noteq> ''administrator''" "p \<in> set ps" for p
  proof (cases "p \<in> set acc")
    case True
    then show ?thesis using A that(1) unfolding accset by blast
  next
    case False
    then have "p = ''files.read''" using perms [OF that(1)] that(2) by (auto split: if_splits)
    then show ?thesis using free by simp
  qed
  have "sorted ps" "profile = ''administrator'' \<longrightarrow> set ps = set names" unfolding ps by simp_all
  then show ?thesis
    using profile sound closed each perms unfolding w accset [symmetric] by blast
qed

definition sample_access :: user_access_input where
  "sample_access = \<lparr>ua_profile = '' Parent'', ua_permissions = [''system.read'', [], ''files.write''],
     ua_scopes = [\<lparr>scope_permission = ''files.write'', scope_type = ''file_folder'', scope_id = ''fld_1''\<rparr>],
     ua_disabled = False\<rparr>"

theorem normalize_access_sound_witness:
  "\<exists>ps scopes. normalize_access id (make_catalog [''files.read'', ''files.write'', ''system.read''] [(''fld_1'', [])])
       sample_access = Inr (''parent'', ps, scopes) \<and> length scopes = 2 \<and>
     (\<forall>s\<in>set scopes. scope_id s = ''fld_1'')"
proof -
  let ?names = "[''files.read'', ''files.write'', ''system.read'']" and ?folders = "[(''fld_1'', [])]"
  have ok: "normalize_access id (make_catalog ?names ?folders) sample_access =
      Inr (''parent'', ?names,
        [\<lparr>scope_permission = ''files.read'', scope_type = ''file_folder'', scope_id = ''fld_1''\<rparr>,
         \<lparr>scope_permission = ''files.write'', scope_type = ''file_folder'', scope_id = ''fld_1''\<rparr>])"
    by code_simp
  have no_nul: "\<forall>f\<in>set ?folders. nul \<notin> set (fst f)" by code_simp
  from normalize_access_sound [OF ok no_nul] show ?thesis
    unfolding ok by simp
qed

end
