(* ===== verification/GoTime.thy ===== *)
theory GoTime
  imports GoText "HOL-Library.Product_Lexorder"
begin

text \<open>
  Times as the store keeps them.  A time is a number of nanoseconds since the epoch, in UTC; the
  database column holds the text \<open>time.RFC3339Nano\<close> of it, and SQL compares the texts byte by
  byte.  The text up to the seconds has a fixed width and the byte order of its values is the
  order of the seconds (for the years 0 to 9999), so it is represented by the number of seconds;
  the rest of the text, where the format drops trailing zeros, is spelled out.
\<close>

type_synonym gotime = nat
type_synonym timestamp = "nat \<times> string"

definition nanos_per_second :: nat where
  "nanos_per_second = 1000000000"

definition drop_trailing_zeros :: "string \<Rightarrow> string" where
  "drop_trailing_zeros s = rev (dropWhile (\<lambda>c. c = CHR ''0'') (rev s))"

definition pad9 :: "nat \<Rightarrow> string" where
  "pad9 n = replicate (9 - length (itoa n)) CHR ''0'' @ itoa n"

definition fraction_text :: "nat \<Rightarrow> string" where
  "fraction_text n = (if n = 0 then [] else ''.'' @ drop_trailing_zeros (pad9 n))"

definition rfc3339_nano :: "gotime \<Rightarrow> timestamp" where
  "rfc3339_nano t = (t div nanos_per_second, fraction_text (t mod nanos_per_second) @ ''Z'')"

lemma rfc3339_seconds: "t div nanos_per_second < u div nanos_per_second \<Longrightarrow>
    rfc3339_nano t < rfc3339_nano u"
  by (simp add: rfc3339_nano_def)

lemma rfc3339_le_seconds: "rfc3339_nano t \<le> rfc3339_nano u \<Longrightarrow>
    t div nanos_per_second \<le> u div nanos_per_second"
  by (auto simp: rfc3339_nano_def)

text \<open>The order of the texts is the order of the times up to less than one second.\<close>

lemma rfc3339_le_bound:
  assumes "rfc3339_nano t \<le> rfc3339_nano u"
  shows "t < u + nanos_per_second"
proof -
  have "t div nanos_per_second \<le> u div nanos_per_second"
    using assms by (rule rfc3339_le_seconds)
  then have "t div nanos_per_second * nanos_per_second \<le> u"
    using div_times_less_eq_dividend [of u nanos_per_second]
    by (meson mult_le_mono1 order_trans)
  moreover have "t < t div nanos_per_second * nanos_per_second + nanos_per_second"
    using mod_less_divisor [of nanos_per_second t] div_mult_mod_eq [of t nanos_per_second]
    by (simp add: nanos_per_second_def)
  ultimately show ?thesis by linarith
qed

lemma rfc3339_later:
  assumes "t + nanos_per_second \<le> u"
  shows "rfc3339_nano t < rfc3339_nano u"
proof (rule rfc3339_seconds)
  have "(t + nanos_per_second) div nanos_per_second \<le> u div nanos_per_second"
    using assms by (rule div_le_mono)
  moreover have "(t + nanos_per_second) div nanos_per_second = Suc (t div nanos_per_second)"
    by (simp add: nanos_per_second_def)
  ultimately show "t div nanos_per_second < u div nanos_per_second" by linarith
qed

text \<open>Within one second the texts may order the times the other way round.\<close>

lemma rfc3339_not_monotone:
  "rfc3339_nano 5000000000 > rfc3339_nano 5500000000"
  by code_simp

end
