(* ===== verification/Accounts.thy ===== *)
theory Accounts
  imports Access GoTime
begin

text \<open>
  The accounts of the store: internal/state/security.go and user_lifecycle.go over the tables of
  migrations 002, 009, 010 and 014.  A method is a function of the tables; a transaction is one
  function, and an error leaves the tables as they were.  The columns \<open>updated_at\<close> are written and
  never read, and are left out; of the folders only the private ones and their owners matter here.
\<close>

section \<open>Tables\<close>

record user_row =
  usr_id :: string
  usr_name :: string
  usr_display :: string
  usr_hash :: string
  usr_disabled :: bool
  usr_created :: gotime
  usr_last_login :: "gotime option"

record session_row =
  ses_id :: string
  ses_user :: string
  ses_token_hash :: string
  ses_csrf_hash :: string
  ses_created :: gotime
  ses_expires :: gotime
  ses_last_seen :: gotime
  ses_revoked :: "gotime option"

record audit_row =
  aud_id :: string
  aud_at :: gotime
  aud_actor_type :: string
  aud_actor_id :: string
  aud_action :: string
  aud_target_type :: string
  aud_target_id :: string
  aud_request_id :: string
  aud_correlation_id :: string
  aud_outcome :: string
  aud_metadata :: "(string \<times> string list) list"

record accounts =
  acc_users :: "user_row list"
  acc_roles :: "(string \<times> string) list"
  acc_permissions :: "string list"
  acc_user_roles :: "(string \<times> string) list"
  acc_role_permissions :: "(string \<times> string) list"
  acc_user_permissions :: "(string \<times> string) list"
  acc_role_scopes :: "(string \<times> permission_scope) list"
  acc_user_scopes :: "(string \<times> permission_scope) list"
  acc_sessions :: "session_row list"
  acc_audit :: "audit_row list"
  acc_private_folders :: "(string \<times> string) list"

record account_record =
  ar_user :: user_row
  ar_roles :: "string list"
  ar_permissions :: "string list"
  ar_scopes :: "permission_scope list"

record session_record =
  sr_session :: session_row
  sr_account :: account_record

text \<open>\<open>COLLATE NOCASE\<close> folds the ASCII letters.\<close>

definition nocase :: "string \<Rightarrow> string" where
  "nocase s = map lower_char s"

section \<open>Users\<close>

definition user_count :: "accounts \<Rightarrow> nat" where
  "user_count a = length (acc_users a)"

definition insert_user :: "user_row \<Rightarrow> accounts \<Rightarrow> accounts res" where
  "insert_user u a =
     (if select_key usr_id (usr_id u) (acc_users a) \<noteq> None \<or>
         nocase (usr_name u) \<in> (nocase \<circ> usr_name) ` set (acc_users a)
      then Inl (Wrap ''insert user: '' (ErrDB ''constraint failed''))
      else Inr (a\<lparr>acc_users := acc_users a @ [u]\<rparr>))"

definition insert_user_role :: "string \<Rightarrow> string \<Rightarrow> accounts \<Rightarrow> accounts res" where
  "insert_user_role uid role a =
     (if role \<notin> fst ` set (acc_roles a) \<or> (uid, role) \<in> set (acc_user_roles a) \<or>
         select_key usr_id uid (acc_users a) = None
      then Inl (Wrap ''assign user role: '' (ErrDB ''constraint failed''))
      else Inr (a\<lparr>acc_user_roles := acc_user_roles a @ [(uid, role)]\<rparr>))"

text \<open>\<open>INSERT OR IGNORE\<close> skips a row that is there; a foreign key still fails.\<close>

fun insert_user_permissions :: "string \<Rightarrow> string list \<Rightarrow> accounts \<Rightarrow> accounts res" where
  "insert_user_permissions uid [] a = Inr a"
| "insert_user_permissions uid (p # ps) a =
     (if p \<notin> set (acc_permissions a)
      then Inl (Wrapf ''assign user permission %s: '' [p] (ErrDB ''constraint failed''))
      else insert_user_permissions uid ps
             (a\<lparr>acc_user_permissions := set_add (uid, p) (acc_user_permissions a)\<rparr>))"

fun insert_user_scopes :: "string \<Rightarrow> permission_scope list \<Rightarrow> accounts \<Rightarrow> accounts res" where
  "insert_user_scopes uid [] a = Inr a"
| "insert_user_scopes uid (s # ss) a =
     (if scope_permission s \<notin> set (acc_permissions a)
      then Inl (Wrapf ''assign user resource permission %s: '' [scope_permission s] (ErrDB ''constraint failed''))
      else insert_user_scopes uid ss (a\<lparr>acc_user_scopes := set_add (uid, s) (acc_user_scopes a)\<rparr>))"

definition new_user :: "string \<Rightarrow> string \<Rightarrow> string \<Rightarrow> string \<Rightarrow> gotime \<Rightarrow> user_row" where
  "new_user uid name display hash now =
     \<lparr>usr_id = uid, usr_name = name, usr_display = display, usr_hash = hash, usr_disabled = False,
      usr_created = now, usr_last_login = None\<rparr>"

definition create_owner ::
  "string \<Rightarrow> string \<Rightarrow> string \<Rightarrow> string \<Rightarrow> gotime \<Rightarrow> accounts \<Rightarrow> (accounts \<times> user_row) res" where
  "create_owner uid name display hash now a =
     (if user_count a \<noteq> 0 then Inl ErrAlreadyInitialized
      else bind_res (insert_user (new_user uid name display hash now) a) (\<lambda>a1.
           bind_res (insert_user_role uid ''role_owner'' a1) (\<lambda>a2.
           Inr (a2, new_user uid name display hash now))))"

definition create_user_with_access ::
  "string \<Rightarrow> string \<Rightarrow> string \<Rightarrow> string \<Rightarrow> string \<Rightarrow> string list \<Rightarrow> permission_scope list \<Rightarrow> gotime \<Rightarrow>
   accounts \<Rightarrow> (accounts \<times> user_row) res" where
  "create_user_with_access uid name display hash role ps ss now a =
     (if \<exists>u\<in>set (acc_users a). nocase (usr_name u) = nocase name then Inl ErrUserExists
      else bind_res (insert_user (new_user uid name display hash now) a) (\<lambda>a1.
           bind_res (insert_user_role uid role a1) (\<lambda>a2.
           bind_res (insert_user_permissions uid ps a2) (\<lambda>a3.
           bind_res (insert_user_scopes uid ss a3) (\<lambda>a4.
           Inr (a4, new_user uid name display hash now))))))"

definition user_by_username :: "string \<Rightarrow> accounts \<Rightarrow> user_row res" where
  "user_by_username name a =
     (case List.find (\<lambda>u. nocase (usr_name u) = nocase name) (acc_users a) of
        None \<Rightarrow> Inl ErrNoRows | Some u \<Rightarrow> Inr u)"

text \<open>\<open>userAccess\<close>: the names of the roles, and the unions over the roles and the user.\<close>

definition roles_of :: "string \<Rightarrow> accounts \<Rightarrow> string list" where
  "roles_of uid a = map snd (filter (\<lambda>ur. fst ur = uid) (acc_user_roles a))"

definition user_access ::
  "string \<Rightarrow> accounts \<Rightarrow> string list \<times> string list \<times> permission_scope list" where
  "user_access uid a =
     (let roles = roles_of uid a
      in (sort (map snd (filter (\<lambda>r. fst r \<in> set roles) (acc_roles a))),
          sort (remdups (map snd (filter (\<lambda>rp. fst rp \<in> set roles) (acc_role_permissions a)) @
                         map snd (filter (\<lambda>up. fst up = uid) (acc_user_permissions a)))),
          sort_key (\<lambda>s. (scope_permission s, scope_type s, scope_id s))
            (remdups (map snd (filter (\<lambda>rs. fst rs \<in> set roles) (acc_role_scopes a)) @
                      map snd (filter (\<lambda>us. fst us = uid) (acc_user_scopes a))))))"

definition account_of :: "user_row \<Rightarrow> accounts \<Rightarrow> account_record" where
  "account_of u a =
     (case user_access (usr_id u) a of
        (roles, ps, ss) \<Rightarrow> \<lparr>ar_user = u, ar_roles = roles, ar_permissions = ps, ar_scopes = ss\<rparr>)"

definition user_account :: "string \<Rightarrow> accounts \<Rightarrow> account_record res" where
  "user_account uid a =
     (case select_key usr_id uid (acc_users a) of
        None \<Rightarrow> Inl ErrNoRows | Some u \<Rightarrow> Inr (account_of u a))"

definition list_users :: "accounts \<Rightarrow> account_record list" where
  "list_users a = map (\<lambda>u. account_of u a) (sort_key (nocase \<circ> usr_name) (acc_users a))"

definition list_permissions :: "accounts \<Rightarrow> string list" where
  "list_permissions a = sort (acc_permissions a)"

definition update_last_login :: "string \<Rightarrow> gotime \<Rightarrow> accounts \<Rightarrow> accounts" where
  "update_last_login uid now a =
     a\<lparr>acc_users := update_where (\<lambda>u. usr_id u = uid) (\<lambda>u. u\<lparr>usr_last_login := Some now\<rparr>) (acc_users a)\<rparr>"

definition enabled_owners :: "accounts \<Rightarrow> string list" where
  "enabled_owners a =
     map usr_id (filter (\<lambda>u. \<not> usr_disabled u \<and> (usr_id u, ''role_owner'') \<in> set (acc_user_roles a)) (acc_users a))"

definition count_enabled_users_with_role :: "string \<Rightarrow> accounts \<Rightarrow> nat" where
  "count_enabled_users_with_role role a =
     length (filter (\<lambda>u. \<not> usr_disabled u \<and> (usr_id u, role) \<in> set (acc_user_roles a)) (acc_users a))"

section \<open>Changing a user\<close>

definition check_enabled_administrator :: "string \<Rightarrow> string \<Rightarrow> bool \<Rightarrow> accounts \<Rightarrow> go_error option" where
  "check_enabled_administrator uid role disabled a =
     (if role = ''role_owner'' \<and> \<not> disabled then None
      else if uid \<notin> set (enabled_owners a) then None
      else if filter (\<lambda>other. other \<noteq> uid) (enabled_owners a) = [] then Some ErrLastEnabledAdministrator
      else None)"

definition revoke_user_sessions :: "string \<Rightarrow> gotime \<Rightarrow> accounts \<Rightarrow> accounts" where
  "revoke_user_sessions uid now a =
     a\<lparr>acc_sessions := update_where (\<lambda>s. ses_user s = uid \<and> ses_revoked s = None)
        (\<lambda>s. s\<lparr>ses_revoked := Some now\<rparr>) (acc_sessions a)\<rparr>"

definition private_folder_scopes :: "string \<Rightarrow> accounts \<Rightarrow> (string \<times> permission_scope) list" where
  "private_folder_scopes uid a =
     concat (map (\<lambda>p. map (\<lambda>(folder, _). (uid, \<lparr>scope_permission = p, scope_type = ''file_folder'', scope_id = folder\<rparr>))
                (filter (\<lambda>f. snd f = uid) (acc_private_folders a)))
            [''files.read'', ''files.write''])"

definition preserve_private_folders :: "string \<Rightarrow> accounts \<Rightarrow> accounts res" where
  "preserve_private_folders uid a =
     (if \<exists>us\<in>set (private_folder_scopes uid a). scope_permission (snd us) \<notin> set (acc_permissions a)
      then Inl (Wrap ''preserve private folder ownership: '' (ErrDB ''constraint failed''))
      else Inr (a\<lparr>acc_user_scopes := set_add_all (private_folder_scopes uid a) (acc_user_scopes a)\<rparr>))"

definition set_user_access ::
  "string \<Rightarrow> string \<Rightarrow> string list \<Rightarrow> permission_scope list \<Rightarrow> bool \<Rightarrow> gotime \<Rightarrow> accounts \<Rightarrow> accounts res" where
  "set_user_access uid role ps ss disabled now a =
     (case check_enabled_administrator uid role disabled a of
        Some e \<Rightarrow> Inl e
      | None \<Rightarrow>
        if select_key usr_id uid (acc_users a) = None then Inl ErrNoRows
        else
          (let a1 = a\<lparr>acc_users := update_where (\<lambda>u. usr_id u = uid) (\<lambda>u. u\<lparr>usr_disabled := disabled\<rparr>) (acc_users a)\<rparr>;
               a2 = (if disabled then revoke_user_sessions uid now a1 else a1);
               a3 = a2\<lparr>acc_user_roles := delete_where (\<lambda>ur. fst ur = uid) (acc_user_roles a2)\<rparr>
           in bind_res (insert_user_role uid role a3) (\<lambda>a4.
              bind_res (insert_user_permissions uid ps
                (a4\<lparr>acc_user_permissions := delete_where (\<lambda>up. fst up = uid) (acc_user_permissions a4)\<rparr>)) (\<lambda>a5.
              bind_res (insert_user_scopes uid ss
                (a5\<lparr>acc_user_scopes := delete_where (\<lambda>us. fst us = uid) (acc_user_scopes a5)\<rparr>)) (\<lambda>a6.
              preserve_private_folders uid a6)))))"

definition update_user_identity :: "string \<Rightarrow> string \<Rightarrow> string \<Rightarrow> gotime \<Rightarrow> accounts \<Rightarrow> accounts res" where
  "update_user_identity uid name display now a =
     (case select_key usr_id uid (acc_users a) of
        None \<Rightarrow> Inl ErrNoRows
      | Some u \<Rightarrow>
          if \<exists>v\<in>set (acc_users a). usr_id v \<noteq> uid \<and> nocase (usr_name v) = nocase name then Inl ErrUserExists
          else (let a1 = a\<lparr>acc_users := update_where (\<lambda>v. usr_id v = uid)
                        (\<lambda>v. v\<lparr>usr_name := name, usr_display := display\<rparr>) (acc_users a)\<rparr>
                in Inr (if usr_name u \<noteq> name then revoke_user_sessions uid now a1 else a1)))"

definition change_user_password :: "string \<Rightarrow> string \<Rightarrow> string \<Rightarrow> gotime \<Rightarrow> accounts \<Rightarrow> accounts res" where
  "change_user_password uid previous hash now a =
     (let c = (\<lambda>u. usr_id u = uid \<and> usr_hash u = previous)
      in if rows_matching c (acc_users a) = 0 then Inl ErrUserCredentialChanged
         else Inr (revoke_user_sessions uid now
                (a\<lparr>acc_users := update_where c (\<lambda>u. u\<lparr>usr_hash := hash\<rparr>) (acc_users a)\<rparr>)))"

definition grant_role_resource_permission :: "string \<Rightarrow> permission_scope \<Rightarrow> accounts \<Rightarrow> accounts res" where
  "grant_role_resource_permission role s a =
     (if role \<notin> fst ` set (acc_roles a) \<or> scope_permission s \<notin> set (acc_permissions a)
      then Inl (Wrap ''grant role resource permission: '' (ErrDB ''constraint failed''))
      else Inr (a\<lparr>acc_role_scopes := set_add (role, s) (acc_role_scopes a)\<rparr>))"

definition grant_user_resource_permission :: "string \<Rightarrow> permission_scope \<Rightarrow> accounts \<Rightarrow> accounts res" where
  "grant_user_resource_permission uid s a =
     (if uid \<notin> usr_id ` set (acc_users a) \<or> scope_permission s \<notin> set (acc_permissions a)
      then Inl (Wrap ''grant user resource permission: '' (ErrDB ''constraint failed''))
      else Inr (a\<lparr>acc_user_scopes := set_add (uid, s) (acc_user_scopes a)\<rparr>))"

section \<open>Sessions\<close>

definition create_session_row ::
  "string \<Rightarrow> string \<Rightarrow> string \<Rightarrow> string \<Rightarrow> gotime \<Rightarrow> gotime \<Rightarrow> accounts \<Rightarrow> accounts res" where
  "create_session_row sid uid token csrf created expires a =
     (if uid \<notin> usr_id ` set (acc_users a) \<or> sid \<in> ses_id ` set (acc_sessions a) \<or>
         token \<in> ses_token_hash ` set (acc_sessions a)
      then Inl (Wrap ''create session: '' (ErrDB ''constraint failed''))
      else Inr (a\<lparr>acc_sessions := acc_sessions a @
             [\<lparr>ses_id = sid, ses_user = uid, ses_token_hash = token, ses_csrf_hash = csrf,
               ses_created = created, ses_expires = expires, ses_last_seen = created, ses_revoked = None\<rparr>]\<rparr>))"

text \<open>The expiry is compared as a text.\<close>

definition session_live :: "gotime \<Rightarrow> session_row \<Rightarrow> bool" where
  "session_live now s = (ses_revoked s = None \<and> rfc3339_nano now < rfc3339_nano (ses_expires s))"

definition session_by_token_hash :: "string \<Rightarrow> gotime \<Rightarrow> accounts \<Rightarrow> session_record res" where
  "session_by_token_hash token now a =
     (case List.find (\<lambda>s. ses_token_hash s = token \<and> session_live now s \<and>
              (case select_key usr_id (ses_user s) (acc_users a) of None \<Rightarrow> False | Some u \<Rightarrow> \<not> usr_disabled u))
            (acc_sessions a) of
        None \<Rightarrow> Inl ErrNoRows
      | Some s \<Rightarrow>
          (case select_key usr_id (ses_user s) (acc_users a) of
             None \<Rightarrow> Inl ErrNoRows
           | Some u \<Rightarrow> Inr \<lparr>sr_session = s, sr_account = account_of u a\<rparr>))"

definition revoke_session :: "string \<Rightarrow> gotime \<Rightarrow> accounts \<Rightarrow> accounts res" where
  "revoke_session sid now a =
     (let c = (\<lambda>s. ses_id s = sid \<and> ses_revoked s = None)
      in if rows_matching c (acc_sessions a) = 0 then Inl ErrNoRows
         else Inr (a\<lparr>acc_sessions := update_where c (\<lambda>s. s\<lparr>ses_revoked := Some now\<rparr>) (acc_sessions a)\<rparr>))"

definition cleanup_expired_sessions :: "gotime \<Rightarrow> accounts \<Rightarrow> accounts" where
  "cleanup_expired_sessions now a =
     a\<lparr>acc_sessions := delete_where (\<lambda>s. rfc3339_nano (ses_expires s) \<le> rfc3339_nano now \<or> ses_revoked s \<noteq> None)
        (acc_sessions a)\<rparr>"

section \<open>Audit\<close>

definition write_audit :: "audit_row \<Rightarrow> accounts \<Rightarrow> accounts res" where
  "write_audit r a =
     (if aud_id r \<in> aud_id ` set (acc_audit a) then Inl (Wrap ''write audit event: '' (ErrDB ''constraint failed''))
      else Inr (a\<lparr>acc_audit := acc_audit a @ [r]\<rparr>))"

definition list_audit :: "int \<Rightarrow> accounts \<Rightarrow> audit_row list" where
  "list_audit l a =
     take (if l \<le> 0 \<or> l > 500 then 100 else nat l) (rev (sort_key (rfc3339_nano \<circ> aud_at) (acc_audit a)))"

section \<open>Lemmas\<close>

lemma insert_user_permissions_frame:
  "insert_user_permissions uid ps a = Inr a' \<Longrightarrow>
   a' = a\<lparr>acc_user_permissions := fold (\<lambda>p. set_add (uid, p)) ps (acc_user_permissions a)\<rparr> \<and>
   set ps \<subseteq> set (acc_permissions a)"
  by (induction uid ps a rule: insert_user_permissions.induct) (auto split: if_splits)

lemma insert_user_scopes_frame:
  "insert_user_scopes uid ss a = Inr a' \<Longrightarrow>
   a' = a\<lparr>acc_user_scopes := fold (\<lambda>s. set_add (uid, s)) ss (acc_user_scopes a)\<rparr>"
  by (induction uid ss a rule: insert_user_scopes.induct) (auto split: if_splits)

lemma set_fold_set_add: "set (fold (\<lambda>p. set_add (f p)) ps xs) = f ` set ps \<union> set xs"
  by (induction ps arbitrary: xs) auto

lemma distinct_fold_set_add: "distinct (fold (\<lambda>p. set_add (f p)) ps xs) = distinct xs"
  by (induction ps arbitrary: xs) auto

text \<open>What the tables keep.\<close>

definition users_ok :: "accounts \<Rightarrow> bool" where
  "users_ok a =
     (unique_key usr_id (acc_users a) \<and> distinct (map (nocase \<circ> usr_name) (acc_users a)) \<and>
      fst ` set (acc_user_roles a) \<subseteq> usr_id ` set (acc_users a))"

definition sessions_ok :: "accounts \<Rightarrow> bool" where
  "sessions_ok a =
     (unique_key ses_id (acc_sessions a) \<and> unique_key ses_token_hash (acc_sessions a) \<and>
      ses_user ` set (acc_sessions a) \<subseteq> usr_id ` set (acc_users a))"

definition accounts_ok :: "accounts \<Rightarrow> bool" where
  "accounts_ok a = (users_ok a \<and> sessions_ok a)"

definition has_administrator :: "accounts \<Rightarrow> bool" where
  "has_administrator a = (enabled_owners a \<noteq> [])"

lemma enabled_owners_mem:
  "o' \<in> set (enabled_owners a) \<longleftrightarrow>
     (\<exists>u\<in>set (acc_users a). usr_id u = o' \<and> \<not> usr_disabled u) \<and> (o', ''role_owner'') \<in> set (acc_user_roles a)"
  by (auto simp: enabled_owners_def)

lemma has_administrator_iff: "has_administrator a \<longleftrightarrow> set (enabled_owners a) \<noteq> {}"
  by (simp add: has_administrator_def)

lemma users_ok_cong:
  "acc_users a' = acc_users a \<Longrightarrow> acc_user_roles a' = acc_user_roles a \<Longrightarrow> users_ok a' = users_ok a"
  by (simp add: users_ok_def)

lemma sessions_ok_cong:
  "acc_users a' = acc_users a \<Longrightarrow> acc_sessions a' = acc_sessions a \<Longrightarrow> sessions_ok a' = sessions_ok a"
  by (simp add: sessions_ok_def)

lemma image_update_where:
  assumes "\<And>r. key (f r) = key r"
  shows "key ` set (update_where c f t) = key ` set t"
proof -
  have "set (map key (update_where c f t)) = set (map key t)" using map_update_where [where key = key and f = f and c = c and t = t] assms by simp
  then show ?thesis by simp
qed

lemma session_update_keeps:
  assumes "\<And>s. ses_id (f s) = ses_id s" "\<And>s. ses_token_hash (f s) = ses_token_hash s"
    "\<And>s. ses_user (f s) = ses_user s"
  shows "unique_key ses_id (update_where c f t) = unique_key ses_id t"
    "unique_key ses_token_hash (update_where c f t) = unique_key ses_token_hash t"
    "ses_user ` set (update_where c f t) = ses_user ` set t"
  using assms by (simp_all only: unique_update_where image_update_where)

lemma revoke_frame:
  "acc_users (revoke_user_sessions uid now a) = acc_users a"
  "acc_user_roles (revoke_user_sessions uid now a) = acc_user_roles a"
  "acc_permissions (revoke_user_sessions uid now a) = acc_permissions a"
  "acc_roles (revoke_user_sessions uid now a) = acc_roles a"
  "acc_private_folders (revoke_user_sessions uid now a) = acc_private_folders a"
  "acc_user_permissions (revoke_user_sessions uid now a) = acc_user_permissions a"
  "acc_user_scopes (revoke_user_sessions uid now a) = acc_user_scopes a"
  "acc_role_permissions (revoke_user_sessions uid now a) = acc_role_permissions a"
  "acc_role_scopes (revoke_user_sessions uid now a) = acc_role_scopes a"
  by (simp_all add: revoke_user_sessions_def)

lemma revoke_sessions_ok: "sessions_ok (revoke_user_sessions uid now a) = sessions_ok a"
  by (simp add: sessions_ok_def revoke_user_sessions_def session_update_keeps)

lemma revoked_sessions:
  "acc_sessions (revoke_user_sessions uid now a) =
     update_where (\<lambda>s. ses_user s = uid \<and> ses_revoked s = None) (\<lambda>s. s\<lparr>ses_revoked := Some now\<rparr>) (acc_sessions a)"
  by (simp add: revoke_user_sessions_def)

lemma revoked_all:
  assumes "s \<in> set (acc_sessions (revoke_user_sessions uid now a))" "ses_user s = uid"
  shows "ses_revoked s \<noteq> None"
proof -
  obtain r where s: "s = (if ses_user r = uid \<and> ses_revoked r = None then r\<lparr>ses_revoked := Some now\<rparr> else r)"
    using assms(1) unfolding revoked_sessions set_update_where by blast
  show ?thesis
  proof (cases "ses_user r = uid \<and> ses_revoked r = None")
    case False
    with s assms(2) show ?thesis by simp
  qed (simp add: s)
qed

lemma insert_user_role_frame:
  "insert_user_role uid role a = Inr a' \<Longrightarrow>
   a' = a\<lparr>acc_user_roles := acc_user_roles a @ [(uid, role)]\<rparr> \<and> role \<in> fst ` set (acc_roles a) \<and>
   uid \<in> usr_id ` set (acc_users a)"
  by (auto simp: insert_user_role_def select_key_None_iff split: if_splits)

lemma insert_user_frame:
  "insert_user u a = Inr a' \<Longrightarrow>
   a' = a\<lparr>acc_users := acc_users a @ [u]\<rparr> \<and> usr_id u \<notin> usr_id ` set (acc_users a) \<and>
   nocase (usr_name u) \<notin> (nocase \<circ> usr_name) ` set (acc_users a)"
  by (auto simp: insert_user_def select_key_None_iff split: if_splits)

text \<open>The shape of a created user.\<close>

lemma create_user_frame:
  assumes "create_user_with_access uid name display hash role ps ss now a = Inr (a', u)"
  obtains "u = new_user uid name display hash now"
    "acc_users a' = acc_users a @ [u]" "acc_user_roles a' = acc_user_roles a @ [(uid, role)]"
    "acc_sessions a' = acc_sessions a" "uid \<notin> usr_id ` set (acc_users a)"
    "nocase name \<notin> (nocase \<circ> usr_name) ` set (acc_users a)" "acc_roles a' = acc_roles a"
    "acc_permissions a' = acc_permissions a" "acc_private_folders a' = acc_private_folders a"
    "set (acc_user_permissions a') = Pair uid ` set ps \<union> set (acc_user_permissions a)"
    "set (acc_user_scopes a') = Pair uid ` set ss \<union> set (acc_user_scopes a)"
    "acc_role_permissions a' = acc_role_permissions a" "acc_role_scopes a' = acc_role_scopes a"
proof -
  have ok: "bind_res (insert_user (new_user uid name display hash now) a) (\<lambda>a1.
           bind_res (insert_user_role uid role a1) (\<lambda>a2.
           bind_res (insert_user_permissions uid ps a2) (\<lambda>a3.
           bind_res (insert_user_scopes uid ss a3) (\<lambda>a4.
           Inr (a4, new_user uid name display hash now))))) = Inr (a', u)"
    using assms by (auto simp: create_user_with_access_def split: if_splits)
  then obtain a1 a2 a3 where
    1: "insert_user (new_user uid name display hash now) a = Inr a1" and
    2: "insert_user_role uid role a1 = Inr a2" and
    3: "insert_user_permissions uid ps a2 = Inr a3" and
    4: "insert_user_scopes uid ss a3 = Inr a'" and u: "u = new_user uid name display hash now"
    by (auto simp: bind_res_Inr)
  note f = insert_user_frame [OF 1] insert_user_role_frame [OF 2]
    insert_user_permissions_frame [OF 3] insert_user_scopes_frame [OF 4]
  show ?thesis
    by (rule that) (use f u in \<open>simp_all add: new_user_def set_fold_set_add\<close>)
qed

text \<open>The shape of the tables after a change of access.\<close>

definition with_access :: "string \<Rightarrow> bool \<Rightarrow> gotime \<Rightarrow> accounts \<Rightarrow> accounts" where
  "with_access uid disabled now a =
     (let a1 = a\<lparr>acc_users := update_where (\<lambda>u. usr_id u = uid) (\<lambda>u. u\<lparr>usr_disabled := disabled\<rparr>) (acc_users a)\<rparr>
      in if disabled then revoke_user_sessions uid now a1 else a1)"

lemma with_access_frame:
  "acc_users (with_access uid disabled now a) =
     update_where (\<lambda>u. usr_id u = uid) (\<lambda>u. u\<lparr>usr_disabled := disabled\<rparr>) (acc_users a)"
  "acc_user_roles (with_access uid disabled now a) = acc_user_roles a"
  "acc_permissions (with_access uid disabled now a) = acc_permissions a"
  "acc_roles (with_access uid disabled now a) = acc_roles a"
  "acc_private_folders (with_access uid disabled now a) = acc_private_folders a"
  "acc_user_permissions (with_access uid disabled now a) = acc_user_permissions a"
  "acc_user_scopes (with_access uid disabled now a) = acc_user_scopes a"
  "acc_role_permissions (with_access uid disabled now a) = acc_role_permissions a"
  "acc_role_scopes (with_access uid disabled now a) = acc_role_scopes a"
  by (simp_all add: with_access_def Let_def revoke_frame)

lemma set_user_access_frame:
  assumes "set_user_access uid role ps ss disabled now a = Inr a'"
  obtains "check_enabled_administrator uid role disabled a = None" "uid \<in> usr_id ` set (acc_users a)"
    "role \<in> fst ` set (acc_roles a)" "acc_users a' = acc_users (with_access uid disabled now a)"
    "acc_sessions a' = acc_sessions (with_access uid disabled now a)"
    "acc_user_roles a' = delete_where (\<lambda>ur. fst ur = uid) (acc_user_roles a) @ [(uid, role)]"
    "acc_roles a' = acc_roles a" "acc_permissions a' = acc_permissions a"
    "acc_private_folders a' = acc_private_folders a"
    "set (acc_user_permissions a') = Pair uid ` set ps \<union> {up\<in>set (acc_user_permissions a). fst up \<noteq> uid}"
    "set (acc_user_scopes a') =
       set (private_folder_scopes uid a) \<union> Pair uid ` set ss \<union> {us\<in>set (acc_user_scopes a). fst us \<noteq> uid}"
    "acc_role_permissions a' = acc_role_permissions a" "acc_role_scopes a' = acc_role_scopes a"
proof -
  let ?b = "with_access uid disabled now a"
  let ?b3 = "?b\<lparr>acc_user_roles := delete_where (\<lambda>ur. fst ur = uid) (acc_user_roles ?b)\<rparr>"
  from assms have chk: "check_enabled_administrator uid role disabled a = None"
    and there: "select_key usr_id uid (acc_users a) \<noteq> None"
    and rest: "bind_res (insert_user_role uid role ?b3) (\<lambda>a4.
              bind_res (insert_user_permissions uid ps
                (a4\<lparr>acc_user_permissions := delete_where (\<lambda>up. fst up = uid) (acc_user_permissions a4)\<rparr>)) (\<lambda>a5.
              bind_res (insert_user_scopes uid ss
                (a5\<lparr>acc_user_scopes := delete_where (\<lambda>us. fst us = uid) (acc_user_scopes a5)\<rparr>)) (\<lambda>a6.
              preserve_private_folders uid a6))) = Inr a'"
    unfolding set_user_access_def Let_def with_access_def by (auto split: option.splits if_split_asm)
  from rest obtain a4 a5 a6 where
    4: "insert_user_role uid role ?b3 = Inr a4" and
    5: "insert_user_permissions uid ps
          (a4\<lparr>acc_user_permissions := delete_where (\<lambda>up. fst up = uid) (acc_user_permissions a4)\<rparr>) = Inr a5" and
    6: "insert_user_scopes uid ss
          (a5\<lparr>acc_user_scopes := delete_where (\<lambda>us. fst us = uid) (acc_user_scopes a5)\<rparr>) = Inr a6" and
    7: "preserve_private_folders uid a6 = Inr a'"
    unfolding bind_res_Inr by blast
  have a': "a' = a6\<lparr>acc_user_scopes := set_add_all (private_folder_scopes uid a6) (acc_user_scopes a6)\<rparr>"
    using 7 unfolding preserve_private_folders_def by (simp split: if_split_asm)
  note f = insert_user_role_frame [OF 4, simplified] insert_user_permissions_frame [OF 5, simplified]
    insert_user_scopes_frame [OF 6, simplified]
  have up: "usr_id ` set (acc_users ?b) = usr_id ` set (acc_users a)"
    by (simp add: with_access_frame image_update_where)
  have del: "set (delete_where c t) = {x\<in>set t. \<not> c x}" for c and t :: "'b list"
    by (auto simp: delete_where_def)
  show ?thesis
    by (rule that)
      (use chk there f in \<open>simp_all add: a' up private_folder_scopes_def select_key_None_iff with_access_frame set_fold_set_add del Un_assoc\<close>)
qed

text \<open>The check of the transaction keeps an enabled administrator.\<close>

lemma enabled_owners_access:
  assumes "acc_users a' = acc_users (with_access uid disabled now a)"
    and "acc_user_roles a' = delete_where (\<lambda>ur. fst ur = uid) (acc_user_roles a) @ [(uid, role)]"
    and "w \<noteq> uid" "w \<in> set (enabled_owners a)"
  shows "w \<in> set (enabled_owners a')"
proof -
  from assms(4) obtain u where u: "u \<in> set (acc_users a)" "usr_id u = w" "\<not> usr_disabled u"
    and r: "(w, ''role_owner'') \<in> set (acc_user_roles a)" by (auto simp: enabled_owners_mem)
  have "u \<in> set (acc_users a')"
    using u assms(1,3) unfolding assms(1) with_access_frame set_update_where image_iff by force
  moreover have "(w, ''role_owner'') \<in> set (acc_user_roles a')"
    using r assms(3) by (simp add: assms(2) delete_where_def)
  ultimately show ?thesis using u by (auto simp: enabled_owners_mem)
qed

lemma set_user_access_keeps_administrator:
  assumes "set_user_access uid role ps ss disabled now a = Inr a'" "has_administrator a"
  shows "has_administrator a'"
  using assms(1)
proof (rule set_user_access_frame)
  assume chk: "check_enabled_administrator uid role disabled a = None"
    and there: "uid \<in> usr_id ` set (acc_users a)"
    and users: "acc_users a' = acc_users (with_access uid disabled now a)"
    and roles: "acc_user_roles a' = delete_where (\<lambda>ur. fst ur = uid) (acc_user_roles a) @ [(uid, role)]"
  show ?thesis
  proof (cases "role = ''role_owner'' \<and> \<not> disabled")
    case True
    from there obtain u where u: "u \<in> set (acc_users a)" "usr_id u = uid" by auto
    have "u\<lparr>usr_disabled := disabled\<rparr> \<in> set (acc_users a')"
      using u unfolding users with_access_frame set_update_where image_iff by force
    moreover have "(uid, ''role_owner'') \<in> set (acc_user_roles a')" using True by (simp add: roles)
    ultimately have "uid \<in> set (enabled_owners a')" unfolding enabled_owners_mem
      using u(2) True by (intro conjI bexI [of _ "u\<lparr>usr_disabled := disabled\<rparr>"]) simp_all
    then show ?thesis by (auto simp: has_administrator_iff)
  next
    case False
    have "\<exists>w. w \<noteq> uid \<and> w \<in> set (enabled_owners a)"
    proof (cases "uid \<in> set (enabled_owners a)")
      case True
      then have "filter (\<lambda>w. w \<noteq> uid) (enabled_owners a) \<noteq> []"
        using chk False unfolding check_enabled_administrator_def by (simp split: if_split_asm)
      then show ?thesis unfolding filter_empty_conv by blast
    next
      case False
      from assms(2) obtain w where "w \<in> set (enabled_owners a)" unfolding has_administrator_iff ex_in_conv [symmetric] by (rule exE)
      with False show ?thesis by metis
    qed
    then obtain w where "w \<noteq> uid" "w \<in> set (enabled_owners a)" by (elim exE conjE)
    from enabled_owners_access [OF users roles this] show ?thesis
      unfolding has_administrator_iff ex_in_conv [symmetric] by (rule exI)
  qed
qed

section \<open>Operations as steps\<close>

datatype account_op =
    CreateOwner string string string string gotime
  | CreateUser string string string string string "string list" "permission_scope list" gotime
  | SetAccess string string "string list" "permission_scope list" bool gotime
  | UpdateIdentity string string string gotime
  | ChangePassword string string string gotime
  | LastLogin string gotime
  | GrantRole string permission_scope
  | GrantUser string permission_scope
  | NewSession string string string string gotime gotime
  | RevokeSession string gotime
  | CleanupSessions gotime
  | WriteAudit audit_row

definition or_same :: "'s \<Rightarrow> 's res \<Rightarrow> 's" where
  "or_same a r = (case r of Inl _ \<Rightarrow> a | Inr b \<Rightarrow> b)"

definition or_same_fst :: "'s \<Rightarrow> ('s \<times> 'r) res \<Rightarrow> 's" where
  "or_same_fst a r = (case r of Inl _ \<Rightarrow> a | Inr b \<Rightarrow> fst b)"

fun run_account_op :: "account_op \<Rightarrow> accounts \<Rightarrow> accounts" where
  "run_account_op (CreateOwner i n d h t) a = or_same_fst a (create_owner i n d h t a)"
| "run_account_op (CreateUser i n d h r ps ss t) a = or_same_fst a (create_user_with_access i n d h r ps ss t a)"
| "run_account_op (SetAccess i r ps ss dis t) a = or_same a (set_user_access i r ps ss dis t a)"
| "run_account_op (UpdateIdentity i n d t) a = or_same a (update_user_identity i n d t a)"
| "run_account_op (ChangePassword i p h t) a = or_same a (change_user_password i p h t a)"
| "run_account_op (LastLogin i t) a = update_last_login i t a"
| "run_account_op (GrantRole r s) a = or_same a (grant_role_resource_permission r s a)"
| "run_account_op (GrantUser i s) a = or_same a (grant_user_resource_permission i s a)"
| "run_account_op (NewSession s i tok c t e) a = or_same a (create_session_row s i tok c t e a)"
| "run_account_op (RevokeSession s t) a = or_same a (revoke_session s t a)"
| "run_account_op (CleanupSessions t) a = cleanup_expired_sessions t a"
| "run_account_op (WriteAudit r) a = or_same a (write_audit r a)"

definition keeps :: "accounts \<Rightarrow> accounts \<Rightarrow> bool" where
  "keeps a b = ((accounts_ok a \<longrightarrow> accounts_ok b) \<and> (accounts_ok a \<longrightarrow> has_administrator a \<longrightarrow> has_administrator b))"

lemma keeps_refl [simp]: "keeps a a"
  by (simp add: keeps_def)

lemma keeps_or_same: "(\<And>b. r = Inr b \<Longrightarrow> keeps a b) \<Longrightarrow> keeps a (or_same a r)"
  by (cases r) (auto simp: or_same_def)

lemma keeps_or_same_fst: "(\<And>b u. r = Inr (b, u) \<Longrightarrow> keeps a b) \<Longrightarrow> keeps a (or_same_fst a r)"
  by (cases r) (auto simp: or_same_fst_def)

text \<open>An operation that does not touch users, roles and sessions.\<close>

lemma keeps_frame:
  assumes "acc_users b = acc_users a" "acc_user_roles b = acc_user_roles a" "acc_sessions b = acc_sessions a"
  shows "keeps a b"
  using assms
  by (simp add: keeps_def accounts_ok_def users_ok_def sessions_ok_def has_administrator_def enabled_owners_def)

text \<open>Users updated without changing ids, disabling or (up to case) colliding names.\<close>

lemma keeps_sessions:
  assumes "acc_users b = acc_users a" "acc_user_roles b = acc_user_roles a" "sessions_ok a \<longrightarrow> sessions_ok b"
  shows "keeps a b"
  using assms by (auto simp: keeps_def accounts_ok_def users_ok_def has_administrator_def enabled_owners_def)

lemma enabled_owners_update:
  assumes "\<And>u. usr_id (f u) = usr_id u" "\<And>u. usr_disabled (f u) = usr_disabled u"
  shows "enabled_owners (a\<lparr>acc_users := update_where c f (acc_users a)\<rparr>) = enabled_owners a"
proof -
  have "map usr_id (filter (\<lambda>u. \<not> usr_disabled u \<and> (usr_id u, ''role_owner'') \<in> R) (update_where c f t)) =
        map usr_id (filter (\<lambda>u. \<not> usr_disabled u \<and> (usr_id u, ''role_owner'') \<in> R) t)" for R t
    by (induction t) (simp_all add: update_where_def assms)
  then show ?thesis by (simp add: enabled_owners_def)
qed

lemma keeps_update_users:
  assumes f: "\<And>u. usr_id (f u) = usr_id u" "\<And>u. usr_disabled (f u) = usr_disabled u"
    and names: "distinct (map (nocase \<circ> usr_name) (acc_users a)) \<longrightarrow>
      unique_key usr_id (acc_users a) \<longrightarrow> distinct (map (nocase \<circ> usr_name) (update_where c f (acc_users a)))"
  shows "keeps a (a\<lparr>acc_users := update_where c f (acc_users a)\<rparr>)"
  using names f
  by (simp add: keeps_def accounts_ok_def users_ok_def sessions_ok_def has_administrator_def
      enabled_owners_update unique_update_where image_update_where)

lemma keeps_trans: "keeps a b \<Longrightarrow> keeps b c \<Longrightarrow> keeps a c"
  by (simp add: keeps_def)

lemma keeps_revoke: "keeps a (revoke_user_sessions uid now a)"
  by (rule keeps_sessions) (simp_all add: revoke_frame revoke_sessions_ok)

lemma keeps_create_user:
  assumes "create_user_with_access uid name display hash role ps ss now a = Inr (b, u)"
  shows "keeps a b"
  using assms
proof (rule create_user_frame)
  assume u: "u = new_user uid name display hash now"
    and b: "acc_users b = acc_users a @ [u]" "acc_user_roles b = acc_user_roles a @ [(uid, role)]"
      "acc_sessions b = acc_sessions a"
    and new: "uid \<notin> usr_id ` set (acc_users a)" "nocase name \<notin> (nocase \<circ> usr_name) ` set (acc_users a)"
  have "w \<in> set (enabled_owners b)" if "w \<in> set (enabled_owners a)" for w
    using that by (auto simp: enabled_owners_mem b)
  then have "has_administrator a \<longrightarrow> has_administrator b"
    unfolding has_administrator_iff ex_in_conv [symmetric] by metis
  then show ?thesis
    using new by (auto simp: keeps_def accounts_ok_def users_ok_def sessions_ok_def b u new_user_def
        unique_key_def)
qed

lemma keeps_set_access:
  assumes "set_user_access uid role ps ss disabled now a = Inr b"
  shows "keeps a b"
  using assms
proof (rule set_user_access_frame)
  assume users: "acc_users b = acc_users (with_access uid disabled now a)"
    and sess: "acc_sessions b = acc_sessions (with_access uid disabled now a)"
    and there: "uid \<in> usr_id ` set (acc_users a)"
    and roles: "acc_user_roles b = delete_where (\<lambda>ur. fst ur = uid) (acc_user_roles a) @ [(uid, role)]"
  let ?f = "\<lambda>u. u\<lparr>usr_disabled := disabled\<rparr>"
  have names: "map (nocase \<circ> usr_name) (acc_users b) = map (nocase \<circ> usr_name) (acc_users a)"
    unfolding users with_access_frame by (rule map_update_where) simp
  have ids: "usr_id ` set (acc_users b) = usr_id ` set (acc_users a)"
    unfolding users with_access_frame by (rule image_update_where) simp
  have uniq: "unique_key usr_id (acc_users b) = unique_key usr_id (acc_users a)"
    unfolding users with_access_frame by (rule unique_update_where) simp
  have rsub: "fst ` set (acc_user_roles b) \<subseteq> insert uid (fst ` set (acc_user_roles a))"
    by (auto simp: roles delete_where_def)
  have "users_ok a \<longrightarrow> users_ok b"
    unfolding users_ok_def names ids uniq using rsub there by blast
  moreover have "sessions_ok a \<longrightarrow> sessions_ok b"
    unfolding sessions_ok_def ids sess
    by (cases disabled)
      (simp_all add: with_access_def Let_def revoke_user_sessions_def session_update_keeps)
  ultimately show ?thesis
    using set_user_access_keeps_administrator [OF assms] by (simp add: keeps_def accounts_ok_def)
qed

lemma distinct_rename:
  assumes "unique_key key t" "distinct (map g t)" "\<forall>v\<in>set t. key v \<noteq> k \<longrightarrow> g v \<noteq> x"
    and "\<And>v. g (f v) = x"
  shows "distinct (map g (update_where (\<lambda>v. key v = k) f t))"
  using assms(1-3)
proof (induction t)
  case (Cons v t)
  let ?t = "update_where (\<lambda>v. key v = k) f t"
  have d: "distinct (map g ?t)" using Cons by (simp add: unique_key_def)
  have mem: "y \<in> g ` set ?t \<longleftrightarrow> (\<exists>w\<in>set t. (if key w = k then x else g w) = y)" for y
    unfolding set_update_where image_image by (auto simp: assms(4))
  have "(if key v = k then x else g v) \<notin> g ` set ?t"
  proof (cases "key v = k")
    case True
    then have "\<forall>w\<in>set t. key w \<noteq> k" using Cons.prems(1) by (auto simp: unique_key_def intro: rev_image_eqI)
    then show ?thesis using True Cons.prems(3) unfolding mem by auto
  next
    case False
    then show ?thesis using Cons.prems(2,3) unfolding mem by (auto intro: rev_image_eqI)
  qed
  moreover have "map g (update_where (\<lambda>v. key v = k) f (v # t)) = (if key v = k then x else g v) # map g ?t"
    by (simp add: update_where_def assms(4))
  ultimately show ?case using d by simp
qed (simp add: update_where_def)

lemma identity_frame:
  assumes "update_user_identity uid name display now a = Inr b"
  obtains u where "select_key usr_id uid (acc_users a) = Some u"
    "\<forall>v\<in>set (acc_users a). usr_id v \<noteq> uid \<longrightarrow> nocase (usr_name v) \<noteq> nocase name"
    "b = (let a1 = a\<lparr>acc_users := update_where (\<lambda>v. usr_id v = uid)
                        (\<lambda>v. v\<lparr>usr_name := name, usr_display := display\<rparr>) (acc_users a)\<rparr>
          in if usr_name u \<noteq> name then revoke_user_sessions uid now a1 else a1)"
  using assms unfolding update_user_identity_def
  by (auto simp: Let_def split: option.splits if_split_asm)

lemma keeps_identity:
  assumes "update_user_identity uid name display now a = Inr b"
  shows "keeps a b"
  using assms
proof (rule identity_frame)
  fix u
  let ?f = "\<lambda>v. v\<lparr>usr_name := name, usr_display := display\<rparr>"
  let ?a = "a\<lparr>acc_users := update_where (\<lambda>v. usr_id v = uid) ?f (acc_users a)\<rparr>"
  assume other: "\<forall>v\<in>set (acc_users a). usr_id v \<noteq> uid \<longrightarrow> nocase (usr_name v) \<noteq> nocase name"
    and b: "b = (let a1 = ?a in if usr_name u \<noteq> name then revoke_user_sessions uid now a1 else a1)"
  have "keeps a ?a"
    by (rule keeps_update_users) (use other in \<open>auto intro!: distinct_rename\<close>)
  then show ?thesis unfolding b Let_def using keeps_revoke keeps_trans by (auto split: if_splits)
qed

lemma password_frame:
  assumes "change_user_password uid previous hash now a = Inr b"
  shows "b = revoke_user_sessions uid now
      (a\<lparr>acc_users := update_where (\<lambda>u. usr_id u = uid \<and> usr_hash u = previous) (\<lambda>u. u\<lparr>usr_hash := hash\<rparr>) (acc_users a)\<rparr>)"
  using assms unfolding change_user_password_def by (simp add: Let_def split: if_split_asm)

lemma keeps_password:
  assumes "change_user_password uid previous hash now a = Inr b"
  shows "keeps a b"
proof -
  let ?c = "\<lambda>u. usr_id u = uid \<and> usr_hash u = previous" and ?f = "\<lambda>u. u\<lparr>usr_hash := hash\<rparr>"
  have "map (nocase \<circ> usr_name) (update_where ?c ?f (acc_users a)) = map (nocase \<circ> usr_name) (acc_users a)"
    by (rule map_update_where) simp
  then have "keeps a (a\<lparr>acc_users := update_where ?c ?f (acc_users a)\<rparr>)"
    by (intro keeps_update_users) simp_all
  then show ?thesis unfolding password_frame [OF assms] by (rule keeps_trans [OF _ keeps_revoke])
qed

lemma keeps_owner:
  assumes "create_owner uid name display hash now a = Inr (b, u)"
  shows "keeps a b \<and> acc_users a = [] \<and> u = new_user uid name display hash now \<and>
    acc_users b = [u] \<and> acc_user_roles b = acc_user_roles a @ [(uid, ''role_owner'')] \<and>
    acc_sessions b = acc_sessions a"
proof -
  have empty: "acc_users a = []" using assms by (auto simp: create_owner_def user_count_def split: if_splits)
  from assms obtain a1 where
    1: "insert_user (new_user uid name display hash now) a = Inr a1" and
    2: "insert_user_role uid ''role_owner'' a1 = Inr b" and u: "u = new_user uid name display hash now"
    by (auto simp: create_owner_def bind_res_Inr split: if_splits)
  note f = insert_user_frame [OF 1] insert_user_role_frame [OF 2]
  show ?thesis
    using f by (auto simp: u empty keeps_def accounts_ok_def users_ok_def sessions_ok_def
        has_administrator_def enabled_owners_def unique_key_def new_user_def)
qed

lemma keeps_last_login: "keeps a (update_last_login uid now a)"
proof -
  let ?c = "\<lambda>u. usr_id u = uid" and ?f = "\<lambda>u. u\<lparr>usr_last_login := Some now\<rparr>"
  have "map (nocase \<circ> usr_name) (update_where ?c ?f (acc_users a)) = map (nocase \<circ> usr_name) (acc_users a)"
    by (rule map_update_where) simp
  then show ?thesis unfolding update_last_login_def by (intro keeps_update_users) simp_all
qed

lemma set_delete_where: "set (delete_where c t) = {r\<in>set t. \<not> c r}"
  by (auto simp: delete_where_def)

lemma keeps_session_ops:
  "create_session_row sid uid tok csrf now expires a = Inr b \<Longrightarrow> keeps a b"
  "revoke_session sid now a = Inr b \<Longrightarrow> keeps a b"
  "keeps a (cleanup_expired_sessions now a)"
proof -
  show "create_session_row sid uid tok csrf now expires a = Inr b \<Longrightarrow> keeps a b"
    by (rule keeps_sessions)
      (auto simp: create_session_row_def sessions_ok_def unique_key_def image_subset_iff split: if_split_asm)
  show "revoke_session sid now a = Inr b \<Longrightarrow> keeps a b"
  proof -
    assume "revoke_session sid now a = Inr b"
    then have b: "b = a\<lparr>acc_sessions := update_where (\<lambda>s. ses_id s = sid \<and> ses_revoked s = None)
        (\<lambda>s. s\<lparr>ses_revoked := Some now\<rparr>) (acc_sessions a)\<rparr>"
      by (simp add: revoke_session_def Let_def split: if_split_asm)
    show "keeps a b" unfolding b
      by (rule keeps_sessions) (simp_all add: sessions_ok_def session_update_keeps)
  qed
  show "keeps a (cleanup_expired_sessions now a)"
    by (rule keeps_sessions)
      (simp_all add: cleanup_expired_sessions_def sessions_ok_def unique_delete_where set_delete_where
        image_subset_iff)
qed

lemma op_keeps: "keeps a (run_account_op op a)"
proof (cases op)
  case (GrantRole r s)
  show ?thesis unfolding GrantRole run_account_op.simps
    by (rule keeps_or_same, rule keeps_frame) (auto simp: grant_role_resource_permission_def split: if_split_asm)
next
  case (GrantUser i s)
  show ?thesis unfolding GrantUser run_account_op.simps
    by (rule keeps_or_same, rule keeps_frame) (auto simp: grant_user_resource_permission_def split: if_split_asm)
next
  case (WriteAudit r)
  show ?thesis unfolding WriteAudit run_account_op.simps
    by (rule keeps_or_same, rule keeps_frame) (auto simp: write_audit_def split: if_split_asm)
qed (simp_all add: keeps_or_same keeps_or_same_fst keeps_owner keeps_create_user keeps_set_access
    keeps_identity keeps_password keeps_last_login keeps_session_ops)

lemma ops_keep: "keeps a (fold run_account_op ops a)"
  by (induction ops arbitrary: a) (simp, metis fold_simps(2) keeps_trans op_keeps)

lemma session_lookup:
  assumes "session_by_token_hash tok now a = Inr r"
  obtains u where "sr_session r \<in> set (acc_sessions a)" "ses_token_hash (sr_session r) = tok"
    "session_live now (sr_session r)" "select_key usr_id (ses_user (sr_session r)) (acc_users a) = Some u"
    "\<not> usr_disabled u" "sr_account r = account_of u a"
proof -
  obtain s where f: "List.find (\<lambda>s. ses_token_hash s = tok \<and> session_live now s \<and>
              (case select_key usr_id (ses_user s) (acc_users a) of None \<Rightarrow> False | Some u \<Rightarrow> \<not> usr_disabled u))
            (acc_sessions a) = Some s"
    using assms by (auto simp: session_by_token_hash_def split: option.splits)
  then have s: "s \<in> set (acc_sessions a)" "ses_token_hash s = tok" "session_live now s"
    "case select_key usr_id (ses_user s) (acc_users a) of None \<Rightarrow> False | Some u \<Rightarrow> \<not> usr_disabled u"
    by (auto simp: find_Some_iff)
  then obtain u where u: "select_key usr_id (ses_user s) (acc_users a) = Some u" "\<not> usr_disabled u"
    by (auto split: option.splits)
  have "r = \<lparr>sr_session = s, sr_account = account_of u a\<rparr>"
    using assms unfolding session_by_token_hash_def f by (simp add: u)
  then show ?thesis using s(1-3) u by (intro that [of u]) simp_all
qed

lemma account_of_user [simp]: "ar_user (account_of u a) = u"
  by (simp add: account_of_def split: prod.split)

lemma session_user:
  assumes "session_by_token_hash tok now a = Inr r"
  shows "ses_user (sr_session r) = usr_id (ar_user (sr_account r))"
  using assms by (rule session_lookup) (auto dest: select_key_Some)

lemma session_found:
  assumes ok: "accounts_ok a"
    and s: "s \<in> set (acc_sessions a)" "session_live now s"
    and u: "u \<in> set (acc_users a)" "usr_id u = ses_user s" "\<not> usr_disabled u"
  shows "session_by_token_hash (ses_token_hash s) now a = Inr \<lparr>sr_session = s, sr_account = account_of u a\<rparr>"
proof -
  have uu: "unique_key usr_id (acc_users a)" and ut: "unique_key ses_token_hash (acc_sessions a)"
    using ok by (simp_all add: accounts_ok_def users_ok_def sessions_ok_def)
  have su: "select_key usr_id (ses_user s) (acc_users a) = Some u"
    using select_key_unique [OF uu u(1)] u(2) by simp
  let ?P = "\<lambda>x. ses_token_hash x = ses_token_hash s \<and> session_live now x \<and>
            (case select_key usr_id (ses_user x) (acc_users a) of None \<Rightarrow> False | Some u \<Rightarrow> \<not> usr_disabled u)"
  have P: "?P s" using s(2) su u(3) by simp
  then obtain x where x: "List.find ?P (acc_sessions a) = Some x"
    using s(1) by (cases "List.find ?P (acc_sessions a)") (auto simp: find_None_iff)
  then have "x \<in> set (acc_sessions a)" "ses_token_hash x = ses_token_hash s" by (auto simp: find_Some_iff)
  then have "x = s" using select_key_unique [OF ut] s(1) by (metis option.inject)
  then show ?thesis unfolding session_by_token_hash_def x by (simp add: su)
qed

text \<open>No live session of a user: every row of the user is revoked.\<close>

definition no_session_of :: "string \<Rightarrow> accounts \<Rightarrow> bool" where
  "no_session_of uid a = (\<forall>s\<in>set (acc_sessions a). ses_user s = uid \<longrightarrow> ses_revoked s \<noteq> None)"

lemma no_session_authenticates:
  assumes "no_session_of uid a" "session_by_token_hash tok now a = Inr r"
  shows "usr_id (ar_user (sr_account r)) \<noteq> uid"
proof
  assume uid: "usr_id (ar_user (sr_account r)) = uid"
  from assms(2) show False
  proof (rule session_lookup)
    assume "sr_session r \<in> set (acc_sessions a)" "session_live now (sr_session r)"
    then show False using assms(1) uid session_user [OF assms(2)]
      by (auto simp: no_session_of_def session_live_def)
  qed
qed

lemma revoke_no_session: "no_session_of uid (revoke_user_sessions uid now a)"
  unfolding no_session_of_def using revoked_all by blast

section \<open>Properties\<close>

text \<open>C2. Whatever sequence of the store's operations runs (role and access changes, disabling, renames,
  logins, new users), once an enabled administrator exists one exists for ever, and the tables stay
  coherent: unique user ids and (up to case) user names, roles only of existing users, unique session
  ids and tokens, sessions only of existing users.\<close>

theorem administrator_never_lost:
  assumes "accounts_ok a" "has_administrator a"
  shows "accounts_ok (fold run_account_op ops a) \<and> has_administrator (fold run_account_op ops a)"
  using ops_keep [of a ops] assms by (simp add: keeps_def)

definition seed_accounts :: accounts where
  "seed_accounts = \<lparr>acc_users = [],
     acc_roles = [(''role_owner'', ''administrator''), (''role_member'', ''friend''), (''role_parent'', ''parent''),
                  (''role_child'', ''child''), (''role_guest'', ''guest'')],
     acc_permissions = [''system.read'', ''events.read'', ''files.read'', ''files.write''],
     acc_user_roles = [],
     acc_role_permissions = [(''role_owner'', ''system.read''), (''role_owner'', ''events.read''),
       (''role_owner'', ''files.read''), (''role_owner'', ''files.write'')],
     acc_user_permissions = [], acc_role_scopes = [], acc_user_scopes = [], acc_sessions = [],
     acc_audit = [], acc_private_folders = [(''fld_1'', ''usr_2'')]\<rparr>"

definition owned_accounts :: accounts where
  "owned_accounts = fold run_account_op
     [CreateOwner ''usr_1'' ''anna'' ''Anna'' ''h1'' 1, CreateUser ''usr_2'' ''ben'' ''Ben'' ''h2'' ''role_parent'' [] [] 2,
      NewSession ''ses_1'' ''usr_2'' ''t1'' ''c1'' 3 86400000000000] seed_accounts"

lemma owned_accounts_ok: "accounts_ok owned_accounts \<and> has_administrator owned_accounts"
proof -
  have "accounts_ok seed_accounts"
    by (simp add: accounts_ok_def users_ok_def sessions_ok_def unique_key_def seed_accounts_def)
  then have "accounts_ok owned_accounts"
    unfolding owned_accounts_def by (rule ops_keep [unfolded keeps_def, THEN conjunct1, THEN mp])
  moreover have "has_administrator owned_accounts" unfolding has_administrator_def by code_simp
  ultimately show ?thesis by simp
qed

theorem administrator_never_lost_witness:
  "has_administrator (fold run_account_op
     [SetAccess ''usr_1'' ''role_child'' [] [] True 9, ChangePassword ''usr_1'' ''h1'' ''h9'' 9] owned_accounts)"
  using administrator_never_lost [of owned_accounts] owned_accounts_ok by blast

text \<open>A token authenticates exactly when a session row with its hash is not revoked, has an expiry
  whose text is after that of the current time, and belongs to an enabled user; the answer is that row
  with the user's current roles, permissions and scopes.  In time this means: accepted while a second
  or more is left, refused once a second has passed since the expiry.\<close>

theorem session_lookup_exact:
  assumes "accounts_ok a"
  shows "(session_by_token_hash tok now a = Inr r \<longleftrightarrow>
     (\<exists>s\<in>set (acc_sessions a). \<exists>u\<in>set (acc_users a).
        r = \<lparr>sr_session = s, sr_account = account_of u a\<rparr> \<and> ses_token_hash s = tok \<and>
        ses_revoked s = None \<and> rfc3339_nano now < rfc3339_nano (ses_expires s) \<and>
        usr_id u = ses_user s \<and> \<not> usr_disabled u)) \<and>
   (session_by_token_hash tok now a = Inr r \<longrightarrow> now < ses_expires (sr_session r) + nanos_per_second) \<and>
   (\<forall>s\<in>set (acc_sessions a). \<forall>u\<in>set (acc_users a). usr_id u = ses_user s \<longrightarrow>
      \<not> usr_disabled u \<longrightarrow> ses_revoked s = None \<longrightarrow> now + nanos_per_second \<le> ses_expires s \<longrightarrow>
      is_ok (session_by_token_hash (ses_token_hash s) now a))" (is "(_ \<longleftrightarrow> ?row) \<and> _")
proof -
  note found = session_found [OF assms]
  have iff: "session_by_token_hash tok now a = Inr r \<longleftrightarrow> ?row"
  proof
    assume "session_by_token_hash tok now a = Inr r"
    then show ?row
    proof (rule session_lookup)
      fix u
      assume l: "sr_session r \<in> set (acc_sessions a)" "ses_token_hash (sr_session r) = tok"
        "session_live now (sr_session r)" "select_key usr_id (ses_user (sr_session r)) (acc_users a) = Some u"
        "\<not> usr_disabled u" "sr_account r = account_of u a"
      then show ?row
        using select_key_Some [OF l(4)]
        by (intro bexI [of _ "sr_session r"] bexI [of _ u]) (auto simp: session_live_def intro: session_record.equality)
    qed
  next
    assume ?row
    then show "session_by_token_hash tok now a = Inr r" using found by (auto simp: session_live_def)
  qed
  have soon: "now < ses_expires (sr_session r) + nanos_per_second" if "session_by_token_hash tok now a = Inr r"
    using that by (rule session_lookup) (auto simp: session_live_def intro: rfc3339_le_bound less_imp_le)
  have live: "is_ok (session_by_token_hash (ses_token_hash s) now a)"
    if "s \<in> set (acc_sessions a)" "u \<in> set (acc_users a)" "usr_id u = ses_user s" "\<not> usr_disabled u"
      "ses_revoked s = None" "now + nanos_per_second \<le> ses_expires s" for s u
    using found [OF that(1) _ that(2,3,4)] that(5) rfc3339_later [OF that(6)] by (simp add: session_live_def)
  show ?thesis using iff soon live by blast
qed

theorem session_lookup_exact_witness:
  "is_ok (session_by_token_hash ''t1'' 5 owned_accounts)"
proof -
  have ok: "accounts_ok owned_accounts" using owned_accounts_ok by simp
  have "\<exists>s\<in>set (acc_sessions owned_accounts). \<exists>u\<in>set (acc_users owned_accounts).
      ses_token_hash s = ''t1'' \<and> ses_revoked s = None \<and> rfc3339_nano 5 < rfc3339_nano (ses_expires s) \<and>
      usr_id u = ses_user s \<and> \<not> usr_disabled u"
    by code_simp
  then obtain s u where "s \<in> set (acc_sessions owned_accounts)" "u \<in> set (acc_users owned_accounts)"
    "ses_token_hash s = ''t1''" "ses_revoked s = None" "rfc3339_nano 5 < rfc3339_nano (ses_expires s)"
    "usr_id u = ses_user s" "\<not> usr_disabled u" by (elim bexE conjE)
  then have "session_by_token_hash ''t1'' 5 owned_accounts = Inr \<lparr>sr_session = s, sr_account = account_of u owned_accounts\<rparr>"
    using session_lookup_exact [OF ok, of "''t1''" 5] by blast
  then show ?thesis by simp
qed

text \<open>A session can outlive its expiry: the times are compared as texts, where a whole second sorts
  after any fraction of it, so a session that expires on a whole second is still accepted later in
  that second.\<close>

theorem session_outlives_expiry:
  "\<exists>now r. session_by_token_hash ''t1'' now owned_accounts = Inr r \<and> ses_expires (sr_session r) < now"
proof -
  have "case session_by_token_hash ''t1'' 86400900000000 owned_accounts of
      Inl _ \<Rightarrow> False | Inr r \<Rightarrow> ses_expires (sr_session r) < 86400900000000"
    by code_simp
  then show ?thesis by (auto split: sum.splits)
qed

text \<open>C23. Changing a password, disabling an account and renaming a user end every session of the user:
  afterwards no token authenticates as that user, at any time.\<close>

theorem credential_change_ends_sessions:
  assumes "change_user_password uid previous hash now a = Inr b \<or>
      set_user_access uid role ps ss True now a = Inr b \<or>
      update_user_identity uid name display now a = Inr b \<and>
        (\<exists>u. select_key usr_id uid (acc_users a) = Some u \<and> usr_name u \<noteq> name)"
    and "session_by_token_hash tok later b = Inr r"
  shows "usr_id (ar_user (sr_account r)) \<noteq> uid"
proof (rule no_session_authenticates [OF _ assms(2)])
  have cong: "no_session_of uid b" if "acc_sessions b = acc_sessions (revoke_user_sessions uid now c)" for c
    using revoke_no_session [of uid now c] that by (simp add: no_session_of_def)
  from assms(1) show "no_session_of uid b"
  proof (elim disjE)
    assume "change_user_password uid previous hash now a = Inr b"
    then show ?thesis using password_frame cong by metis
  next
    assume "set_user_access uid role ps ss True now a = Inr b"
    then show ?thesis
      by (rule set_user_access_frame) (rule cong, simp add: with_access_def Let_def)
  next
    assume r: "update_user_identity uid name display now a = Inr b \<and>
        (\<exists>u. select_key usr_id uid (acc_users a) = Some u \<and> usr_name u \<noteq> name)"
    then have "update_user_identity uid name display now a = Inr b" by simp
    then show ?thesis
      by (rule identity_frame) (rule cong, use r in \<open>auto simp: Let_def\<close>)
  qed
qed

theorem credential_change_ends_sessions_witness:
  "\<exists>b r. change_user_password ''usr_2'' ''h2'' ''h3'' 6
       (or_same owned_accounts (create_session_row ''ses_2'' ''usr_1'' ''t2'' ''c2'' 6 86400000000000 owned_accounts)) = Inr b \<and>
     session_by_token_hash ''t2'' 7 b = Inr r \<and> usr_id (ar_user (sr_account r)) \<noteq> ''usr_2''"
proof -
  let ?a = "or_same owned_accounts (create_session_row ''ses_2'' ''usr_1'' ''t2'' ''c2'' 6 86400000000000 owned_accounts)"
  have "case change_user_password ''usr_2'' ''h2'' ''h3'' 6 ?a of
      Inl _ \<Rightarrow> False | Inr b \<Rightarrow> is_ok (session_by_token_hash ''t2'' 7 b)"
    by code_simp
  then obtain b r where b: "change_user_password ''usr_2'' ''h2'' ''h3'' 6 ?a = Inr b"
    and r: "session_by_token_hash ''t2'' 7 b = Inr r"
    by (auto simp: is_ok_iff split: sum.splits)
  then show ?thesis using credential_change_ends_sessions [OF disjI1 [OF b] r] by blast
qed

text \<open>The access of a user as sets.\<close>

lemma user_access_sets:
  "user_access uid a = (roles, ps, ss) \<Longrightarrow>
     set roles = snd ` {r\<in>set (acc_roles a). (uid, fst r) \<in> set (acc_user_roles a)} \<and>
     set ps = snd ` {rp\<in>set (acc_role_permissions a). (uid, fst rp) \<in> set (acc_user_roles a)} \<union>
              snd ` {up\<in>set (acc_user_permissions a). fst up = uid} \<and>
     set ss = snd ` {rs\<in>set (acc_role_scopes a). (uid, fst rs) \<in> set (acc_user_roles a)} \<union>
              snd ` {us\<in>set (acc_user_scopes a). fst us = uid}"
proof -
  have r: "role \<in> set (roles_of uid a) \<longleftrightarrow> (uid, role) \<in> set (acc_user_roles a)" for role
    by (force simp: roles_of_def)
  assume "user_access uid a = (roles, ps, ss)"
  then show ?thesis unfolding user_access_def Let_def prod.inject
    by (elim conjE, hypsubst) (simp only: set_sort set_remdups set_append set_map set_filter r)
qed

text \<open>Setting a user's access takes effect exactly: afterwards the user has the one role, is disabled
  or not as asked, and has the permissions of the role and the assigned ones, and the scopes of the
  role, the assigned ones and, always, both scopes of the private folders it owns.  Nobody else's
  access changes.\<close>

theorem set_user_access_effect:
  assumes "set_user_access uid role ps ss disabled now a = Inr b"
    and "user_access uid b = (roles', ps', ss')" "user_access w b = (roles2, ps2, ss2)"
    and "user_access w a = (roles1, ps1, ss1)" "w \<noteq> uid"
  shows "(\<forall>u\<in>set (acc_users b). usr_id u = uid \<longrightarrow> usr_disabled u = disabled) \<and>
    set roles' = snd ` {r\<in>set (acc_roles a). fst r = role} \<and>
    set ps' = snd ` {rp\<in>set (acc_role_permissions a). fst rp = role} \<union> set ps \<and>
    set ss' = snd ` {rs\<in>set (acc_role_scopes a). fst rs = role} \<union> set ss \<union>
      {\<lparr>scope_permission = p, scope_type = ''file_folder'', scope_id = f\<rparr> | p f.
         p \<in> {''files.read'', ''files.write''} \<and> (f, uid) \<in> set (acc_private_folders a)} \<and>
    set roles2 = set roles1 \<and> set ps2 = set ps1 \<and> set ss2 = set ss1"
  using assms(1)
proof (rule set_user_access_frame)
  assume users: "acc_users b = acc_users (with_access uid disabled now a)"
    and ur: "acc_user_roles b = delete_where (\<lambda>ur. fst ur = uid) (acc_user_roles a) @ [(uid, role)]"
    and same: "acc_roles b = acc_roles a" "acc_role_permissions b = acc_role_permissions a"
      "acc_role_scopes b = acc_role_scopes a"
    and up: "set (acc_user_permissions b) = Pair uid ` set ps \<union> {up\<in>set (acc_user_permissions a). fst up \<noteq> uid}"
    and us: "set (acc_user_scopes b) =
       set (private_folder_scopes uid a) \<union> Pair uid ` set ss \<union> {us\<in>set (acc_user_scopes a). fst us \<noteq> uid}"
  have pf: "set (private_folder_scopes uid a) = Pair uid `
      {\<lparr>scope_permission = p, scope_type = ''file_folder'', scope_id = f\<rparr> | p f.
         p \<in> {''files.read'', ''files.write''} \<and> (f, uid) \<in> set (acc_private_folders a)}"
    by (auto simp: private_folder_scopes_def image_iff)
  have r: "(uid, x) \<in> set (acc_user_roles b) \<longleftrightarrow> x = role"
    "(w, x) \<in> set (acc_user_roles b) \<longleftrightarrow> (w, x) \<in> set (acc_user_roles a)" for x
    using assms(5) by (auto simp: ur delete_where_def)
  have img: "snd ` {y \<in> Pair uid ` A \<union> {y\<in>B. fst y \<noteq> uid}. fst y = uid} = A"
    "snd ` {y \<in> Pair uid ` A \<union> {y\<in>B. fst y \<noteq> uid}. fst y = w} = snd ` {y\<in>B. fst y = w}"
    for A :: "'x set" and B :: "(string \<times> 'x) set"
    using assms(5) by force+
  note sets = user_access_sets [OF assms(2)] user_access_sets [OF assms(3)] user_access_sets [OF assms(4)]
  have dis: "\<forall>u\<in>set (acc_users b). usr_id u = uid \<longrightarrow> usr_disabled u = disabled"
  proof (intro ballI impI)
    fix u
    assume "u \<in> set (acc_users b)" "usr_id u = uid"
    moreover obtain v where "u = (if usr_id v = uid then v\<lparr>usr_disabled := disabled\<rparr> else v)"
      using calculation(1) unfolding users with_access_frame set_update_where by blast
    ultimately show "usr_disabled u = disabled" by (cases "usr_id v = uid") simp_all
  qed
  have us': "set (acc_user_scopes b) = Pair uid `
      ({\<lparr>scope_permission = p, scope_type = ''file_folder'', scope_id = f\<rparr> | p f.
         p \<in> {''files.read'', ''files.write''} \<and> (f, uid) \<in> set (acc_private_folders a)} \<union> set ss) \<union>
      {us\<in>set (acc_user_scopes a). fst us \<noteq> uid}"
    unfolding us pf image_Un ..
  show ?thesis
    using dis sets unfolding up us' same r img
    by (simp only: simp_thms) (simp only: Un_assoc Un_commute Un_left_commute)
qed

theorem set_user_access_effect_witness:
  "\<exists>b. set_user_access ''usr_2'' ''role_child'' [''system.read''] [] False 9 owned_accounts = Inr b \<and>
     set (fst (user_access ''usr_2'' b)) = snd ` {r\<in>set (acc_roles owned_accounts). fst r = ''role_child''}"
proof -
  have "is_ok (set_user_access ''usr_2'' ''role_child'' [''system.read''] [] False 9 owned_accounts)"
    by code_simp
  then obtain b where b: "set_user_access ''usr_2'' ''role_child'' [''system.read''] [] False 9 owned_accounts = Inr b"
    by (auto simp: is_ok_iff)
  obtain r p s r2 p2 s2 r1 p1 s1 where
    "user_access ''usr_2'' b = (r, p, s)" "user_access ''usr_1'' b = (r2, p2, s2)"
    "user_access ''usr_1'' owned_accounts = (r1, p1, s1)"
    by (metis prod_cases3)
  from set_user_access_effect [OF b this] show ?thesis
    using b \<open>user_access ''usr_2'' b = (r, p, s)\<close> by simp
qed

end
