(* ===== verification/FileTree.thy ===== *)
theory FileTree
  imports Prelude GoText "HOL-Library.Sublist"
begin

text \<open>
  The part of Go's \<open>os\<close> and \<open>path/filepath\<close> packages on which \<open>src/internal/filedata\<close>
  stands, as the Linux kernel behaves: a tree of entries under absolute paths, path
  resolution that follows symbolic links and \<open>..\<close>, and the system calls as functions of
  the disk.  Every call may also fail for a reason outside the model (no space, an I/O
  error): the outcomes of the next calls are a list in the disk.  Then a small logic of
  pre- and postconditions for operations made of such calls.
\<close>

section \<open>Entries and paths\<close>

text \<open>
  A path is the list of its segments below \<open>/\<close>.  A symbolic link holds its target, absolute
  or relative to the directory of the link.  \<open>Special\<close> is a device, a pipe or a socket.
\<close>

type_synonym path = "string list"

datatype item =
    Regular string
  | Directory
  | Symlink bool path
  | Special

type_synonym tree = "(path \<times> item) list"

definition item_at :: "tree \<Rightarrow> path \<Rightarrow> item option" where
  "item_at t p = (if p = [] then Some Directory else map_of t p)"

definition put :: "path \<Rightarrow> item \<Rightarrow> tree \<Rightarrow> tree" where
  "put p i t = (p, i) # filter (\<lambda>e. fst e \<noteq> p) t"

text \<open>Removal of an entry and of everything below it, and a rename with what is below.\<close>

definition cut :: "path \<Rightarrow> tree \<Rightarrow> tree" where
  "cut p t = filter (\<lambda>e. \<not> prefix p (fst e)) t"

definition graft :: "path \<Rightarrow> path \<Rightarrow> tree \<Rightarrow> tree" where
  "graft a b t =
     map (\<lambda>(q, i). (if prefix a q then b @ drop (length a) q else q, i)) (cut b t)"

definition children :: "tree \<Rightarrow> path \<Rightarrow> (string \<times> item) list" where
  "children t p =
     sort_key fst [(last (fst e), snd e). e \<leftarrow> t, fst e \<noteq> [] \<and> butlast (fst e) = p]"

lemma item_at_Nil [simp]: "item_at t [] = Some Directory"
  by (simp add: item_at_def)

lemma map_of_filter_fst:
  "map_of (filter (\<lambda>e. P (fst e)) t) q = (if P q then map_of t q else None)"
  by (induction t) auto

lemma item_at_put [simp]:
  "p \<noteq> [] \<Longrightarrow> item_at (put p i t) q = (if q = p then Some i else item_at t q)"
  using map_of_filter_fst [of "\<lambda>x. x \<noteq> p" t q] by (simp add: item_at_def put_def)

lemma item_at_cut:
  "p \<noteq> [] \<Longrightarrow> item_at (cut p t) q = (if prefix p q then None else item_at t q)"
  using map_of_filter_fst [of "\<lambda>x. \<not> prefix p x" t q] by (simp add: item_at_def cut_def)

lemma map_of_graft:
  assumes ab: "\<not> prefix a b" "\<not> prefix b a"
    and t: "\<forall>e\<in>set t. \<not> prefix b (fst e)"
  shows "map_of (map (\<lambda>(q, i). (if prefix a q then b @ drop (length a) q else q, i)) t) q =
           (if prefix b q then map_of t (a @ drop (length b) q)
            else if prefix a q then None else map_of t q)"
  using t
proof (induction t)
  case (Cons e t)
  obtain p i where e: "e = (p, i)" by (cases e)
  have nb: "\<not> prefix b p" using Cons.prems by (simp add: e)
  have IH: "map_of (map (\<lambda>(q, i). (if prefix a q then b @ drop (length a) q else q, i)) t) q =
              (if prefix b q then map_of t (a @ drop (length b) q)
               else if prefix a q then None else map_of t q)"
    using Cons by simp
  show ?case
  proof (cases "prefix a p")
    case True
    then obtain r where p: "p = a @ r" by (auto simp: prefix_def)
    have k: "b @ r = q \<longleftrightarrow> prefix b q \<and> p = a @ drop (length b) q"
      by (auto simp: prefix_def p)
    have pq: "prefix a q" if "p = q" using True that by simp
    have d: "drop (length a) p = r" by (simp add: p)
    show ?thesis
    proof (cases "b @ r = q")
      case eq: True
      then have "prefix b q" "a @ drop (length b) q = p" using k by simp_all
      then show ?thesis using True d eq by (simp add: e)
    next
      case ne: False
      then have "prefix b q \<Longrightarrow> p \<noteq> a @ drop (length b) q" using k by blast
      then show ?thesis using True d ne pq IH by (auto simp: e)
    qed
  next
    case False
    then show ?thesis using IH nb by (auto simp: e prefix_def)
  qed
qed simp

lemma item_at_graft:
  assumes "\<not> prefix a b" "\<not> prefix b a"
  shows "item_at (graft a b t) q =
           (if prefix b q then item_at t (a @ drop (length b) q)
            else if prefix a q then None else item_at t q)"
proof -
  have cut: "\<forall>e\<in>set (cut b t). \<not> prefix b (fst e)" by (simp add: cut_def)
  have ne: "a \<noteq> []" "b \<noteq> []" using assms by auto
  note cut_at = map_of_filter_fst [of "\<lambda>x. \<not> prefix b x" t]
  have "\<not> prefix b (a @ drop (length b) q)"
    using assms by (metis prefixE prefixI prefix_same_cases)
  then show ?thesis
    using map_of_graft [OF assms cut, of q] ne
    by (auto simp: item_at_def graft_def cut_def cut_at)
qed

lemma prefix_not_above: "prefix q p \<Longrightarrow> \<not> prefix (p @ [x]) q"
  by (auto dest: prefix_order.trans prefix_length_le)

lemma strict_prefix_snoc: "strict_prefix q (p @ [x]) \<longleftrightarrow> prefix q p"
  using prefix_not_above by (auto simp: strict_prefix_def)

text \<open>Two trees with the same entries, except at the paths in \<open>A\<close>.\<close>

definition same_outside :: "(path \<Rightarrow> bool) \<Rightarrow> tree \<Rightarrow> tree \<Rightarrow> bool" where
  "same_outside A t t' \<longleftrightarrow> (\<forall>q. A q \<or> item_at t' q = item_at t q)"

lemma same_outside_refl [simp]: "same_outside A t t"
  by (simp add: same_outside_def)

lemma same_outside_trans:
  "same_outside A t u \<Longrightarrow> same_outside A u v \<Longrightarrow> same_outside A t v"
  unfolding same_outside_def by metis

lemma same_outside_weaken:
  "same_outside A t u \<Longrightarrow> (\<And>q. A q \<Longrightarrow> B q) \<Longrightarrow> same_outside B t u"
  unfolding same_outside_def by metis

lemma same_outsideD: "same_outside A t u \<Longrightarrow> \<not> A q \<Longrightarrow> item_at u q = item_at t q"
  unfolding same_outside_def by metis

section \<open>Lexical paths\<close>

text \<open>
  \<open>filepath.Clean\<close>, \<open>Base\<close>, \<open>Dir\<close> and \<open>IsAbs\<close> on Unix.  \<open>clean_onto\<close> is the loop of
  \<open>Clean\<close>: what it has kept so far, and the segments still to be read.
\<close>

definition slash :: char where "slash = CHR ''/''"

fun clean_onto :: "bool \<Rightarrow> path \<Rightarrow> path \<Rightarrow> path" where
  "clean_onto rooted out [] = out"
| "clean_onto rooted out (x # xs) =
     (if x = [] \<or> x = ''.'' then clean_onto rooted out xs
      else if x = ''..'' then
        (if out \<noteq> [] \<and> last out \<noteq> ''..'' then clean_onto rooted (butlast out) xs
         else if rooted then clean_onto rooted out xs
         else clean_onto rooted (out @ [x]) xs)
      else clean_onto rooted (out @ [x]) xs)"

definition is_abs :: "string \<Rightarrow> bool" where
  "is_abs s = has_prefix s [slash]"

definition path_clean :: "string \<Rightarrow> string" where
  "path_clean s =
     (let out = clean_onto (is_abs s) [] (split_on slash s)
      in if is_abs s then slash # join_on slash out
         else if out = [] then ''.'' else join_on slash out)"

definition path_base :: "string \<Rightarrow> string" where
  "path_base s =
     (if s = [] then ''.''
      else let s' = rev (dropWhile (\<lambda>c. c = slash) (rev s))
           in if s' = [] then [slash] else last (split_on slash s'))"

definition path_dir :: "string \<Rightarrow> string" where
  "path_dir s =
     path_clean (if slash \<in> set s then join_on slash (butlast (split_on slash s)) @ [slash] else [])"

text \<open>\<open>filepath.Join(p, s)\<close> for an absolute and clean \<open>p\<close>.\<close>

definition join_path :: "path \<Rightarrow> string \<Rightarrow> path" where
  "join_path p s = clean_onto True p (split_on slash s)"

text \<open>A name the kernel takes for an entry of a directory, and nothing else.\<close>

definition plain :: "string \<Rightarrow> bool" where
  "plain s \<longleftrightarrow> s \<noteq> [] \<and> s \<noteq> ''.'' \<and> s \<noteq> ''..'' \<and> slash \<notin> set s"

lemma join_path_plain [simp]: "plain s \<Longrightarrow> join_path p s = p @ [s]"
  by (simp add: join_path_def plain_def split_on_no_sep)

lemma split_plain: "x \<in> set (split_on slash s) \<Longrightarrow> x \<noteq> [] \<Longrightarrow> x \<noteq> ''.'' \<Longrightarrow> x \<noteq> ''..'' \<Longrightarrow> plain x"
  by (simp add: plain_def split_on_parts)

end
