(* ===== verification/NasTables.thy ===== *)
theory NasTables
  imports Accounts FileTree
begin

text \<open>
  \<open>src/internal/state/nas.go\<close> and \<open>nas_management.go\<close>: the tables of pools, folders, quotas and
  settings of the network storage, beside the account tables that hold the grants on folders.
  The migrations 012, 016 and 017 give the constraints.
\<close>

section \<open>Rows\<close>

record pool_row =
  pool_id :: string
  pool_name :: string
  pool_root :: string
  pool_device :: string
  pool_uuid :: string
  pool_reserve :: int
  pool_warning :: int
  pool_created_by :: string
  pool_created :: gotime
  pool_updated :: gotime

text \<open>\<open>fol_owner\<close> is empty where the column is \<open>NULL\<close>.\<close>

record folder_row =
  fol_id :: string
  fol_pool :: string
  fol_name :: string
  fol_kind :: string
  fol_owner :: string
  fol_relative :: string
  fol_quota :: int
  fol_hard :: int
  fol_created_by :: string
  fol_created :: gotime
  fol_updated :: gotime

record nas_folder =
  nf_row :: folder_row
  nf_pool :: pool_row
  nf_project :: nat

text \<open>
  The table of folders is read by the account tables too, as the list of private folders
  with their owners; \<open>with_folders\<close> writes both views.  Project numbers come from an
  \<open>AUTOINCREMENT\<close> key: \<open>nas_last_project\<close> is the largest one ever used.
\<close>

record nas =
  nas_accounts :: accounts
  nas_pools :: "pool_row list"
  nas_folders :: "folder_row list"
  nas_projects :: "(nat \<times> string) list"
  nas_last_project :: nat
  nas_user_quotas :: "(string \<times> int) list"
  nas_settings :: "(string \<times> string) list"

definition private_of :: "folder_row list \<Rightarrow> (string \<times> string) list" where
  "private_of fs = map (\<lambda>f. (fol_id f, fol_owner f)) (filter (\<lambda>f. fol_kind f = ''private'') fs)"

definition with_folders :: "folder_row list \<Rightarrow> nas \<Rightarrow> nas" where
  "with_folders fs s =
     s\<lparr>nas_folders := fs, nas_accounts := (nas_accounts s)\<lparr>acc_private_folders := private_of fs\<rparr>\<rparr>"

section \<open>Pools\<close>

definition default_reserve :: int where "default_reserve = 5"
definition default_warning :: int where "default_warning = 10"

text \<open>The identity is what \<open>newStateID\<close> returns.\<close>

definition user_exists :: "string \<Rightarrow> nas \<Rightarrow> bool" where
  "user_exists uid s \<longleftrightarrow> uid \<in> usr_id ` set (acc_users (nas_accounts s))"

definition create_nas_pool ::
  "string res \<Rightarrow> string \<Rightarrow> string \<Rightarrow> string \<Rightarrow> string \<Rightarrow> string \<Rightarrow> gotime \<Rightarrow> nas \<Rightarrow> (nas \<times> pool_row) res" where
  "create_nas_pool fresh name0 root0 device0 uuid0 created_by now s =
     (let name = trim_space name0; root = path_clean (trim_space root0);
          device = trim_space device0; uuid = trim_space uuid0 in
      if name = [] then Inl (Err ''NAS pool name is required'')
      else if root = ''.'' \<or> \<not> is_abs root then Inl (Err ''NAS pool root path must be absolute'')
      else if device = [] then Inl (Err ''NAS pool storage device path is required'')
      else bind_res fresh (\<lambda>i.
        if i \<in> pool_id ` set (nas_pools s) \<or> nocase name \<in> (nocase \<circ> pool_name) ` set (nas_pools s) \<or>
           root \<in> pool_root ` set (nas_pools s)
        then Inl ErrNASPoolExists
        else if created_by \<noteq> [] \<and> \<not> user_exists created_by s
        then Inl (Wrap ''create NAS pool: '' (ErrDB ''FOREIGN KEY constraint failed''))
        else let p = \<lparr>pool_id = i, pool_name = name, pool_root = root, pool_device = device,
                  pool_uuid = uuid, pool_reserve = default_reserve, pool_warning = default_warning,
                  pool_created_by = created_by, pool_created = now, pool_updated = now\<rparr>
             in Inr (s\<lparr>nas_pools := nas_pools s @ [p]\<rparr>, p)))"

definition list_nas_pools :: "nas \<Rightarrow> pool_row list" where
  "list_nas_pools s = sort_key (nocase \<circ> pool_name) (nas_pools s)"

definition nas_pool :: "string \<Rightarrow> nas \<Rightarrow> pool_row res" where
  "nas_pool i s =
     (case select_key pool_id (trim_space i) (nas_pools s) of
        None \<Rightarrow> Inl ErrNASPoolNotFound | Some p \<Rightarrow> Inr p)"

definition update_capacity_policy ::
  "string \<Rightarrow> int \<Rightarrow> int \<Rightarrow> gotime \<Rightarrow> nas \<Rightarrow> (nas \<times> pool_row) res" where
  "update_capacity_policy i reserve warning now s =
     (if reserve < 0 \<or> reserve > 50
      then Inl (Err ''NAS pool reserve percent must be between 0 and 50'')
      else if warning < 0 \<or> warning > 95
      then Inl (Err ''NAS pool warning percent must be between 0 and 95'')
      else if warning \<noteq> 0 \<and> warning < reserve
      then Inl (Err ''NAS pool warning percent must be zero or at least the reserve percent'')
      else let c = (\<lambda>p. pool_id p = trim_space i) in
        if rows_matching c (nas_pools s) = 0 then Inl ErrNASPoolNotFound
        else let s' = s\<lparr>nas_pools := update_where c
                   (\<lambda>p. p\<lparr>pool_reserve := reserve, pool_warning := warning, pool_updated := now\<rparr>) (nas_pools s)\<rparr>
             in bind_res (nas_pool i s') (\<lambda>p. Inr (s', p)))"

section \<open>Folders\<close>

definition project_of :: "string \<Rightarrow> nas \<Rightarrow> nat" where
  "project_of i s = (case List.find (\<lambda>p. snd p = i) (nas_projects s) of None \<Rightarrow> 0 | Some p \<Rightarrow> fst p)"

definition folder_view :: "nas \<Rightarrow> folder_row \<Rightarrow> nas_folder option" where
  "folder_view s f =
     map_option (\<lambda>p. \<lparr>nf_row = f, nf_pool = p, nf_project = project_of (fol_id f) s\<rparr>)
       (select_key pool_id (fol_pool f) (nas_pools s))"

definition get_nas_folder :: "string \<Rightarrow> nas \<Rightarrow> nas_folder res" where
  "get_nas_folder i s =
     (case Option.bind (select_key fol_id (trim_space i) (nas_folders s)) (folder_view s) of
        None \<Rightarrow> Inl ErrNASFolderNotFound | Some f \<Rightarrow> Inr f)"

definition list_nas_folders :: "nas \<Rightarrow> nas_folder list" where
  "list_nas_folders s =
     List.map_filter (folder_view s) (sort_key (\<lambda>f. (fol_kind f, nocase (fol_name f))) (nas_folders s))"

definition folder_scope :: "string \<Rightarrow> string \<Rightarrow> permission_scope" where
  "folder_scope p i = \<lparr>scope_permission = p, scope_type = ''file_folder'', scope_id = i\<rparr>"

definition relative_path :: "string \<Rightarrow> string \<Rightarrow> string \<Rightarrow> string" where
  "relative_path kind owner i =
     (if kind = ''private'' then ''users/'' @ owner @ ''/'' @ i else ''shared/'' @ i)"

definition insert_folder :: "folder_row \<Rightarrow> nas \<Rightarrow> nas res" where
  "insert_folder f s =
     (if fol_id f \<in> fol_id ` set (nas_folders s) \<or>
         (fol_pool f, fol_relative f) \<in> (\<lambda>g. (fol_pool g, fol_relative g)) ` set (nas_folders s)
      then Inl ErrNASFolderExists
      else if fol_created_by f \<noteq> [] \<and> \<not> user_exists (fol_created_by f) s
      then Inl (Wrap ''create NAS folder: '' (ErrDB ''FOREIGN KEY constraint failed''))
      else Inr (with_folders (nas_folders s @ [f]) s))"

definition grant_owner :: "string \<Rightarrow> string \<Rightarrow> nas \<Rightarrow> nas res" where
  "grant_owner owner i s =
     (if {''files.read'', ''files.write''} \<subseteq> set (acc_permissions (nas_accounts s))
      then Inr (s\<lparr>nas_accounts := (nas_accounts s)\<lparr>acc_user_scopes :=
             set_add (owner, folder_scope ''files.write'' i)
               (set_add (owner, folder_scope ''files.read'' i) (acc_user_scopes (nas_accounts s)))\<rparr>\<rparr>)
      else Inl (Wrap ''grant private folder permission: '' (ErrDB ''FOREIGN KEY constraint failed'')))"

definition insert_project :: "string \<Rightarrow> nas \<Rightarrow> nas res" where
  "insert_project i s =
     (if i \<in> snd ` set (nas_projects s) then Inl (ErrDB ''UNIQUE constraint failed'')
      else Inr (s\<lparr>nas_projects := nas_projects s @ [(nas_last_project s + 1, i)],
                 nas_last_project := nas_last_project s + 1\<rparr>))"

definition create_nas_folder ::
  "(nat \<Rightarrow> nat) \<Rightarrow> string res \<Rightarrow> string \<Rightarrow> string \<Rightarrow> string \<Rightarrow> string \<Rightarrow> string \<Rightarrow> gotime \<Rightarrow> nas \<Rightarrow> (nas \<times> nas_folder) res" where
  "create_nas_folder low fresh pool name0 kind0 owner0 created_by now s =
     (let name = trim_space name0; kind = to_lower low (trim_space kind0); owner1 = trim_space owner0 in
      if name = [] then Inl (Err ''NAS folder name is required'')
      else if kind \<noteq> ''private'' \<and> kind \<noteq> ''shared'' then Inl (Err ''NAS folder kind must be private or shared'')
      else if kind = ''private'' \<and> owner1 = [] then Inl (Err ''private NAS folder requires an owner user'')
      else let owner = (if kind = ''shared'' then [] else owner1) in
        case select_key pool_id pool (nas_pools s) of
          None \<Rightarrow> Inl ErrNASPoolNotFound
        | Some p \<Rightarrow>
            if kind = ''private'' \<and> \<not> user_exists owner s
            then Inl (Err ''NAS folder owner user does not exist'')
            else bind_res fresh (\<lambda>i.
              let f = \<lparr>fol_id = i, fol_pool = pool, fol_name = name, fol_kind = kind, fol_owner = owner,
                       fol_relative = relative_path kind owner i, fol_quota = 0, fol_hard = 0,
                       fol_created_by = created_by, fol_created = now, fol_updated = now\<rparr> in
              bind_res (insert_folder f s) (\<lambda>s1.
              bind_res (if kind = ''private'' then grant_owner owner i s1 else Inr s1) (\<lambda>s2.
              bind_res (insert_project i s2) (\<lambda>s3.
              Inr (s3, \<lparr>nf_row = f, nf_pool = p, nf_project = 0\<rparr>))))))"

definition delete_nas_folder :: "string \<Rightarrow> nas \<Rightarrow> nas res" where
  "delete_nas_folder i s =
     (if rows_matching (\<lambda>f. fol_id f = i) (nas_folders s) = 0 then Inl ErrNoRows
      else let on_folder = (\<lambda>g :: string \<times> permission_scope.
                 scope_type (snd g) = ''file_folder'' \<and> scope_id (snd g) = i);
               a = nas_accounts s
           in Inr (with_folders (delete_where (\<lambda>f. fol_id f = i) (nas_folders s))
                (s\<lparr>nas_accounts := a\<lparr>acc_user_scopes := delete_where on_folder (acc_user_scopes a),
                     acc_role_scopes := delete_where on_folder (acc_role_scopes a)\<rparr>\<rparr>)))"

section \<open>Access, quotas and settings\<close>

record folder_access =
  fa_user :: string
  fa_read :: bool
  fa_write :: bool

definition folder_grants :: "string \<Rightarrow> nas \<Rightarrow> (string \<times> permission_scope) list" where
  "folder_grants i s =
     filter (\<lambda>g. scope_type (snd g) = ''file_folder'' \<and> scope_id (snd g) = i \<and>
               scope_permission (snd g) \<in> {''files.read'', ''files.write''})
       (acc_user_scopes (nas_accounts s))"

definition nas_folder_access :: "string \<Rightarrow> nas \<Rightarrow> folder_access list" where
  "nas_folder_access i s =
     (let g = folder_grants i s
      in map (\<lambda>u. \<lparr>fa_user = u, fa_read = (u, folder_scope ''files.read'' i) \<in> set g,
                   fa_write = (u, folder_scope ''files.write'' i) \<in> set g\<rparr>)
           (sort (remdups (map fst g))))"

text \<open>The map \<open>grants\<close> of the source, in the order of its insertions.\<close>

fun collect_grants :: "nas \<Rightarrow> folder_access list \<Rightarrow> (string \<times> folder_access) list \<Rightarrow> (string \<times> folder_access) list res" where
  "collect_grants s [] g = Inr g"
| "collect_grants s (x # xs) g =
     (let u = trim_space (fa_user x) in
      if \<not> user_exists u s then Inl (Errf ''unknown folder user %q'' [u])
      else collect_grants s xs
             (AList.update u \<lparr>fa_user = u, fa_read = fa_read x \<or> fa_write x, fa_write = fa_write x\<rparr> g))"

definition with_owner :: "string \<Rightarrow> (string \<times> folder_access) list \<Rightarrow> (string \<times> folder_access) list" where
  "with_owner owner g =
     (if owner \<noteq> [] then AList.update owner \<lparr>fa_user = owner, fa_read = True, fa_write = True\<rparr> g else g)"

definition grant_rows :: "string \<Rightarrow> (string \<times> folder_access) list \<Rightarrow> (string \<times> permission_scope) list" where
  "grant_rows i g =
     concat (map (\<lambda>(u, x). (if fa_read x then [(fa_user x, folder_scope ''files.read'' i)] else []) @
                           (if fa_write x then [(fa_user x, folder_scope ''files.write'' i)] else [])) g)"

definition replace_grants :: "string \<Rightarrow> (string \<times> permission_scope) list \<Rightarrow> nas \<Rightarrow> nas res" where
  "replace_grants i rows s =
     (let a = nas_accounts s;
          kept = delete_where (\<lambda>g. g \<in> set (folder_grants i s)) (acc_user_scopes a) in
      if (\<exists>r\<in>set rows. scope_permission (snd r) \<notin> set (acc_permissions a)) \<or>
         (\<exists>r\<in>set rows. fst r \<notin> usr_id ` set (acc_users a)) \<or> \<not> distinct (kept @ rows)
      then Inl (ErrDB ''constraint failed'')
      else Inr (s\<lparr>nas_accounts := a\<lparr>acc_user_scopes := kept @ rows\<rparr>\<rparr>))"

definition update_folder_management ::
  "string \<Rightarrow> string \<Rightarrow> int \<Rightarrow> int \<Rightarrow> folder_access list \<Rightarrow> gotime \<Rightarrow> nas \<Rightarrow> nas res" where
  "update_folder_management i name0 quota hard access now s =
     (let name = trim_space name0 in
      if name = [] \<or> length name > 128 \<or> contains_any name [CHR 0x00, CHR 0x0D, CHR 0x0A]
      then Inl (Err ''folder name must contain 1 to 128 characters'')
      else if quota < 0 \<or> hard < 0 then Inl (Err ''quota must not be negative'')
      else case select_key fol_id i (nas_folders s) of
        None \<Rightarrow> Inl ErrNASFolderNotFound
      | Some f \<Rightarrow>
          bind_res (collect_grants s access []) (\<lambda>g.
          replace_grants i (grant_rows i (with_owner (fol_owner f) g))
            (with_folders (update_where (\<lambda>f. fol_id f = i)
               (\<lambda>f. f\<lparr>fol_name := name, fol_quota := quota, fol_hard := hard, fol_updated := now\<rparr>) (nas_folders s)) s)))"

definition nas_setting :: "string \<Rightarrow> nas \<Rightarrow> string" where
  "nas_setting name s = (case map_of (nas_settings s) name of None \<Rightarrow> [] | Some v \<Rightarrow> v)"

definition set_nas_setting :: "string \<Rightarrow> string \<Rightarrow> nas \<Rightarrow> nas" where
  "set_nas_setting name v s = s\<lparr>nas_settings := AList.update name v (nas_settings s)\<rparr>"

definition user_quota :: "string \<Rightarrow> nas \<Rightarrow> int" where
  "user_quota uid s = (case map_of (nas_user_quotas s) uid of None \<Rightarrow> 0 | Some q \<Rightarrow> q)"

definition set_user_quota :: "string \<Rightarrow> int \<Rightarrow> nas \<Rightarrow> nas res" where
  "set_user_quota uid0 quota s =
     (let uid = trim_space uid0 in
      if quota < 0 then Inl (Err ''quota must not be negative'')
      else if \<not> user_exists uid s then Inl (ErrDB ''FOREIGN KEY constraint failed'')
      else Inr (s\<lparr>nas_user_quotas := AList.update uid quota (nas_user_quotas s)\<rparr>))"

section \<open>What the tables keep\<close>

definition pool_ok :: "pool_row \<Rightarrow> bool" where
  "pool_ok p \<longleftrightarrow>
     0 \<le> pool_reserve p \<and> pool_reserve p \<le> 50 \<and> 0 \<le> pool_warning p \<and> pool_warning p \<le> 95 \<and>
     (pool_warning p = 0 \<or> pool_reserve p \<le> pool_warning p) \<and> is_abs (pool_root p) \<and> pool_device p \<noteq> []"

definition owner_grants :: "accounts \<Rightarrow> string \<times> string \<Rightarrow> bool" where
  "owner_grants a fo \<longleftrightarrow>
     (\<forall>p\<in>{''files.read'', ''files.write''}. (snd fo, folder_scope p (fst fo)) \<in> set (acc_user_scopes a))"

definition folder_ok :: "nas \<Rightarrow> folder_row \<Rightarrow> bool" where
  "folder_ok s f \<longleftrightarrow>
     fol_pool f \<in> pool_id ` set (nas_pools s) \<and>
     (fol_kind f = ''private'' \<and> fol_owner f \<noteq> [] \<and> user_exists (fol_owner f) s \<or>
      fol_kind f = ''shared'' \<and> fol_owner f = []) \<and>
     fol_relative f = relative_path (fol_kind f) (fol_owner f) (fol_id f) \<and>
     0 \<le> fol_quota f \<and> 0 \<le> fol_hard f \<and> fol_id f \<in> snd ` set (nas_projects s)"

definition projects_ok :: "nas \<Rightarrow> bool" where
  "projects_ok s \<longleftrightarrow>
     distinct (map fst (nas_projects s)) \<and> distinct (map snd (nas_projects s)) \<and>
     (\<forall>p\<in>set (nas_projects s). 0 < fst p \<and> fst p \<le> nas_last_project s)"

definition nas_ok :: "nas \<Rightarrow> bool" where
  "nas_ok s \<longleftrightarrow>
     unique_key pool_id (nas_pools s) \<and> unique_key (nocase \<circ> pool_name) (nas_pools s) \<and>
     unique_key pool_root (nas_pools s) \<and> (\<forall>p\<in>set (nas_pools s). pool_ok p) \<and>
     unique_key fol_id (nas_folders s) \<and> (\<forall>f\<in>set (nas_folders s). folder_ok s f) \<and>
     acc_private_folders (nas_accounts s) = private_of (nas_folders s) \<and>
     (\<forall>fo\<in>set (private_of (nas_folders s)). owner_grants (nas_accounts s) fo) \<and>
     projects_ok s \<and>
     distinct (map fst (nas_user_quotas s)) \<and> (\<forall>q\<in>set (nas_user_quotas s). 0 \<le> snd q \<and> user_exists (fst q) s)"

datatype nas_op =
    AccountOp account_op
  | CreatePool "string res" string string string string string gotime
  | CapacityPolicy string int int gotime
  | CreateFolder "string res" string string string string string gotime
  | DeleteFolder string
  | ManageFolder string string int int "folder_access list" gotime
  | SetSetting string string
  | SetQuota string int

fun run_nas_op :: "(nat \<Rightarrow> nat) \<Rightarrow> nas_op \<Rightarrow> nas \<Rightarrow> nas" where
  "run_nas_op low (AccountOp op) s = s\<lparr>nas_accounts := run_account_op op (nas_accounts s)\<rparr>"
| "run_nas_op low (CreatePool i n r d u c t) s = or_same_fst s (create_nas_pool i n r d u c t s)"
| "run_nas_op low (CapacityPolicy i r w t) s = or_same_fst s (update_capacity_policy i r w t s)"
| "run_nas_op low (CreateFolder i p n k ow c t) s = or_same_fst s (create_nas_folder low i p n k ow c t s)"
| "run_nas_op low (DeleteFolder i) s = or_same s (delete_nas_folder i s)"
| "run_nas_op low (ManageFolder i n q h acc t) s = or_same s (update_folder_management i n q h acc t s)"
| "run_nas_op low (SetSetting n v) s = set_nas_setting n v s"
| "run_nas_op low (SetQuota u q) s = or_same s (set_user_quota u q s)"

lemma or_same_cases: "P s \<Longrightarrow> (\<And>b. r = Inr b \<Longrightarrow> P b) \<Longrightarrow> P (or_same s r)"
  by (cases r) (simp_all add: or_same_def)

lemma or_same_fst_cases: "P s \<Longrightarrow> (\<And>b x. r = Inr (b, x) \<Longrightarrow> P b) \<Longrightarrow> P (or_same_fst s r)"
  by (cases r) (auto simp: or_same_fst_def)

text \<open>Operations on accounts keep what the tables of the network storage rely on.\<close>

definition keeps_folders :: "accounts \<Rightarrow> accounts \<Rightarrow> bool" where
  "keeps_folders a b \<longleftrightarrow>
     acc_private_folders b = acc_private_folders a \<and>
     usr_id ` set (acc_users a) \<subseteq> usr_id ` set (acc_users b) \<and>
     (\<forall>fo\<in>set (acc_private_folders a). owner_grants a fo \<longrightarrow> owner_grants b fo)"

lemma keeps_folders_refl [simp]: "keeps_folders a a"
  by (simp add: keeps_folders_def)

lemma keeps_folders_frame:
  "acc_private_folders b = acc_private_folders a \<Longrightarrow>
   usr_id ` set (acc_users a) \<subseteq> usr_id ` set (acc_users b) \<Longrightarrow>
   set (acc_user_scopes a) \<subseteq> set (acc_user_scopes b) \<Longrightarrow> keeps_folders a b"
  by (auto simp: keeps_folders_def owner_grants_def)

lemma private_folder_scopes_mem:
  "(u, sc) \<in> set (private_folder_scopes uid a) \<longleftrightarrow>
     u = uid \<and> (\<exists>i p. (i, uid) \<in> set (acc_private_folders a) \<and> p \<in> {''files.read'', ''files.write''} \<and>
       sc = folder_scope p i)"
  by (auto simp: private_folder_scopes_def folder_scope_def)

lemma keeps_folders_set_access:
  assumes "set_user_access uid role ps ss disabled now a = Inr b"
  shows "keeps_folders a b"
  using assms
proof (rule set_user_access_frame)
  assume users: "acc_users b = acc_users (with_access uid disabled now a)"
    and priv: "acc_private_folders b = acc_private_folders a"
    and scopes: "set (acc_user_scopes b) =
       set (private_folder_scopes uid a) \<union> Pair uid ` set ss \<union> {us\<in>set (acc_user_scopes a). fst us \<noteq> uid}"
  have "usr_id ` set (acc_users b) = usr_id ` set (acc_users a)"
    unfolding users with_access_frame by (rule image_update_where) simp
  moreover have "owner_grants b fo" if "fo \<in> set (acc_private_folders a)" "owner_grants a fo" for fo
  proof (cases "snd fo = uid")
    case True
    then have "(fst fo, uid) \<in> set (acc_private_folders a)" using that(1) by (metis prod.collapse)
    then show ?thesis unfolding owner_grants_def scopes True by (auto simp: private_folder_scopes_mem)
  next
    case False
    then show ?thesis using that(2) unfolding owner_grants_def scopes by simp
  qed
  ultimately show ?thesis by (simp add: keeps_folders_def priv)
qed

lemma keeps_folders_create_user:
  assumes "create_user_with_access uid name display hash role ps ss now a = Inr (b, u)"
  shows "keeps_folders a b"
  using assms by (rule create_user_frame) (rule keeps_folders_frame, auto)

lemma keeps_folders_create_owner:
  assumes "create_owner uid name display hash now a = Inr (b, u)"
  shows "keeps_folders a b"
  using assms
  by (intro keeps_folders_frame)
    (auto simp: create_owner_def bind_res_Inr insert_user_def insert_user_role_def split: if_splits)

lemma keeps_folders_users:
  assumes "\<And>u. usr_id (f u) = usr_id u"
  shows "keeps_folders a (a\<lparr>acc_users := update_where c f (acc_users a)\<rparr>)"
  using image_update_where [of usr_id f c "acc_users a"] assms by (intro keeps_folders_frame) auto

lemma keeps_folders_trans: "keeps_folders a b \<Longrightarrow> keeps_folders b c \<Longrightarrow> keeps_folders a c"
  unfolding keeps_folders_def by (metis subset_trans)

lemma keeps_folders_revoke: "keeps_folders a (revoke_user_sessions uid now a)"
  by (rule keeps_folders_frame) (simp_all add: revoke_frame)

lemma keeps_folders_op: "keeps_folders a (run_account_op op a)"
proof (cases op)
  case (CreateOwner i n d h t)
  then show ?thesis by (auto simp: or_same_fst_def split: sum.split dest: keeps_folders_create_owner)
next
  case (CreateUser i n d h r ps ss t)
  then show ?thesis by (auto simp: or_same_fst_def split: sum.split dest: keeps_folders_create_user)
next
  case (SetAccess i r ps ss dis t)
  then show ?thesis by (auto simp: or_same_def split: sum.split dest: keeps_folders_set_access)
next
  case (UpdateIdentity i n d t)
  have "keeps_folders a b" if "update_user_identity i n d t a = Inr b" for b
  proof -
    let ?a = "a\<lparr>acc_users := update_where (\<lambda>v. usr_id v = i) (\<lambda>v. v\<lparr>usr_name := n, usr_display := d\<rparr>) (acc_users a)\<rparr>"
    have "b = ?a \<or> b = revoke_user_sessions i t ?a"
      using that by (auto simp: update_user_identity_def Let_def split: option.splits if_splits)
    moreover have "keeps_folders a ?a" by (rule keeps_folders_users) simp
    ultimately show ?thesis using keeps_folders_trans [OF _ keeps_folders_revoke] by blast
  qed
  then show ?thesis using UpdateIdentity by (auto simp: or_same_def split: sum.split)
next
  case (ChangePassword i p h t)
  have "keeps_folders a b" if "change_user_password i p h t a = Inr b" for b
    using that keeps_folders_trans [OF keeps_folders_users keeps_folders_revoke]
    by (auto simp: change_user_password_def Let_def split: if_splits)
  then show ?thesis using ChangePassword by (auto simp: or_same_def split: sum.split)
next
  case (LastLogin i t)
  then show ?thesis by (simp add: update_last_login_def keeps_folders_users)
qed (auto intro!: keeps_folders_frame simp: or_same_def grant_role_resource_permission_def grant_user_resource_permission_def create_session_row_def
      revoke_session_def cleanup_expired_sessions_def write_audit_def Let_def split: sum.split if_splits)

text \<open>Each operation of the tables keeps them.\<close>

lemma folder_ok_mono:
  assumes "folder_ok s f" and "pool_id ` set (nas_pools s) \<subseteq> pool_id ` set (nas_pools t)"
    and "\<And>u. user_exists u s \<Longrightarrow> user_exists u t" and "snd ` set (nas_projects s) \<subseteq> snd ` set (nas_projects t)"
  shows "folder_ok t f"
  using assms by (auto simp: folder_ok_def)

lemma nas_ok_account_op:
  assumes "nas_ok s" shows "nas_ok (s\<lparr>nas_accounts := run_account_op op (nas_accounts s)\<rparr>)"
proof -
  let ?b = "run_account_op op (nas_accounts s)"
  have k: "acc_private_folders ?b = acc_private_folders (nas_accounts s)"
    "usr_id ` set (acc_users (nas_accounts s)) \<subseteq> usr_id ` set (acc_users ?b)"
    "\<forall>fo\<in>set (acc_private_folders (nas_accounts s)). owner_grants (nas_accounts s) fo \<longrightarrow> owner_grants ?b fo"
    using keeps_folders_op [of "nas_accounts s" op] by (auto simp: keeps_folders_def)
  have users: "user_exists u s \<Longrightarrow> user_exists u (s\<lparr>nas_accounts := ?b\<rparr>)" for u
    using k(2) by (auto simp: user_exists_def)
  have folders: "folder_ok s f \<Longrightarrow> folder_ok (s\<lparr>nas_accounts := ?b\<rparr>) f" for f
    by (erule folder_ok_mono) (simp_all add: users)
  show ?thesis
    using assms k(1,3) users folders unfolding nas_ok_def projects_ok_def by simp
qed

lemma nas_ok_create_pool:
  assumes "nas_ok s" and "create_nas_pool fresh n r d u c t s = Inr (s', p)"
  shows "nas_ok s'"
proof -
  have p: "s' = s\<lparr>nas_pools := nas_pools s @ [p]\<rparr>" "pool_ok p" "pool_id p \<notin> pool_id ` set (nas_pools s)"
    "nocase (pool_name p) \<notin> (nocase \<circ> pool_name) ` set (nas_pools s)" "pool_root p \<notin> pool_root ` set (nas_pools s)"
    using assms(2)
    by (auto simp: create_nas_pool_def Let_def bind_res_Inr pool_ok_def default_reserve_def default_warning_def
        split: if_splits)
  have folders: "folder_ok s f \<Longrightarrow> folder_ok s' f" for f
    by (erule folder_ok_mono) (auto simp: p(1) user_exists_def)
  have "user_exists v s' = user_exists v s" for v by (simp add: user_exists_def p(1))
  then show ?thesis
    using assms(1) p(2-5) folders
    unfolding nas_ok_def projects_ok_def by (simp add: p(1) unique_snoc select_key_None_iff)
qed

lemma nas_ok_policy:
  assumes "nas_ok s" and "update_capacity_policy i r w t s = Inr (s', p)"
  shows "nas_ok s'"
proof -
  let ?f = "\<lambda>p. p\<lparr>pool_reserve := r, pool_warning := w, pool_updated := t\<rparr>"
  let ?u = "update_where (\<lambda>p. pool_id p = trim_space i) ?f (nas_pools s)"
  have s': "s' = s\<lparr>nas_pools := ?u\<rparr>" and r: "0 \<le> r" "r \<le> 50" "0 \<le> w" "w \<le> 95" "w = 0 \<or> r \<le> w"
    using assms(2) by (auto simp: update_capacity_policy_def Let_def bind_res_Inr split: if_splits)
  have pools: "\<forall>p\<in>set ?u. pool_ok p"
    using assms(1) r unfolding nas_ok_def set_update_where pool_ok_def by auto
  have ids: "pool_id ` set ?u = pool_id ` set (nas_pools s)" by (rule image_update_where) simp
  have "folder_ok s f \<Longrightarrow> folder_ok s' f" for f
    by (erule folder_ok_mono) (simp_all add: s' ids user_exists_def)
  moreover have "user_exists v s' = user_exists v s" for v by (simp add: user_exists_def s')
  ultimately show ?thesis
    using assms(1) pools unfolding nas_ok_def projects_ok_def by (simp add: s' unique_update_where)
qed

lemma private_of_append: "private_of (fs @ gs) = private_of fs @ private_of gs"
  by (simp add: private_of_def)

lemma private_of_single: "private_of [f] = (if fol_kind f = ''private'' then [(fol_id f, fol_owner f)] else [])"
  by (simp add: private_of_def)

lemma owner_grants_mono:
  "owner_grants a fo \<Longrightarrow> set (acc_user_scopes a) \<subseteq> set (acc_user_scopes b) \<Longrightarrow> owner_grants b fo"
  by (auto simp: owner_grants_def)

lemma insert_folder_Inr:
  "insert_folder f s = Inr t \<Longrightarrow> t = with_folders (nas_folders s @ [f]) s \<and> fol_id f \<notin> fol_id ` set (nas_folders s)"
  by (auto simp: insert_folder_def split: if_splits)

lemma grant_owner_Inr:
  "grant_owner u i s = Inr t \<Longrightarrow>
   t = s\<lparr>nas_accounts := (nas_accounts s)\<lparr>acc_user_scopes := acc_user_scopes (nas_accounts t)\<rparr>\<rparr> \<and>
   set (acc_user_scopes (nas_accounts t)) = set (acc_user_scopes (nas_accounts s)) \<union>
     {(u, folder_scope ''files.read'' i), (u, folder_scope ''files.write'' i)}"
  by (auto simp: grant_owner_def split: if_splits)

lemma insert_project_Inr:
  "insert_project i s = Inr t \<Longrightarrow>
   t = s\<lparr>nas_projects := nas_projects s @ [(nas_last_project s + 1, i)], nas_last_project := nas_last_project s + 1\<rparr> \<and>
   i \<notin> snd ` set (nas_projects s)"
  by (auto simp: insert_project_def split: if_splits)

text \<open>A folder is created with its grants and its project, or not at all.\<close>

lemma create_folder_frame:
  assumes "create_nas_folder low fresh pool n k ow c t s = Inr (s', v)"
  obtains f g where "f = nf_row v" "s' = s\<lparr>nas_folders := nas_folders s @ [f],
      nas_accounts := (nas_accounts s)\<lparr>acc_private_folders := private_of (nas_folders s @ [f]), acc_user_scopes := g\<rparr>,
      nas_projects := nas_projects s @ [(nas_last_project s + 1, fol_id f)], nas_last_project := nas_last_project s + 1\<rparr>"
    "fol_pool f \<in> pool_id ` set (nas_pools s)" "fol_id f \<notin> fol_id ` set (nas_folders s)"
    "fol_id f \<notin> snd ` set (nas_projects s)"
    "fol_kind f = ''private'' \<and> fol_owner f \<noteq> [] \<and> user_exists (fol_owner f) s \<and>
       set g = set (acc_user_scopes (nas_accounts s)) \<union>
         {(fol_owner f, folder_scope ''files.read'' (fol_id f)), (fol_owner f, folder_scope ''files.write'' (fol_id f))} \<or>
     fol_kind f = ''shared'' \<and> fol_owner f = [] \<and> g = acc_user_scopes (nas_accounts s)"
    "fol_relative f = relative_path (fol_kind f) (fol_owner f) (fol_id f)" "fol_quota f = 0" "fol_hard f = 0"
proof -
  obtain f s1 s2 where f: "f = nf_row v" "fol_pool f = pool" "fol_quota f = 0" "fol_hard f = 0"
      "fol_relative f = relative_path (fol_kind f) (fol_owner f) (fol_id f)"
    and pool: "select_key pool_id pool (nas_pools s) \<noteq> None"
    and kind: "fol_kind f = ''private'' \<and> fol_owner f \<noteq> [] \<and> user_exists (fol_owner f) s \<or>
      fol_kind f = ''shared'' \<and> fol_owner f = []"
    and 1: "insert_folder f s = Inr s1"
    and 2: "(if fol_kind f = ''private'' then grant_owner (fol_owner f) (fol_id f) s1 else Inr s1) = Inr s2"
    and 3: "insert_project (fol_id f) s2 = Inr s'"
    using assms unfolding create_nas_folder_def Let_def
    by (auto simp: bind_res_Inr split: if_split_asm option.split_asm)
  note i = insert_folder_Inr [OF 1] insert_project_Inr [OF 3]
  have "\<exists>g. s2 = s1\<lparr>nas_accounts := (nas_accounts s1)\<lparr>acc_user_scopes := g\<rparr>\<rparr> \<and>
    (if fol_kind f = ''private'' then set g = set (acc_user_scopes (nas_accounts s1)) \<union>
      {(fol_owner f, folder_scope ''files.read'' (fol_id f)), (fol_owner f, folder_scope ''files.write'' (fol_id f))}
     else g = acc_user_scopes (nas_accounts s1))"
    using 2 grant_owner_Inr [of "fol_owner f" "fol_id f" s1 s2] by (cases "fol_kind f = ''private''") auto
  then obtain g where s2: "s2 = s1\<lparr>nas_accounts := (nas_accounts s1)\<lparr>acc_user_scopes := g\<rparr>\<rparr>"
    "if fol_kind f = ''private'' then set g = set (acc_user_scopes (nas_accounts s1)) \<union>
      {(fol_owner f, folder_scope ''files.read'' (fol_id f)), (fol_owner f, folder_scope ''files.write'' (fol_id f))}
     else g = acc_user_scopes (nas_accounts s1)"
    by blast
  have s1: "s1 = with_folders (nas_folders s @ [f]) s" using i by simp
  show ?thesis
  proof (rule that [of f g])
    show "s' = s\<lparr>nas_folders := nas_folders s @ [f],
      nas_accounts := (nas_accounts s)\<lparr>acc_private_folders := private_of (nas_folders s @ [f]), acc_user_scopes := g\<rparr>,
      nas_projects := nas_projects s @ [(nas_last_project s + 1, fol_id f)], nas_last_project := nas_last_project s + 1\<rparr>"
      using i(2) by (simp add: s2(1) s1 with_folders_def)
    show "fol_id f \<notin> snd ` set (nas_projects s)"
      using i(2) by (simp add: s2(1) s1 with_folders_def)
    show "fol_kind f = ''private'' \<and> fol_owner f \<noteq> [] \<and> user_exists (fol_owner f) s \<and>
       set g = set (acc_user_scopes (nas_accounts s)) \<union>
         {(fol_owner f, folder_scope ''files.read'' (fol_id f)), (fol_owner f, folder_scope ''files.write'' (fol_id f))} \<or>
     fol_kind f = ''shared'' \<and> fol_owner f = [] \<and> g = acc_user_scopes (nas_accounts s)"
      using kind s2(2) by (auto simp: s1 with_folders_def)
  qed (use f pool i in \<open>auto simp: select_key_None_iff\<close>)
qed

lemma nas_ok_create_folder:
  assumes "nas_ok s" and "create_nas_folder low fresh pool n k ow c t s = Inr (s', v)"
  shows "nas_ok s'"
  using assms(2)
proof (rule create_folder_frame)
  fix f g
  assume s': "s' = s\<lparr>nas_folders := nas_folders s @ [f],
      nas_accounts := (nas_accounts s)\<lparr>acc_private_folders := private_of (nas_folders s @ [f]), acc_user_scopes := g\<rparr>,
      nas_projects := nas_projects s @ [(nas_last_project s + 1, fol_id f)], nas_last_project := nas_last_project s + 1\<rparr>"
    and f: "fol_pool f \<in> pool_id ` set (nas_pools s)" "fol_id f \<notin> fol_id ` set (nas_folders s)"
      "fol_id f \<notin> snd ` set (nas_projects s)"
    and kind: "fol_kind f = ''private'' \<and> fol_owner f \<noteq> [] \<and> user_exists (fol_owner f) s \<and>
       set g = set (acc_user_scopes (nas_accounts s)) \<union>
         {(fol_owner f, folder_scope ''files.read'' (fol_id f)), (fol_owner f, folder_scope ''files.write'' (fol_id f))} \<or>
     fol_kind f = ''shared'' \<and> fol_owner f = [] \<and> g = acc_user_scopes (nas_accounts s)"
    and rel: "fol_relative f = relative_path (fol_kind f) (fol_owner f) (fol_id f)" "fol_quota f = 0" "fol_hard f = 0"
  have users: "user_exists u s' = user_exists u s" for u by (simp add: s' user_exists_def)
  have old: "folder_ok s h \<Longrightarrow> folder_ok s' h" for h
    by (erule folder_ok_mono) (simp_all add: users, auto simp: s')
  have new: "folder_ok s' f"
    using f kind rel unfolding folder_ok_def users by (auto simp: s')
  have grants: "\<forall>fo\<in>set (private_of (nas_folders s @ [f])). owner_grants (nas_accounts s') fo"
  proof
    fix fo assume "fo \<in> set (private_of (nas_folders s @ [f]))"
    then consider "fo \<in> set (private_of (nas_folders s))" | "fol_kind f = ''private''" "fo = (fol_id f, fol_owner f)"
      unfolding private_of_append private_of_single by (auto split: if_splits)
    then show "owner_grants (nas_accounts s') fo"
    proof cases
      case 1
      then have "owner_grants (nas_accounts s) fo" using assms(1) by (simp add: nas_ok_def)
      then show ?thesis by (rule owner_grants_mono) (use kind in \<open>auto simp: s'\<close>)
    next
      case 2
      then show ?thesis using kind by (auto simp: s' owner_grants_def)
    qed
  qed
  have projects: "projects_ok s'"
    using assms(1) f(3) by (fastforce simp: nas_ok_def projects_ok_def s')
  have rest: "nas_pools s' = nas_pools s" "nas_folders s' = nas_folders s @ [f]"
    "nas_user_quotas s' = nas_user_quotas s" "acc_private_folders (nas_accounts s') = private_of (nas_folders s @ [f])"
    by (simp_all add: s')
  show ?thesis
    using assms(1) old new grants projects f(2)
    unfolding nas_ok_def rest users by (simp add: unique_snoc select_key_None_iff)
qed

lemma private_of_mem: "(i, u) \<in> set (private_of fs) \<longleftrightarrow> (\<exists>f\<in>set fs. fol_kind f = ''private'' \<and> fol_id f = i \<and> fol_owner f = u)"
  by (auto simp: private_of_def)

lemma nas_ok_delete_folder:
  assumes "nas_ok s" and "delete_nas_folder i s = Inr s'"
  shows "nas_ok s'"
proof -
  let ?on = "\<lambda>g :: string \<times> permission_scope. scope_type (snd g) = ''file_folder'' \<and> scope_id (snd g) = i"
  let ?fs = "delete_where (\<lambda>f. fol_id f = i) (nas_folders s)"
  have s': "s' = s\<lparr>nas_folders := ?fs, nas_accounts := (nas_accounts s)\<lparr>acc_private_folders := private_of ?fs,
      acc_user_scopes := delete_where ?on (acc_user_scopes (nas_accounts s)),
      acc_role_scopes := delete_where ?on (acc_role_scopes (nas_accounts s))\<rparr>\<rparr>"
    using assms(2) by (auto simp: delete_nas_folder_def with_folders_def Let_def split: if_splits)
  have users: "user_exists u s' = user_exists u s" for u by (simp add: s' user_exists_def)
  have old: "folder_ok s h \<Longrightarrow> folder_ok s' h" for h
    by (erule folder_ok_mono) (simp_all add: users, simp_all add: s')
  have grants: "owner_grants (nas_accounts s') fo" if "fo \<in> set (private_of ?fs)" for fo
  proof -
    have "fo \<in> set (private_of (nas_folders s))" "fst fo \<noteq> i"
      using that by (auto simp: private_of_def delete_where_def)
    then have "owner_grants (nas_accounts s) fo" "fst fo \<noteq> i" using assms(1) by (simp_all add: nas_ok_def)
    then show ?thesis by (simp add: owner_grants_def s' set_delete_where folder_scope_def)
  qed
  have projects: "projects_ok s'" using assms(1) by (simp add: nas_ok_def projects_ok_def s')
  have rest: "nas_pools s' = nas_pools s" "nas_folders s' = ?fs"
    "nas_user_quotas s' = nas_user_quotas s" "acc_private_folders (nas_accounts s') = private_of ?fs"
    by (simp_all add: s')
  show ?thesis
    using assms(1) old grants projects unique_delete_where [of fol_id "nas_folders s"]
    unfolding nas_ok_def rest users by (simp add: set_delete_where)
qed

text \<open>What a change of the access to a folder writes.\<close>

lemma collect_grants_Inr:
  "collect_grants s xs g = Inr h \<Longrightarrow> distinct (map fst g) \<Longrightarrow> (\<forall>(u, x)\<in>set g. fa_user x = u \<and> user_exists u s) \<Longrightarrow>
   distinct (map fst h) \<and> (\<forall>(u, x)\<in>set h. fa_user x = u \<and> user_exists u s)"
proof (induction s xs g rule: collect_grants.induct)
  case (2 s x xs g)
  let ?u = "trim_space (fa_user x)"
  let ?x = "\<lparr>fa_user = ?u, fa_read = fa_read x \<or> fa_write x, fa_write = fa_write x\<rparr>"
  have u: "user_exists ?u s" and c: "collect_grants s xs (AList.update ?u ?x g) = Inr h"
    using "2.prems"(1) by (auto simp: Let_def split: if_splits)
  have "\<forall>(v, y)\<in>set (AList.update ?u ?x g). fa_user y = v \<and> user_exists v s"
    using "2.prems"(3) u by (induction g) (auto split: if_splits)
  moreover have "distinct (map fst (AList.update ?u ?x g))" using "2.prems"(2) by (rule distinct_update)
  ultimately show ?case using u c by (intro "2.IH" [OF refl]) simp_all
qed simp

lemma with_owner_ok:
  assumes "distinct (map fst g)" and "\<forall>(u, x)\<in>set g. fa_user x = u \<and> user_exists u s"
    and "owner = [] \<or> user_exists owner s"
  shows "distinct (map fst (with_owner owner g)) \<and> (\<forall>(u, x)\<in>set (with_owner owner g). fa_user x = u \<and> user_exists u s)"
proof -
  have "\<forall>(v, y)\<in>set (AList.update owner \<lparr>fa_user = owner, fa_read = True, fa_write = True\<rparr> g).
      fa_user y = v \<and> user_exists v s" if "user_exists owner s"
    using assms(2) that by (induction g) (auto split: if_splits)
  then show ?thesis using assms by (auto simp: with_owner_def distinct_update)
qed

lemma grant_rows_mem:
  assumes "\<forall>(u, x)\<in>set g. fa_user x = u"
  shows "(u, sc) \<in> set (grant_rows i g) \<longleftrightarrow>
    (\<exists>x. (u, x) \<in> set g \<and> (sc = folder_scope ''files.read'' i \<and> fa_read x \<or> sc = folder_scope ''files.write'' i \<and> fa_write x))"
  using assms by (induction g) (auto simp: grant_rows_def)

lemma replace_grants_Inr:
  assumes "replace_grants i rows s = Inr t"
  shows "\<exists>g. t = s\<lparr>nas_accounts := (nas_accounts s)\<lparr>acc_user_scopes := g\<rparr>\<rparr> \<and>
    set g = (set (acc_user_scopes (nas_accounts s)) - set (folder_grants i s)) \<union> set rows"
  using assms by (auto simp: replace_grants_def Let_def set_delete_where split: if_splits)

lemma private_of_update:
  assumes "\<And>f. fol_id (g f) = fol_id f" "\<And>f. fol_kind (g f) = fol_kind f" "\<And>f. fol_owner (g f) = fol_owner f"
  shows "private_of (update_where c g fs) = private_of fs"
  by (induction fs) (simp_all add: private_of_def update_where_def assms)

lemma manage_frame:
  assumes "update_folder_management i n q hq acc t s = Inr s'"
  obtains f h g where "select_key fol_id i (nas_folders s) = Some f" "collect_grants s acc [] = Inr h"
    "trim_space n \<noteq> []" "0 \<le> q" "0 \<le> hq"
    "s' = (with_folders (update_where (\<lambda>f. fol_id f = i)
        (\<lambda>f. f\<lparr>fol_name := trim_space n, fol_quota := q, fol_hard := hq, fol_updated := t\<rparr>) (nas_folders s)) s)
      \<lparr>nas_accounts := (nas_accounts s)\<lparr>acc_private_folders := private_of (nas_folders s), acc_user_scopes := g\<rparr>\<rparr>"
    "set g = (set (acc_user_scopes (nas_accounts s)) - set (folder_grants i s)) \<union>
       set (grant_rows i (with_owner (fol_owner f) h))"
proof -
  let ?u = "update_where (\<lambda>f. fol_id f = i)
     (\<lambda>f. f\<lparr>fol_name := trim_space n, fol_quota := q, fol_hard := hq, fol_updated := t\<rparr>) (nas_folders s)"
  have priv: "private_of ?u = private_of (nas_folders s)"
    by (rule private_of_update) simp_all
  from assms obtain f h where f: "select_key fol_id i (nas_folders s) = Some f" "collect_grants s acc [] = Inr h"
      "trim_space n \<noteq> []" "0 \<le> q" "0 \<le> hq"
    and r: "replace_grants i (grant_rows i (with_owner (fol_owner f) h)) (with_folders ?u s) = Inr s'"
    by (auto simp: update_folder_management_def Let_def bind_res_Inr split: if_splits option.splits)
  have same: "folder_grants i (with_folders ?u s) = folder_grants i s"
    "acc_user_scopes (nas_accounts (with_folders ?u s)) = acc_user_scopes (nas_accounts s)"
    by (simp_all add: folder_grants_def with_folders_def)
  from replace_grants_Inr [OF r] obtain g where
    g: "s' = (with_folders ?u s)\<lparr>nas_accounts := (nas_accounts (with_folders ?u s))\<lparr>acc_user_scopes := g\<rparr>\<rparr>"
      "set g = (set (acc_user_scopes (nas_accounts s)) - set (folder_grants i s)) \<union>
        set (grant_rows i (with_owner (fol_owner f) h))"
    unfolding same by blast
  show ?thesis by (rule that [OF f]) (use g priv in \<open>simp_all add: with_folders_def\<close>)
qed

lemma folder_grants_mem:
  "(u, sc) \<in> set (folder_grants i s) \<longleftrightarrow>
     (u, sc) \<in> set (acc_user_scopes (nas_accounts s)) \<and> sc \<in> {folder_scope ''files.read'' i, folder_scope ''files.write'' i}"
  by (cases sc) (auto simp: folder_grants_def folder_scope_def)

lemma owner_known:
  assumes "nas_ok s" and "select_key fol_id i (nas_folders s) = Some f"
  shows "f \<in> set (nas_folders s)" and "fol_id f = i" and "fol_owner f = [] \<or> user_exists (fol_owner f) s"
    and "fol_kind f = ''private'' \<longleftrightarrow> fol_owner f \<noteq> []"
  using assms select_key_Some [OF assms(2)] by (auto simp: nas_ok_def folder_ok_def)

lemma with_owner_grants: "owner \<noteq> [] \<Longrightarrow> (owner, \<lparr>fa_user = owner, fa_read = True, fa_write = True\<rparr>) \<in> set (with_owner owner g)"
  by (simp add: with_owner_def) (metis map_of_SomeD update_Some_unfold)

lemma nas_ok_manage:
  assumes ok: "nas_ok s" and "update_folder_management i n q hq acc t s = Inr s'"
  shows "nas_ok s'"
  using assms(2)
proof (rule manage_frame)
  fix f h g
  let ?f = "\<lambda>f. f\<lparr>fol_name := trim_space n, fol_quota := q, fol_hard := hq, fol_updated := t\<rparr>"
  let ?u = "update_where (\<lambda>f. fol_id f = i) ?f (nas_folders s)"
  assume f: "select_key fol_id i (nas_folders s) = Some f" and c: "collect_grants s acc [] = Inr h"
    and q: "0 \<le> q" "0 \<le> hq"
    and s': "s' = (with_folders ?u s)
      \<lparr>nas_accounts := (nas_accounts s)\<lparr>acc_private_folders := private_of (nas_folders s), acc_user_scopes := g\<rparr>\<rparr>"
    and g: "set g = (set (acc_user_scopes (nas_accounts s)) - set (folder_grants i s)) \<union>
       set (grant_rows i (with_owner (fol_owner f) h))"
  note own = owner_known [OF ok f]
  have rows: "\<forall>(u, x)\<in>set (with_owner (fol_owner f) h). fa_user x = u"
  proof -
    have "distinct (map fst h)" "\<forall>(u, x)\<in>set h. fa_user x = u \<and> user_exists u s"
      using collect_grants_Inr [OF c] by simp_all
    from with_owner_ok [OF this own(3)] show ?thesis by blast
  qed
  have users: "user_exists u s' = user_exists u s" for u by (simp add: s' user_exists_def)
  have priv: "private_of ?u = private_of (nas_folders s)"
    by (rule private_of_update) simp_all
  have ok2: "folder_ok s' h \<longleftrightarrow> folder_ok s h" for h
    by (simp add: folder_ok_def users, simp add: s' with_folders_def)
  have folders: "\<forall>h\<in>set ?u. folder_ok s' h"
  proof
    fix h assume "h \<in> set ?u"
    then obtain h' where h': "h' \<in> set (nas_folders s)" "h = (if fol_id h' = i then ?f h' else h')"
      unfolding set_update_where by blast
    then have "folder_ok s h'" using ok by (simp add: nas_ok_def)
    then show "folder_ok s' h" unfolding ok2 using h'(2) q by (auto simp: folder_ok_def)
  qed
  have grants: "owner_grants (nas_accounts s') fo" if mem: "fo \<in> set (private_of (nas_folders s))" for fo
  proof (cases "fst fo = i")
    case False
    moreover have "owner_grants (nas_accounts s) fo" using ok mem by (simp add: nas_ok_def)
    ultimately show ?thesis
      by (cases fo) (auto simp: owner_grants_def s' g folder_grants_mem folder_scope_def)
  next
    case True
    obtain u where fo: "fo = (i, u)" using True by (metis prod.collapse)
    then obtain f' where f': "f' \<in> set (nas_folders s)" "fol_kind f' = ''private''" "fol_id f' = i" "fol_owner f' = u"
      using mem by (auto simp: private_of_mem)
    have "select_key fol_id (fol_id f') (nas_folders s) = Some f'"
      by (rule select_key_unique) (use ok f' in \<open>simp_all add: nas_ok_def\<close>)
    then have "f' = f" using f f'(3) by simp
    then have "u \<noteq> []" "fol_owner f = u" using own(4) f' by auto
    then have "(u, folder_scope p i) \<in> set g" if "p \<in> {''files.read'', ''files.write''}" for p
      using with_owner_grants [of u h] that unfolding g Un_iff grant_rows_mem [OF rows]
      by (intro disjI2 exI [of _ "\<lparr>fa_user = u, fa_read = True, fa_write = True\<rparr>"]) auto
    then show ?thesis by (simp add: fo owner_grants_def s')
  qed
  have rest: "nas_pools s' = nas_pools s" "nas_folders s' = ?u" "nas_user_quotas s' = nas_user_quotas s"
    "acc_private_folders (nas_accounts s') = private_of ?u" "projects_ok s' = projects_ok s"
    "unique_key fol_id ?u = unique_key fol_id (nas_folders s)"
    by (simp_all add: s' with_folders_def projects_ok_def priv unique_update_where)
  show ?thesis
    using ok folders grants unfolding nas_ok_def rest priv users by simp
qed

lemma nas_ok_quota:
  assumes "nas_ok s" and "set_user_quota u q s = Inr s'"
  shows "nas_ok s'"
proof -
  let ?q = "AList.update (trim_space u) q (nas_user_quotas s)"
  have q: "0 \<le> q" "user_exists (trim_space u) s" and s': "s' = s\<lparr>nas_user_quotas := ?q\<rparr>"
    using assms(2) by (auto simp: set_user_quota_def Let_def split: if_splits)
  have users: "user_exists v s' = user_exists v s" for v by (simp add: s' user_exists_def)
  have upd: "\<forall>x\<in>set (AList.update v q qs). 0 \<le> snd x \<and> user_exists (fst x) s"
    if "\<forall>x\<in>set qs. 0 \<le> snd x \<and> user_exists (fst x) s" "user_exists v s" for v qs
    using that q(1) by (induction qs) auto
  have "\<forall>x\<in>set ?q. 0 \<le> snd x \<and> user_exists (fst x) s"
    by (rule upd) (use assms(1) q(2) in \<open>simp_all add: nas_ok_def\<close>)
  moreover have "folder_ok s' f \<longleftrightarrow> folder_ok s f" for f by (simp add: folder_ok_def users, simp add: s')
  ultimately show ?thesis
    using assms(1) q unfolding nas_ok_def users by (simp add: s' projects_ok_def distinct_update)
qed

lemma nas_ok_setting: "nas_ok s \<Longrightarrow> nas_ok (set_nas_setting n v s)"
  by (simp add: set_nas_setting_def nas_ok_def projects_ok_def folder_ok_def user_exists_def)

lemma nas_ok_op: "nas_ok s \<Longrightarrow> nas_ok (run_nas_op low op s)"
  by (cases op)
    (auto simp: nas_ok_account_op nas_ok_setting or_same_def or_same_fst_def split: sum.split
      dest: nas_ok_create_pool nas_ok_policy nas_ok_create_folder nas_ok_delete_folder nas_ok_manage nas_ok_quota)

definition new_nas :: "accounts \<Rightarrow> nas" where
  "new_nas a = \<lparr>nas_accounts = a, nas_pools = [], nas_folders = [], nas_projects = [], nas_last_project = 0,
     nas_user_quotas = [], nas_settings = []\<rparr>"

lemma nas_ok_new: "acc_private_folders a = [] \<Longrightarrow> nas_ok (new_nas a)"
  by (simp add: nas_ok_def new_nas_def unique_key_def private_of_def projects_ok_def)

lemma nas_ok_reachable: "nas_ok s \<Longrightarrow> nas_ok (fold (run_nas_op low) ops s)"
  by (induction ops arbitrary: s) (simp_all add: nas_ok_op)

section \<open>Properties\<close>

text \<open>C34. In every state the store can reach, by any sequence of operations on accounts, pools, folders
  and quotas, failed ones included: pool names and roots are unique, reserves are at most the warning,
  folders belong to pools, private ones to users, paths follow the identities, quota projects are
  never shared; and the owner of a private folder can always read and write it, whatever the
  administrators grant or revoke.\<close>

theorem nas_tables_invariant:
  assumes "acc_private_folders a = []" and "s = fold (run_nas_op low) ops (new_nas a)"
  shows "nas_ok s \<and>
     (\<forall>f\<in>set (nas_folders s). fol_kind f = ''private'' \<longrightarrow>
        (\<forall>p\<in>{''files.read'', ''files.write''}.
           folder_scope p (fol_id f) \<in> set (snd (snd (user_access (fol_owner f) (nas_accounts s))))))"
proof -
  have ok: "nas_ok s" unfolding assms(2) by (rule nas_ok_reachable [OF nas_ok_new [OF assms(1)]])
  have "folder_scope p (fol_id f) \<in> set (snd (snd (user_access (fol_owner f) (nas_accounts s))))"
    if f: "f \<in> set (nas_folders s)" "fol_kind f = ''private''" and p: "p \<in> {''files.read'', ''files.write''}" for f p
  proof -
    have "(fol_id f, fol_owner f) \<in> set (private_of (nas_folders s))" using f by (auto simp: private_of_mem)
    then have "owner_grants (nas_accounts s) (fol_id f, fol_owner f)" using ok unfolding nas_ok_def by blast
    then have "(fol_owner f, folder_scope p (fol_id f)) \<in> set (acc_user_scopes (nas_accounts s))"
      using p unfolding owner_grants_def by auto
    then show ?thesis by (force simp: user_access_def Let_def)
  qed
  with ok show ?thesis by blast
qed

definition sample_nas :: nas where
  "sample_nas = new_nas (seed_accounts\<lparr>acc_private_folders := []\<rparr>)"

definition sample_nas_ops :: "nas_op list" where
  "sample_nas_ops =
     [AccountOp (CreateOwner ''usr_1'' ''anna'' ''Anna'' ''h1'' 1),
      AccountOp (CreateUser ''usr_2'' ''ben'' ''Ben'' ''h2'' ''role_parent'' [] [] 2),
      CreatePool (Inr ''nsp_1'') '' Main '' ''/mnt/home-ai-core/data/'' ''/dev/sdb1'' '''' ''usr_1'' 3,
      CreateFolder (Inr ''nsf_1'') ''nsp_1'' ''Ben'' ''Private'' ''usr_2'' ''usr_1'' 4,
      CreateFolder (Inr ''nsf_2'') ''nsp_1'' ''All'' ''shared'' '''' ''usr_1'' 5,
      AccountOp (SetAccess ''usr_2'' ''role_child'' [] [] False 6),
      ManageFolder ''nsf_1'' ''Ben'' 1048576 0 [\<lparr>fa_user = ''usr_2'', fa_read = False, fa_write = False\<rparr>] 7]"

definition plain_lower :: "nat \<Rightarrow> nat" where
  "plain_lower r = (if 65 \<le> r \<and> r \<le> 90 then r + 32 else r)"

definition sample_stored_nas :: nas where
  "sample_stored_nas = fold (run_nas_op plain_lower) sample_nas_ops sample_nas"

lemma sample_stored_folders:
  "map (\<lambda>f. (fol_id f, fol_kind f, fol_owner f, fol_relative f, fol_quota f)) (nas_folders sample_stored_nas) =
     [(''nsf_1'', ''private'', ''usr_2'', ''users/usr_2/nsf_1'', 1048576), (''nsf_2'', ''shared'', [], ''shared/nsf_2'', 0)]"
  by code_simp

theorem nas_tables_invariant_witness:
  "nas_ok sample_stored_nas \<and>
   folder_scope ''files.write'' ''nsf_1'' \<in> set (snd (snd (user_access ''usr_2'' (nas_accounts sample_stored_nas))))"
proof -
  have a: "acc_private_folders (seed_accounts\<lparr>acc_private_folders := []\<rparr>) = []" by simp
  have "\<exists>f\<in>set (nas_folders sample_stored_nas). fol_id f = ''nsf_1'' \<and> fol_kind f = ''private'' \<and> fol_owner f = ''usr_2''"
    using sample_stored_folders by (auto simp: map_eq_Cons_conv)
  then show ?thesis
    using nas_tables_invariant [OF a sample_stored_nas_def [unfolded sample_nas_def]] by auto
qed

text \<open>The entry that counts for a user is the last one that names the user.\<close>

definition asked :: "folder_access list \<Rightarrow> string \<Rightarrow> folder_access option" where
  "asked xs u = List.find (\<lambda>x. trim_space (fa_user x) = u) (rev xs)"

lemma asked_Cons:
  "asked (x # xs) u = (case asked xs u of None \<Rightarrow> if trim_space (fa_user x) = u then Some x else None | Some y \<Rightarrow> Some y)"
proof -
  have "List.find P (ys @ [x]) = (case List.find P ys of None \<Rightarrow> if P x then Some x else None | Some y \<Rightarrow> Some y)"
    for P and ys :: "folder_access list" by (induction ys) auto
  then show ?thesis by (simp add: asked_def)
qed

lemma collect_grants_map:
  "collect_grants s xs g = Inr h \<Longrightarrow>
   map_of h u = (case asked xs u of None \<Rightarrow> map_of g u
     | Some x \<Rightarrow> Some \<lparr>fa_user = u, fa_read = fa_read x \<or> fa_write x, fa_write = fa_write x\<rparr>)"
proof (induction s xs g rule: collect_grants.induct)
  case (2 s x xs g)
  then show ?case
    by (auto simp: Let_def asked_Cons update_conv' split: if_splits option.splits)
qed (simp add: asked_def)

lemma ex_if:
  "(\<exists>x. (if b then x = c else \<exists>y. P y \<and> x = f y) \<and> R x) \<longleftrightarrow> (if b then R c else \<exists>y. P y \<and> R (f y))"
  by auto

text \<open>C37. A change of a folder's settings writes its name and quotas and exactly the requested access: of
  the entries for a user the last one counts, writing includes reading, the owner of a private folder
  keeps both, and no other grant of anyone, no path and no other folder changes.\<close>

theorem folder_management_effect:
  assumes "nas_ok s" and "update_folder_management i n q hq acc t s = Inr s'"
  shows "\<exists>f. select_key fol_id i (nas_folders s) = Some f \<and> trim_space n \<noteq> [] \<and> 0 \<le> q \<and> 0 \<le> hq \<and>
     nas_folders s' = update_where (\<lambda>f. fol_id f = i)
       (\<lambda>f. f\<lparr>fol_name := trim_space n, fol_quota := q, fol_hard := hq, fol_updated := t\<rparr>) (nas_folders s) \<and>
     (\<forall>u sc. (u, sc) \<in> set (acc_user_scopes (nas_accounts s')) \<longleftrightarrow>
        (if sc = folder_scope ''files.read'' i
         then fol_kind f = ''private'' \<and> u = fol_owner f \<or> (\<exists>x. asked acc u = Some x \<and> (fa_read x \<or> fa_write x))
         else if sc = folder_scope ''files.write'' i
         then fol_kind f = ''private'' \<and> u = fol_owner f \<or> (\<exists>x. asked acc u = Some x \<and> fa_write x)
         else (u, sc) \<in> set (acc_user_scopes (nas_accounts s))))"
  using assms(2)
proof (rule manage_frame)
  fix f :: folder_row and h g
  let ?o = "fol_owner f"
  assume f: "select_key fol_id i (nas_folders s) = Some f" and c: "collect_grants s acc [] = Inr h"
    and n: "trim_space n \<noteq> []" "0 \<le> q" "0 \<le> hq"
    and s': "s' = (with_folders (update_where (\<lambda>f. fol_id f = i)
        (\<lambda>f. f\<lparr>fol_name := trim_space n, fol_quota := q, fol_hard := hq, fol_updated := t\<rparr>) (nas_folders s)) s)
      \<lparr>nas_accounts := (nas_accounts s)\<lparr>acc_private_folders := private_of (nas_folders s), acc_user_scopes := g\<rparr>\<rparr>"
    and g: "set g = (set (acc_user_scopes (nas_accounts s)) - set (folder_grants i s)) \<union>
       set (grant_rows i (with_owner ?o h))"
  note own = owner_known [OF assms(1) f]
  have h: "distinct (map fst h)" "\<forall>(u, x)\<in>set h. fa_user x = u \<and> user_exists u s"
    using collect_grants_Inr [OF c] by simp_all
  have w: "distinct (map fst (with_owner ?o h))" "\<forall>(u, x)\<in>set (with_owner ?o h). fa_user x = u"
    using with_owner_ok [OF h own(3)] by auto
  have entry: "(u, x) \<in> set (with_owner ?o h) \<longleftrightarrow>
      (if u = ?o \<and> ?o \<noteq> [] then x = \<lparr>fa_user = u, fa_read = True, fa_write = True\<rparr>
       else \<exists>y. asked acc u = Some y \<and> x = \<lparr>fa_user = u, fa_read = fa_read y \<or> fa_write y, fa_write = fa_write y\<rparr>)" for u x
  proof -
    have "(u, x) \<in> set (with_owner ?o h) \<longleftrightarrow> map_of (with_owner ?o h) u = Some x" using w(1) by simp
    also have "map_of (with_owner ?o h) u =
        (if u = ?o \<and> ?o \<noteq> [] then Some \<lparr>fa_user = u, fa_read = True, fa_write = True\<rparr> else map_of h u)"
      by (simp add: with_owner_def update_conv')
    also have "map_of h u = map_option (\<lambda>y. \<lparr>fa_user = u, fa_read = fa_read y \<or> fa_write y, fa_write = fa_write y\<rparr>) (asked acc u)"
      using collect_grants_map [OF c] by (simp split: option.split)
    finally show ?thesis by auto
  qed
  have differ: "folder_scope ''files.read'' i \<noteq> folder_scope ''files.write'' i" by (simp add: folder_scope_def)
  have "(u, sc) \<in> set g \<longleftrightarrow>
        (if sc = folder_scope ''files.read'' i
         then fol_kind f = ''private'' \<and> u = ?o \<or> (\<exists>x. asked acc u = Some x \<and> (fa_read x \<or> fa_write x))
         else if sc = folder_scope ''files.write'' i
         then fol_kind f = ''private'' \<and> u = ?o \<or> (\<exists>x. asked acc u = Some x \<and> fa_write x)
         else (u, sc) \<in> set (acc_user_scopes (nas_accounts s)))" for u sc
  proof -
    have reads: "(\<exists>x. (u, x) \<in> set (with_owner ?o h) \<and> fa_read x) \<longleftrightarrow>
        u = ?o \<and> ?o \<noteq> [] \<or> (\<exists>x. asked acc u = Some x \<and> (fa_read x \<or> fa_write x))"
      unfolding entry ex_if by (cases "u = ?o \<and> ?o \<noteq> []") (simp, simp only: if_False simp_thms folder_access.select_convs)
    have writes: "(\<exists>x. (u, x) \<in> set (with_owner ?o h) \<and> fa_write x) \<longleftrightarrow>
        u = ?o \<and> ?o \<noteq> [] \<or> (\<exists>x. asked acc u = Some x \<and> fa_write x)"
      unfolding entry ex_if by (cases "u = ?o \<and> ?o \<noteq> []") (simp, simp only: if_False simp_thms folder_access.select_convs)
    consider "sc = folder_scope ''files.read'' i" | "sc = folder_scope ''files.write'' i"
      | "sc \<noteq> folder_scope ''files.read'' i" "sc \<noteq> folder_scope ''files.write'' i" by blast
    then show ?thesis
    proof cases
      case 1
      then show ?thesis using reads differ by (auto simp: g folder_grants_mem grant_rows_mem [OF w(2)] own(4))
    next
      case 2
      then show ?thesis using writes differ by (auto simp: g folder_grants_mem grant_rows_mem [OF w(2)] own(4))
    next
      case 3
      then show ?thesis by (simp add: g folder_grants_mem grant_rows_mem [OF w(2)])
    qed
  qed
  then show ?thesis using f n by (intro exI [of _ f]) (simp add: s' with_folders_def)
qed

theorem folder_management_effect_witness:
  "\<exists>s'. update_folder_management ''nsf_2'' ''Media'' 0 0 [\<lparr>fa_user = ''usr_2'', fa_read = False, fa_write = True\<rparr>] 9
     sample_stored_nas = Inr s' \<and> (''usr_2'', folder_scope ''files.read'' ''nsf_2'') \<in> set (acc_user_scopes (nas_accounts s'))"
proof -
  let ?acc = "[\<lparr>fa_user = ''usr_2'', fa_read = False, fa_write = True\<rparr>]"
  have "is_ok (update_folder_management ''nsf_2'' ''Media'' 0 0 ?acc 9 sample_stored_nas)" by code_simp
  then obtain s' where s': "update_folder_management ''nsf_2'' ''Media'' 0 0 ?acc 9 sample_stored_nas = Inr s'"
    by (auto simp: is_ok_iff)
  have ok: "nas_ok sample_stored_nas"
    unfolding sample_stored_nas_def by (rule nas_ok_reachable) (simp add: sample_nas_def nas_ok_new)
  have "asked ?acc ''usr_2'' = Some \<lparr>fa_user = ''usr_2'', fa_read = False, fa_write = True\<rparr>" by code_simp
  then show ?thesis
    using folder_management_effect [OF ok s'] s' by auto
qed

end
