(* ===== verification/Disk.thy ===== *)
theory Disk
  imports FileTree
begin

text \<open>
  The disk as the operations of \<open>src/internal/filedata\<close> see it: the system calls behind
  the functions of Go's \<open>os\<close> package, the sequencing of fallible calls, and a logic of
  pre- and postconditions with one rule per call.
\<close>

section \<open>Operations on a disk\<close>

text \<open>
  \<open>faults\<close> are the outcomes of the next system calls: \<open>Some (e, n)\<close> makes the call fail
  with \<open>e\<close> for a reason outside the tree, a write after \<open>n\<close> bytes and a recursive removal
  after \<open>n\<close> entries; \<open>None\<close>, or the end of the list, lets the tree decide.
\<close>

datatype trouble = IO_error | No_space | Over_quota | Denied | No_such_call

fun trouble_errno :: "trouble \<Rightarrow> errno" where
  "trouble_errno IO_error = EIO"
| "trouble_errno No_space = ENOSPC"
| "trouble_errno Over_quota = EDQUOT"
| "trouble_errno Denied = EACCES"
| "trouble_errno No_such_call = ENOSYS"

record disk =
  entries :: tree
  faults :: "(trouble \<times> nat) option list"

type_synonym 'a io = "(disk, 'a) op"

section \<open>System calls\<close>

definition sys_call :: "(nat \<Rightarrow> tree \<Rightarrow> tree) \<Rightarrow> (tree \<Rightarrow> errno + 'a \<times> tree) \<Rightarrow> 'a io" where
  "sys_call torn f = (\<lambda>d.
     case faults d of
       Some (e, n) # fs \<Rightarrow> (Inl (ErrSys (trouble_errno e)), d\<lparr>entries := torn n (entries d), faults := fs\<rparr>)
     | fs \<Rightarrow>
         (case f (entries d) of
            Inl e \<Rightarrow> (Inl (ErrSys e), d\<lparr>faults := tl fs\<rparr>)
          | Inr (x, t) \<Rightarrow> (Inr x, d\<lparr>entries := t, faults := tl fs\<rparr>)))"

abbreviation atomic_call :: "(tree \<Rightarrow> errno + 'a \<times> tree) \<Rightarrow> 'a io" where
  "atomic_call f \<equiv> sys_call (\<lambda>_ t. t) f"

definition query :: "(tree \<Rightarrow> errno + 'a) \<Rightarrow> 'a io" where
  "query f = atomic_call (\<lambda>t. case f t of Inl e \<Rightarrow> Inl e | Inr x \<Rightarrow> Inr (x, t))"

text \<open>
  Path resolution: \<open>walk\<close> goes from the directory \<open>cur\<close>, which it has reached, along the
  segments left.  It follows at most \<open>n\<close> symbolic links, and the last segment only if
  \<open>follow\<close> is set.
\<close>

function walk :: "nat \<Rightarrow> bool \<Rightarrow> tree \<Rightarrow> path \<Rightarrow> path \<Rightarrow> errno + path" where
  "walk n follow t cur [] = Inr cur"
| "walk n follow t cur (x # xs) =
     (if x = [] \<or> x = ''.'' then walk n follow t cur xs
      else if x = ''..'' then walk n follow t (butlast cur) xs
      else case item_at t (cur @ [x]) of
             Some Directory \<Rightarrow> walk n follow t (cur @ [x]) xs
           | Some (Symlink absolute target) \<Rightarrow>
               if xs = [] \<and> \<not> follow then Inr (cur @ [x])
               else if n = 0 then Inl ELOOP
               else walk (n - 1) follow t (if absolute then [] else cur) (target @ xs)
           | Some _ \<Rightarrow> if xs = [] then Inr (cur @ [x]) else Inl ENOTDIR
           | None \<Rightarrow> if xs = [] then Inr (cur @ [x]) else Inl ENOENT)"
  by pat_completeness auto
termination
  by (relation "measures [\<lambda>(n, _). n, \<lambda>(_, _, _, _, xs). length xs]") auto

definition real_path :: "bool \<Rightarrow> tree \<Rightarrow> path \<Rightarrow> errno + path" where
  "real_path follow t p =
     (if \<exists>x\<in>set p. CHR 0x00 \<in> set x then Inl EINVAL else walk 40 follow t [] p)"

definition at_real :: "bool \<Rightarrow> path \<Rightarrow> (path \<Rightarrow> item option \<Rightarrow> errno + 'a) \<Rightarrow> tree \<Rightarrow> errno + 'a" where
  "at_real follow p f t =
     (case real_path follow t p of Inl e \<Rightarrow> Inl e | Inr q \<Rightarrow> f q (item_at t q))"

text \<open>\<open>os.Lstat\<close>, \<open>os.ReadDir\<close> (sorted by name), \<open>os.ReadFile\<close>, \<open>os.Open\<close>.\<close>

definition lstat :: "path \<Rightarrow> item io" where
  "lstat p = query (at_real False p (\<lambda>q i. case i of None \<Rightarrow> Inl ENOENT | Some k \<Rightarrow> Inr k))"

definition read_dir :: "path \<Rightarrow> (string \<times> item) list io" where
  "read_dir p = query (\<lambda>t. at_real True p (\<lambda>q i.
     case i of
       None \<Rightarrow> Inl ENOENT
     | Some Directory \<Rightarrow> Inr (children t q)
     | Some _ \<Rightarrow> Inl ENOTDIR) t)"

definition read_file :: "path \<Rightarrow> string io" where
  "read_file p = query (at_real True p (\<lambda>q i.
     case i of
       None \<Rightarrow> Inl ENOENT
     | Some (Regular c) \<Rightarrow> Inr c
     | Some Directory \<Rightarrow> Inl EISDIR
     | Some _ \<Rightarrow> Inl EINVAL))"

definition open_read :: "path \<Rightarrow> path io" where
  "open_read p = query (at_real True p (\<lambda>q i.
     case i of None \<Rightarrow> Inl ENOENT | Some _ \<Rightarrow> Inr q))"

text \<open>
  \<open>os.OpenFile\<close> for writing an existing file; the result stands for the file handle.  The
  calls on a handle: append, truncate, \<open>Sync\<close>, \<open>Close\<close> and \<open>Chmod\<close>, of which the last three
  change nothing the model holds, and the reading of the whole file.
\<close>

definition open_write :: "path \<Rightarrow> path io" where
  "open_write p = query (at_real True p (\<lambda>q i.
     case i of
       None \<Rightarrow> Inl ENOENT
     | Some (Regular c) \<Rightarrow> Inr q
     | Some Directory \<Rightarrow> Inl EISDIR
     | Some _ \<Rightarrow> Inl EINVAL))"

definition append_bytes :: "path \<Rightarrow> string \<Rightarrow> tree \<Rightarrow> tree" where
  "append_bytes q s t =
     (case item_at t q of Some (Regular c) \<Rightarrow> put q (Regular (c @ s)) t | _ \<Rightarrow> t)"

definition append_to :: "path \<Rightarrow> string \<Rightarrow> unit io" where
  "append_to q s = sys_call (\<lambda>n. append_bytes q (take n s)) (\<lambda>t. Inr ((), append_bytes q s t))"

definition cut_bytes :: "path \<Rightarrow> nat \<Rightarrow> tree \<Rightarrow> tree" where
  "cut_bytes q n t =
     (case item_at t q of
        Some (Regular c) \<Rightarrow> put q (Regular (take n c @ replicate (n - length c) CHR 0x00)) t
      | _ \<Rightarrow> t)"

definition truncate_handle :: "path \<Rightarrow> nat \<Rightarrow> unit io" where
  "truncate_handle q n = atomic_call (\<lambda>t. Inr ((), cut_bytes q n t))"

definition sync_handle :: "unit io" where "sync_handle = atomic_call (\<lambda>t. Inr ((), t))"
definition close_handle :: "unit io" where "close_handle = atomic_call (\<lambda>t. Inr ((), t))"
definition chmod_handle :: "unit io" where "chmod_handle = atomic_call (\<lambda>t. Inr ((), t))"

definition read_handle :: "path \<Rightarrow> string io" where
  "read_handle q = query (\<lambda>t.
     case item_at t q of
       Some (Regular c) \<Rightarrow> Inr c
     | Some Directory \<Rightarrow> Inl EISDIR
     | _ \<Rightarrow> Inl EINVAL)"

text \<open>\<open>os.Truncate\<close> by path; \<open>os.Mkdir\<close>; creation of a file that must not exist.\<close>

definition truncate_path :: "path \<Rightarrow> nat \<Rightarrow> unit io" where
  "truncate_path p n = atomic_call (\<lambda>t. at_real True p (\<lambda>q i.
     case i of
       None \<Rightarrow> Inl ENOENT
     | Some (Regular c) \<Rightarrow> Inr ((), cut_bytes q n t)
     | Some Directory \<Rightarrow> Inl EISDIR
     | Some _ \<Rightarrow> Inl EINVAL) t)"

definition mkdir :: "path \<Rightarrow> unit io" where
  "mkdir p = atomic_call (\<lambda>t. at_real False p (\<lambda>q i.
     case i of None \<Rightarrow> Inr ((), put q Directory t) | Some _ \<Rightarrow> Inl EEXIST) t)"

definition create_excl :: "path \<Rightarrow> path io" where
  "create_excl p = atomic_call (\<lambda>t. at_real False p (\<lambda>q i.
     case i of None \<Rightarrow> Inr (q, put q (Regular []) t) | Some _ \<Rightarrow> Inl EEXIST) t)"

text \<open>
  \<open>os.Rename\<close>: it never replaces a directory (Go reports \<open>EEXIST\<close>) and replaces anything
  else at the destination, unless the source is a directory.
\<close>

definition rename_tree :: "path \<Rightarrow> path \<Rightarrow> tree \<Rightarrow> errno + tree" where
  "rename_tree a b t =
     (case item_at t a of
        None \<Rightarrow> Inl ENOENT
      | Some k \<Rightarrow>
          if item_at t b = Some Directory then Inl EEXIST
          else if prefix a b then (if a = b then Inr t else Inl EINVAL)
          else if k = Directory \<and> item_at t b \<noteq> None then Inl ENOTDIR
          else Inr (graft a b t))"

definition with_paths ::
  "path \<Rightarrow> path \<Rightarrow> (path \<Rightarrow> path \<Rightarrow> tree \<Rightarrow> errno + tree) \<Rightarrow> unit io" where
  "with_paths p p' f = atomic_call (\<lambda>t.
     at_real False p (\<lambda>a _. at_real False p' (\<lambda>b _.
       case f a b t of Inl e \<Rightarrow> Inl e | Inr t' \<Rightarrow> Inr ((), t')) t) t)"

definition rename :: "path \<Rightarrow> path \<Rightarrow> unit io" where
  "rename p p' = with_paths p p' rename_tree"

text \<open>\<open>renameat2\<close> with \<open>RENAME_NOREPLACE\<close>, and \<open>os.Link\<close> of a file that is no longer written.\<close>

definition rename_new :: "path \<Rightarrow> path \<Rightarrow> unit io" where
  "rename_new p p' = with_paths p p' (\<lambda>a b t.
     if item_at t a = None then Inl ENOENT
     else if item_at t b \<noteq> None then Inl EEXIST
     else if prefix a b then Inl EINVAL
     else Inr (graft a b t))"

definition link_file :: "path \<Rightarrow> path \<Rightarrow> unit io" where
  "link_file p p' = with_paths p p' (\<lambda>a b t.
     case item_at t a of
       None \<Rightarrow> Inl ENOENT
     | Some k \<Rightarrow>
         if item_at t b \<noteq> None then Inl EEXIST
         else if k = Directory then Inl EACCES
         else Inr (put b k t))"

text \<open>\<open>os.Remove\<close> (\<open>unlink\<close>, or \<open>rmdir\<close> of an empty directory) and \<open>os.RemoveAll\<close>.\<close>

definition remove :: "path \<Rightarrow> unit io" where
  "remove p = atomic_call (\<lambda>t. at_real False p (\<lambda>q i.
     case i of
       None \<Rightarrow> Inl ENOENT
     | Some k \<Rightarrow>
         if q = [] \<or> (k = Directory \<and> (\<exists>e\<in>set t. strict_prefix q (fst e))) then Inl ENOTEMPTY
         else Inr ((), cut q t)) t)"

definition remove_all :: "path \<Rightarrow> unit io" where
  "remove_all p = sys_call
     (\<lambda>n t. case at_real False p (\<lambda>q _. Inr q) t of
        Inl _ \<Rightarrow> t
      | Inr q \<Rightarrow> fold cut (map (\<lambda>c. q @ [fst c]) (take n (children t q))) t)
     (\<lambda>t. case real_path False t p of
        Inl e \<Rightarrow> if e = ENOENT then Inr ((), t) else Inl e
      | Inr q \<Rightarrow> if q = [] then Inl EINVAL else Inr ((), cut q t))"

section \<open>Weakest preconditions\<close>

text \<open>
  \<open>wp m Q t\<close>: from the tree \<open>t\<close>, whatever calls fail, \<open>m\<close> ends with a result and a tree
  that satisfy \<open>Q\<close>.
\<close>

named_theorems wp_intros \<open>rules that reduce a weakest precondition\<close>

definition wp :: "'a io \<Rightarrow> ('a res \<Rightarrow> tree \<Rightarrow> bool) \<Rightarrow> tree \<Rightarrow> bool" where
  "wp m Q t \<longleftrightarrow> (\<forall>d. entries d = t \<longrightarrow> (case m d of (r, d') \<Rightarrow> Q r (entries d')))"

definition trouble_codes :: "errno set" where
  "trouble_codes = {EIO, ENOSPC, EDQUOT, EACCES, ENOSYS}"

lemma trouble_errno_codes: "trouble_errno e \<in> trouble_codes"
  by (cases e) (simp_all add: trouble_codes_def)

lemma wpD: "wp m Q (entries d) \<Longrightarrow> m d = (r, d') \<Longrightarrow> Q r (entries d')"
  by (auto simp: wp_def split: prod.splits)

lemma wp_mono: "wp m Q t \<Longrightarrow> (\<And>r u. Q r u \<Longrightarrow> R r u) \<Longrightarrow> wp m R t"
  by (auto simp: wp_def split: prod.splits)

lemma wp_ret [simp]: "wp (ret x) Q t = Q (Inr x) t"
  by (force simp: wp_def ret_def intro: exI [of _ "\<lparr>entries = t, faults = []\<rparr>"])

lemma wp_throw [simp]: "wp (throw e) Q t = Q (Inl e) t"
  by (force simp: wp_def throw_def intro: exI [of _ "\<lparr>entries = t, faults = []\<rparr>"])

lemma wp_lift [simp]: "wp (lift_res r) Q t = Q r t"
  by (force simp: wp_def lift_res_def intro: exI [of _ "\<lparr>entries = t, faults = []\<rparr>"])

lemma wp_guard [simp]: "wp (guard_io b e) Q t = (if b then Q (Inr ()) t else Q (Inl e) t)"
  by (simp add: guard_io_def)

lemma wp_attempt [wp_intros]: "wp m (\<lambda>r. wp (k r) Q) t \<Longrightarrow> wp (attempt m k) Q t"
  by (fastforce simp: wp_def attempt_def split: prod.splits)

lemma wp_bind [wp_intros]:
  assumes "wp m (\<lambda>r u. case r of Inl e \<Rightarrow> Q (Inl e) u | Inr x \<Rightarrow> wp (k x) Q u) t"
  shows "wp (bind_io m k) Q t"
  unfolding wp_def
proof (intro allI impI)
  fix d :: disk
  assume d: "entries d = t"
  obtain r d' where m: "m d = (r, d')" by (cases "m d")
  have "case r of Inl e \<Rightarrow> Q (Inl e) (entries d') | Inr x \<Rightarrow> wp (k x) Q (entries d')"
    using assms d m by (auto simp: wp_def split: prod.splits)
  then show "case bind_io m k d of (r, d') \<Rightarrow> Q r (entries d')"
    by (cases r) (auto simp: bind_io_def m wp_def)
qed

lemma wp_ignore [wp_intros]: "wp m (\<lambda>r. Q (Inr ())) t \<Longrightarrow> wp (ignore m) Q t"
  unfolding ignore_def by (rule wp_attempt) (erule wp_mono, simp)

lemma wp_or_else [wp_intros]:
  assumes "wp m (\<lambda>r u. case r of
      Inr x \<Rightarrow> Q (Inr x) u
    | Inl e \<Rightarrow> wp c (\<lambda>_. Q (Inl (f e))) u) t"
  shows "wp (or_else m c f) Q t"
  unfolding or_else_def
proof (rule wp_attempt, rule wp_mono [OF assms])
  fix r u
  assume "case r of Inr x \<Rightarrow> Q (Inr x) u | Inl e \<Rightarrow> wp c (\<lambda>_. Q (Inl (f e))) u"
  then show "wp (case r of Inl e \<Rightarrow> bind_io (ignore c) (\<lambda>_. throw (f e)) | Inr x \<Rightarrow> ret x) Q u"
    by (cases r) (auto intro!: wp_bind wp_ignore)
qed

lemma wp_deferring [wp_intros]:
  "wp m (\<lambda>r. wp c (\<lambda>_. Q r)) t \<Longrightarrow> wp (deferring m c) Q t"
  unfolding deferring_def
  by (rule wp_attempt) (auto intro!: wp_bind wp_ignore elim!: wp_mono)

lemma wp_sys_call [wp_intros]:
  assumes fault: "\<And>e n. e \<in> trouble_codes \<Longrightarrow> Q (Inl (ErrSys e)) (torn n t)"
    and f: "case f t of Inl e \<Rightarrow> Q (Inl (ErrSys e)) t | Inr (x, u) \<Rightarrow> Q (Inr x) u"
  shows "wp (sys_call torn f) Q t"
  unfolding wp_def
proof (intro allI impI)
  fix d :: disk
  assume d: "entries d = t"
  show "case sys_call torn f d of (r, d') \<Rightarrow> Q r (entries d')"
  proof (cases "faults d")
    case Nil
    then show ?thesis using f d by (auto simp: sys_call_def split: sum.splits)
  next
    case (Cons o' fs)
    then show ?thesis using fault f d trouble_errno_codes
      by (cases o') (auto simp: sys_call_def split: sum.splits)
  qed
qed

lemma wp_query:
  assumes "\<And>e. e \<in> trouble_codes \<Longrightarrow> Q (Inl (ErrSys e)) t"
    and "case f t of Inl e \<Rightarrow> Q (Inl (ErrSys e)) t | Inr x \<Rightarrow> Q (Inr x) t"
  shows "wp (query f) Q t"
  unfolding query_def by (rule wp_sys_call) (use assms in \<open>auto split: sum.splits\<close>)

section \<open>Paths without symbolic links\<close>

definition okname :: "string \<Rightarrow> bool" where
  "okname x \<longleftrightarrow> plain x \<and> CHR 0x00 \<notin> set x"

definition clear_path :: "tree \<Rightarrow> path \<Rightarrow> bool" where
  "clear_path t p \<longleftrightarrow>
     (\<forall>x\<in>set p. okname x) \<and> (\<forall>q. strict_prefix q p \<longrightarrow> item_at t q = Some Directory)"

definition real_dir :: "tree \<Rightarrow> path \<Rightarrow> bool" where
  "real_dir t p \<longleftrightarrow> clear_path t p \<and> item_at t p = Some Directory"

lemma clear_path_Nil [simp]: "clear_path t []"
  by (simp add: clear_path_def)

lemma clear_path_snoc [simp]: "clear_path t (p @ [x]) \<longleftrightarrow> real_dir t p \<and> okname x"
  by (auto simp: clear_path_def real_dir_def strict_prefix_def)

lemma real_dir_item: "real_dir t p \<Longrightarrow> item_at t p = Some Directory"
  by (simp add: real_dir_def)

lemma real_dir_cong:
  assumes "real_dir t p" and "\<And>q. prefix q p \<Longrightarrow> item_at u q = item_at t q"
  shows "real_dir u p"
  using assms by (auto simp: real_dir_def clear_path_def strict_prefix_def)

lemma clear_path_cong:
  assumes "clear_path t p" and "\<And>q. strict_prefix q p \<Longrightarrow> item_at u q = item_at t q"
  shows "clear_path u p"
  using assms by (auto simp: clear_path_def)

lemma walk_clear:
  assumes "\<forall>x\<in>set p. plain x"
    and "\<And>q. strict_prefix q (cur @ p) \<Longrightarrow> length cur < length q \<Longrightarrow> item_at t q = Some Directory"
    and "follow \<Longrightarrow> \<forall>a tg. item_at t (cur @ p) \<noteq> Some (Symlink a tg)"
  shows "walk n follow t cur p = Inr (cur @ p)"
  using assms
proof (induction p arbitrary: cur)
  case (Cons x xs)
  have x: "x \<noteq> []" "x \<noteq> ''.''" "x \<noteq> ''..''" using Cons.prems(1) by (auto simp: plain_def)
  show ?case
  proof (cases "xs = []")
    case True
    then show ?thesis using Cons.prems(3) x by (auto split: option.splits item.splits)
  next
    case False
    have "item_at t (cur @ [x]) = Some Directory"
      using False by (intro Cons.prems(2)) (auto simp: strict_prefix_def)
    moreover have "walk n follow t (cur @ [x]) xs = Inr ((cur @ [x]) @ xs)"
      using Cons.prems by (intro Cons.IH) auto
    ultimately show ?thesis using x by simp
  qed
qed simp

lemma real_path_clear:
  assumes "clear_path t p" and "follow \<Longrightarrow> \<forall>a tg. item_at t p \<noteq> Some (Symlink a tg)"
  shows "real_path follow t p = Inr p"
  using assms walk_clear [of p "[]" t follow 40]
  by (auto simp: real_path_def clear_path_def okname_def)

lemma at_real_clear [simp]:
  "clear_path t p \<Longrightarrow> at_real False p f t = f p (item_at t p)"
  by (simp add: at_real_def real_path_clear)

lemma at_real_nul:
  "CHR 0x00 \<in> set x \<Longrightarrow> at_real b (p @ [x]) f t = Inl EINVAL"
  by (simp add: at_real_def real_path_def)

text \<open>A name below a real directory, whatever bytes a user put into it.\<close>

lemma at_real_child:
  "real_dir t p \<Longrightarrow> plain x \<Longrightarrow>
   at_real False (p @ [x]) f t =
     (if CHR 0x00 \<in> set x then Inl EINVAL else f (p @ [x]) (item_at t (p @ [x])))"
  by (simp add: at_real_nul okname_def)

lemma walk_skip:
  assumes "\<forall>x\<in>set p. plain x"
    and "\<And>q. prefix q (cur @ p) \<Longrightarrow> length cur < length q \<Longrightarrow> item_at t q = Some Directory"
  shows "walk n follow t cur (p @ xs) = walk n follow t (cur @ p) xs"
  using assms
proof (induction p arbitrary: cur)
  case (Cons x ys)
  have x: "x \<noteq> []" "x \<noteq> ''.''" "x \<noteq> ''..''" using Cons.prems(1) by (auto simp: plain_def)
  have "item_at t (cur @ [x]) = Some Directory" by (intro Cons.prems(2)) auto
  moreover have "walk n follow t (cur @ [x]) (ys @ xs) = walk n follow t ((cur @ [x]) @ ys) xs"
    using Cons.prems by (intro Cons.IH) auto
  ultimately show ?case using x by simp
qed simp

lemma at_real_child_Inr:
  assumes p: "clear_path t p" "\<forall>a tg. item_at t p \<noteq> Some (Symlink a tg)"
    and x: "plain x" and r: "at_real False (p @ [x]) f t = Inr v"
  shows "real_dir t p \<and> okname x \<and> f (p @ [x]) (item_at t (p @ [x])) = Inr v"
proof -
  have nul: "CHR 0x00 \<notin> set x" using r by (cases "CHR 0x00 \<in> set x") (simp_all add: at_real_nul)
  have "real_dir t p"
  proof (cases p rule: rev_cases)
    case (snoc q y)
    have q: "real_dir t q" "okname y" using p(1) by (simp_all add: snoc)
    then have plains: "\<forall>z\<in>set q. plain z" "plain y"
      by (auto simp: real_dir_def clear_path_def okname_def)
    have ok: "\<not> (\<exists>z\<in>set (q @ [y] @ [x]). CHR 0x00 \<in> set z)"
      using q nul by (auto simp: real_dir_def clear_path_def okname_def)
    have dirs: "item_at t q' = Some Directory" if "prefix q' q" for q'
      using q that by (auto simp: real_dir_def clear_path_def strict_prefix_def)
    have "walk 40 False t [] (q @ [y, x]) = walk 40 False t q [y, x]"
      using walk_skip [OF plains(1), of "[]" t 40 False "[y, x]"] dirs by simp
    then have w: "real_path False t (p @ [x]) = walk 40 False t q [y, x]"
      using ok by (simp add: real_path_def snoc)
    have "item_at t (q @ [y]) = Some Directory"
    proof (rule ccontr)
      assume n: "item_at t (q @ [y]) \<noteq> Some Directory"
      have "\<exists>e. walk 40 False t q [y, x] = Inl e"
        using plains(2) p(2) n
        by (cases "item_at t (q @ [y])"; cases "the (item_at t (q @ [y]))")
          (auto simp: plain_def snoc)
      then show False using r w by (auto simp: at_real_def)
    qed
    then show ?thesis using p(1) by (simp add: real_dir_def snoc)
  qed (simp add: real_dir_def)
  then show ?thesis using r x nul by (simp add: at_real_child okname_def)
qed

lemma wp_lstat_child:
  assumes p: "clear_path t p" "\<forall>a tg. item_at t p \<noteq> Some (Symlink a tg)" and x: "plain x"
    and e: "\<And>e. Q (Inl (ErrSys e)) t"
    and k: "\<And>k. real_dir t p \<Longrightarrow> okname x \<Longrightarrow> item_at t (p @ [x]) = Some k \<Longrightarrow> Q (Inr k) t"
  shows "wp (lstat (p @ [x])) Q t"
  unfolding lstat_def
proof (rule wp_query)
  show "case at_real False (p @ [x]) (\<lambda>q i. case i of None \<Rightarrow> Inl ENOENT | Some k \<Rightarrow> Inr k) t of
          Inl e \<Rightarrow> Q (Inl (ErrSys e)) t | Inr k \<Rightarrow> Q (Inr k) t"
  proof (cases "at_real False (p @ [x]) (\<lambda>q i. case i of None \<Rightarrow> Inl ENOENT | Some k \<Rightarrow> Inr k) t")
    case (Inl a)
    then show ?thesis using e by simp
  next
    case (Inr b)
    from at_real_child_Inr [OF p x this] show ?thesis
      using k Inr by (cases "item_at t (p @ [x])") simp_all
  qed
qed (rule e)

lemma wp_lstat_clear:
  assumes p: "clear_path t p"
    and e: "\<And>e. e \<in> trouble_codes \<Longrightarrow> Q (Inl (ErrSys e)) t"
    and none: "item_at t p = None \<Longrightarrow> Q (Inl (ErrSys ENOENT)) t"
    and k: "\<And>k. item_at t p = Some k \<Longrightarrow> Q (Inr k) t"
  shows "wp (lstat p) Q t"
  unfolding lstat_def
  by (rule wp_query) (use assms in \<open>auto split: option.splits\<close>)

section \<open>One rule per call\<close>

lemma wp_mkdir:
  assumes p: "clear_path t p" and e: "\<And>e. Q (Inl e) t"
    and k: "item_at t p = None \<Longrightarrow> Q (Inr ()) (put p Directory t)"
  shows "wp (mkdir p) Q t"
  unfolding mkdir_def
  by (rule wp_sys_call) (use p e k in \<open>auto split: option.splits\<close>)

lemma wp_create_excl:
  assumes p: "clear_path t p" and e: "\<And>e. Q (Inl e) t"
    and k: "item_at t p = None \<Longrightarrow> Q (Inr p) (put p (Regular []) t)"
  shows "wp (create_excl p) Q t"
  unfolding create_excl_def
  by (rule wp_sys_call) (use p e k in \<open>auto split: option.splits\<close>)

lemma wp_remove:
  assumes p: "clear_path t p" and e: "\<And>e. Q (Inl e) t"
    and k: "\<And>k. p \<noteq> [] \<Longrightarrow> item_at t p = Some k \<Longrightarrow>
              k \<noteq> Directory \<or> (\<forall>e\<in>set t. \<not> strict_prefix p (fst e)) \<Longrightarrow> Q (Inr ()) (cut p t)"
  shows "wp (remove p) Q t"
  unfolding remove_def
  by (rule wp_sys_call) (use p e k in \<open>auto split: option.splits if_splits\<close>)

lemma wp_with_paths:
  assumes p: "clear_path t p" "clear_path t p'" and e: "\<And>e. Q (Inl e) t"
    and k: "\<And>u. f p p' t = Inr u \<Longrightarrow> Q (Inr ()) u"
  shows "wp (with_paths p p' f) Q t"
  unfolding with_paths_def
  by (rule wp_sys_call) (use p e k in \<open>auto split: sum.splits\<close>)

lemma clear_not_below:
  "clear_path t a \<Longrightarrow> strict_prefix b a \<Longrightarrow> item_at t b = Some Directory"
  by (simp add: clear_path_def)

lemma wp_rename:
  assumes p: "clear_path t a" "clear_path t b" and e: "\<And>e. Q (Inl e) t"
    and same: "\<And>k. a = b \<Longrightarrow> item_at t a = Some k \<Longrightarrow> Q (Inr ()) t"
    and moved: "\<And>k. item_at t a = Some k \<Longrightarrow> \<not> prefix a b \<Longrightarrow> \<not> prefix b a \<Longrightarrow>
        item_at t b \<noteq> Some Directory \<Longrightarrow> k = Directory \<longrightarrow> item_at t b = None \<Longrightarrow>
        Q (Inr ()) (graft a b t)"
  shows "wp (rename a b) Q t"
  unfolding rename_def
proof (rule wp_with_paths [OF p], rule e)
  fix u
  assume "rename_tree a b t = Inr u"
  then obtain k where k: "item_at t a = Some k" "item_at t b \<noteq> Some Directory"
    and u: "if prefix a b then a = b \<and> u = t
            else \<not> (k = Directory \<and> item_at t b \<noteq> None) \<and> u = graft a b t"
    by (auto simp: rename_tree_def split: option.splits if_splits)
  show "Q (Inr ()) u"
  proof (cases "prefix a b")
    case False
    have "\<not> prefix b a"
      using clear_not_below [OF p(1), of b] k(2) False by (auto simp: strict_prefix_def)
    then show ?thesis using moved k u False by auto
  qed (use same u k in auto)
qed

lemma wp_rename_new:
  assumes p: "clear_path t a" "clear_path t b"
    and e: "\<And>e. e \<in> trouble_codes \<or> e \<in> {ENOENT, EINVAL} \<Longrightarrow> Q (Inl (ErrSys e)) t"
    and exist: "item_at t b \<noteq> None \<Longrightarrow> Q (Inl (ErrSys EEXIST)) t"
    and k: "item_at t a \<noteq> None \<Longrightarrow> item_at t b = None \<Longrightarrow> \<not> prefix a b \<Longrightarrow> \<not> prefix b a \<Longrightarrow>
            Q (Inr ()) (graft a b t)"
  shows "wp (rename_new a b) Q t"
proof -
  have "\<not> prefix b a" if "item_at t b = None" "\<not> prefix a b"
    using clear_not_below [OF p(1), of b] that by (auto simp: strict_prefix_def)
  then show ?thesis
    unfolding rename_new_def with_paths_def
    by (intro wp_sys_call) (use p e exist k in \<open>auto\<close>)
qed

lemma wp_link_file:
  assumes p: "clear_path t a" "clear_path t b"
    and e: "\<And>e. e \<in> trouble_codes \<or> e = ENOENT \<Longrightarrow> Q (Inl (ErrSys e)) t"
    and exist: "item_at t b \<noteq> None \<Longrightarrow> Q (Inl (ErrSys EEXIST)) t"
    and k: "\<And>k. item_at t a = Some k \<Longrightarrow> item_at t b = None \<Longrightarrow> k \<noteq> Directory \<Longrightarrow>
            Q (Inr ()) (put b k t)"
  shows "wp (link_file a b) Q t"
  unfolding link_file_def with_paths_def
  by (rule wp_sys_call) (use p e exist k in \<open>auto simp: trouble_codes_def split: option.splits\<close>)

lemma wp_append_to [wp_intros]:
  assumes "\<And>e n. e \<in> trouble_codes \<Longrightarrow> Q (Inl (ErrSys e)) (append_bytes q (take n s) t)"
    and "Q (Inr ()) (append_bytes q s t)"
  shows "wp (append_to q s) Q t"
  unfolding append_to_def by (rule wp_sys_call) (use assms in auto)

lemma wp_handle [wp_intros]:
  assumes "\<And>e. e \<in> trouble_codes \<Longrightarrow> Q (Inl (ErrSys e)) t" and "Q (Inr ()) t"
  shows "wp sync_handle Q t" "wp close_handle Q t" "wp chmod_handle Q t"
  unfolding sync_handle_def close_handle_def chmod_handle_def
  by (rule wp_sys_call; use assms in simp)+

lemma append_bytes_Regular [simp]:
  "item_at t q = Some (Regular c) \<Longrightarrow> append_bytes q s t = put q (Regular (c @ s)) t"
  by (simp add: append_bytes_def)

lemma cut_bytes_Regular:
  "item_at t q = Some (Regular c) \<Longrightarrow> n \<le> length c \<Longrightarrow>
   cut_bytes q n t = put q (Regular (take n c)) t"
  by (simp add: cut_bytes_def)

end
