(* ===== verification/UserPaths.thy ===== *)
theory UserPaths
  imports FileTree
begin

text \<open>
  The path rules of \<open>src/internal/filedata/service.go\<close>: how the text of a user path becomes
  segments below a logical folder, and which first segments are kept from users (the
  trash and the upload sessions).
\<close>

section \<open>Paths of users\<close>

definition data_root_name :: string where "data_root_name = ''.home-ai''"
definition trash_dir_name :: string where "trash_dir_name = ''.home-ai-trash''"
definition upload_prefix :: string where "upload_prefix = ''.home-ai-upload-''"

text \<open>\<open>strings.ReplaceAll\<close> of the backslash, then \<open>TrimSpace\<close> and \<open>Clean\<close>.\<close>

definition to_slashes :: "string \<Rightarrow> string" where
  "to_slashes s = map (\<lambda>c. if c = CHR 0x5C then slash else c) s"

definition clean_relative :: "string \<Rightarrow> string" where
  "clean_relative value =
     (let v = trim_space (to_slashes value)
      in if v = [] \<or> v = ''.'' then [] else path_clean v)"

definition path_escapes :: "string \<Rightarrow> bool" where
  "path_escapes r \<longleftrightarrow> r = ''..'' \<or> has_prefix r (''..'' @ [slash])"

definition reserved_relative :: "string \<Rightarrow> bool" where
  "reserved_relative relative =
     (let r = clean_relative relative
      in r \<noteq> [] \<and>
         (let first = hd (split_on slash r)
          in first = trash_dir_name \<or> has_prefix first upload_prefix))"

definition split_target :: "string \<Rightarrow> (string \<times> string) res" where
  "split_target relative =
     (let r = clean_relative relative
      in if r = [] \<or> is_abs r \<or> path_escapes r \<or> reserved_relative r
         then Inl (Err ''invalid target path'')
         else let name = path_base r in
           if name = ''.'' \<or> name = ''..'' \<or> name = [] then Inl (Err ''invalid target name'')
           else let parent = path_dir r
             in Inr (if parent = ''.'' then [] else parent, name))"

text \<open>The names that \<open>List\<close> leaves out and \<open>reservedRelative\<close> refuses.\<close>

definition hidden_name :: "string \<Rightarrow> bool" where
  "hidden_name n \<longleftrightarrow> has_prefix n upload_prefix \<or> n = trash_dir_name"

text \<open>The segments below the folder that a user path is walked along.\<close>

definition user_segments :: "string \<Rightarrow> path" where
  "user_segments relative =
     (let r = clean_relative relative in if r = [] then [] else split_on slash r)"

lemma reserved_Nil [simp]: "\<not> reserved_relative []"
  by (simp add: reserved_relative_def clean_relative_def to_slashes_def)

lemma split_slash_free: "\<forall>s\<in>set (split_on slash r). slash \<notin> set s"
  by (simp add: split_on_parts)

lemma path_base_plain:
  assumes "path_base r \<noteq> ''.''" "path_base r \<noteq> ''..''" "path_base r \<noteq> []" "\<not> is_abs r"
  shows "plain (path_base r)"
proof -
  let ?s = "rev (dropWhile (\<lambda>c. c = slash) (rev r))"
  have "r \<noteq> []" using assms(1) by (auto simp: path_base_def)
  then have "?s \<noteq> []" using assms(4)
    by (cases r) (auto simp: is_abs_def has_prefix_def dropWhile_eq_Nil_conv)
  then have "path_base r = last (split_on slash ?s)"
    using \<open>r \<noteq> []\<close> unfolding path_base_def Let_def by (simp only: if_False)
  then have "slash \<notin> set (path_base r)" using split_on_parts by (metis last_in_set split_on_not_Nil)
  then show ?thesis using assms by (simp add: plain_def)
qed

lemma split_target_Inr:
  "split_target relative = Inr (pr, name) \<longleftrightarrow>
     (let r = clean_relative relative in
      r \<noteq> [] \<and> \<not> is_abs r \<and> \<not> path_escapes r \<and> \<not> reserved_relative r \<and>
      name = path_base r \<and> name \<noteq> ''.'' \<and> name \<noteq> ''..'' \<and> name \<noteq> [] \<and>
      pr = (if path_dir r = ''.'' then [] else path_dir r))"
  by (auto simp: split_target_def Let_def)

section \<open>Reserved names\<close>

text \<open>The bytes of white space, as \<open>strings.TrimSpace\<close> removes it.\<close>

definition space_byte :: "char \<Rightarrow> bool" where
  "space_byte c \<longleftrightarrow> 128 \<le> byte c \<or> ascii_space c"

lemma decode_rune_bytes:
  assumes "decode_rune (c # cs) = (r, w)"
  shows "byte c < 128 \<and> r = byte c \<and> w = 1 \<or>
         128 \<le> byte c \<and> w - 1 \<le> length cs \<and> (\<forall>i<w - 1. 128 \<le> byte (cs ! i))"
proof -
  obtain n lo hi where f: "utf8_first (byte c) = (n, lo, hi)" by (metis prod_cases3)
  have lo: "n = 0 \<or> 128 \<le> lo" "n \<in> {0, 2, 3, 4}"
    using f by (auto simp: utf8_first_def split: if_splits)
  have two: "i < 2 \<longleftrightarrow> i = 0 \<or> i = Suc 0" "i < 3 \<longleftrightarrow> i = 0 \<or> i = Suc 0 \<or> i = 2"
    for i :: nat by auto
  have "w - 1 \<le> length cs"
    using assms lo(2) unfolding decode_rune.simps Let_def f prod.case
    by (auto simp: Suc_le_eq split: if_splits)
  then show ?thesis
    using assms lo unfolding decode_rune.simps Let_def f prod.case
    by (auto simp: byte_in_def two split: if_splits)
qed

lemma space_rune_bytes:
  "(r, bs) \<in> set (runes s) \<Longrightarrow> is_space r \<Longrightarrow> \<forall>c\<in>set bs. space_byte c"
proof (induction s rule: runes.induct)
  case (2 c cs)
  obtain q w where d: "decode_rune (c # cs) = (q, w)" by fastforce
  from 2(2) d have "(r, bs) = (q, c # take (w - 1) cs) \<or> (r, bs) \<in> set (runes (drop (w - 1) cs))"
    by simp
  then show ?case
  proof
    assume h: "(r, bs) = (q, c # take (w - 1) cs)"
    from decode_rune_bytes [OF d] show ?thesis
    proof
      assume "byte c < 128 \<and> q = byte c \<and> w = 1"
      then show ?thesis using h 2(3) by (auto simp: space_byte_def ascii_space_def)
    next
      assume m: "128 \<le> byte c \<and> w - 1 \<le> length cs \<and> (\<forall>i<w - 1. 128 \<le> byte (cs ! i))"
      have "128 \<le> byte x" if "x \<in> set (take (w - 1) cs)" for x
        using that m by (auto simp: in_set_conv_nth)
      then show ?thesis using h m by (auto simp: space_byte_def)
    qed
  next
    assume "(r, bs) \<in> set (runes (drop (w - 1) cs))"
    then show ?thesis using 2(1) [OF d [symmetric]] 2(3) by blast
  qed
qed simp

lemma runes_text_append [simp]: "runes_text (xs @ ys) = runes_text xs @ runes_text ys"
  by (simp add: runes_text_def)

lemma trim_space_parts:
  "\<exists>a b. s = a @ trim_space s @ b \<and> (\<forall>c\<in>set a \<union> set b. space_byte c)"
proof -
  let ?sp = "is_space \<circ> fst" and ?rs = "runes s"
  define a where "a = takeWhile ?sp ?rs"
  define m where "m = dropWhile ?sp ?rs"
  define b where "b = rev (takeWhile ?sp (rev m))"
  have m: "m = rev (dropWhile ?sp (rev m)) @ b"
    unfolding b_def by (metis rev_append rev_rev_ident takeWhile_dropWhile_id)
  have "?rs = a @ rev (dropWhile ?sp (rev m)) @ b"
    using m unfolding a_def m_def by (metis takeWhile_dropWhile_id)
  then have s: "s = runes_text a @ trim_space s @ runes_text b"
    using runes_concat [of s] unfolding trim_space_def m_def [symmetric]
    by (metis runes_text_append runes_text_def)
  have "set a \<subseteq> set ?rs" "\<forall>x\<in>set a. is_space (fst x)"
    unfolding a_def by (auto dest: set_takeWhileD)
  moreover have "set b \<subseteq> set ?rs" "\<forall>x\<in>set b. is_space (fst x)"
    unfolding b_def m_def by (auto dest!: set_takeWhileD set_dropWhileD)
  ultimately have "\<forall>c\<in>set (runes_text a) \<union> set (runes_text b). space_byte c"
    using space_rune_bytes unfolding runes_text_def by fastforce
  with s show ?thesis by blast
qed

lemma split_on_chars: "p \<in> set (split_on c s) \<Longrightarrow> set p \<subseteq> set s"
proof (induction s arbitrary: p)
  case (Cons x xs)
  then show ?case by (cases "split_on c xs") (fastforce split: if_splits)+
qed simp

lemma join_on_chars: "set (join_on c ps) \<subseteq> insert c (\<Union>p\<in>set ps. set p)"
  by (induction c ps rule: join_on.induct) auto

lemma clean_onto_subset: "set (clean_onto b out xs) \<subseteq> set out \<union> set xs"
  by (induction b out xs rule: clean_onto.induct)
    (auto dest!: subsetD dest: in_set_butlastD split: if_splits)

lemma path_clean_chars: "set (path_clean s) \<subseteq> set s \<union> {slash, CHR ''.''}"
proof -
  let ?out = "clean_onto (is_abs s) [] (split_on slash s)"
  have "set p \<subseteq> set s" if "p \<in> set ?out" for p
    using that clean_onto_subset [of "is_abs s" "[]"] split_on_chars by fastforce
  then have "set (join_on slash ?out) \<subseteq> set s \<union> {slash}"
    using join_on_chars [of slash ?out] by fastforce
  then show ?thesis by (auto simp: path_clean_def Let_def)
qed

lemma clean_relative_slashes: "to_slashes (clean_relative x) = clean_relative x"
proof -
  obtain a b where "to_slashes x = a @ trim_space (to_slashes x) @ b"
    using trim_space_parts by metis
  then have "set (trim_space (to_slashes x)) \<subseteq> set (to_slashes x)" by (metis Un_iff set_append subsetI)
  moreover have "CHR 0x5C \<notin> set (to_slashes x)" by (auto simp: to_slashes_def slash_def)
  ultimately have "CHR 0x5C \<notin> set (clean_relative x)"
    using path_clean_chars [of "trim_space (to_slashes x)"]
    by (auto simp: clean_relative_def Let_def slash_def)
  then show ?thesis unfolding to_slashes_def by (intro map_idI) auto
qed

lemma split_on_end:
  "c \<notin> set b \<Longrightarrow> split_on c (v @ b) = butlast (split_on c v) @ [last (split_on c v) @ b]"
proof (induction v)
  case (Cons x xs)
  then show ?case by (cases "split_on c xs") (auto simp: split_on_not_Nil)
qed (simp add: split_on_no_sep)

lemma clean_onto_plain: "\<forall>x\<in>set xs. plain x \<Longrightarrow> clean_onto b out (xs @ ys) = clean_onto b (out @ xs) ys"
  by (induction xs arbitrary: out) (auto simp: plain_def)

lemma hidden_name_chars:
  "hidden_name f \<Longrightarrow> \<exists>u. f = ''.home-ai-'' @ u"
  by (auto simp: hidden_name_def has_prefix_iff upload_prefix_def trash_dir_name_def)

lemma not_space_bytes:
  "\<not> space_byte CHR ''.''" "\<not> space_byte CHR ''-''" "\<not> space_byte CHR ''h''" "\<not> space_byte slash"
  by (simp_all add: space_byte_def ascii_space_def is_space_def slash_def byte_def)

lemma hidden_name_trimmed:
  assumes f: "hidden_name (l @ b)" and b: "\<forall>c\<in>set b. space_byte c"
  shows "hidden_name l"
proof (cases "b = []")
  case False
  then obtain c b' where b': "b = b' @ [c]" by (cases b rule: rev_cases) auto
  have c: "space_byte c" using b b' by simp
  show ?thesis
  proof (cases "l @ b = trash_dir_name")
    case True
    then have "last (l @ b) = CHR ''h''" by (simp add: trash_dir_name_def)
    then show ?thesis using c not_space_bytes by (simp add: b')
  next
    case False
    then obtain u where u: "l @ b = upload_prefix @ u" using f by (auto simp: hidden_name_def has_prefix_iff)
    have "length upload_prefix \<le> length l"
    proof (rule ccontr)
      assume less: "\<not> length upload_prefix \<le> length l"
      define A where "A = ''.home-ai-upload''"
      have up: "upload_prefix = A @ ''-''" by (simp add: upload_prefix_def A_def)
      then have "length upload_prefix = Suc (length A)" by (metis length_append_singleton)
      then have "length l \<le> length A" using less by linarith
      moreover have "l @ b = A @ ''-'' @ u" using u by (simp add: up)
      ultimately have "CHR ''-'' \<in> set b" by (auto simp: append_eq_append_conv2)
      then show False using b not_space_bytes by auto
    qed
    then have "take (length upload_prefix) l = upload_prefix"
      using u by (metis append_eq_append_conv_if append_eq_conv_conj take_all_iff)
    then show ?thesis unfolding hidden_name_def has_prefix_def by simp
  qed
qed (use f in simp)

lemma reserved_first:
  assumes r: "r = clean_relative x" "split_on slash r = f # rest"
    and plain: "\<forall>s\<in>set (f # rest). plain s" and hid: "hidden_name f"
    and free: "\<not> reserved_relative r"
  shows "\<exists>b. rest = [''..'' @ b] \<and> b \<noteq> [] \<and> (\<forall>c\<in>set b. space_byte c)"
proof -
  obtain u where u: "f = ''.home-ai-'' @ u" using hidden_name_chars [OF hid] by blast
  obtain w where w: "r = f @ w" using r(2) join_split [of slash r] by (cases rest) auto
  define v where "v = trim_space r"
  obtain a b where ab: "r = a @ v @ b" "\<forall>c\<in>set a \<union> set b. space_byte c"
    using trim_space_parts [of r] unfolding v_def by blast
  have "a = []" using ab u w not_space_bytes(1) by (cases a) auto
  then have rv: "r = v @ b" and b: "\<forall>c\<in>set b. space_byte c" using ab by auto
  have h: "CHR ''h'' \<in> set r" "CHR ''h'' \<notin> set b" "hd r = CHR ''.''"
    using u w b not_space_bytes by auto
  have v: "v \<noteq> []" "v \<noteq> ''.''" using h rv by auto
  then have abs: "\<not> is_abs v"
    using h(3) rv by (cases v) (auto simp: is_abs_def has_prefix_def slash_def)
  have clean: "clean_relative r = path_clean v"
    using v clean_relative_slashes [of x] by (simp add: clean_relative_def v_def r(1))
  define S where "S = butlast (split_on slash v)"
  define L where "L = last (split_on slash v)"
  have SL: "split_on slash v = S @ [L]" by (simp add: S_def L_def)
  have parts: "f # rest = S @ [L @ b]"
    using split_on_end [of slash b v] b not_space_bytes r(2) by (auto simp: rv S_def L_def)
  have out_reserved: False
    if out: "clean_onto False [] (split_on slash v) = g # out" and g: "hidden_name g" for g out
  proof -
    have "\<forall>p\<in>set (g # out). slash \<notin> set p"
      using clean_onto_subset [of False "[]" "split_on slash v"] out split_on_parts by fastforce
    then have "split_on slash (path_clean v) = g # out"
      using split_join [of "g # out" slash] by (simp add: path_clean_def abs out)
    moreover from this have "path_clean v \<noteq> []" using g by (auto simp: hidden_name_def has_prefix_def
      upload_prefix_def trash_dir_name_def)
    ultimately show False
      using free g by (simp add: reserved_relative_def clean hidden_name_def disj_commute)
  qed
  show ?thesis
  proof (cases S)
    case Nil
    then have L: "hidden_name L" using parts hid hidden_name_trimmed [OF _ b] by auto
    then have "L \<noteq> [] \<and> L \<noteq> ''.'' \<and> L \<noteq> ''..''" using hidden_name_chars by fastforce
    then show ?thesis using out_reserved [of L "[]"] L SL Nil by simp
  next
    case (Cons g mid)
    then have gf: "g = f" "rest = mid @ [L @ b]" using parts by auto
    have "clean_onto False [] (split_on slash v) = clean_onto False (f # mid) [L]"
      using clean_onto_plain [of "f # mid" False "[]" "[L]"] plain gf SL Cons by simp
    moreover have "last (f # mid) \<noteq> ''..''"
      using plain gf by (metis in_set_conv_decomp last_in_set list.distinct(1) plain_def set_append
        Un_iff append_Cons)
    ultimately have "clean_onto False [] (split_on slash v) =
        (if L = [] \<or> L = ''.'' then f # mid else if L = ''..'' then butlast (f # mid)
         else f # mid @ [L])" by simp
    then have "L = ''..''" "mid = []" using out_reserved hid by (auto split: if_splits)
    then show ?thesis using gf plain b by (auto simp: plain_def)
  qed
qed

section \<open>Steady paths\<close>

text \<open>The segments of a cleaned relative path: \<open>..\<close> only in front, and plain names.\<close>

lemma clean_onto_dots:
  assumes "\<exists>k q. out = replicate k ''..'' @ q \<and> (\<forall>x\<in>set q. plain x)" and "\<forall>x\<in>set xs. slash \<notin> set x"
  shows "\<exists>k q. clean_onto False out xs = replicate k ''..'' @ q \<and> (\<forall>x\<in>set q. plain x)"
  using assms
proof (induction xs arbitrary: out)
  case (Cons x xs)
  obtain k q where out: "out = replicate k ''..'' @ q" "\<forall>x\<in>set q. plain x" using Cons.prems(1) by blast
  have pop: "\<exists>j p. butlast out = replicate j ''..'' @ p \<and> (\<forall>x\<in>set p. plain x)"
    if "out \<noteq> []" "last out \<noteq> ''..''"
  proof (cases q rule: rev_cases)
    case Nil
    then show ?thesis using that out by (cases k) auto
  next
    case (snoc p y)
    then show ?thesis using out by (auto simp: butlast_append)
  qed
  have push: "\<exists>j p. out @ [''..''] = replicate j ''..'' @ p \<and> (\<forall>x\<in>set p. plain x)"
    if "\<not> (out \<noteq> [] \<and> last out \<noteq> ''..'')"
  proof (cases q rule: rev_cases)
    case Nil
    then have "out @ [''..''] = replicate (Suc k) ''..'' @ []"
      using out by (simp add: replicate_append_same)
    then show ?thesis by (metis empty_iff empty_set)
  next
    case (snoc p y)
    then show ?thesis using that out by (auto simp: plain_def)
  qed
  have add: "\<exists>j p. out @ [x] = replicate j ''..'' @ p \<and> (\<forall>x\<in>set p. plain x)"
    if "x \<noteq> []" "x \<noteq> ''.''" "x \<noteq> ''..''"
    using that out Cons.prems(2) by (intro exI [of _ k] exI [of _ "q @ [x]"]) (auto simp: plain_def)
  show ?case
    using Cons.IH [OF Cons.prems(1)] Cons.IH [OF pop] Cons.IH [OF push] Cons.IH [OF add] Cons.prems(2)
    by (simp split: if_split)
qed simp

lemma clean_segments:
  assumes r: "r = path_clean y" "r \<noteq> ''.''" "\<not> is_abs r" "\<not> path_escapes r"
  shows "\<forall>s\<in>set (split_on slash r). plain s"
proof -
  have abs: "\<not> is_abs y" using r by (auto simp: path_clean_def is_abs_def has_prefix_def Let_def)
  define out where "out = clean_onto False [] (split_on slash y)"
  have "r = join_on slash out" "out \<noteq> []"
    using r(1,2) abs by (auto simp: path_clean_def out_def Let_def split: if_splits)
  moreover have "\<forall>p\<in>set out. slash \<notin> set p"
    using clean_onto_subset [of False "[]" "split_on slash y"] split_on_parts
    unfolding out_def by fastforce
  ultimately have split: "split_on slash r = out" by (simp add: split_join)
  obtain k q where kq: "out = replicate k ''..'' @ q" "\<forall>x\<in>set q. plain x"
    using clean_onto_dots [of "[]" "split_on slash y"] split_on_parts unfolding out_def by force
  have "k = 0"
  proof (rule ccontr)
    assume "k \<noteq> 0"
    then obtain rest where "out = ''..'' # rest" using kq by (cases k) auto
    then have "r = ''..'' \<or> has_prefix r (''..'' @ [slash])"
      using \<open>r = join_on slash out\<close> by (cases rest) (auto simp: has_prefix_def)
    then show False using r(4) by (simp add: path_escapes_def)
  qed
  then show ?thesis using kq split by simp
qed

lemma plain_free: "plain p \<Longrightarrow> slash \<notin> set p"
  by (simp add: plain_def)

lemma not_plain [simp]: "\<not> plain []" "\<not> plain ''.''" "\<not> plain ''..''"
  by (simp_all add: plain_def)

lemma plain_ends: "plain p \<Longrightarrow> p \<noteq> [] \<and> hd p \<noteq> slash \<and> last p \<noteq> slash"
  unfolding plain_def by (metis hd_in_set last_in_set)

lemma join_on_snoc: "ps \<noteq> [] \<Longrightarrow> join_on c (ps @ [x]) = join_on c ps @ c # x"
  by (induction c ps rule: join_on.induct) auto

lemma path_clean_join:
  assumes "ps \<noteq> []" "\<forall>s\<in>set ps. plain s" and tail: "tail = [] \<or> tail = [slash]"
  shows "path_clean (join_on slash ps @ tail) = join_on slash ps"
proof -
  have free: "\<forall>s\<in>set ps. slash \<notin> set s" using assms(2) plain_free by blast
  obtain p qs where ps: "ps = p # qs" using assms(1) by (cases ps) auto
  then have "p \<noteq> []" "hd p \<noteq> slash" using assms(2) plain_ends by simp_all
  then have "\<not> is_abs (join_on slash ps @ tail)"
    unfolding ps by (cases p; cases qs) (auto simp: is_abs_def has_prefix_def)
  moreover have "split_on slash (join_on slash ps @ tail) = ps @ (if tail = [] then [] else [[]])"
  proof (cases "tail = []")
    case False
    then have "join_on slash ps @ tail = join_on slash (ps @ [[]])"
      using tail assms(1) by (simp add: join_on_snoc)
    then show ?thesis using False free assms(1) by (simp add: split_join)
  qed (use free assms(1) in \<open>simp add: split_join\<close>)
  moreover have "clean_onto False [] (ps @ (if tail = [] then [] else [[]])) = ps"
    using clean_onto_plain [OF assms(2), of False "[]"] by simp
  ultimately show ?thesis using assms(1) by (simp add: path_clean_def)
qed

text \<open>A target splits into the segments of its parent and its name.\<close>

lemma plain_path_parts:
  assumes split: "split_on slash r = segs @ [l]" and plain: "\<forall>s\<in>set (segs @ [l]). plain s"
  shows "r \<noteq> []" "\<not> is_abs r" "\<not> path_escapes r" "path_base r = l"
    "path_dir r = (if segs = [] then ''.'' else join_on slash segs)"
    "segs \<noteq> [] \<Longrightarrow> join_on slash segs \<noteq> ''.''"
proof -
  have r: "r = join_on slash (segs @ [l])" using split by (metis join_split)
  have l: "plain l" "l \<noteq> []" "last l \<noteq> slash" using plain plain_ends by simp_all
  have first: "plain (hd (segs @ [l]))" using plain by (cases segs) simp_all
  have hd: "hd (split_on slash r) = hd (segs @ [l])" using split by simp
  show ne: "r \<noteq> []" using split plain by auto
  show "\<not> is_abs r"
    using hd first by (cases r) (auto simp: is_abs_def has_prefix_def)
  show "\<not> path_escapes r"
  proof
    assume "path_escapes r"
    then consider "r = ''..''" | ys where "r = ''..'' @ slash # ys"
      by (auto simp: path_escapes_def has_prefix_iff)
    then have "hd (split_on slash r) = ''..''"
      by cases (simp_all add: slash_def split_on_append)
    then show False using hd first by simp
  qed
  have "last r = last l" using l r by (cases "segs = []") (auto simp: join_on_snoc)
  then have "rev (dropWhile (\<lambda>c. c = slash) (rev r)) = r"
    using l(3) ne by (cases r rule: rev_cases) auto
  then show "path_base r = l" using ne split by (simp add: path_base_def)
  show "path_dir r = (if segs = [] then ''.'' else join_on slash segs)"
  proof (cases "segs = []")
    case True
    then have "slash \<notin> set r" using r l by (simp add: plain_def)
    then show ?thesis using True by (simp add: path_dir_def path_clean_def is_abs_def has_prefix_def)
  next
    case False
    then have "slash \<in> set r" using r by (simp add: join_on_snoc)
    then have "path_dir r = path_clean (join_on slash segs @ [slash])"
      by (simp add: path_dir_def split)
    then show ?thesis using False path_clean_join [of segs "[slash]"] plain by simp
  qed
  show "join_on slash segs \<noteq> ''.''" if "segs \<noteq> []"
  proof -
    have "split_on slash (join_on slash segs) = segs"
      using that plain plain_free by (intro split_join) auto
    moreover have "split_on slash ''.'' = [''.'']" by (simp add: slash_def)
    moreover have "segs \<noteq> [''.'']" using plain by auto
    ultimately show ?thesis by metis
  qed
qed

lemma split_target_of_segments:
  assumes "split_on slash (clean_relative relative) = segs @ [l]" and "\<forall>s\<in>set (segs @ [l]). plain s"
    and "\<not> reserved_relative (clean_relative relative)"
  shows "split_target relative = Inr (join_on slash segs, l)"
  using plain_path_parts [OF assms(1,2)] assms(2,3)
  by (auto simp: split_target_Inr Let_def)

lemma split_target_segments:
  assumes "split_target relative = Inr (pr, name)"
  obtains segs where "split_on slash (clean_relative relative) = segs @ [name]"
    "\<forall>s\<in>set (segs @ [name]). plain s" "pr = join_on slash segs"
    "\<not> reserved_relative (clean_relative relative)"
proof -
  define r where "r = clean_relative relative"
  have t: "r \<noteq> []" "\<not> is_abs r" "\<not> path_escapes r" "\<not> reserved_relative r" "name = path_base r"
    "name \<noteq> ''.''" "pr = (if path_dir r = ''.'' then [] else path_dir r)"
    using assms by (auto simp: split_target_Inr Let_def r_def)
  have "r \<noteq> ''.''" using t(5,6) by (auto simp: path_base_def slash_def)
  moreover have "r = path_clean (trim_space (to_slashes relative))"
    using t(1) by (auto simp: r_def clean_relative_def Let_def split: if_splits)
  ultimately have plain: "\<forall>s\<in>set (split_on slash r). plain s" using clean_segments t(2,3) by blast
  define segs where "segs = butlast (split_on slash r)"
  define l where "l = last (split_on slash r)"
  have split: "split_on slash r = segs @ [l]" by (simp add: segs_def l_def)
  note parts = plain_path_parts [OF split]
  have "pr = join_on slash segs" "name = l" using t parts plain split by auto
  then show ?thesis using that split plain t(4) by (simp add: r_def)
qed

text \<open>
  The code cleans a path, looks at it, and cleans it or its parent again.  A path is
  \<open>steady\<close> when cleaning a second time changes neither.
\<close>

definition steady :: "string \<Rightarrow> bool" where
  "steady relative \<longleftrightarrow>
     (let r = clean_relative relative in
      clean_relative r = r \<and>
      (path_dir r = ''.'' \<or> clean_relative (path_dir r) = path_dir r))"

lemma steady_target:
  assumes "split_target relative = Inr (pr, name)" and "steady relative"
  shows "user_segments pr @ [name] = split_on slash (clean_relative relative)"
    "\<not> hidden_name (hd (split_on slash (clean_relative relative)))"
proof -
  obtain segs where segs: "split_on slash (clean_relative relative) = segs @ [name]"
    "\<forall>s\<in>set (segs @ [name]). plain s" "pr = join_on slash segs"
    "\<not> reserved_relative (clean_relative relative)"
    using assms(1) by (rule split_target_segments)
  have r: "clean_relative (clean_relative relative) = clean_relative relative"
    "clean_relative relative \<noteq> []"
    using assms by (auto simp: steady_def Let_def split_target_Inr)
  have "clean_relative pr = pr"
    using assms by (auto simp: steady_def Let_def split_target_Inr clean_relative_def to_slashes_def)
  moreover have "split_on slash pr = segs \<and> pr \<noteq> []" if "segs \<noteq> []"
  proof -
    have split: "split_on slash pr = segs"
      unfolding segs(3) using that segs(2) plain_free by (intro split_join) auto
    moreover have "pr \<noteq> []" using split that segs(2) by fastforce
    ultimately show ?thesis by blast
  qed
  ultimately show "user_segments pr @ [name] = split_on slash (clean_relative relative)"
    using segs(1,3) by (cases "segs = []") (simp_all add: user_segments_def)
  show "\<not> hidden_name (hd (split_on slash (clean_relative relative)))"
    using segs(4) r by (auto simp: reserved_relative_def hidden_name_def Let_def)
qed

end
