(* ===== verification/FileData.thy ===== *)
theory FileData
  imports Disk UserPaths Access GoTime
begin

text \<open>
  \<open>src/internal/filedata/service.go\<close>: the operations on the files of one logical folder.
  User paths are text; \<open>root\<close> is the absolute and clean path of the folder on the disk.
\<close>

section \<open>Resolution below the folder\<close>

definition is_symlink :: "item \<Rightarrow> bool" where
  "is_symlink k = (case k of Symlink _ _ \<Rightarrow> True | _ \<Rightarrow> False)"

definition is_regular :: "item \<Rightarrow> bool" where
  "is_regular k = (case k of Regular _ \<Rightarrow> True | _ \<Rightarrow> False)"

fun descend :: "path \<Rightarrow> string list \<Rightarrow> path io" where
  "descend cur [] = ret cur"
| "descend cur (s # ss) =
     bind_io (guard_io (\<not> (s = [] \<or> s = ''.'' \<or> s = ''..'')) (Err ''invalid path segment'')) (\<lambda>_.
     bind_io (lstat (join_path cur s)) (\<lambda>k.
     bind_io (guard_io (\<not> is_symlink k) (Err ''symlink traversal is not allowed'')) (\<lambda>_.
     descend (join_path cur s) ss)))"

definition resolve_existing :: "path \<Rightarrow> string \<Rightarrow> path io" where
  "resolve_existing root relative =
     bind_io (wrapping (lstat root) ''inspect logical folder root: '') (\<lambda>k.
     bind_io (guard_io (k = Directory) (Err ''logical folder root must be a real directory'')) (\<lambda>_.
     let r = clean_relative relative
     in if r = [] then ret root
        else bind_io (guard_io (\<not> (is_abs r \<or> path_escapes r \<or> reserved_relative r))
                       (Err ''path is outside the user-visible logical folder'')) (\<lambda>_.
             descend root (split_on slash r))))"

text \<open>\<open>FolderRoot\<close>: where the folder lies below its pool.\<close>

definition folder_root :: "string \<Rightarrow> string \<Rightarrow> path io" where
  "folder_root pool_root relative_path =
     (let pool = path_clean (trim_space pool_root);
          relative = path_clean (trim_space relative_path)
      in bind_io (guard_io (pool \<noteq> ''.'' \<and> is_abs pool) (Err ''invalid pool root'')) (\<lambda>_.
         bind_io (guard_io (\<not> (relative = ''.'' \<or> is_abs relative \<or> path_escapes relative))
                   (Err ''invalid folder relative path'')) (\<lambda>_.
         let root = join_path (join_path (join_path [] pool) data_root_name) relative
         in bind_io (wrapping (lstat root) ''inspect logical folder root: '') (\<lambda>k.
            bind_io (guard_io (k = Directory)
                      (Err ''logical folder root must be a real directory'')) (\<lambda>_.
            ret root)))))"

text \<open>
  A parent directory and the name in it: the opening of \<open>CreateDirectory\<close>,
  \<open>UploadLimited\<close>, \<open>Move\<close> and of the upload sessions, which differ in one message.
\<close>

definition target_parent :: "path \<Rightarrow> string \<Rightarrow> string \<Rightarrow> (path \<times> string) io" where
  "target_parent root relative not_dir =
     bind_io (lift_res (split_target relative)) (\<lambda>(parent_relative, name).
     bind_io (resolve_existing root parent_relative) (\<lambda>parent.
     bind_io (lstat parent) (\<lambda>k.
     bind_io (guard_io (k = Directory) (Err not_dir)) (\<lambda>_.
     ret (parent, name)))))"

text \<open>\<open>Lstat\<close> of a target that must not exist.\<close>

definition must_not_exist :: "path \<Rightarrow> go_error \<Rightarrow> unit io" where
  "must_not_exist p e = attempt (lstat p) (\<lambda>r. case r of
     Inr _ \<Rightarrow> throw e
   | Inl x \<Rightarrow> if x = ErrSys ENOENT then ret () else throw x)"

section \<open>Listing\<close>

record entry =
  en_name :: string
  en_path :: string
  en_kind :: string
  en_size :: nat
  en_modified :: gotime

definition file_size :: "item \<Rightarrow> string \<Rightarrow> nat" where
  "file_size k kind =
     (if kind \<noteq> ''file'' then 0 else case k of Regular c \<Rightarrow> length c | _ \<Rightarrow> 0)"

definition kind_name :: "item \<Rightarrow> string" where
  "kind_name k =
     (case k of Symlink _ _ \<Rightarrow> ''symlink'' | Directory \<Rightarrow> ''directory'' | _ \<Rightarrow> ''file'')"

definition join_text :: "string \<Rightarrow> string \<Rightarrow> string" where
  "join_text a b =
     (if a = [] then (if b = [] then [] else path_clean b)
      else path_clean (if b = [] then a else a @ [slash] @ b))"

fun list_items :: "(path \<Rightarrow> gotime) \<Rightarrow> path \<Rightarrow> string \<Rightarrow> string list \<Rightarrow> entry list io" where
  "list_items mtime dir relative [] = ret []"
| "list_items mtime dir relative (n # ns) =
     (if hidden_name n then list_items mtime dir relative ns
      else bind_io (or_else (lstat (join_path dir n)) (ret ()) (Wrapf ''inspect entry %s: '' [n])) (\<lambda>k.
           bind_io (list_items mtime dir relative ns) (\<lambda>es.
           let p = join_text (clean_relative relative) n
           in ret (\<lparr>en_name = n, en_path = (if p = ''.'' then n else p), en_kind = kind_name k,
                    en_size = file_size k (kind_name k), en_modified = mtime (join_path dir n)\<rparr> # es))))"

text \<open>
  Directories first, then by lower-case name; \<open>sort.Slice\<close> may permute entries whose
  lower-case names are equal, here they keep the order of the directory.
\<close>

definition list_order :: "(nat \<Rightarrow> nat) \<Rightarrow> entry list \<Rightarrow> entry list" where
  "list_order tbl es =
     sort_key (\<lambda>e. to_lower tbl (en_name e)) (filter (\<lambda>e. en_kind e = ''directory'') es) @
     sort_key (\<lambda>e. to_lower tbl (en_name e)) (filter (\<lambda>e. en_kind e \<noteq> ''directory'') es)"

definition list_folder ::
  "(nat \<Rightarrow> nat) \<Rightarrow> (path \<Rightarrow> gotime) \<Rightarrow> path \<Rightarrow> string \<Rightarrow> entry list io" where
  "list_folder tbl mtime root relative =
     bind_io (resolve_existing root relative) (\<lambda>dir.
     bind_io (lstat dir) (\<lambda>k.
     bind_io (guard_io (k = Directory) (Err ''requested path is not a directory'')) (\<lambda>_.
     bind_io (wrapping (read_dir dir) ''read directory: '') (\<lambda>items.
     bind_io (list_items mtime dir relative (map fst items)) (\<lambda>es.
     ret (list_order tbl es))))))"

section \<open>Directories and moves\<close>

definition create_directory :: "path \<Rightarrow> string \<Rightarrow> unit io" where
  "create_directory root relative =
     bind_io (target_parent root relative ''parent path is not a directory'') (\<lambda>(parent, name).
     bind_io (must_not_exist (join_path parent name) (Err ''target already exists'')) (\<lambda>_.
     wrapping (mkdir (join_path parent name)) ''create directory: ''))"

definition delete_entry :: "path \<Rightarrow> string \<Rightarrow> unit io" where
  "delete_entry root relative0 =
     (let relative = clean_relative relative0 in
      bind_io (guard_io (relative \<noteq> []) (Err ''logical folder root cannot be deleted'')) (\<lambda>_.
      bind_io (resolve_existing root relative) (\<lambda>p.
      bind_io (lstat p) (\<lambda>k.
      bind_io (guard_io (\<not> is_symlink k) (Err ''symlink deletion is not supported'')) (\<lambda>_.
      wrapping (remove p) ''delete entry: '')))))"

definition move_entry :: "path \<Rightarrow> string \<Rightarrow> string \<Rightarrow> unit io" where
  "move_entry root from0 to0 =
     (let src = clean_relative from0; dst = clean_relative to0 in
      bind_io (guard_io (src \<noteq> [] \<and> dst \<noteq> []) (Err ''source and target paths are required'')) (\<lambda>_.
      bind_io (guard_io (src \<noteq> dst) (Err ''source and target paths are the same'')) (\<lambda>_.
      bind_io (resolve_existing root src) (\<lambda>source.
      bind_io (lstat source) (\<lambda>k.
      bind_io (guard_io (\<not> is_symlink k) (Err ''symlink move is not supported'')) (\<lambda>_.
      bind_io (target_parent root dst ''target parent is not a directory'') (\<lambda>(parent, name).
      bind_io (guard_io (\<not> (k = Directory \<and> prefix source parent))
                (Err ''directory cannot be moved inside itself'')) (\<lambda>_.
      bind_io (must_not_exist (join_path parent name) (Err ''target already exists'')) (\<lambda>_.
      wrapping (rename source (join_path parent name)) ''move entry: '')))))))))"

section \<open>File contents\<close>

text \<open>
  A source of bytes: what it yields, and the error (other than \<open>io.EOF\<close>) it ends with.
  \<open>copy_into\<close> is \<open>io.Copy\<close> into a new or appended file, from the source itself or from an
  \<open>io.LimitedReader\<close>; \<open>probe_more\<close> reads one byte beyond the limit.
\<close>

record reader =
  rd_data :: string
  rd_error :: "go_error option"

definition copy_into :: "path \<Rightarrow> reader \<Rightarrow> nat option \<Rightarrow> nat io" where
  "copy_into q src limit =
     (let s = (case limit of None \<Rightarrow> rd_data src | Some n \<Rightarrow> take n (rd_data src)) in
      bind_io (if s = [] then ret () else append_to q s) (\<lambda>_.
      case rd_error src of
        Some e \<Rightarrow>
          if (case limit of None \<Rightarrow> True | Some n \<Rightarrow> length (rd_data src) < n) then throw e
          else ret (length s)
      | None \<Rightarrow> ret (length s)))"

definition probe_more :: "reader \<Rightarrow> nat \<Rightarrow> bool res" where
  "probe_more src n =
     (if n < length (rd_data src) then Inr True
      else case rd_error src of Some e \<Rightarrow> Inl e | None \<Rightarrow> Inr False)"

text \<open>
  The copy of \<open>UploadLimited\<close>: with a negative limit everything, otherwise at most
  \<open>max_bytes\<close> and an error if there is more.
\<close>

definition copy_capped :: "path \<Rightarrow> reader \<Rightarrow> int \<Rightarrow> nat io" where
  "copy_capped q src max_bytes =
     (if max_bytes < 0 then or_else (copy_into q src None) close_handle (Wrap ''write upload: '')
      else bind_io (or_else (copy_into q src (Some (nat max_bytes))) close_handle
                     (Wrap ''write upload: '')) (\<lambda>written.
           if written = nat max_bytes then
             (case probe_more src (nat max_bytes) of
                Inr True \<Rightarrow> bind_io (ignore close_handle) (\<lambda>_. throw ErrCapacityLimit)
              | Inl e \<Rightarrow> bind_io (ignore close_handle) (\<lambda>_.
                  throw (Wrap ''check upload capacity: '' e))
              | Inr False \<Rightarrow> ret written)
           else ret written))"

text \<open>
  The commit of a temporary file: \<open>Chmod\<close>, the writing itself, \<open>Sync\<close>, \<open>Close\<close> and the
  rename to the target, with a deferred removal of the temporary name.  \<open>UploadLimited\<close>,
  \<open>writeUploadMetadata\<close> and \<open>writeTrashMetadata\<close> have this shape.
\<close>

definition write_and_rename ::
  "path \<Rightarrow> 'a io \<Rightarrow> path \<Rightarrow> path \<Rightarrow> (go_error \<Rightarrow> go_error) \<Rightarrow> 'a io" where
  "write_and_rename q writing temp target wrap =
     deferring
       (bind_io (or_else chmod_handle close_handle id) (\<lambda>_.
        bind_io writing (\<lambda>written.
        bind_io (or_else sync_handle close_handle id) (\<lambda>_.
        bind_io close_handle (\<lambda>_.
        bind_io (or_else (rename temp target) (ret ()) wrap) (\<lambda>_.
        ret written))))))
       (remove temp)"

text \<open>\<open>rnd\<close> is the random suffix on which \<open>os.CreateTemp\<close> stops.\<close>

definition upload_limited :: "path \<Rightarrow> string \<Rightarrow> reader \<Rightarrow> int \<Rightarrow> string \<Rightarrow> nat io" where
  "upload_limited root relative src max_bytes rnd =
     bind_io (target_parent root relative ''parent path is not a directory'') (\<lambda>(parent, name).
     let target = join_path parent name; temp = join_path parent (upload_prefix @ rnd) in
     bind_io (attempt (lstat target) (\<lambda>r. case r of
         Inr k \<Rightarrow> guard_io (is_regular k) (Err ''target exists and is not a regular file'')
       | Inl e \<Rightarrow> if e = ErrSys ENOENT then ret () else throw e)) (\<lambda>_.
     bind_io (wrapping (create_excl temp) ''create upload temp file: '') (\<lambda>q.
     write_and_rename q (copy_capped q src max_bytes) temp target (Wrap ''commit upload: ''))))"

definition upload_file :: "path \<Rightarrow> string \<Rightarrow> reader \<Rightarrow> string \<Rightarrow> nat io" where
  "upload_file root relative src rnd = upload_limited root relative src (- 1) rnd"

definition open_file :: "path \<Rightarrow> string \<Rightarrow> (path \<times> item) io" where
  "open_file root relative =
     bind_io (resolve_existing root relative) (\<lambda>p.
     bind_io (lstat p) (\<lambda>k.
     bind_io (guard_io (is_regular k) (Err ''requested path is not a regular file'')) (\<lambda>_.
     bind_io (open_read p) (\<lambda>q.
     ret (q, k)))))"

section \<open>What resolution guarantees\<close>

text \<open>
  The entry a user path stands for: below the folder, reached through real directories
  only, existing, and not a symbolic link.
\<close>

definition resolved :: "tree \<Rightarrow> path \<Rightarrow> string \<Rightarrow> path \<Rightarrow> bool" where
  "resolved t root relative p \<longleftrightarrow>
     p = root @ user_segments relative \<and> real_dir t root \<and> clear_path t p \<and>
     (\<exists>k. item_at t p = Some k \<and> \<not> is_symlink k) \<and>
     \<not> reserved_relative (clean_relative relative)"

definition new_target :: "tree \<Rightarrow> path \<Rightarrow> string \<Rightarrow> path \<Rightarrow> string \<Rightarrow> bool" where
  "new_target t root relative parent name \<longleftrightarrow>
     (\<exists>pr. split_target relative = Inr (pr, name) \<and> resolved t root pr parent) \<and>
     real_dir t parent \<and> plain name"

lemma is_symlink_iff: "is_symlink k \<longleftrightarrow> (\<exists>a tg. k = Symlink a tg)"
  by (cases k) (simp_all add: is_symlink_def)

lemma wp_descend:
  assumes "clear_path t cur" "\<exists>k. item_at t cur = Some k \<and> \<not> is_symlink k"
    and "\<forall>s\<in>set ss. slash \<notin> set s" and e: "\<And>e. Q (Inl e) t"
    and "clear_path t (cur @ ss) \<Longrightarrow> (\<exists>k. item_at t (cur @ ss) = Some k \<and> \<not> is_symlink k) \<Longrightarrow>
         Q (Inr (cur @ ss)) t"
  shows "wp (descend cur ss) Q t"
  using assms(1,2,3,5)
proof (induction ss arbitrary: cur)
  case (Cons s ss)
  show ?case
  proof (cases "s = [] \<or> s = ''.'' \<or> s = ''..''")
    case False
    then have s: "plain s" using Cons.prems(3) by (simp add: plain_def)
    have link: "\<forall>a tg. item_at t cur \<noteq> Some (Symlink a tg)"
      using Cons.prems(2) by (auto simp: is_symlink_def)
    have "wp (descend (cur @ [s]) ss) Q t"
      if "real_dir t cur" "okname s" "item_at t (cur @ [s]) = Some k" "\<not> is_symlink k" for k
      using that Cons.prems(3,4) by (intro Cons.IH) simp_all
    then show ?thesis
      using False s e
      by (auto intro!: wp_bind wp_lstat_child [OF Cons.prems(1) link s])
  qed (auto intro!: wp_bind simp: e)
qed simp

lemma wp_resolve [wp_intros]:
  assumes root: "clear_path t root" and e: "\<And>e. Q (Inl e) t"
    and k: "\<And>p. resolved t root relative p \<Longrightarrow> clear_path t p \<Longrightarrow> Q (Inr p) t"
  shows "wp (resolve_existing root relative) Q t"
proof -
  have step: "wp (let r = clean_relative relative
     in if r = [] then ret root
        else bind_io (guard_io (\<not> (is_abs r \<or> path_escapes r \<or> reserved_relative r))
                       (Err ''path is outside the user-visible logical folder'')) (\<lambda>_.
             descend root (split_on slash r))) Q t"
    if dir: "item_at t root = Some Directory"
  proof (cases "clean_relative relative = []")
    case True
    then have "resolved t root relative root"
      using root dir by (simp add: resolved_def user_segments_def real_dir_def is_symlink_def)
    then show ?thesis using True k by (simp add: resolved_def)
  next
    case False
    have "wp (descend root (split_on slash (clean_relative relative))) Q t"
      if "\<not> reserved_relative (clean_relative relative)"
      using that False root dir
      by (intro wp_descend e k split_slash_free)
        (auto simp: resolved_def user_segments_def real_dir_def is_symlink_def)
    then show ?thesis using False e by (auto simp: Let_def intro!: wp_bind)
  qed
  show ?thesis
    unfolding resolve_existing_def
    by (rule wp_bind, rule wp_or_else, rule wp_lstat_clear [OF root])
      (auto intro!: wp_bind simp: e step)
qed

lemma wp_target_parent [wp_intros]:
  assumes root: "clear_path t root" and e: "\<And>e. Q (Inl e) t"
    and k: "\<And>parent name. new_target t root relative parent name \<Longrightarrow>
              real_dir t parent \<Longrightarrow> plain name \<Longrightarrow> Q (Inr (parent, name)) t"
  shows "wp (target_parent root relative msg) Q t"
proof (cases "split_target relative")
  case (Inr a)
  obtain pr name where a: "a = (pr, name)" by (cases a)
  have name: "plain name"
    using Inr path_base_plain by (auto simp: a split_target_Inr Let_def)
  have step: "wp (bind_io (lstat parent) (\<lambda>k.
       bind_io (guard_io (k = Directory) (Err msg)) (\<lambda>_. ret (parent, name)))) Q t"
    if p: "resolved t root pr parent" for parent
  proof -
    have clear: "clear_path t parent" using p unfolding resolved_def by blast
    show ?thesis
      using p Inr name clear e
      by (auto intro!: wp_bind wp_lstat_clear [OF clear] k simp: new_target_def a real_dir_def)
  qed
  show ?thesis
    unfolding target_parent_def
    by (rule wp_bind) (auto simp: Inr a intro!: wp_bind wp_resolve [OF root] e step)
qed (auto simp: target_parent_def e intro!: wp_bind)

lemma wp_must_not_exist [wp_intros]:
  assumes p: "real_dir t p" "plain x" and e: "\<And>e. Q (Inl e) t"
    and k: "okname x \<Longrightarrow> item_at t (p @ [x]) = None \<Longrightarrow> Q (Inr ()) t"
  shows "wp (must_not_exist (p @ [x]) err) Q t"
proof (cases "CHR 0x00 \<in> set x")
  case True
  show ?thesis
    unfolding must_not_exist_def lstat_def
    by (rule wp_attempt, rule wp_query) (auto simp: at_real_nul True e trouble_codes_def)
next
  case False
  then have "clear_path t (p @ [x])" "okname x" using p by (simp_all add: okname_def)
  then show ?thesis
    unfolding must_not_exist_def
    by (intro wp_attempt wp_lstat_clear) (auto simp: e k trouble_codes_def)
qed

section \<open>What the operations do\<close>

text \<open>
  Each operation either fails and leaves every entry as it was, or makes exactly one change
  at a path that resolution has checked.
\<close>

definition fresh_target :: "tree \<Rightarrow> path \<Rightarrow> string \<Rightarrow> path \<Rightarrow> string \<Rightarrow> bool" where
  "fresh_target t root relative parent name \<longleftrightarrow>
     new_target t root relative parent name \<and> okname name \<and> item_at t (parent @ [name]) = None"

lemma resolvedD:
  assumes "resolved t root relative p"
  shows "p = root @ user_segments relative" "real_dir t root" "clear_path t p"
    "\<exists>k. item_at t p = Some k \<and> \<not> is_symlink k"
    "\<not> reserved_relative (clean_relative relative)"
  using assms unfolding resolved_def by blast+

lemmas resolved_clear = resolvedD(3)

lemma new_targetD:
  assumes "new_target t root relative parent name"
  shows "real_dir t parent" "plain name"
  using assms unfolding new_target_def by blast+

lemma wp_create_directory:
  assumes root: "clear_path t root" and e: "\<And>e. Q (Inl e) t"
    and k: "\<And>parent name. fresh_target t root relative parent name \<Longrightarrow>
              Q (Inr ()) (put (parent @ [name]) Directory t)"
  shows "wp (create_directory root relative) Q t"
  unfolding create_directory_def
  by (auto intro!: wp_intros root wp_mkdir e k simp: fresh_target_def)

lemma wp_delete_entry:
  assumes root: "clear_path t root" and e: "\<And>e. Q (Inl e) t"
    and k: "\<And>p. resolved t root (clean_relative relative) p \<Longrightarrow> clean_relative relative \<noteq> [] \<Longrightarrow>
              p \<noteq> [] \<Longrightarrow>
              item_at t p \<noteq> Some Directory \<or> (\<forall>e\<in>set t. \<not> strict_prefix p (fst e)) \<Longrightarrow>
              Q (Inr ()) (cut p t)"
  shows "wp (delete_entry root relative) Q t"
  unfolding delete_entry_def Let_def
  by (auto intro!: wp_intros root wp_lstat_clear wp_remove e k)

lemma wp_move_entry:
  assumes root: "clear_path t root" and e: "\<And>e. Q (Inl e) t"
    and k: "\<And>source parent name. clean_relative from0 \<noteq> [] \<Longrightarrow>
              resolved t root (clean_relative from0) source \<Longrightarrow>
              fresh_target t root (clean_relative to0) parent name \<Longrightarrow>
              \<not> prefix source (parent @ [name]) \<Longrightarrow> \<not> prefix (parent @ [name]) source \<Longrightarrow>
              Q (Inr ()) (graft source (parent @ [name]) t)"
  shows "wp (move_entry root from0 to0) Q t"
  unfolding move_entry_def Let_def
  by (auto intro!: wp_intros root wp_lstat_clear wp_rename e k simp: fresh_target_def)

text \<open>
  Writing to one file: every other entry is as before.  \<open>writes_to q c t u\<close> says that
  \<open>u\<close> differs from \<open>t\<close> in the file at \<open>q\<close> only, which now holds \<open>c\<close>.
\<close>

definition writes_to :: "path \<Rightarrow> string \<Rightarrow> tree \<Rightarrow> tree \<Rightarrow> bool" where
  "writes_to q c t u \<longleftrightarrow> same_outside (\<lambda>p. p = q) t u \<and> item_at u q = Some (Regular c)"

lemma writes_to_refl: "item_at t q = Some (Regular c) \<Longrightarrow> writes_to q c t t"
  by (simp add: writes_to_def)

lemma writes_to_put: "q \<noteq> [] \<Longrightarrow> writes_to q c t u \<Longrightarrow> writes_to q c' t (put q (Regular c') u)"
  by (auto simp: writes_to_def same_outside_def)

lemma writes_to_new: "q \<noteq> [] \<Longrightarrow> writes_to q c t (put q (Regular c) t)"
  by (auto simp: writes_to_def same_outside_def)

lemma writes_to_item: "writes_to q c t u \<Longrightarrow> item_at u p = (if p = q then Some (Regular c) else item_at t p)"
  by (auto simp: writes_to_def same_outside_def)

lemma writes_to_dir:
  assumes "writes_to (p @ [x]) c t u" and "real_dir t p"
  shows "real_dir u p"
  using assms(2) by (rule real_dir_cong) (use assms(1) in \<open>auto simp: writes_to_item\<close>)

lemma wp_copy_into:
  assumes u: "writes_to q c t u" "q \<noteq> []"
    and e: "\<And>err v x. writes_to q (c @ x) t v \<Longrightarrow> Q (Inl err) v"
    and k: "\<And>v s. writes_to q (c @ s) t v \<Longrightarrow>
        (case limit of None \<Rightarrow> s = rd_data src \<and> rd_error src = None
         | Some n \<Rightarrow> s = take n (rd_data src) \<and> (length s < n \<longrightarrow> rd_error src = None)) \<Longrightarrow>
        Q (Inr (length s)) v"
  shows "wp (copy_into q src limit) Q u"
proof -
  define s where "s = (case limit of None \<Rightarrow> rd_data src | Some n \<Rightarrow> take n (rd_data src))"
  have item: "item_at u q = Some (Regular c)" using u by (simp add: writes_to_item)
  have wrote: "writes_to q (c @ x) t (append_bytes q x u)" for x
    using writes_to_put [OF u(2,1)] item by simp
  have done': "wp (case rd_error src of
        Some e \<Rightarrow>
          if (case limit of None \<Rightarrow> True | Some n \<Rightarrow> length (rd_data src) < n) then throw e
          else ret (length s)
      | None \<Rightarrow> ret (length s)) Q v" if "writes_to q (c @ s) t v" for v
    using that e k by (auto simp: s_def split: option.splits)
  have "wp (if s = [] then ret () else append_to q s)
     (\<lambda>r v. case r of Inl err \<Rightarrow> Q (Inl err) v | Inr _ \<Rightarrow> writes_to q (c @ s) t v) u"
    using wrote u(1) by (auto intro!: wp_intros e [OF wrote])
  then show ?thesis
    unfolding copy_into_def Let_def s_def [symmetric]
    by (intro wp_bind) (erule wp_mono, auto split: sum.splits intro: done')
qed

lemma wp_copy_capped:
  assumes u: "writes_to q [] t u" "q \<noteq> []"
    and e: "\<And>err v x. writes_to q x t v \<Longrightarrow> Q (Inl err) v"
    and k: "\<And>v n. writes_to q (rd_data src) t v \<Longrightarrow> rd_error src = None \<Longrightarrow>
        n = length (rd_data src) \<Longrightarrow> max_bytes < 0 \<or> int n \<le> max_bytes \<Longrightarrow> Q (Inr n) v"
  shows "wp (copy_capped q src max_bytes) Q u"
proof (cases "max_bytes < 0")
  case True
  then show ?thesis
    unfolding copy_capped_def
    by (auto intro!: wp_or_else wp_copy_into [OF u] wp_handle e k)
next
  case False
  then show ?thesis
    unfolding copy_capped_def
    by (auto intro!: wp_bind wp_or_else wp_copy_into [OF u] wp_ignore wp_handle e k
        simp: probe_more_def split: option.splits if_splits)
qed

lemma new_target_base:
  "new_target t root relative parent name \<Longrightarrow> name = path_base (clean_relative relative)"
  by (auto simp: new_target_def split_target_Inr Let_def)

text \<open>The removal of the temporary file, whether or not it is still there.\<close>

lemma wp_remove_temp:
  assumes p: "clear_path u p" and same: "same_outside A t u" and A: "\<And>q. prefix p q \<Longrightarrow> A q"
    and k: "\<And>v. same_outside A t v \<Longrightarrow> (\<And>q. \<not> prefix p q \<Longrightarrow> item_at v q = item_at u q) \<Longrightarrow> R v"
  shows "wp (remove p) (\<lambda>_. R) u"
proof (rule wp_remove [OF p])
  show "R (cut p u)" if "p \<noteq> []"
    using that same A by (intro k) (auto simp: same_outside_def item_at_cut)
qed (use same k in auto)

lemma wp_write_and_rename:
  assumes p: "real_dir t parent" and names: "okname tname" "okname name" "tname \<noteq> name"
    and body: "\<And>R. (\<And>err v x. writes_to (parent @ [tname]) x t v \<Longrightarrow> R (Inl err) v) \<Longrightarrow>
        (\<And>v w. writes_to (parent @ [tname]) data t v \<Longrightarrow> ok w \<Longrightarrow> R (Inr w) v) \<Longrightarrow>
        wp writing R (put (parent @ [tname]) (Regular []) t)"
    and e: "\<And>err u. same_outside (prefix (parent @ [tname])) t u \<Longrightarrow> Q (Inl err) u"
    and k: "\<And>w u. same_outside (\<lambda>q. prefix (parent @ [tname]) q \<or> prefix (parent @ [name]) q) t u \<Longrightarrow>
        item_at u (parent @ [name]) = Some (Regular data) \<Longrightarrow> ok w \<Longrightarrow> Q (Inr w) u"
  shows "wp (write_and_rename (parent @ [tname]) writing (parent @ [tname]) (parent @ [name]) wrap) Q
           (put (parent @ [tname]) (Regular []) t)"
proof -
  define temp where "temp = parent @ [tname]"
  define target where "target = parent @ [name]"
  have ne: "\<not> prefix temp target" "\<not> prefix target temp" "temp \<noteq> []"
    using names by (auto simp: temp_def target_def)
  have new: "writes_to temp [] t (put temp (Regular []) t)" by (rule writes_to_new [OF ne(3)])
  have dir: "real_dir v parent" if "writes_to temp x t v" for v x
    using writes_to_dir p that unfolding temp_def by blast
  have err: "wp (remove temp) (\<lambda>_. Q (Inl er)) v" if v: "writes_to temp x t v" for v x er
    using e v dir [OF v] names
    by (intro wp_remove_temp [where t = t and A = "prefix temp"])
      (auto simp: temp_def writes_to_def elim!: same_outside_weaken)
  have fin: "wp (remove temp) (\<lambda>_. Q (Inr w)) (graft temp target v)"
    if v: "writes_to temp data t v" and w: "ok w" for v w
  proof (rule wp_remove_temp [where t = t and A = "\<lambda>q. prefix temp q \<or> prefix target q"])
    have up: "item_at (graft temp target v) q = item_at t q" if "strict_prefix q temp" for q
    proof -
      have "prefix q parent" using that by (simp add: temp_def strict_prefix_snoc)
      then have "\<not> prefix temp q" "\<not> prefix target q"
        by (simp_all add: temp_def target_def prefix_not_above)
      then show ?thesis using v by (auto simp: item_at_graft [OF ne(1,2)] writes_to_item)
    qed
    have "clear_path t temp" using p names by (simp add: temp_def)
    then show "clear_path (graft temp target v) temp" by (rule clear_path_cong) (rule up)
    show "same_outside (\<lambda>q. prefix temp q \<or> prefix target q) t (graft temp target v)"
      using v by (auto simp: same_outside_def item_at_graft [OF ne(1,2)] writes_to_item)
    fix u
    assume u: "same_outside (\<lambda>q. prefix temp q \<or> prefix target q) t u"
      and same: "\<And>q. \<not> prefix temp q \<Longrightarrow> item_at u q = item_at (graft temp target v) q"
    have "item_at u target = Some (Regular data)"
      using same [OF ne(1)] v by (simp add: item_at_graft [OF ne(1,2)] writes_to_item)
    then show "Q (Inr w) u" using k u w by (simp add: temp_def target_def)
  qed auto
  have ren: "wp (rename temp target) (\<lambda>r v. case r of
       Inl er \<Rightarrow> wp (remove temp) (\<lambda>_. Q (Inl (wrap er))) v
     | Inr _ \<Rightarrow> wp (remove temp) (\<lambda>_. Q (Inr w)) v) v"
    if v: "writes_to temp data t v" and w: "ok w" for v w
    using dir [OF v] names ne err [OF v] fin [OF v w]
    by (intro wp_rename) (auto simp: temp_def target_def)
  show ?thesis
    unfolding write_and_rename_def temp_def [symmetric] target_def [symmetric]
    by (auto intro!: wp_deferring wp_bind wp_or_else wp_handle body [folded temp_def]
        err [OF new] err wp_mono [OF ren] split: sum.splits)
qed

lemma wp_upload_limited:
  assumes root: "clear_path t root" and rnd: "okname (upload_prefix @ rnd)"
    and base: "path_base (clean_relative relative) \<noteq> upload_prefix @ rnd"
    and e: "\<And>err. Q (Inl err) t"
    and e': "\<And>parent name err u. new_target t root relative parent name \<Longrightarrow>
        item_at t (parent @ [upload_prefix @ rnd]) = None \<Longrightarrow>
        same_outside (prefix (parent @ [upload_prefix @ rnd])) t u \<Longrightarrow> Q (Inl err) u"
    and k: "\<And>parent name u n. new_target t root relative parent name \<Longrightarrow> okname name \<Longrightarrow>
        item_at t (parent @ [upload_prefix @ rnd]) = None \<Longrightarrow>
        same_outside (\<lambda>q. prefix (parent @ [upload_prefix @ rnd]) q \<or> prefix (parent @ [name]) q) t u \<Longrightarrow>
        item_at u (parent @ [name]) = Some (Regular (rd_data src)) \<Longrightarrow> rd_error src = None \<Longrightarrow>
        n = length (rd_data src) \<Longrightarrow> max_bytes < 0 \<or> int n \<le> max_bytes \<Longrightarrow> Q (Inr n) u"
  shows "wp (upload_limited root relative src max_bytes rnd) Q t"
proof -
  have create: "wp (bind_io (wrapping (create_excl (parent @ [upload_prefix @ rnd]))
        ''create upload temp file: '') (\<lambda>q. write_and_rename q (copy_capped q src max_bytes)
          (parent @ [upload_prefix @ rnd]) (parent @ [name]) (Wrap ''commit upload: ''))) Q t"
    if n: "new_target t root relative parent name" and p: "real_dir t parent" and name: "okname name"
      for parent name
  proof (intro wp_bind wp_or_else wp_create_excl, goal_cases)
    case 3
    have "upload_prefix @ rnd \<noteq> name" using new_target_base [OF n] base by simp
    with 3 show ?case
      unfolding sum.case
      by (intro wp_write_and_rename [where data = "rd_data src" and ok = "\<lambda>w. rd_error src = None \<and>
            w = length (rd_data src) \<and> (max_bytes < 0 \<or> int w \<le> max_bytes)"] p rnd name
          wp_copy_capped) (auto intro: e' [OF n] k [OF n name] writes_to_new)
  qed (use rnd p in \<open>auto intro: e\<close>)
  have target: "wp (attempt (lstat (parent @ [name])) (\<lambda>r. case r of
         Inr k \<Rightarrow> guard_io (is_regular k) (Err ''target exists and is not a regular file'')
       | Inl e \<Rightarrow> if e = ErrSys ENOENT then ret () else throw e))
     (\<lambda>r u. case r of Inl er \<Rightarrow> Q (Inl er) u | Inr _ \<Rightarrow> okname name \<and> u = t) t"
    if p: "real_dir t parent" and name: "plain name" for parent name
  proof (cases "CHR 0x00 \<in> set name")
    case True
    then show ?thesis
      unfolding lstat_def
      by (intro wp_attempt wp_query) (auto simp: at_real_nul e trouble_codes_def)
  next
    case False
    then have "clear_path t (parent @ [name])" "okname name" using p name by (simp_all add: okname_def)
    then show ?thesis by (intro wp_attempt wp_lstat_clear) (auto simp: e trouble_codes_def)
  qed
  have "plain (upload_prefix @ rnd)" using rnd by (simp add: okname_def)
  note join = join_path_plain [OF this]
  show ?thesis
    unfolding upload_limited_def Let_def join
  proof (rule wp_bind, rule wp_target_parent [OF root], goal_cases)
    case (2 parent name)
    then show ?case
      by (auto intro!: wp_bind [OF wp_mono [OF target]] create split: sum.splits)
  qed (simp add: e)
qed

section \<open>Sequences of user operations\<close>

text \<open>
  The requests of users that change the files of a folder; \<open>Put_file\<close> carries the limit
  that the API computed and the random suffix of the temporary file.
\<close>

datatype file_op =
    Make_directory string
  | Put_file string reader int string
  | Delete_entry string
  | Move_entry string string

fun run_file_op :: "path \<Rightarrow> file_op \<Rightarrow> unit io" where
  "run_file_op root (Make_directory r) = create_directory root r"
| "run_file_op root (Put_file r src n rnd) =
     bind_io (upload_limited root r src n rnd) (\<lambda>_. ret ())"
| "run_file_op root (Delete_entry r) = delete_entry root r"
| "run_file_op root (Move_entry a b) = move_entry root a b"

definition run_file_ops :: "path \<Rightarrow> file_op list \<Rightarrow> disk \<Rightarrow> disk" where
  "run_file_ops root ops d = fold (\<lambda>oper d. snd (run_file_op root oper d)) ops d"

text \<open>
  Paths that a second cleaning does not change, and a random suffix that is a name and not
  the name that is asked for.
\<close>

fun file_op_ok :: "file_op \<Rightarrow> bool" where
  "file_op_ok (Make_directory r) \<longleftrightarrow> steady r"
| "file_op_ok (Put_file r src n rnd) \<longleftrightarrow>
     steady r \<and> okname (upload_prefix @ rnd) \<and> path_base (clean_relative r) \<noteq> upload_prefix @ rnd"
| "file_op_ok (Delete_entry r) \<longleftrightarrow> steady r"
| "file_op_ok (Move_entry a b) \<longleftrightarrow> steady a \<and> steady b"

text \<open>
  \<open>spares root t u\<close>: nothing changed outside the folder, the folder itself included, and no
  trash entry and no upload session that could be reached in it changed.
\<close>

definition spares :: "path \<Rightarrow> tree \<Rightarrow> tree \<Rightarrow> bool" where
  "spares root t u \<longleftrightarrow>
     (\<forall>q. strict_prefix root q \<or> item_at u q = item_at t q) \<and>
     (\<forall>x rest. hidden_name x \<and> clear_path t (root @ x # rest) \<and> item_at t (root @ x # rest) \<noteq> None \<longrightarrow>
        item_at u (root @ x # rest) = item_at t (root @ x # rest))"

lemma spares_refl [simp]: "spares root t t"
  by (simp add: spares_def)

lemma sparesI:
  assumes "\<And>q. item_at u q \<noteq> item_at t q \<Longrightarrow>
      \<exists>x rest. q = root @ x # rest \<and> (hidden_name x \<longrightarrow> \<not> clear_path t q \<or> item_at t q = None)"
  shows "spares root t u"
proof -
  have "strict_prefix root q \<or> item_at u q = item_at t q" for q
    using assms [of q] by (auto simp: strict_prefix_def)
  then show ?thesis using assms unfolding spares_def by fastforce
qed

lemma spares_clear:
  assumes s: "spares root t u" and c: "clear_path t (root @ x # rest)" and x: "hidden_name x"
  shows "clear_path u (root @ x # rest)"
proof (rule clear_path_cong [OF c])
  fix q
  assume q: "strict_prefix q (root @ x # rest)"
  then have dir: "item_at t q = Some Directory" using c by (simp add: clear_path_def)
  show "item_at u q = item_at t q"
  proof (cases "strict_prefix root q")
    case True
    then obtain y ys where ys: "q = root @ y # ys" by (auto elim: strict_prefixE')
    then have "y = x" using q by (auto simp: strict_prefix_def prefix_def)
    have "strict_prefix a q \<Longrightarrow> strict_prefix a (root @ x # rest)" for a
      using q by (metis prefix_order.less_trans)
    moreover have "set q \<subseteq> set (root @ x # rest)"
      using q by (metis set_mono_prefix strict_prefix_def)
    ultimately have "clear_path t q" using c unfolding clear_path_def by blast
    then show ?thesis using s x dir ys \<open>y = x\<close> by (simp add: spares_def)
  qed (use s in \<open>auto simp: spares_def\<close>)
qed

lemma spares_trans: "spares root t u \<Longrightarrow> spares root u v \<Longrightarrow> spares root t v"
  using spares_clear [of root t u] unfolding spares_def by metis

lemma spares_root: "spares root t u \<Longrightarrow> clear_path t root \<Longrightarrow> clear_path u root"
  by (rule clear_path_cong, assumption) (auto simp: spares_def strict_prefix_def dest: prefix_order.antisym)

text \<open>A change at or below a path that is not hidden, or of a name that was not there.\<close>

lemma spares_visible:
  assumes "same_outside A t u" and "\<And>q. A q \<Longrightarrow> prefix (root @ x # rest) q" and "\<not> hidden_name x"
  shows "spares root t u"
proof (rule sparesI)
  fix q
  assume "item_at u q \<noteq> item_at t q"
  then have "prefix (root @ x # rest) q" using assms(1,2) unfolding same_outside_def by metis
  then show "\<exists>y ys. q = root @ y # ys \<and> (hidden_name y \<longrightarrow> \<not> clear_path t q \<or> item_at t q = None)"
    using assms(3) by (auto simp: prefix_def)
qed

lemma steady_resolved:
  assumes "resolved t root (clean_relative r) p" "steady r" "clean_relative r \<noteq> []"
  obtains x rest where "p = root @ x # rest" "\<not> hidden_name x"
proof -
  have c: "clean_relative (clean_relative r) = clean_relative r"
    using assms(2) by (simp add: steady_def Let_def)
  have p: "p = root @ split_on slash (clean_relative r)"
    using resolvedD(1) [OF assms(1)] assms(3) by (simp add: user_segments_def c)
  obtain x rest where x: "split_on slash (clean_relative r) = x # rest"
    by (cases "split_on slash (clean_relative r)") auto
  have "\<not> hidden_name x"
    using resolvedD(5) [OF assms(1)] assms(3) x
    by (simp add: reserved_relative_def c hidden_name_def disj_commute)
  then show ?thesis using that p x by simp
qed

lemma steady_new_target:
  assumes "new_target t root r parent name" "steady r"
  obtains x rest where "parent @ [name] = root @ x # rest" "\<not> hidden_name x"
    "parent = root \<or> (\<exists>ys. parent = root @ x # ys)"
proof -
  obtain pr where pr: "split_target r = Inr (pr, name)" "resolved t root pr parent"
    using assms(1) by (auto simp: new_target_def)
  have p: "parent = root @ user_segments pr" using pr(2) by (rule resolvedD)
  obtain x rest where x: "user_segments pr @ [name] = x # rest" by (cases "user_segments pr") auto
  have "\<not> hidden_name x" using steady_target [OF pr(1) assms(2)] x by (metis list.sel(1))
  then show ?thesis using that [of x rest] p x by (cases "user_segments pr") auto
qed

lemma run_file_op_spares:
  assumes root: "clear_path t root" and okay: "file_op_ok oper"
  shows "wp (run_file_op root oper) (\<lambda>_. spares root t) t"
proof (cases oper)
  case (Make_directory r)
  have "spares root t (put (parent @ [name]) Directory t)"
    if f: "fresh_target t root r parent name" for parent name
  proof -
    from f okay Make_directory obtain x rest
      where x: "parent @ [name] = root @ x # rest" "\<not> hidden_name x"
      by (auto simp: fresh_target_def elim: steady_new_target)
    show ?thesis
      by (rule spares_visible [of "\<lambda>q. q = parent @ [name]" _ _ root x rest])
        (simp_all add: same_outside_def x)
  qed
  then show ?thesis
    using Make_directory by (simp add: wp_create_directory [OF root])
next
  case (Delete_entry r)
  have "spares root t (cut p t)" if p: "resolved t root (clean_relative r) p" "clean_relative r \<noteq> []" for p
  proof -
    from p okay Delete_entry obtain x rest where x: "p = root @ x # rest" "\<not> hidden_name x"
      by (auto elim: steady_resolved)
    show ?thesis
      by (rule spares_visible [of "prefix p" _ _ root x rest]) (simp_all add: same_outside_def item_at_cut x)
  qed
  then show ?thesis
    using Delete_entry by (simp add: wp_delete_entry [OF root])
next
  case (Move_entry a b)
  have change: "spares root t (graft p (parent @ [name]) t)"
    if p: "resolved t root (clean_relative a) p" "clean_relative a \<noteq> []"
      and f: "fresh_target t root (clean_relative b) parent name"
      and ne: "\<not> prefix p (parent @ [name])" "\<not> prefix (parent @ [name]) p" for p parent name
  proof -
    from p okay Move_entry obtain x rest where x: "p = root @ x # rest" "\<not> hidden_name x"
      by (auto elim: steady_resolved)
    have "steady (clean_relative b)" using okay Move_entry by (simp add: steady_def Let_def)
    with f obtain y ys where y: "parent @ [name] = root @ y # ys" "\<not> hidden_name y"
      by (auto simp: fresh_target_def elim: steady_new_target)
    show ?thesis
    proof (rule sparesI)
      fix q
      assume "item_at (graft p (parent @ [name]) t) q \<noteq> item_at t q"
      then have "prefix p q \<or> prefix (parent @ [name]) q"
        by (auto simp: item_at_graft [OF ne] split: if_splits)
      then show "\<exists>z zs. q = root @ z # zs \<and> (hidden_name z \<longrightarrow> \<not> clear_path t q \<or> item_at t q = None)"
        using x y by (auto simp: prefix_def)
    qed
  qed
  have "wp (move_entry root a b) (\<lambda>_. spares root t) t"
    by (rule wp_move_entry [OF root], rule spares_refl, rule change)
  then show ?thesis using Move_entry by simp
next
  case (Put_file r src n rnd)
  let ?temp = "upload_prefix @ rnd"
  have change: "spares root t u"
    if t: "new_target t root r parent name" "item_at t (parent @ [?temp]) = None"
      and u: "same_outside (\<lambda>q. prefix (parent @ [?temp]) q \<or> prefix (parent @ [name]) q) t u"
    for parent name u
  proof (rule sparesI)
    fix q
    assume "item_at u q \<noteq> item_at t q"
    then have q: "prefix (parent @ [?temp]) q \<or> prefix (parent @ [name]) q"
      using u unfolding same_outside_def by metis
    from t(1) okay Put_file obtain x rest
      where x: "parent @ [name] = root @ x # rest" "\<not> hidden_name x"
        "parent = root \<or> (\<exists>ys. parent = root @ x # ys)"
      by (auto elim: steady_new_target)
    have new: "\<not> clear_path t q \<or> item_at t q = None" if "prefix (parent @ [?temp]) q"
      using that t(2) by (auto simp: clear_path_def strict_prefix_def)
    show "\<exists>z zs. q = root @ z # zs \<and> (hidden_name z \<longrightarrow> \<not> clear_path t q \<or> item_at t q = None)"
      using q
    proof
      assume "prefix (parent @ [name]) q"
      then show ?thesis using x(1,2) by (auto simp: prefix_def)
    next
      assume a: "prefix (parent @ [?temp]) q"
      then obtain z zs where "q = root @ z # zs" using x(3) by (auto simp: prefix_def)
      with new [OF a] show ?thesis by blast
    qed
  qed
  have "wp (upload_limited root r src n rnd) (\<lambda>_. spares root t) t"
  proof (rule wp_upload_limited [OF root])
    show "okname ?temp" "path_base (clean_relative r) \<noteq> ?temp" using okay Put_file by simp_all
    fix parent name err u
    assume a: "new_target t root r parent name" "item_at t (parent @ [?temp]) = None"
      "same_outside (prefix (parent @ [?temp])) t u"
    show "spares root t u" by (rule change [OF a(1,2)]) (rule same_outside_weaken [OF a(3)], simp)
  qed (simp_all add: change)
  then show ?thesis
    using Put_file by (auto intro!: wp_bind elim!: wp_mono split: sum.splits)
qed

lemma wp_open_file:
  assumes root: "clear_path t root" and e: "\<And>e. Q (Inl e) t"
    and k: "\<And>p c. resolved t root relative p \<Longrightarrow> item_at t p = Some (Regular c) \<Longrightarrow>
              Q (Inr (p, Regular c)) t"
  shows "wp (open_file root relative) Q t"
proof -
  have read: "wp (open_read p) (\<lambda>r u. case r of Inl e \<Rightarrow> Q (Inl e) u | Inr q \<Rightarrow> Q (Inr (q, k)) u) t"
    if p: "resolved t root relative p" "clear_path t p" "item_at t p = Some k" "is_regular k" for p k
  proof -
    have "real_path True t p = Inr p"
      using p(2,3,4) by (intro real_path_clear) (auto simp: is_regular_def)
    then show ?thesis
      using p k [OF p(1)] e unfolding open_read_def
      by (intro wp_query) (auto simp: at_real_def is_regular_def split: item.splits)
  qed
  show ?thesis
    unfolding open_file_def
    by (auto intro!: wp_bind wp_resolve [OF root] wp_lstat_clear e wp_mono [OF read] split: sum.splits) simp_all
qed

text \<open>
  A name made of two dots and white space is the one thing that a second cleaning of a path
  can turn into \<open>..\<close>; nothing in the program creates one below the trash.
\<close>

definition odd_name :: "string \<Rightarrow> bool" where
  "odd_name n \<longleftrightarrow> take 2 n = ''..'' \<and> 2 < length n \<and> list_all space_byte (drop 2 n)"

lemma resolved_visible:
  assumes r: "resolved t root relative p" and p: "p = root @ x # rest" and x: "hidden_name x"
  shows "\<exists>n. rest = [n] \<and> odd_name n"
proof -
  have segs: "user_segments relative = x # rest" using resolvedD(1) [OF r] p by simp
  then have split: "split_on slash (clean_relative relative) = x # rest"
    by (auto simp: user_segments_def Let_def split: if_splits)
  have "\<forall>s\<in>set (x # rest). plain s"
    using resolvedD(3) [OF r] p by (auto simp: clear_path_def okname_def)
  then obtain b where "rest = [''..'' @ b]" "b \<noteq> []" "\<forall>c\<in>set b. space_byte c"
    using reserved_first [OF refl split _ x] resolvedD(5) [OF r] by blast
  then show ?thesis by (auto simp: odd_name_def list_all_iff)
qed

section \<open>Properties\<close>


definition sample_disk :: disk where
  "sample_disk = \<lparr>entries = [([''srv''], Directory), ([''srv'', ''.home-ai-trash''], Directory),
     ([''srv'', ''docs''], Directory), ([''srv'', ''docs'', ''a''], Regular ''one'')],
     faults = [None, None, None, Some (IO_error, 0)]\<rparr>"

definition sample_file_ops :: "file_op list" where
  "sample_file_ops = [Make_directory ''new'', Put_file ''docs/a'' \<lparr>rd_data = ''two'', rd_error = None\<rparr> 10 ''7'',
     Move_entry ''docs'' ''old'', Delete_entry ''old/a'']"

lemma sample_clear: "clear_path (entries sample_disk) [''srv'']"
  using clear_path_snoc [of "entries sample_disk" "[]" "''srv''"]
  by (simp add: real_dir_def okname_def plain_def slash_def)

lemma sample_ops_ok: "\<forall>oper\<in>set sample_file_ops. file_op_ok oper"
  unfolding sample_file_ops_def by code_simp


text \<open>An upload replaces a file by exactly the bytes that were sent, within the limit, or
  leaves every entry that can be reached as it was, whichever system calls fail.\<close>

theorem upload_replaces_whole_file:
  assumes "clear_path (entries d) root" and "okname (upload_prefix @ rnd)"
    and "path_base (clean_relative relative) \<noteq> upload_prefix @ rnd"
    and "upload_limited root relative src max_bytes rnd d = (r, d')"
  shows "case r of
      Inl e \<Rightarrow> \<forall>q. clear_path (entries d) q \<and> item_at (entries d) q \<noteq> None \<longrightarrow>
                 item_at (entries d') q = item_at (entries d) q
    | Inr n \<Rightarrow> \<exists>parent name. new_target (entries d) root relative parent name \<and>
        item_at (entries d') (parent @ [name]) = Some (Regular (rd_data src)) \<and>
        rd_error src = None \<and> n = length (rd_data src) \<and> (max_bytes < 0 \<or> int n \<le> max_bytes) \<and>
        (\<forall>q. clear_path (entries d) q \<and> item_at (entries d) q \<noteq> None \<and>
             \<not> prefix (parent @ [name]) q \<longrightarrow>
             item_at (entries d') q = item_at (entries d) q)"
proof -
  have new: "\<not> prefix p q"
    if "clear_path t q" "item_at t q \<noteq> None" "item_at t p = None" for p q and t :: tree
    using that by (auto simp: clear_path_def strict_prefix_def)
  have kept: "\<forall>q. clear_path t q \<and> item_at t q \<noteq> None \<and> \<not> B q \<longrightarrow> item_at u q = item_at t q"
    if "item_at t p = None" "same_outside (\<lambda>q. prefix p q \<or> B q) t u" for p B and t u :: tree
    using new that unfolding same_outside_def by metis
  show ?thesis
  proof (rule wpD [OF wp_upload_limited [OF assms(1-3)] assms(4)], goal_cases)
    case (2 parent name err u)
    then show ?case
      using kept [of "entries d" "parent @ [upload_prefix @ rnd]" "\<lambda>_. False" u] by simp
  next
    case (3 parent name u n)
    then show ?case
      using kept [of "entries d" "parent @ [upload_prefix @ rnd]" "prefix (parent @ [name])" u]
      unfolding sum.case by blast
  qed simp
qed

definition sample_reader :: reader where
  "sample_reader = \<lparr>rd_data = ''two'', rd_error = None\<rparr>"

theorem upload_replaces_whole_file_witness:
  "case fst (upload_limited [''srv''] ''docs/a'' sample_reader 10 ''7'' sample_disk) of
      Inl e \<Rightarrow> \<forall>q. clear_path (entries sample_disk) q \<and> item_at (entries sample_disk) q \<noteq> None \<longrightarrow>
        item_at (entries (snd (upload_limited [''srv''] ''docs/a'' sample_reader 10 ''7'' sample_disk))) q =
        item_at (entries sample_disk) q
    | Inr n \<Rightarrow> \<exists>parent name. new_target (entries sample_disk) [''srv''] ''docs/a'' parent name \<and>
        item_at (entries (snd (upload_limited [''srv''] ''docs/a'' sample_reader 10 ''7'' sample_disk)))
          (parent @ [name]) = Some (Regular (rd_data sample_reader)) \<and>
        rd_error sample_reader = None \<and> n = length (rd_data sample_reader) \<and>
        ((10::int) < 0 \<or> int n \<le> 10) \<and>
        (\<forall>q. clear_path (entries sample_disk) q \<and> item_at (entries sample_disk) q \<noteq> None \<and>
             \<not> prefix (parent @ [name]) q \<longrightarrow>
          item_at (entries (snd (upload_limited [''srv''] ''docs/a'' sample_reader 10 ''7'' sample_disk))) q =
          item_at (entries sample_disk) q)"
proof (rule upload_replaces_whole_file [OF sample_clear _ _ surjective_pairing])
  show "okname (upload_prefix @ ''7'')" "path_base (clean_relative ''docs/a'') \<noteq> upload_prefix @ ''7''"
    by code_simp+
qed

text \<open>Opening a file for reading gives a regular file below the folder that was reached
  through real directories, never a file of the trash or of an upload session, for every
  text a user may send as its path.\<close>

theorem open_file_visible:
  assumes "clear_path (entries d) root"
    and "\<forall>x n. hidden_name x \<and> odd_name n \<longrightarrow> item_at (entries d) (root @ [x, n]) = None"
    and "open_file root relative d = (Inr (p, k), d')"
  shows "entries d' = entries d \<and> clear_path (entries d) p \<and> (\<exists>c. k = Regular c \<and> item_at (entries d) p = Some k) \<and>
    (\<exists>x rest. p = root @ x # rest \<and> \<not> hidden_name x)"
proof -
  have "case (Inr (p, k) :: (path \<times> item) res) of Inl e \<Rightarrow> entries d' = entries d
      | Inr (p, k) \<Rightarrow> entries d' = entries d \<and>
         (\<exists>c. k = Regular c \<and> item_at (entries d) p = Some k) \<and> resolved (entries d) root relative p"
    by (rule wpD [OF wp_open_file [OF assms(1)] assms(3)]) auto
  then have p: "entries d' = entries d" "\<exists>c. k = Regular c \<and> item_at (entries d) p = Some k"
    "resolved (entries d) root relative p" by auto
  have "p \<noteq> root" using p(2) resolvedD(2) [OF p(3)] by (auto simp: real_dir_def)
  then obtain x rest where x: "p = root @ x # rest"
    using resolvedD(1) [OF p(3)] by (cases "user_segments relative") auto
  have "\<not> hidden_name x" using resolved_visible [OF p(3) x] x p(2) assms(2) by auto
  then show ?thesis using p resolvedD(3) [OF p(3)] x by auto
qed

lemma sample_open:
  "open_file [''srv''] ''docs/a'' (sample_disk\<lparr>faults := []\<rparr>) =
     (Inr ([''srv'', ''docs'', ''a''], Regular ''one''), sample_disk\<lparr>faults := []\<rparr>)"
  unfolding sample_disk_def by code_simp

theorem open_file_visible_witness:
  "clear_path (entries sample_disk) [''srv'', ''docs'', ''a''] \<and>
   (\<exists>c. Regular ''one'' = Regular c \<and> item_at (entries sample_disk) [''srv'', ''docs'', ''a''] = Some (Regular ''one'')) \<and>
   (\<exists>x rest. [''srv'', ''docs'', ''a''] = [''srv''] @ x # rest \<and> \<not> hidden_name x)"
proof -
  have "\<not> hidden_name ''docs''" by code_simp
  then have "\<forall>x n. hidden_name x \<and> odd_name n \<longrightarrow>
      item_at (entries (sample_disk\<lparr>faults := []\<rparr>)) ([''srv''] @ [x, n]) = None"
    by (auto simp: item_at_def sample_disk_def)
  from open_file_visible [OF _ this sample_open] sample_clear show ?thesis by simp
qed

text \<open>A move takes everything below the source, unchanged, to a name that did not exist,
  and touches nothing else; a move that fails changes nothing.\<close>

theorem move_entry_moves_subtree:
  assumes "clear_path (entries d) root" and "move_entry root from0 to0 d = (r, d')"
  shows "case r of
      Inl e \<Rightarrow> entries d' = entries d
    | Inr _ \<Rightarrow> \<exists>source target. item_at (entries d) source \<noteq> None \<and> item_at (entries d) target = None \<and>
        prefix root source \<and> strict_prefix root target \<and>
        (\<forall>rest. item_at (entries d') (target @ rest) = item_at (entries d) (source @ rest) \<and>
                item_at (entries d') (source @ rest) = None) \<and>
        (\<forall>q. \<not> prefix source q \<and> \<not> prefix target q \<longrightarrow> item_at (entries d') q = item_at (entries d) q)"
proof (rule wpD [OF wp_move_entry [OF assms(1)] assms(2)], goal_cases)
  case (2 source parent name)
  let ?target = "parent @ [name]"
  note ne = 2(4,5)
  have off: "\<not> prefix ?target (source @ rest)" for rest
    using ne by (metis prefixI prefix_same_cases)
  have "prefix root source" "item_at (entries d) source \<noteq> None"
    using resolvedD(1,4) [OF 2(2)] by auto
  moreover have "strict_prefix root ?target" "item_at (entries d) ?target = None"
    using 2(3) by (auto simp: fresh_target_def new_target_def strict_prefix_snoc dest: resolvedD(1))
  ultimately show ?case
    unfolding sum.case item_at_graft [OF ne]
    by (intro exI [of _ source] exI [of _ ?target]) (simp add: off)
qed simp

theorem move_entry_moves_subtree_witness:
  "\<exists>source target. item_at (entries sample_disk) source \<noteq> None \<and> item_at (entries sample_disk) target = None \<and>
     prefix [''srv''] source \<and> strict_prefix [''srv''] target \<and>
     (\<forall>rest. item_at (entries (snd (move_entry [''srv''] ''docs'' ''old'' (sample_disk\<lparr>faults := []\<rparr>)))) (target @ rest)
           = item_at (entries sample_disk) (source @ rest) \<and>
        item_at (entries (snd (move_entry [''srv''] ''docs'' ''old'' (sample_disk\<lparr>faults := []\<rparr>)))) (source @ rest) = None) \<and>
     (\<forall>q. \<not> prefix source q \<and> \<not> prefix target q \<longrightarrow>
        item_at (entries (snd (move_entry [''srv''] ''docs'' ''old'' (sample_disk\<lparr>faults := []\<rparr>)))) q =
        item_at (entries sample_disk) q)"
proof -
  have clear: "clear_path (entries (sample_disk\<lparr>faults := []\<rparr>)) [''srv'']" using sample_clear by simp
  have "fst (move_entry [''srv''] ''docs'' ''old'' (sample_disk\<lparr>faults := []\<rparr>)) = Inr ()"
    unfolding sample_disk_def by code_simp
  with move_entry_moves_subtree [OF clear surjective_pairing, of "''docs''" "''old''"] show ?thesis by simp
qed

section \<open>Paths that are cleaned twice\<close>

text \<open>
  The hypothesis on the requested paths is needed.  \<open>reservedRelative\<close> looks at the path as
  it was cleaned first, the parent of the target is cleaned again: a first segment of a dot
  and a space disappears, and a write lands on an upload session or in the trash.
\<close>

definition session_disk :: disk where
  "session_disk = \<lparr>entries = [([''srv''], Directory),
     ([''srv'', ''.home-ai-upload-ab.json''], Regular ''session'')], faults = []\<rparr>"

lemma reserved_names_reachable:
  "\<not> steady ''. /.home-ai-upload-ab.json''"
  "item_at (entries (snd (upload_limited [''srv''] ''. /.home-ai-upload-ab.json'' sample_reader 10 ''7''
     session_disk))) [''srv'', ''.home-ai-upload-ab.json''] = Some (Regular ''two'')"
  "is_ok (fst (create_directory [''srv''] ''. /.home-ai-trash'' session_disk))"
  "upload_limited [''srv''] ''.home-ai-upload-ab.json'' sample_reader 10 ''7'' session_disk =
     (Inl (Err ''invalid target path''), session_disk)"
  unfolding session_disk_def sample_reader_def by code_simp+

text \<open>The same second cleaning lets \<open>Delete\<close> remove the folder itself.\<close>

lemma delete_removes_folder:
  "item_at (entries (snd (delete_entry [''srv''] ''./'' (session_disk\<lparr>entries := [([''srv''], Directory)]\<rparr>))))
     [''srv''] = None"
  unfolding session_disk_def by code_simp

end
