(* ===== verification/Uploads.thy ===== *)
theory Uploads
  imports FileData
begin

text \<open>
  \<open>src/internal/filedata/upload.go\<close> and \<open>upload_commit*.go\<close>: resumable uploads.  A session
  is a metadata file and a part file in the root of the folder; chunks are appended to the
  part, and the finished part is renamed to its target.
\<close>

section \<open>Sessions\<close>

definition metadata_suffix :: string where "metadata_suffix = ''.json''"
definition part_suffix :: string where "part_suffix = ''.part''"
definition max_upload_chunk :: int where "max_upload_chunk = 8388608"

record upload_chunk =
  ch_offset :: int
  ch_size :: int
  ch_sha :: string

record upload_session =
  us_id :: string
  us_path :: string
  us_total :: int
  us_received :: int
  us_sha :: string
  us_client :: string
  us_chunks :: "upload_chunk list"
  us_created :: gotime
  us_updated :: gotime

record upload_result =
  ur_path :: string
  ur_size :: int
  ur_sha :: string

text \<open>
  What the sessions use of the standard library as functions of their own: \<open>encoding/json\<close>
  for the session, SHA-256, and the Unicode table of \<open>strings.ToLower\<close>.
\<close>

record upload_env =
  marshal :: "upload_session \<Rightarrow> string res"
  unmarshal :: "string \<Rightarrow> upload_session res"
  digest :: "string \<Rightarrow> string"
  upload_lower :: "nat \<Rightarrow> nat"

text \<open>\<open>hex.EncodeToString\<close> and \<open>hex.DecodeString\<close>.\<close>

definition hex_digit :: "nat \<Rightarrow> char" where
  "hex_digit n = char_of (if n < 10 then 48 + n else 87 + n)"

definition hex_text :: "string \<Rightarrow> string" where
  "hex_text s = concat (map (\<lambda>c. [hex_digit (byte c div 16), hex_digit (byte c mod 16)]) s)"

definition hex_value :: "char \<Rightarrow> nat option" where
  "hex_value c =
     (if byte_in 48 57 c then Some (byte c - 48)
      else if byte_in 97 102 c then Some (byte c - 87)
      else if byte_in 65 70 c then Some (byte c - 55)
      else None)"

fun hex_decode :: "string \<Rightarrow> string option" where
  "hex_decode [] = Some []"
| "hex_decode [c] = None"
| "hex_decode (a # b # s) =
     (case (hex_value a, hex_value b, hex_decode s) of
        (Some x, Some y, Some r) \<Rightarrow> Some (char_of (16 * x + y) # r)
      | _ \<Rightarrow> None)"

definition normalize_sha256 :: "(nat \<Rightarrow> nat) \<Rightarrow> string \<Rightarrow> string res" where
  "normalize_sha256 tbl value0 =
     (let value = to_lower tbl (trim_space value0) in
      if value = [] then Inr []
      else case hex_decode value of
        Some raw \<Rightarrow>
          if length raw = 32 then Inr value
          else Inl (Err ''SHA-256 must be 64 hexadecimal characters'')
      | None \<Rightarrow> Inl (Err ''SHA-256 must be 64 hexadecimal characters''))"

definition valid_upload_id :: "string \<Rightarrow> bool" where
  "valid_upload_id i \<longleftrightarrow> length i = 32 \<and> list_all (\<lambda>c. byte_in 48 57 c \<or> byte_in 97 102 c) i"

definition upload_metadata_path :: "path \<Rightarrow> string \<Rightarrow> path" where
  "upload_metadata_path root i = join_path root (upload_prefix @ i @ metadata_suffix)"

definition upload_part_path :: "path \<Rightarrow> string \<Rightarrow> path" where
  "upload_part_path root i = join_path root (upload_prefix @ i @ part_suffix)"

section \<open>Checks of stored metadata\<close>

text \<open>\<open>int64\<close> addition.\<close>

definition wrap64 :: "int \<Rightarrow> int" where
  "wrap64 x = (x + 2 ^ 63) mod 2 ^ 64 - 2 ^ 63"

fun chunks_total :: "(nat \<Rightarrow> nat) \<Rightarrow> int \<Rightarrow> upload_chunk list \<Rightarrow> int res" where
  "chunks_total tbl received [] = Inr received"
| "chunks_total tbl received (c # cs) =
     (if ch_offset c \<noteq> received \<or> ch_size c \<le> 0 then Inl (Err ''invalid upload chunk metadata'')
      else if normalize_sha256 tbl (ch_sha c) \<noteq> Inr (ch_sha c)
        then Inl (Err ''invalid upload chunk checksum metadata'')
      else chunks_total tbl (wrap64 (received + ch_size c)) cs)"

definition validate_upload_chunks :: "(nat \<Rightarrow> nat) \<Rightarrow> upload_session \<Rightarrow> unit res" where
  "validate_upload_chunks tbl s =
     (case chunks_total tbl 0 (us_chunks s) of
        Inl e \<Rightarrow> Inl e
      | Inr n \<Rightarrow>
          if n \<noteq> us_received s
          then Inl (Err ''upload chunk metadata does not match received bytes'') else Inr ())"

definition validate_target_path :: "path \<Rightarrow> string \<Rightarrow> (string \<times> path) io" where
  "validate_target_path root relative =
     bind_io (target_parent root relative ''upload parent is not a directory'') (\<lambda>(parent, name).
     ret (clean_relative relative, join_path parent name))"

definition validate_upload_target :: "path \<Rightarrow> string \<Rightarrow> (string \<times> path) io" where
  "validate_upload_target root relative0 =
     bind_io (validate_target_path root relative0) (\<lambda>(relative, target).
     bind_io (must_not_exist target ErrUploadTargetExists) (\<lambda>_.
     ret (relative, target)))"

text \<open>\<open>GetUpload\<close>: a session is only as good as its metadata and its part together.\<close>

definition session_checks :: "upload_env \<Rightarrow> string \<Rightarrow> upload_session \<Rightarrow> bool" where
  "session_checks env i s \<longleftrightarrow>
     us_id s = i \<and> 0 \<le> us_total s \<and> 0 \<le> us_received s \<and> us_received s \<le> us_total s"

definition checksum_stored :: "upload_env \<Rightarrow> upload_session \<Rightarrow> bool" where
  "checksum_stored env s \<longleftrightarrow>
     us_sha s = [] \<or> normalize_sha256 (upload_lower env) (us_sha s) = Inr (us_sha s)"

definition check_part :: "path \<Rightarrow> string \<Rightarrow> upload_session \<Rightarrow> upload_session io" where
  "check_part root i s =
     bind_io (attempt (lstat (upload_part_path root i)) (\<lambda>r. case r of
         Inr k \<Rightarrow> ret k
       | Inl e \<Rightarrow> throw (if e = ErrSys ENOENT then ErrUploadNotFound else e))) (\<lambda>k.
     bind_io (guard_io (is_regular k) (Err ''upload part is not a regular file'')) (\<lambda>_.
     bind_io (guard_io (int (file_size k ''file'') = us_received s)
               (Err ''upload part size does not match metadata'')) (\<lambda>_.
     ret s)))"

definition check_session :: "upload_env \<Rightarrow> path \<Rightarrow> string \<Rightarrow> upload_session \<Rightarrow> upload_session io" where
  "check_session env root i s =
     bind_io (guard_io (session_checks env i s) (Err ''invalid upload metadata'')) (\<lambda>_.
     bind_io (wrapping (validate_target_path root (us_path s)) ''invalid upload target metadata: '') (\<lambda>_.
     bind_io (guard_io (checksum_stored env s) (Err ''invalid upload checksum metadata'')) (\<lambda>_.
     bind_io (lift_res (validate_upload_chunks (upload_lower env) s)) (\<lambda>_.
     check_part root i s))))"

definition get_upload :: "upload_env \<Rightarrow> path \<Rightarrow> string \<Rightarrow> upload_session io" where
  "get_upload env root i =
     bind_io (guard_io (valid_upload_id i) ErrUploadNotFound) (\<lambda>_.
     bind_io (attempt (read_file (upload_metadata_path root i)) (\<lambda>r. case r of
         Inr data \<Rightarrow> ret data
       | Inl e \<Rightarrow> throw (if e = ErrSys ENOENT then ErrUploadNotFound
                       else Wrap ''read upload metadata: '' e))) (\<lambda>data.
     case unmarshal env data of
       Inl e \<Rightarrow> throw (Wrap ''decode upload metadata: '' e)
     | Inr s \<Rightarrow> check_session env root i s))"

section \<open>Operations\<close>

text \<open>\<open>tmp\<close> is the random suffix on which \<open>os.CreateTemp\<close> stops.\<close>

definition metadata_temp_path :: "path \<Rightarrow> string \<Rightarrow> path" where
  "metadata_temp_path root tmp = join_path root (upload_prefix @ ''metadata-'' @ tmp)"

definition write_upload_metadata :: "upload_env \<Rightarrow> path \<Rightarrow> upload_session \<Rightarrow> string \<Rightarrow> unit io" where
  "write_upload_metadata env root s tmp =
     bind_io (lift_res (marshal env s)) (\<lambda>text.
     let data = text @ [CHR 0x0A]; temp = metadata_temp_path root tmp in
     bind_io (wrapping (create_excl temp) ''create upload metadata temp: '') (\<lambda>q.
     write_and_rename q (or_else (append_to q data) close_handle id) temp
       (upload_metadata_path root (us_id s)) (Wrap ''replace upload metadata: '')))"

text \<open>\<open>ListUploads\<close>: sessions that do not pass \<open>GetUpload\<close> are left out, the newest comes first.\<close>

definition session_file_id :: "string \<times> item \<Rightarrow> string option" where
  "session_file_id e =
     (let i = trim_suffix (trim_prefix (fst e) upload_prefix) metadata_suffix
      in if snd e = Directory \<or> \<not> has_prefix (fst e) upload_prefix \<or>
            \<not> has_suffix (fst e) metadata_suffix \<or> \<not> valid_upload_id i
         then None else Some i)"

fun get_uploads :: "upload_env \<Rightarrow> path \<Rightarrow> string list \<Rightarrow> upload_session list io" where
  "get_uploads env root [] = ret []"
| "get_uploads env root (i # is) =
     attempt (get_upload env root i) (\<lambda>r.
     bind_io (get_uploads env root is) (\<lambda>ss.
     ret (case r of Inr s \<Rightarrow> s # ss | Inl _ \<Rightarrow> ss)))"

definition list_uploads :: "upload_env \<Rightarrow> path \<Rightarrow> upload_session list io" where
  "list_uploads env root =
     bind_io (lstat root) (\<lambda>k.
     bind_io (guard_io (k = Directory) (Err ''logical folder root must be a real directory'')) (\<lambda>_.
     bind_io (wrapping (read_dir root) ''read upload sessions: '') (\<lambda>items.
     bind_io (get_uploads env root (List.map_filter session_file_id items)) (\<lambda>ss.
     ret (rev (sort_key us_updated (rev ss)))))))"

text \<open>\<open>i\<close> is the identity that \<open>newUploadID\<close> made from random bytes.\<close>

definition create_upload ::
  "upload_env \<Rightarrow> path \<Rightarrow> string \<Rightarrow> int \<Rightarrow> string \<Rightarrow> string \<Rightarrow> gotime \<Rightarrow> string \<Rightarrow> string \<Rightarrow>
   upload_session io" where
  "create_upload env root relative0 total_bytes expected client0 now i tmp =
     bind_io (guard_io (\<not> total_bytes < 0) (Err ''upload size cannot be negative'')) (\<lambda>_.
     bind_io (lift_res (normalize_sha256 (upload_lower env) expected)) (\<lambda>sha.
     let client = trim_space client0 in
     bind_io (guard_io (length client \<le> 256) (Err ''client fingerprint is too long'')) (\<lambda>_.
     bind_io (validate_upload_target root relative0) (\<lambda>(relative, _).
     bind_io (list_uploads env root) (\<lambda>sessions.
     bind_io (guard_io (relative \<notin> us_path ` set sessions) ErrUploadAlreadyActive) (\<lambda>_.
     let s = \<lparr>us_id = i, us_path = relative, us_total = total_bytes, us_received = 0, us_sha = sha,
              us_client = client, us_chunks = [], us_created = now, us_updated = now\<rparr>;
         part = upload_part_path root i in
     bind_io (wrapping (create_excl part) ''create upload part: '') (\<lambda>_.
     bind_io (or_else sync_handle (bind_io (ignore close_handle) (\<lambda>_. remove part)) id) (\<lambda>_.
     bind_io (or_else close_handle (remove part) id) (\<lambda>_.
     bind_io (or_else (write_upload_metadata env root s tmp) (remove part) id) (\<lambda>_.
     ret s))))))))))"

text \<open>
  One chunk: at most \<open>limit\<close> bytes are copied to the end of the part, one more byte in the
  source is an error, and only then is the metadata replaced.
\<close>

definition chunk_limit :: "int \<Rightarrow> upload_session \<Rightarrow> nat" where
  "chunk_limit max_bytes s =
     nat (min (if max_bytes \<le> 0 then max_upload_chunk else max_bytes) (us_total s - us_received s))"

definition rollback :: "path \<Rightarrow> int \<Rightarrow> unit io" where
  "rollback q offset = bind_io (ignore (truncate_handle q (nat offset))) (\<lambda>_. close_handle)"

definition rollback_synced :: "path \<Rightarrow> int \<Rightarrow> unit io" where
  "rollback_synced q offset =
     bind_io (ignore (truncate_handle q (nat offset))) (\<lambda>_.
     bind_io (ignore sync_handle) (\<lambda>_. close_handle))"

definition copy_chunk :: "path \<Rightarrow> int \<Rightarrow> reader \<Rightarrow> nat \<Rightarrow> nat io" where
  "copy_chunk q offset src limit =
     bind_io (or_else (copy_into q src (Some limit)) (rollback q offset) (Wrap ''write upload chunk: '')) (\<lambda>written.
     bind_io (if written \<noteq> limit then ret ()
              else case probe_more src limit of
                Inr True \<Rightarrow> or_else (throw ErrUploadChunkTooLarge) (rollback_synced q offset) id
              | Inl e \<Rightarrow> or_else (throw e) (rollback q offset) (Wrap ''check upload chunk limit: '')
              | Inr False \<Rightarrow> ret ()) (\<lambda>_.
     bind_io (if written = 0 then or_else (throw (Err ''upload chunk is empty'')) close_handle id
              else ret ()) (\<lambda>_.
     ret written)))"

definition add_chunk :: "upload_env \<Rightarrow> upload_session \<Rightarrow> int \<Rightarrow> string \<Rightarrow> gotime \<Rightarrow> upload_session" where
  "add_chunk env s offset data now =
     s\<lparr>us_chunks := us_chunks s @ [\<lparr>ch_offset = offset, ch_size = int (length data),
                                   ch_sha = hex_text (digest env data)\<rparr>],
       us_received := us_received s + int (length data), us_updated := now\<rparr>"

definition append_upload_chunk ::
  "upload_env \<Rightarrow> path \<Rightarrow> string \<Rightarrow> int \<Rightarrow> string \<Rightarrow> reader \<Rightarrow> int \<Rightarrow> gotime \<Rightarrow> string \<Rightarrow>
   upload_session io" where
  "append_upload_chunk env root i offset expected src max_bytes now tmp =
     bind_io (get_upload env root i) (\<lambda>s.
     bind_io (guard_io (offset = us_received s) ErrUploadOffsetMismatch) (\<lambda>_.
     bind_io (guard_io (us_received s < us_total s)
               (Err ''upload already contains all expected bytes'')) (\<lambda>_.
     bind_io (wrapping (lift_res (normalize_sha256 (upload_lower env) expected))
               ''invalid chunk checksum: '') (\<lambda>sha.
     let part = upload_part_path root i; limit = chunk_limit max_bytes s in
     bind_io (wrapping (open_write part) ''open upload part: '') (\<lambda>q.
     bind_io (copy_chunk q offset src limit) (\<lambda>written.
     let data = take written (rd_data src) in
     bind_io (if sha \<noteq> [] \<and> hex_text (digest env data) \<noteq> sha
              then or_else (throw ErrUploadChecksumMismatch) (rollback_synced q offset) id
              else ret ()) (\<lambda>_.
     bind_io (or_else sync_handle (rollback q offset) id) (\<lambda>_.
     bind_io (or_else close_handle (truncate_path part (nat offset)) id) (\<lambda>_.
     let s' = add_chunk env s offset data now in
     bind_io (or_else (write_upload_metadata env root s' tmp) (truncate_path part (nat offset)) id) (\<lambda>_.
     ret s'))))))))))"

text \<open>The commit: \<open>renameat2\<close>, and a hard link on a kernel without it.  It never replaces.\<close>

definition install_by_link :: "path \<Rightarrow> path \<Rightarrow> unit io" where
  "install_by_link part target = bind_io (link_file part target) (\<lambda>_. ignore (remove part))"

definition install_upload_part :: "path \<Rightarrow> path \<Rightarrow> unit io" where
  "install_upload_part part target =
     attempt (rename_new part target) (\<lambda>r.
       if r = Inl (ErrSys ENOSYS) then install_by_link part target else lift_res r)"

definition after_install :: "path \<Rightarrow> string \<Rightarrow> path \<Rightarrow> upload_result \<Rightarrow> upload_result io" where
  "after_install root i target result =
     bind_io (attempt (open_read (butlast target)) (\<lambda>r. case r of
         Inr _ \<Rightarrow> bind_io (ignore sync_handle) (\<lambda>_. ignore close_handle)
       | Inl _ \<Rightarrow> ret ())) (\<lambda>_.
     bind_io (ignore (remove (upload_metadata_path root i))) (\<lambda>_.
     ret result))"

definition commit_part :: "path \<Rightarrow> string \<Rightarrow> upload_session \<Rightarrow> string \<Rightarrow> upload_result io" where
  "commit_part root i s full =
     bind_io (validate_target_path root (us_path s)) (\<lambda>(relative, target).
     bind_io (open_write (upload_part_path root i)) (\<lambda>_.
     bind_io (or_else sync_handle close_handle id) (\<lambda>_.
     bind_io close_handle (\<lambda>_.
     bind_io (attempt (install_upload_part (upload_part_path root i) target) (\<lambda>r. case r of
         Inr _ \<Rightarrow> ret ()
       | Inl e \<Rightarrow> throw (if e = ErrSys EEXIST \<or> e = ErrSys ENOTEMPTY then ErrUploadTargetExists
                       else Wrap ''commit upload: '' e))) (\<lambda>_.
     after_install root i target \<lparr>ur_path = relative, ur_size = us_total s, ur_sha = full\<rparr>)))))"

definition complete_upload :: "upload_env \<Rightarrow> path \<Rightarrow> string \<Rightarrow> upload_result io" where
  "complete_upload env root i =
     bind_io (get_upload env root i) (\<lambda>s.
     bind_io (guard_io (us_received s = us_total s) (Err ''upload is incomplete'')) (\<lambda>_.
     bind_io (open_read (upload_part_path root i)) (\<lambda>q.
     bind_io (or_else (read_handle q) close_handle (Wrap ''hash upload: '')) (\<lambda>data.
     bind_io close_handle (\<lambda>_.
     let full = hex_text (digest env data) in
     bind_io (guard_io (us_sha s = [] \<or> full = us_sha s) ErrUploadChecksumMismatch) (\<lambda>_.
     commit_part root i s full))))))"

definition cancel_upload :: "upload_env \<Rightarrow> path \<Rightarrow> string \<Rightarrow> unit io" where
  "cancel_upload env root i =
     bind_io (guard_io (valid_upload_id i) ErrUploadNotFound) (\<lambda>_.
     bind_io (get_upload env root i) (\<lambda>_.
     attempt (remove (upload_part_path root i)) (\<lambda>r1.
     attempt (remove (upload_metadata_path root i)) (\<lambda>r2.
       let failed = (\<lambda>r. case r of Inl e \<Rightarrow> e \<noteq> ErrSys ENOENT | Inr _ \<Rightarrow> False)
       in lift_res (if failed r1 then r1 else if failed r2 then r2 else Inr ())))))"

section \<open>Stored sessions\<close>

text \<open>
  \<open>stored env t root i s bs\<close>: the metadata of session \<open>i\<close> decodes to \<open>s\<close>, whose chunks are
  \<open>bs\<close>, and the part begins with those chunks; what a failed write left may follow them.
\<close>

fun chunk_records :: "upload_env \<Rightarrow> int \<Rightarrow> string list \<Rightarrow> upload_chunk list" where
  "chunk_records env n [] = []"
| "chunk_records env n (b # bs) =
     \<lparr>ch_offset = n, ch_size = int (length b), ch_sha = hex_text (digest env b)\<rparr> #
     chunk_records env (n + int (length b)) bs"

definition stored :: "upload_env \<Rightarrow> tree \<Rightarrow> path \<Rightarrow> string \<Rightarrow> upload_session \<Rightarrow> string list \<Rightarrow> bool" where
  "stored env t root i s bs \<longleftrightarrow>
     valid_upload_id i \<and> us_id s = i \<and> real_dir t root \<and>
     us_received s = int (length (concat bs)) \<and> us_chunks s = chunk_records env 0 bs \<and>
     (\<exists>text. item_at t (upload_metadata_path root i) = Some (Regular text) \<and> unmarshal env text = Inr s) \<and>
     (\<exists>junk. item_at t (upload_part_path root i) = Some (Regular (concat bs @ junk)))"

text \<open>
  What the model relies on from \<open>encoding/json\<close>: the text of a session whose strings are
  valid UTF-8 decodes to the session, with the newline that the code appends.
\<close>

definition valid_utf8 :: "string \<Rightarrow> bool" where
  "valid_utf8 s \<longleftrightarrow> (\<forall>(r, bs)\<in>set (runes s). r \<noteq> rune_error \<or> length bs \<noteq> 1)"

definition session_text :: "upload_session \<Rightarrow> bool" where
  "session_text s \<longleftrightarrow>
     list_all valid_utf8 (us_id s # us_path s # us_sha s # us_client s # map ch_sha (us_chunks s))"

definition json_roundtrip :: "upload_env \<Rightarrow> bool" where
  "json_roundtrip env \<longleftrightarrow>
     (\<forall>s text. session_text s \<and> marshal env s = Inr text \<longrightarrow> unmarshal env (text @ [CHR 0x0A]) = Inr s)"

lemma ascii_valid_utf8: "ascii s \<Longrightarrow> valid_utf8 s"
  by (auto simp: valid_utf8_def runes_ascii rune_error_def ascii_def list_all_iff)

lemma hex_digit_ascii: "n < 16 \<Longrightarrow> byte (hex_digit n) < 128"
  by (auto simp: hex_digit_def byte_def)

lemma hex_text_ascii: "ascii (hex_text s)"
  by (auto simp: hex_text_def ascii_def list_all_iff hex_digit_ascii less_mult_imp_div_less)

lemma chunk_records_snoc:
  "chunk_records env n (bs @ [b]) = chunk_records env n bs @
     [\<lparr>ch_offset = n + int (length (concat bs)), ch_size = int (length b), ch_sha = hex_text (digest env b)\<rparr>]"
  by (induction bs arbitrary: n) auto

lemma add_chunk_simps [simp]:
  "us_id (add_chunk env s n b now) = us_id s" "us_path (add_chunk env s n b now) = us_path s"
  "us_sha (add_chunk env s n b now) = us_sha s" "us_total (add_chunk env s n b now) = us_total s"
  "us_received (add_chunk env s n b now) = us_received s + int (length b)"
  by (simp_all add: add_chunk_def)

lemma add_chunk_text: "session_text s \<Longrightarrow> session_text (add_chunk env s n b now)"
  by (auto simp: session_text_def add_chunk_def intro: ascii_valid_utf8 hex_text_ascii)

subsection \<open>The names of a session\<close>

lemma id_char: "valid_upload_id i \<Longrightarrow> c \<in> set i \<Longrightarrow> byte_in 48 57 c \<or> byte_in 97 102 c"
  by (auto simp: valid_upload_id_def list_all_iff)

lemma session_name_ok:
  assumes "valid_upload_id i" and "set sfx \<subseteq> set metadata_suffix \<union> set part_suffix"
  shows "okname (upload_prefix @ i @ sfx)"
proof -
  have "slash \<notin> set i" "CHR 0x00 \<notin> set i"
    using id_char [OF assms(1)] by (force simp: byte_in_def byte_def slash_def)+
  moreover have "slash \<notin> set sfx" "CHR 0x00 \<notin> set sfx"
    using assms(2) by (auto simp: metadata_suffix_def part_suffix_def slash_def)
  ultimately show ?thesis by (simp add: okname_def plain_def upload_prefix_def slash_def)
qed

definition metadata_name :: "string \<Rightarrow> string" where
  "metadata_name i = upload_prefix @ i @ metadata_suffix"

definition part_name :: "string \<Rightarrow> string" where
  "part_name i = upload_prefix @ i @ part_suffix"

definition temp_name :: "string \<Rightarrow> string" where
  "temp_name tmp = upload_prefix @ ''metadata-'' @ tmp"

lemma session_names:
  assumes "valid_upload_id i"
  shows "okname (metadata_name i)" "okname (part_name i)"
    "upload_metadata_path root i = root @ [metadata_name i]"
    "upload_part_path root i = root @ [part_name i]"
  using session_name_ok [OF assms, of metadata_suffix] session_name_ok [OF assms, of part_suffix]
  by (simp_all add: metadata_name_def part_name_def upload_metadata_path_def upload_part_path_def okname_def)

lemma session_names_distinct:
  assumes "valid_upload_id i"
  shows "metadata_name i \<noteq> part_name j" "temp_name tmp \<noteq> metadata_name i" "temp_name tmp \<noteq> part_name i"
    "hidden_name (metadata_name i)" "hidden_name (part_name i)" "hidden_name (temp_name tmp)"
proof -
  show "metadata_name i \<noteq> part_name j"
    by (auto simp: metadata_name_def part_name_def metadata_suffix_def part_suffix_def
        dest: arg_cong [of _ _ last])
  obtain c s where i: "i = c # s" "byte_in 48 57 c \<or> byte_in 97 102 c"
    using assms id_char by (cases i) (auto simp: valid_upload_id_def)
  then have "c \<noteq> CHR ''m''" by (auto simp: byte_in_def byte_def)
  then show "temp_name tmp \<noteq> metadata_name i" "temp_name tmp \<noteq> part_name i"
    by (simp_all add: temp_name_def metadata_name_def part_name_def i)
qed (simp_all add: hidden_name_def metadata_name_def part_name_def temp_name_def)

section \<open>What the operations do\<close>

lemma wp_read_file:
  assumes p: "clear_path t p" and e: "\<And>e. Q (Inl e) t"
    and k: "\<And>c. (\<And>c'. item_at t p = Some (Regular c') \<Longrightarrow> c = c') \<Longrightarrow> Q (Inr c) t"
  shows "wp (read_file p) Q t"
  unfolding read_file_def
proof (rule wp_query, rule e, goal_cases)
  case 1
  have "c = c'" if "item_at t p = Some (Regular c')"
      "at_real True p (\<lambda>q i. case i of None \<Rightarrow> Inl ENOENT | Some (Regular c) \<Rightarrow> Inr c
         | Some Directory \<Rightarrow> Inl EISDIR | Some _ \<Rightarrow> Inl EINVAL) t = Inr c" for c c'
    using that p real_path_clear [of t p True] by (simp add: at_real_def)
  then show ?case using e k by (auto split: sum.splits)
qed

lemma new_target_root: "new_target t root relative parent name \<Longrightarrow> real_dir t root"
  by (auto simp: new_target_def resolved_def)

lemma wp_validate_target_path:
  assumes root: "clear_path t root" and e: "\<And>e. Q (Inl e) t"
    and k: "\<And>parent name. new_target t root relative parent name \<Longrightarrow> real_dir t root \<Longrightarrow>
              real_dir t parent \<Longrightarrow> plain name \<Longrightarrow>
              Q (Inr (clean_relative relative, parent @ [name])) t"
  shows "wp (validate_target_path root relative) Q t"
  unfolding validate_target_path_def
proof (rule wp_bind, rule wp_target_parent [OF root], goal_cases)
  case (2 parent name)
  then show ?case using k new_target_root by simp
qed (simp add: e)

text \<open>A session that \<open>GetUpload\<close> returns has passed every check.\<close>

definition sound_session :: "upload_env \<Rightarrow> tree \<Rightarrow> path \<Rightarrow> string \<Rightarrow> upload_session \<Rightarrow> bool" where
  "sound_session env t root i s \<longleftrightarrow>
     valid_upload_id i \<and> real_dir t root \<and> session_checks env i s \<and> checksum_stored env s \<and>
     validate_upload_chunks (upload_lower env) s = Inr () \<and>
     (\<exists>c. item_at t (upload_part_path root i) = Some (Regular c) \<and> int (length c) = us_received s) \<and>
     (\<forall>text. item_at t (upload_metadata_path root i) = Some (Regular text) \<longrightarrow> unmarshal env text = Inr s)"

lemma real_dir_clear: "real_dir t p \<Longrightarrow> clear_path t p"
  by (simp add: real_dir_def)

lemma wp_get_upload:
  assumes root: "clear_path t root" and e: "\<And>e. Q (Inl e) t"
    and k: "\<And>s. sound_session env t root i s \<Longrightarrow> Q (Inr s) t"
  shows "wp (get_upload env root i) Q t"
proof (cases "valid_upload_id i")
  case i: True
  note n = session_names [OF i]
  let ?meta = "upload_metadata_path root i"
  have part: "wp (check_part root i s) Q t"
    if "real_dir t root" "session_checks env i s" "checksum_stored env s"
      "validate_upload_chunks (upload_lower env) s = Inr ()"
      "\<And>text. item_at t ?meta = Some (Regular text) \<Longrightarrow> unmarshal env text = Inr s" for s
  proof -
    have clear: "clear_path t (upload_part_path root i)" using that(1) n by simp
    show ?thesis
      unfolding check_part_def
      using that e i
      by (auto intro!: wp_bind wp_attempt wp_lstat_clear [OF clear] k
          simp: sound_session_def is_regular_def file_size_def split: item.splits)
  qed
  have rest: "wp (check_session env root i s) Q t"
    if "\<And>text. real_dir t root \<Longrightarrow> item_at t ?meta = Some (Regular text) \<Longrightarrow> unmarshal env text = Inr s" for s
  proof (cases "validate_upload_chunks (upload_lower env) s")
    case (Inr x)
    then show ?thesis
      unfolding check_session_def
      using that e
      by (auto intro!: wp_bind wp_or_else wp_validate_target_path root part dest: new_target_root)
  qed (auto simp: check_session_def e intro!: wp_bind wp_or_else wp_validate_target_path root)
  have meta: "wp (read_file ?meta) R t"
    if "\<And>e. R (Inl e) t"
      "\<And>c. (\<And>c'. real_dir t root \<Longrightarrow> item_at t ?meta = Some (Regular c') \<Longrightarrow> c = c') \<Longrightarrow> R (Inr c) t"
    for R
  proof (cases "real_dir t root")
    case True
    then have "clear_path t ?meta" using n by simp
    then show ?thesis by (rule wp_read_file) (use that in blast)+
  next
    case False
    then show ?thesis
      unfolding read_file_def by (intro wp_query) (auto intro: that split: sum.splits)
  qed
  show ?thesis
    unfolding get_upload_def using i
    by (auto intro!: wp_bind wp_attempt meta e rest split: sum.splits)
qed (auto simp: get_upload_def e intro!: wp_bind)

end
