(* ===== verification/UploadSafety.thy ===== *)
theory UploadSafety
  imports Uploads
begin

text \<open>
  Why an upload is committed exactly as it was acknowledged: one rule per step of the
  protocol of \<open>src/internal/filedata/upload.go\<close>, the invariant of a stored session, and the
  properties.
\<close>

lemma wp_write_upload_metadata:
  assumes root: "real_dir t root" and i: "valid_upload_id (us_id s)" and tmp: "okname (temp_name tmp)"
    and e: "\<And>err u. same_outside (prefix (root @ [temp_name tmp])) t u \<Longrightarrow> Q (Inl err) u"
    and k: "\<And>u text. marshal env s = Inr text \<Longrightarrow>
        same_outside (\<lambda>q. prefix (root @ [temp_name tmp]) q \<or> prefix (root @ [metadata_name (us_id s)]) q) t u \<Longrightarrow>
        item_at u (root @ [metadata_name (us_id s)]) = Some (Regular (text @ [CHR 0x0A])) \<Longrightarrow> Q (Inr ()) u"
  shows "wp (write_upload_metadata env root s tmp) Q t"
proof (cases "marshal env s")
  case (Inr js)
  let ?temp = "root @ [temp_name tmp]" and ?data = "js @ [CHR 0x0A]"
  have temp: "metadata_temp_path root tmp = ?temp"
    using tmp by (simp add: metadata_temp_path_def temp_name_def okname_def)
  have put: "put q (Regular c) (put q (Regular d) u) = put q (Regular c) u" for q c d u
    by (simp add: put_def)
  have body: "wp (or_else (append_to ?temp ?data) close_handle id) R (put ?temp (Regular []) t)"
    if "\<And>err v x. writes_to ?temp x t v \<Longrightarrow> R (Inl err) v"
      "\<And>v w. writes_to ?temp ?data t v \<Longrightarrow> True \<Longrightarrow> R (Inr w) v" for R
    by (auto intro!: wp_or_else wp_append_to wp_handle that(1) [OF writes_to_new] that(2) [OF writes_to_new] simp: put)
  note names = session_names [OF i] session_names_distinct [OF i]
  have commit: "wp (write_and_rename ?temp (or_else (append_to ?temp ?data) close_handle id) ?temp
      (root @ [metadata_name (us_id s)]) (Wrap ''replace upload metadata: '')) Q (put ?temp (Regular []) t)"
    by (rule wp_write_and_rename [where data = ?data and ok = "\<lambda>_. True", OF root tmp _ _ body])
      (auto intro: e k [OF Inr] simp: names)
  show ?thesis
    unfolding write_upload_metadata_def Let_def temp names
    by (auto intro!: wp_bind wp_or_else wp_create_excl e commit simp: Inr root tmp)
qed (auto simp: write_upload_metadata_def e intro!: wp_bind)

text \<open>A rollback leaves the part with what it began with, whether or not the truncation works.\<close>

definition grown :: "path \<Rightarrow> string \<Rightarrow> tree \<Rightarrow> tree \<Rightarrow> bool" where
  "grown q c t u \<longleftrightarrow> (\<exists>x. writes_to q (c @ x) t u)"

lemma grown_refl: "item_at t q = Some (Regular c) \<Longrightarrow> grown q c t t"
  using writes_to_refl [of t q c] by (auto simp: grown_def intro: exI [of _ "[]"])

lemma writes_to_grown: "writes_to q (c @ x) t u \<Longrightarrow> grown q c t u"
  by (auto simp: grown_def)

lemma grown_cut:
  assumes g: "grown q c t u" and q: "q \<noteq> []"
  shows "grown q c t (cut_bytes q (length c) u)"
proof -
  obtain x where x: "writes_to q (c @ x) t u" using g by (auto simp: grown_def)
  then have "cut_bytes q (length c) u = put q (Regular c) u"
    by (simp add: cut_bytes_Regular writes_to_item)
  then show ?thesis using writes_to_put [OF q x, of c] writes_to_grown [of q c "[]"] by simp
qed

lemma wp_truncate_handle:
  assumes "grown q c t u" "q \<noteq> []" "n = length c"
    and "\<And>r v. grown q c t v \<Longrightarrow> Q r v"
  shows "wp (truncate_handle q n) Q u"
  unfolding truncate_handle_def
  by (rule wp_sys_call) (use assms grown_cut in \<open>auto\<close>)

lemma wp_truncate_path:
  assumes g: "grown q c t u" "q \<noteq> []" "n = length c" and "clear_path u q"
    and Q: "\<And>r v. grown q c t v \<Longrightarrow> Q r v"
  shows "wp (truncate_path q n) Q u"
proof -
  have "real_path True u q = Inr q" "\<exists>x. item_at u q = Some (Regular (c @ x))"
    using assms(4) g(1) real_path_clear [of u q True] by (auto simp: grown_def writes_to_item)
  then show ?thesis
    unfolding truncate_path_def
    by (intro wp_sys_call) (use g Q grown_cut in \<open>auto simp: at_real_def\<close>)
qed

lemma wp_rollback:
  assumes "grown q c t u" "q \<noteq> []" "n = int (length c)"
    and "\<And>r v. grown q c t v \<Longrightarrow> Q r v"
  shows "wp (rollback q n) Q u" "wp (rollback_synced q n) Q u"
  unfolding rollback_def rollback_synced_def
  using assms(3)
  by (intro wp_bind wp_ignore wp_truncate_handle [OF assms(1,2)]; simp add: wp_handle assms(4))+

lemma wp_copy_chunk:
  assumes g: "writes_to q c t u" "q \<noteq> []" "n = int (length c)" "0 < limit"
    and e: "\<And>err v. grown q c t v \<Longrightarrow> Q (Inl err) v"
    and k: "\<And>v. writes_to q (c @ rd_data src) t v \<Longrightarrow> rd_data src \<noteq> [] \<Longrightarrow> length (rd_data src) \<le> limit \<Longrightarrow>
        rd_error src = None \<Longrightarrow> Q (Inr (length (rd_data src))) v"
  shows "wp (copy_chunk q n src limit) Q u"
proof -
  have roll: "wp (rollback q n) (\<lambda>_. Q (Inl err)) v" "wp (rollback_synced q n) (\<lambda>_. Q (Inl err)) v"
    if "grown q c t v" for v err
    by (rule wp_rollback [OF that g(2,3)], erule e)+
  let ?P = "\<lambda>v. writes_to q (c @ take limit (rd_data src)) t v \<and>
      (length (take limit (rd_data src)) < limit \<longrightarrow> rd_error src = None)"
  let ?w = "length (take limit (rd_data src))"
  have copy: "wp (or_else (copy_into q src (Some limit)) (rollback q n) (Wrap ''write upload chunk: ''))
      (\<lambda>r v. case r of Inl err \<Rightarrow> Q (Inl err) v | Inr w \<Rightarrow> ?P v \<and> w = ?w) u"
    by (rule wp_or_else, rule wp_copy_into [OF g(1,2)]) (auto intro: roll writes_to_grown)
  let ?tail = "\<lambda>w. bind_io (if w \<noteq> limit then ret ()
              else case probe_more src limit of
                Inr True \<Rightarrow> or_else (throw ErrUploadChunkTooLarge) (rollback_synced q n) id
              | Inl e \<Rightarrow> or_else (throw e) (rollback q n) (Wrap ''check upload chunk limit: '')
              | Inr False \<Rightarrow> ret ()) (\<lambda>_.
     bind_io (if w = 0 then or_else (throw (Err ''upload chunk is empty'')) close_handle id
              else ret ()) (\<lambda>_. ret w))"
  have checks: "wp (?tail ?w) Q v" if v: "?P v" for v
  proof -
    have grown: "grown q c t v" using v writes_to_grown by blast
    show ?thesis
    proof (cases "?w = limit")
      case False
      then have all: "take limit (rd_data src) = rd_data src" "length (rd_data src) \<le> limit"
        "rd_error src = None" using v by auto
      then show ?thesis
        using False v k [of v] e grown
        by (auto intro!: wp_bind wp_or_else wp_handle)
    next
      case True
      then show ?thesis
      proof (cases "rd_error src = None \<and> length (rd_data src) = limit")
        case all: True
        then show ?thesis using True v k [of v] g(4) by (auto intro!: wp_bind simp: probe_more_def)
      next
        case False
        then show ?thesis
          using True roll [OF grown]
          by (auto intro!: wp_bind wp_or_else simp: probe_more_def split: option.splits)
      qed
    qed
  qed
  show ?thesis
    unfolding copy_chunk_def
  proof (rule wp_bind, rule wp_mono [OF copy])
    fix r v
    assume r: "case r of Inl err \<Rightarrow> Q (Inl err) v | Inr w \<Rightarrow> ?P v \<and> w = ?w"
    show "case r of Inl err \<Rightarrow> Q (Inl err) v | Inr w \<Rightarrow> wp (?tail w) Q v"
    proof (cases r)
      case (Inr w)
      then have p: "?P v" and w: "w = ?w" using r by simp_all
      show ?thesis unfolding Inr sum.case w by (rule checks [OF p])
    qed (use r in simp)
  qed
qed

lemma io_simps:
  "bind_io (ret x) k = k x" "bind_io (throw e) k = throw e"
  "bind_io (guard_io b e) k' = (if b then k' () else throw e)"
  "bind_io (lift_res r) k = (case r of Inl e \<Rightarrow> throw e | Inr x \<Rightarrow> k x)"
  "or_else (lift_res r) c f =
     (case r of Inl e \<Rightarrow> bind_io (ignore c) (\<lambda>_. throw (f e)) | Inr x \<Rightarrow> ret x)"
  "ignore (ret x) = ret ()"
  by (auto simp: fun_eq_iff bind_io_def ret_def throw_def guard_io_def lift_res_def or_else_def
      attempt_def ignore_def split: sum.splits)

section \<open>The invariant of a stored session\<close>

lemma storedD:
  assumes "stored env t root i s bs"
  shows "valid_upload_id i" "us_id s = i" "real_dir t root"
    "us_received s = int (length (concat bs))" "us_chunks s = chunk_records env 0 bs"
    "\<exists>data. item_at t (root @ [metadata_name i]) = Some (Regular data) \<and> unmarshal env data = Inr s"
    "\<exists>junk. item_at t (root @ [part_name i]) = Some (Regular (concat bs @ junk))"
  using assms session_names [of i] unfolding stored_def by auto

lemma storedI:
  assumes "valid_upload_id i" "us_id s = i" "real_dir t root"
    "us_received s = int (length (concat bs))" "us_chunks s = chunk_records env 0 bs"
    "item_at t (root @ [metadata_name i]) = Some (Regular data)" "unmarshal env data = Inr s"
    "item_at t (root @ [part_name i]) = Some (Regular (concat bs @ junk))"
  shows "stored env t root i s bs"
  using assms session_names [of i] unfolding stored_def by auto

lemma stored_cong:
  assumes s: "stored env t root i s bs"
    and same: "\<And>q. prefix q root \<or> q = root @ [metadata_name i] \<or> q = root @ [part_name i] \<Longrightarrow>
        item_at u q = item_at t q"
  shows "stored env u root i s bs"
proof -
  note d = storedD [OF s]
  have "real_dir u root" using d(3) by (rule real_dir_cong) (simp add: same)
  moreover obtain data junk
    where "item_at t (root @ [metadata_name i]) = Some (Regular data)" "unmarshal env data = Inr s"
      "item_at t (root @ [part_name i]) = Some (Regular (concat bs @ junk))" using d(6,7) by blast
  ultimately show ?thesis using d(1,2,4,5) same by (intro storedI [of i s u root bs env data junk]) simp_all
qed

lemma stored_grown:
  assumes s: "stored env t root i s bs" and g: "grown (root @ [part_name i]) (concat bs) t u"
  shows "stored env u root i s bs"
proof -
  note d = storedD [OF s]
  obtain x where x: "writes_to (root @ [part_name i]) (concat bs @ x) t u" using g by (auto simp: grown_def)
  have "real_dir u root" using writes_to_dir [OF x d(3)] .
  moreover have "item_at u (root @ [metadata_name i]) = item_at t (root @ [metadata_name i])"
    using x session_names_distinct(1) [OF d(1)] by (simp add: writes_to_item)
  ultimately show ?thesis using d x by (auto intro!: storedI simp: writes_to_item)
qed

definition touched :: "path \<Rightarrow> string \<Rightarrow> string \<Rightarrow> path \<Rightarrow> bool" where
  "touched root i tmp q \<longleftrightarrow>
     prefix (root @ [temp_name tmp]) q \<or> prefix (root @ [metadata_name i]) q \<or>
     prefix (root @ [part_name i]) q"

lemma touched_above: "prefix q root \<Longrightarrow> \<not> touched root i tmp q"
  by (auto simp: touched_def prefix_not_above dest: prefix_length_le)

lemma grown_touched: "grown (root @ [part_name i]) c t u \<Longrightarrow> same_outside (touched root i tmp) t u"
  by (auto simp: grown_def writes_to_def touched_def elim!: same_outside_weaken)

lemma temp_touched: "same_outside (prefix (root @ [temp_name tmp])) t u \<Longrightarrow> same_outside (touched root i tmp) t u"
  by (erule same_outside_weaken) (simp add: touched_def)

lemma wp_open_write:
  assumes "clear_path t p" "item_at t p = Some (Regular c)"
    and "\<And>e. Q (Inl e) t" and "Q (Inr p) t"
  shows "wp (open_write p) Q t"
proof -
  have "real_path True t p = Inr p" using assms(1,2) by (intro real_path_clear) auto
  then show ?thesis
    unfolding open_write_def using assms by (intro wp_query) (auto simp: at_real_def)
qed

text \<open>A sound session with a stored metadata is the stored one, and its part is complete.\<close>

lemma sound_stored:
  assumes g: "sound_session env t root i s'" and s: "stored env t root i s bs"
  shows "s' = s" "item_at t (root @ [part_name i]) = Some (Regular (concat bs))"
proof -
  note d = storedD [OF s]
  show "s' = s" using g d(1,6) session_names [of i] by (auto simp: sound_session_def)
  then show "item_at t (root @ [part_name i]) = Some (Regular (concat bs))"
    using g d(1,4,7) session_names [of i] by (auto simp: sound_session_def)
qed

lemma wp_get_stored:
  assumes s: "stored env t root i s bs" and e: "\<And>e. Q (Inl e) t"
    and k: "item_at t (root @ [part_name i]) = Some (Regular (concat bs)) \<Longrightarrow> Q (Inr s) t"
  shows "wp (get_upload env root i) Q t"
proof (rule wp_get_upload, goal_cases)
  case (3 s')
  then show ?case using sound_stored [OF 3 s] k by simp
qed (use e storedD(3) [OF s] in \<open>simp_all add: real_dir_clear\<close>)

text \<open>Replacing the metadata commits the chunk; failing to do so takes it back.\<close>

lemma wp_commit_chunk:
  assumes s: "stored env t root i s bs" and json: "json_roundtrip env" "session_text s"
    and tmp: "okname (temp_name tmp)"
    and v: "writes_to (root @ [part_name i]) (concat bs @ b) t v"
    and s': "s' = add_chunk env s (us_received s) b now"
    and e: "\<And>err u. stored env u root i s bs \<Longrightarrow> same_outside (touched root i tmp) t u \<Longrightarrow> Q (Inl err) u"
    and k: "\<And>u. stored env u root i s' (bs @ [b]) \<Longrightarrow> same_outside (touched root i tmp) t u \<Longrightarrow> Q (Inr ()) u"
  shows "wp (or_else (write_upload_metadata env root s' tmp)
             (truncate_path (upload_part_path root i) (nat (us_received s))) id) Q v"
proof -
  note d = storedD [OF s] and v' = storedD [OF stored_grown [OF s writes_to_grown [OF v]]]
  note names = session_names [OF d(1)] session_names_distinct [OF d(1)]
  have id: "us_id s' = i" using d(2) s' by simp
  have undo: "wp (truncate_path (root @ [part_name i]) (nat (us_received s))) (\<lambda>_. Q (Inl err)) u"
    if u: "same_outside (prefix (root @ [temp_name tmp])) v u" for err u
  proof -
    have same: "item_at u q = item_at v q" if "\<not> prefix (root @ [temp_name tmp]) q" for q
      using u that by (rule same_outsideD)
    have su: "stored env u root i s bs"
      by (rule stored_cong [OF stored_grown [OF s writes_to_grown [OF v]]])
        (auto intro!: same simp: prefix_not_above names)
    have out: "same_outside (touched root i tmp) t u"
      using grown_touched [OF writes_to_grown [OF v]] temp_touched [OF u] by (rule same_outside_trans)
    have "grown (root @ [part_name i]) (concat bs) u u"
      using storedD(7) [OF su] by (auto simp: grown_def intro: writes_to_refl)
    then show ?thesis
    proof (rule wp_truncate_path)
      show "clear_path u (root @ [part_name i])" using storedD(3) [OF su] names by simp
      fix w
      assume g: "grown (root @ [part_name i]) (concat bs) u w"
      show "Q (Inl err) w"
        using e stored_grown [OF su g] same_outside_trans [OF out grown_touched [OF g]] by blast
    qed (use d(4) in auto)
  qed
  show ?thesis
  proof (rule wp_or_else, rule wp_write_upload_metadata [OF v'(3) _ tmp], goal_cases)
    case (2 err u)
    then show ?case using undo names by simp
  next
    case (3 u js)
    have same: "item_at u q = item_at v q"
      if "\<not> prefix (root @ [temp_name tmp]) q" "\<not> prefix (root @ [metadata_name i]) q" for q
      using 3(2) that id by (auto dest: same_outsideD)
    have "real_dir u root" using v'(3) by (rule real_dir_cong) (simp add: same prefix_not_above)
    moreover have "item_at u (root @ [part_name i]) = Some (Regular (concat (bs @ [b]) @ []))"
      using same [of "root @ [part_name i]"] v names by (simp add: writes_to_item)
    moreover have "unmarshal env (js @ [CHR 0x0A]) = Inr s'"
      using json add_chunk_text [OF json(2)] 3(1) s' unfolding json_roundtrip_def by blast
    moreover have "us_chunks s' = chunk_records env 0 (bs @ [b])"
      using d(4,5) s' by (simp add: chunk_records_snoc add_chunk_def)
    ultimately have "stored env u root i s' (bs @ [b])"
      using 3(3) d(1,4) id s' by (intro storedI) auto
    moreover have "same_outside (touched root i tmp) v u"
      by (rule same_outside_weaken [OF 3(2)]) (auto simp: touched_def id)
    then have "same_outside (touched root i tmp) t u"
      using grown_touched [OF writes_to_grown [OF v]] same_outside_trans by blast
    ultimately show ?case using k by simp
  qed (use d(1) id in simp)
qed

definition chunk_ok :: "upload_env \<Rightarrow> string \<Rightarrow> string \<Rightarrow> bool" where
  "chunk_ok env expected b \<longleftrightarrow>
     (\<exists>sha. normalize_sha256 (upload_lower env) expected = Inr sha \<and>
            (sha = [] \<or> sha = hex_text (digest env b)))"

lemma wp_append_upload_chunk:
  assumes s: "stored env t root i s bs" and json: "json_roundtrip env" "session_text s"
    and tmp: "okname (temp_name tmp)"
    and e: "\<And>err u. stored env u root i s bs \<Longrightarrow> same_outside (touched root i tmp) t u \<Longrightarrow> Q (Inl err) u"
    and k: "\<And>u s'. s' = add_chunk env s (us_received s) (rd_data src) now \<Longrightarrow>
        stored env u root i s' (bs @ [rd_data src]) \<Longrightarrow> same_outside (touched root i tmp) t u \<Longrightarrow>
        offset = us_received s \<Longrightarrow> chunk_ok env expected (rd_data src) \<Longrightarrow> rd_data src \<noteq> [] \<Longrightarrow>
        us_received s' \<le> us_total s \<Longrightarrow> Q (Inr s') u"
  shows "wp (append_upload_chunk env root i offset expected src max_bytes now tmp) Q t"
proof -
  note d = storedD [OF s]
  note names = session_names [OF d(1)]
  let ?part = "root @ [part_name i]"
  have clear: "clear_path t root" "clear_path t ?part" using d(3) names by (simp_all add: real_dir_clear)
  have grown: "Q (Inl err) u" if "grown ?part (concat bs) t u" for err u
    using e stored_grown [OF s that] grown_touched [OF that] by blast
  have fail: "Q (Inl err) t" for err by (rule e [OF s same_outside_refl])
  have "nat (us_received s) = length (concat bs)" using d(4) by simp
  then have roll: "wp (rollback ?part (us_received s)) (\<lambda>_. Q (Inl err)) u"
      "wp (rollback_synced ?part (us_received s)) (\<lambda>_. Q (Inl err)) u"
      "wp (truncate_path ?part (nat (us_received s))) (\<lambda>_. Q (Inl err)) u"
    if g: "grown ?part (concat bs) t u" for err u
    using wp_rollback [OF g _ d(4)] grown g storedD(3) [OF stored_grown [OF s g]] names
    by (auto intro!: wp_truncate_path [OF g])
  have writing: "wp (bind_io (copy_chunk ?part (us_received s) src (chunk_limit max_bytes s)) (\<lambda>written.
     let data = take written (rd_data src) in
     bind_io (if sha \<noteq> [] \<and> hex_text (digest env data) \<noteq> sha
              then or_else (throw ErrUploadChecksumMismatch) (rollback_synced ?part (us_received s)) id
              else ret ()) (\<lambda>_.
     bind_io (or_else sync_handle (rollback ?part (us_received s)) id) (\<lambda>_.
     bind_io (or_else close_handle (truncate_path ?part (nat (us_received s))) id) (\<lambda>_.
     let s' = add_chunk env s (us_received s) data now in
     bind_io (or_else (write_upload_metadata env root s' tmp) (truncate_path ?part (nat (us_received s))) id) (\<lambda>_.
     ret s')))))) Q t"
    if sha: "normalize_sha256 (upload_lower env) expected = Inr sha" and off: "offset = us_received s"
      and part: "item_at t ?part = Some (Regular (concat bs))" and less: "us_received s < us_total s" for sha
  proof (rule wp_bind, rule wp_copy_chunk [OF writes_to_refl [OF part] _ d(4)], goal_cases)
    case 2
    then show ?case using less by (simp add: chunk_limit_def max_upload_chunk_def)
  next
    case (4 v)
    let ?s = "add_chunk env s (us_received s) (rd_data src) now"
    have g: "grown ?part (concat bs) t v" using 4(1) by (rule writes_to_grown)
    have "int (length (rd_data src)) \<le> us_total s - us_received s"
    proof -
      have "n \<le> nat x \<Longrightarrow> 0 < n \<Longrightarrow> int n \<le> x" for n x by linarith
      from this [OF 4(3) [unfolded chunk_limit_def]] 4(2) show ?thesis by simp
    qed
    then have fits: "us_received ?s \<le> us_total s" by simp
    have commit: "wp (or_else (write_upload_metadata env root ?s tmp)
          (truncate_path ?part (nat (us_received s))) id)
        (\<lambda>r u. case r of Inl e \<Rightarrow> Q (Inl e) u | Inr _ \<Rightarrow> Q (Inr ?s) u) v"
      if "chunk_ok env expected (rd_data src)"
      using wp_commit_chunk [OF s json tmp 4(1) refl, of "\<lambda>r u. case r of Inl e \<Rightarrow> Q (Inl e) u | Inr _ \<Rightarrow> Q (Inr ?s) u" now]
        e k [OF refl _ _ off that 4(2) fits] names by simp
    let ?commit = "bind_io (or_else (write_upload_metadata env root ?s tmp)
        (truncate_path ?part (nat (us_received s))) id) (\<lambda>_. ret ?s)"
    let ?close = "bind_io (or_else close_handle (truncate_path ?part (nat (us_received s))) id) (\<lambda>_. ?commit)"
    let ?sync = "bind_io (or_else sync_handle (rollback ?part (us_received s)) id) (\<lambda>_. ?close)"
    have c: "wp ?commit Q v" if "chunk_ok env expected (rd_data src)"
      by (rule wp_bind, rule wp_mono [OF commit [OF that]]) (auto split: sum.splits)
    have close: "wp ?close Q v" if "chunk_ok env expected (rd_data src)"
      by (rule wp_bind, intro wp_or_else wp_handle) (use c [OF that] roll [OF g] in simp_all)
    have sync: "wp ?sync Q v" if "chunk_ok env expected (rd_data src)"
      by (rule wp_bind, intro wp_or_else wp_handle) (use close [OF that] roll [OF g] in simp_all)
    show ?case
      unfolding sum.case Let_def take_all [OF order_refl]
    proof (rule wp_bind, cases "sha \<noteq> [] \<and> hex_text (digest env (rd_data src)) \<noteq> sha", goal_cases)
      case 1
      then show ?case by (auto intro!: wp_or_else simp: roll [OF g])
    next
      case 2
      then have "chunk_ok env expected (rd_data src)" using sha by (auto simp: chunk_ok_def)
      from sync [OF this] show ?case using 2 by (simp only: if_False wp_ret sum.case)
    qed
  qed (auto intro: grown)
  show ?thesis
    unfolding append_upload_chunk_def
  proof (rule wp_bind, rule wp_get_stored [OF s], goal_cases)
    case 2
    show ?case
    proof (cases "normalize_sha256 (upload_lower env) expected")
      case (Inr sha)
      show ?thesis
      proof (cases "offset = us_received s \<and> us_received s < us_total s")
        case True
        then have off: "offset = us_received s" and less: "us_received s < us_total s" by simp_all
        have open': "wp (wrapping (open_write ?part) ''open upload part: '') (\<lambda>r u. case r of
            Inl err \<Rightarrow> Q (Inl err) u | Inr q \<Rightarrow> q = ?part \<and> u = t) t"
          by (rule wp_or_else, rule wp_open_write [OF clear(2) 2]) (simp_all add: fail)
        show ?thesis
          unfolding sum.case Let_def names off
          using less
          by (simp add: io_simps Inr)
            (rule wp_bind, rule wp_mono [OF open'],
              use writing [OF Inr off 2 less] in \<open>auto simp: Let_def split: sum.splits\<close>)
      qed (auto simp: io_simps fail Let_def)
    qed (auto simp: io_simps fail Let_def)
  qed (simp add: fail)
qed

section \<open>The commit\<close>

text \<open>Installing a part: the target was free and now holds what the part held.\<close>

lemma wp_install_upload_part:
  assumes part: "clear_path t part" "item_at t part = Some (Regular c)"
    and dir: "real_dir t parent" and name: "plain name"
    and e: "\<And>err. Q (Inl err) t"
    and k: "\<And>u. okname name \<Longrightarrow> item_at t (parent @ [name]) = None \<Longrightarrow>
        item_at u (parent @ [name]) = Some (Regular c) \<Longrightarrow>
        same_outside (\<lambda>q. prefix (parent @ [name]) q \<or> prefix part q) t u \<Longrightarrow> Q (Inr ()) u"
  shows "wp (install_upload_part part (parent @ [name])) Q t"
proof (cases "CHR 0x00 \<in> set name")
  case True
  have nul: "wp (with_paths part (parent @ [name]) f) R t" if "\<And>err. R (Inl err) t" for R f
    unfolding with_paths_def
    by (rule wp_sys_call) (use that part(1) in \<open>simp_all add: at_real_nul [OF True]\<close>)
  show ?thesis
    unfolding install_upload_part_def install_by_link_def rename_new_def link_file_def
    by (intro wp_attempt nul) (auto intro!: wp_bind nul e)
next
  case False
  let ?target = "parent @ [name]"
  have okay: "okname name" using name False by (simp add: okname_def)
  then have target: "clear_path t ?target" using dir by simp
  have off: "\<not> prefix part ?target"
    if "item_at t ?target = None"
    using that part(2) dir by (auto simp: real_dir_def clear_path_def strict_prefix_def)
  have above: "\<not> prefix ?target q" if "item_at t ?target = None" "prefix q part" for q
    using that part by (metis clear_not_below option.distinct(1) prefix_order.trans strict_prefix_def)
  have moved: "Q (Inr ()) (graft part ?target t)"
    if "item_at t ?target = None" "\<not> prefix part ?target" "\<not> prefix ?target part"
    using that okay part(2) by (intro k) (auto simp: item_at_graft same_outside_def)
  have linked: "wp (ignore (remove part)) Q (put ?target (Regular c) t)" if none: "item_at t ?target = None"
  proof (intro wp_ignore wp_remove)
    show "clear_path (put ?target (Regular c) t) part"
      by (rule clear_path_cong [OF part(1)]) (use above [OF none] in \<open>auto simp: strict_prefix_def\<close>)
    show "Q (Inr ()) (put ?target (Regular c) t)"
      using none okay by (intro k) (auto simp: same_outside_def)
    show "Q (Inr ()) (cut part (put ?target (Regular c) t))" if "part \<noteq> []"
      using none okay that off [OF none] by (intro k) (auto simp: same_outside_def item_at_cut)
  qed
  have link: "wp (install_by_link part ?target) Q t"
    unfolding install_by_link_def
    by (rule wp_bind, rule wp_link_file [OF part(1) target]) (auto simp: e part(2) intro: linked)
  show ?thesis
    unfolding install_upload_part_def
    by (rule wp_attempt, rule wp_rename_new [OF part(1) target])
      (auto simp: e link intro: moved)
qed

lemma real_dir_prefix: "real_dir t p \<Longrightarrow> prefix q p \<Longrightarrow> item_at t q = Some Directory"
  by (auto simp: real_dir_def clear_path_def strict_prefix_def)

lemma wp_open_read:
  assumes "clear_path t p" "item_at t p = Some k" "\<not> is_symlink k"
    and "\<And>e. Q (Inl e) t" and "Q (Inr p) t"
  shows "wp (open_read p) Q t"
proof -
  have "real_path True t p = Inr p" using assms(1,2,3) by (intro real_path_clear) (auto simp: is_symlink_def)
  then show ?thesis
    unfolding open_read_def using assms by (intro wp_query) (auto simp: at_real_def)
qed

lemma wp_read_handle:
  assumes "item_at t q = Some (Regular c)" and "\<And>e. Q (Inl e) t" and "Q (Inr c) t"
  shows "wp (read_handle q) Q t"
  unfolding read_handle_def by (rule wp_query) (use assms in auto)

definition committed :: "upload_env \<Rightarrow> tree \<Rightarrow> path \<Rightarrow> string \<Rightarrow> upload_session \<Rightarrow> string \<Rightarrow> tree \<Rightarrow> bool" where
  "committed env t root i s c u \<longleftrightarrow>
     (\<exists>parent name. new_target t root (us_path s) parent name \<and>
        item_at t (parent @ [name]) = None \<and> item_at u (parent @ [name]) = Some (Regular c) \<and>
        same_outside (\<lambda>q. prefix (parent @ [name]) q \<or> prefix (root @ [part_name i]) q \<or>
                          prefix (root @ [metadata_name i]) q) t u) \<and>
     us_total s = int (length c) \<and> (us_sha s = [] \<or> us_sha s = hex_text (digest env c))"

lemma wp_complete_upload:
  assumes s: "stored env t root i s bs"
    and e: "\<And>err. Q (Inl err) t"
    and k: "\<And>u. committed env t root i s (concat bs) u \<Longrightarrow>
        Q (Inr \<lparr>ur_path = clean_relative (us_path s), ur_size = us_total s,
                ur_sha = hex_text (digest env (concat bs))\<rparr>) u"
  shows "wp (complete_upload env root i) Q t"
proof -
  note d = storedD [OF s]
  note names = session_names [OF d(1)] session_names_distinct [OF d(1)]
  let ?part = "root @ [part_name i]" and ?meta = "root @ [metadata_name i]" and ?c = "concat bs"
  have clear: "clear_path t root" "clear_path t ?part" "clear_path t ?meta"
    using d(3) names by (simp_all add: real_dir_clear)
  let ?res = "\<lparr>ur_path = clean_relative (us_path s), ur_size = us_total s, ur_sha = hex_text (digest env ?c)\<rparr>"
  have removed: "wp (ignore (remove ?meta)) (\<lambda>r v. r = Inr () \<and> Q (Inr ?res) v) u"
    if n: "new_target t root (us_path s) parent name" and none: "item_at t (parent @ [name]) = None"
      and u: "item_at u (parent @ [name]) = Some (Regular ?c)"
        "same_outside (\<lambda>q. prefix (parent @ [name]) q \<or> prefix ?part q) t u"
      and total: "us_total s = int (length ?c)" "us_sha s = [] \<or> us_sha s = hex_text (digest env ?c)"
    for parent name u
  proof -
    have dir: "real_dir t parent" using n by (rule new_targetD)
    have meta: "\<not> prefix ?meta (parent @ [name])"
    proof
      assume "prefix ?meta (parent @ [name])"
      then have "prefix ?meta parent \<or> ?meta = parent @ [name]" by (auto simp: prefix_snoc)
      then show False using none d(6) real_dir_prefix [OF dir] by auto
    qed
    have above: "\<not> prefix (parent @ [name]) q" if "prefix q root" for q
    proof
      assume "prefix (parent @ [name]) q"
      then have "prefix (parent @ [name]) root" using that by (rule prefix_order.trans)
      then show False using none real_dir_prefix [OF d(3)] by simp
    qed
    have "real_dir u root"
    proof (rule real_dir_cong [OF d(3)], rule same_outsideD [OF u(2)])
      fix q
      assume "prefix q root"
      then show "\<not> (prefix (parent @ [name]) q \<or> prefix ?part q)"
        using above [of q] prefix_not_above [of q root "part_name i"] by simp
    qed
    then have clear: "clear_path u ?meta" using names by simp
    have "committed env t root i s ?c v"
      if "item_at v (parent @ [name]) = Some (Regular ?c)"
        "same_outside (\<lambda>q. prefix (parent @ [name]) q \<or> prefix ?part q \<or> prefix ?meta q) t v" for v
      using n none that total unfolding committed_def by blast
    note done' = k [OF this]
    show ?thesis
    proof (intro wp_ignore wp_remove [OF clear])
      show "Inr () = Inr () \<and> Q (Inr ?res) u"
        by (rule conjI, rule refl, rule done' [OF u(1)]) (rule same_outside_weaken [OF u(2)], blast)
      show "Inr () = Inr () \<and> Q (Inr ?res) (cut ?meta u)" if "?meta \<noteq> []"
        using that meta u by (intro conjI refl done') (auto simp: item_at_cut same_outside_def)
    qed
  qed
  have sync: "wp (attempt (open_read p) (\<lambda>r. case r of
         Inr _ \<Rightarrow> bind_io (ignore sync_handle) (\<lambda>_. ignore close_handle)
       | Inl _ \<Rightarrow> ret ())) (\<lambda>r v. \<exists>x. r = Inr x \<and> v = u) u" for p u
    unfolding open_read_def
    by (rule wp_attempt, rule wp_query) (auto intro!: wp_bind wp_ignore wp_handle split: sum.splits)
  have finish: "wp (after_install root i (parent @ [name]) ?res) Q u"
    if "new_target t root (us_path s) parent name" "item_at t (parent @ [name]) = None"
      "item_at u (parent @ [name]) = Some (Regular ?c)"
      "same_outside (\<lambda>q. prefix (parent @ [name]) q \<or> prefix ?part q) t u"
      "us_total s = int (length ?c)" "us_sha s = [] \<or> us_sha s = hex_text (digest env ?c)"
    for parent name u
    unfolding after_install_def
    by (rule wp_bind, rule wp_mono [OF sync])
      (auto intro!: wp_bind wp_mono [OF removed [OF that]] simp: names split: sum.splits)
  have commit: "wp (commit_part root i s (hex_text (digest env ?c))) Q t"
    if part: "item_at t ?part = Some (Regular ?c)"
      and total: "us_total s = int (length ?c)" "us_sha s = [] \<or> us_sha s = hex_text (digest env ?c)"
    unfolding commit_part_def names
  proof (rule wp_bind, rule wp_validate_target_path [OF clear(1)], goal_cases)
    case (2 parent name)
    show ?case
      unfolding sum.case prod.case
      by (auto intro!: wp_bind wp_open_write [OF clear(2) part] wp_or_else wp_handle wp_attempt
          wp_install_upload_part [OF clear(2) part 2(3,4)] finish [OF 2(1) _ _ _ total] e)
  qed (simp add: e)
  show ?thesis
    unfolding complete_upload_def
  proof (rule wp_bind, rule wp_get_stored [OF s], goal_cases)
    case 2
    have part: "wp (open_read ?part) (\<lambda>r u. case r of Inl err \<Rightarrow> Q (Inl err) u | Inr q \<Rightarrow> q = ?part \<and> u = t) t"
      by (rule wp_open_read [OF clear(2) 2]) (simp_all add: e is_symlink_def)
    have data: "wp (or_else (read_handle ?part) close_handle (Wrap ''hash upload: ''))
        (\<lambda>r u. case r of Inl err \<Rightarrow> Q (Inl err) u | Inr c \<Rightarrow> c = ?c \<and> u = t) t"
      by (rule wp_or_else, rule wp_read_handle [OF 2]) (auto simp: e intro!: wp_handle)
    show ?case
    proof (cases "us_received s = us_total s")
      case True
      then have total: "us_total s = int (length ?c)" using d(4) by simp
      have "wp (bind_io close_handle (\<lambda>_.
          bind_io (guard_io (us_sha s = [] \<or> hex_text (digest env ?c) = us_sha s) ErrUploadChecksumMismatch) (\<lambda>_.
          commit_part root i s (hex_text (digest env ?c))))) Q t"
      proof (rule wp_bind, rule wp_handle(2), simp add: e)
        show "case Inr () of Inl err \<Rightarrow> Q (Inl err) t | Inr _ \<Rightarrow>
            wp (bind_io (guard_io (us_sha s = [] \<or> hex_text (digest env ?c) = us_sha s)
              ErrUploadChecksumMismatch) (\<lambda>_. commit_part root i s (hex_text (digest env ?c)))) Q t"
          unfolding io_simps sum.case
          using commit [OF 2 total] e by (simp only: if_True wp_throw split: if_split) (metis (full_types))
      qed
      then show ?thesis
        unfolding sum.case Let_def names
        by (simp add: io_simps True)
          (auto intro!: wp_bind [OF wp_mono [OF part]] wp_bind [OF wp_mono [OF data]] split: sum.splits)
    qed (simp add: io_simps e)
  qed (simp add: e)
qed

section \<open>Creation\<close>

lemma wp_get_uploads:
  assumes root: "clear_path t root" and k: "\<And>ss. Q (Inr ss) t"
  shows "wp (get_uploads env root is) Q t"
  using k
proof (induction "is" arbitrary: Q)
  case (Cons i "is")
  have "wp (bind_io (get_uploads env root is) (\<lambda>ss. ret (f ss))) Q t" for f
    by (rule wp_bind, rule Cons.IH) (simp add: Cons.prems)
  then show ?case
    by (simp, intro wp_attempt wp_get_upload [OF root]) simp_all
qed simp

lemma wp_list_uploads:
  assumes root: "clear_path t root" and e: "\<And>e. Q (Inl e) t" and k: "\<And>ss. Q (Inr ss) t"
  shows "wp (list_uploads env root) Q t"
proof -
  have dir: "wp (read_dir root) (\<lambda>r u. u = t) t"
    unfolding read_dir_def by (rule wp_query) (auto split: sum.splits)
  have items: "wp (wrapping (read_dir root) ''read upload sessions: '') (\<lambda>r u. u = t) t"
    by (rule wp_or_else, rule wp_mono [OF dir]) (auto split: sum.splits)
  have sessions: "wp (bind_io (get_uploads env root is) (\<lambda>ss. ret (f ss))) Q t" for "is" f
    by (rule wp_bind, rule wp_get_uploads [OF root]) (simp add: k)
  show ?thesis
    unfolding list_uploads_def
    by (auto intro!: wp_bind wp_lstat_clear [OF root] wp_mono [OF items] e
        wp_get_uploads [OF root] k split: sum.splits)
qed

text \<open>A new session is stored with no chunks, for a target that was free.\<close>

lemma normalize_sha256_ascii: "normalize_sha256 tbl v = Inr sha \<Longrightarrow> ascii sha"
proof -
  have "hex_decode s = Some r \<Longrightarrow> ascii s" for s r
    by (induction s arbitrary: r rule: hex_decode.induct)
      (auto simp: ascii_def hex_value_def byte_in_def split: option.splits if_splits)
  then show "normalize_sha256 tbl v = Inr sha \<Longrightarrow> ascii sha"
    by (auto simp: normalize_sha256_def Let_def ascii_def split: if_splits option.splits)
qed

lemma id_ascii: "valid_upload_id i \<Longrightarrow> ascii i"
  using id_char [of i] by (fastforce simp: ascii_def list_all_iff byte_in_def)

lemma wp_create_upload:
  assumes root: "clear_path t root" and i: "valid_upload_id i" and tmp: "okname (temp_name tmp)"
    and json: "json_roundtrip env"
    and texts: "valid_utf8 (clean_relative relative)" "valid_utf8 (trim_space client)"
    and e: "\<And>err u. same_outside (touched root i tmp) t u \<Longrightarrow> Q (Inl err) u"
    and k: "\<And>s u. stored env u root i s [] \<Longrightarrow> session_text s \<Longrightarrow> us_path s = clean_relative relative \<Longrightarrow>
        us_total s = total_bytes \<Longrightarrow> 0 \<le> total_bytes \<Longrightarrow>
        normalize_sha256 (upload_lower env) expected = Inr (us_sha s) \<Longrightarrow>
        same_outside (touched root i tmp) t u \<Longrightarrow> Q (Inr s) u"
  shows "wp (create_upload env root relative total_bytes expected client now i tmp) Q t"
proof -
  note names = session_names [OF i] session_names_distinct [OF i]
  let ?part = "root @ [part_name i]"
  define mk where "mk = (\<lambda>sha. \<lparr>us_id = i, us_path = clean_relative relative, us_total = total_bytes,
      us_received = 0, us_sha = sha, us_client = trim_space client, us_chunks = [],
      us_created = now, us_updated = now\<rparr>)"
  have fail: "Q (Inl err) t" for err by (rule e) simp
  have undo: "wp (remove ?part) (\<lambda>_. Q (Inl err)) u"
    if u: "same_outside (touched root i tmp) t u" and d: "real_dir t root" for err u
  proof -
    have "real_dir u root"
      using d by (rule real_dir_cong) (rule same_outsideD [OF u touched_above])
    then have "clear_path u ?part" using names by simp
    then show ?thesis
      by (rule wp_remove_temp [OF _ u]) (auto intro: e simp: touched_def)
  qed
  have main: "wp (bind_io (wrapping (create_excl ?part) ''create upload part: '') (\<lambda>_.
     bind_io (or_else sync_handle (bind_io (ignore close_handle) (\<lambda>_. remove ?part)) id) (\<lambda>_.
     bind_io (or_else close_handle (remove ?part) id) (\<lambda>_.
     bind_io (or_else (write_upload_metadata env root (mk sha) tmp) (remove ?part) id) (\<lambda>_.
     ret (mk sha)))))) Q t"
    if dir: "real_dir t root" and sha: "normalize_sha256 (upload_lower env) expected = Inr sha"
      and total: "0 \<le> total_bytes" for sha
  proof -
    let ?t = "put ?part (Regular []) t"
    have t: "same_outside (touched root i tmp) t ?t" by (simp add: same_outside_def touched_def)
    have dir1: "real_dir ?t root" using dir by (rule real_dir_cong) auto
    have enc: "session_text (mk sha)"
      using texts ascii_valid_utf8 [OF id_ascii [OF i]] ascii_valid_utf8 [OF normalize_sha256_ascii [OF sha]]
      by (simp add: session_text_def mk_def)
    have meta: "wp (write_upload_metadata env root (mk sha) tmp) (\<lambda>r u. case r of
        Inl err \<Rightarrow> wp (remove ?part) (\<lambda>_. Q (Inl err)) u | Inr _ \<Rightarrow> Q (Inr (mk sha)) u) ?t"
    proof (rule wp_write_upload_metadata [OF dir1 _ tmp], goal_cases)
      case (2 err u)
      then show ?case
        unfolding sum.case by (intro undo [OF same_outside_trans [OF t temp_touched] dir])
    next
      case (3 u js)
      have id: "us_id (mk sha) = i" by (simp add: mk_def)
      have same: "item_at u q = item_at ?t q"
        if "\<not> prefix (root @ [temp_name tmp]) q" "\<not> prefix (root @ [metadata_name i]) q" for q
        using 3(2) that id by (auto dest: same_outsideD)
      have "real_dir u root" using dir1 by (rule real_dir_cong) (simp add: same prefix_not_above)
      moreover have "item_at u ?part = Some (Regular (concat [] @ []))"
        using same [of ?part] names by simp
      moreover have "unmarshal env (js @ [CHR 0x0A]) = Inr (mk sha)"
        using json enc 3(1) unfolding json_roundtrip_def by blast
      ultimately have "stored env u root i (mk sha) []"
        using 3(3) i by (intro storedI) (auto simp: mk_def)
      moreover have "same_outside (touched root i tmp) ?t u"
        by (rule same_outside_weaken [OF 3(2)]) (auto simp: touched_def id)
      ultimately show ?case
        unfolding sum.case using enc sha total same_outside_trans [OF t]
        by (intro k) (simp_all add: mk_def)
    qed (use i in \<open>simp add: mk_def\<close>)
    let ?commit = "bind_io (or_else (write_upload_metadata env root (mk sha) tmp) (remove ?part) id) (\<lambda>_.
        ret (mk sha))"
    have commit: "wp ?commit Q ?t"
      by (rule wp_bind, rule wp_or_else, rule wp_mono [OF meta]) (auto split: sum.splits)
    have close: "wp (bind_io (or_else close_handle (remove ?part) id) (\<lambda>_. ?commit)) Q ?t"
      by (rule wp_bind, rule wp_or_else, rule wp_handle(2)) (simp_all add: undo [OF t dir] commit)
    have sync: "wp (bind_io (or_else sync_handle (bind_io (ignore close_handle) (\<lambda>_. remove ?part)) id) (\<lambda>_.
        bind_io (or_else close_handle (remove ?part) id) (\<lambda>_. ?commit))) Q ?t"
      by (rule wp_bind, rule wp_or_else, rule wp_handle(1))
        (auto intro!: wp_bind wp_ignore wp_handle(2) undo [OF t dir] simp: close)
    show ?thesis
      by (rule wp_bind, rule wp_or_else, rule wp_create_excl) (use dir names fail sync in simp_all)
  qed
  have free: "wp (validate_upload_target root relative) (\<lambda>r u. case r of Inl err \<Rightarrow> Q (Inl err) u
      | Inr (rel, target) \<Rightarrow> rel = clean_relative relative \<and> real_dir t root \<and> u = t) t"
    unfolding validate_upload_target_def
    by (auto intro!: wp_bind wp_validate_target_path [OF root] wp_must_not_exist fail)
  show ?thesis
  proof (cases "normalize_sha256 (upload_lower env) expected")
    case (Inr sha)
    have sessions: "wp (list_uploads env root) (\<lambda>r u. (case r of Inl err \<Rightarrow> Q (Inl err) u | Inr _ \<Rightarrow> True) \<and> u = t) t"
      by (rule wp_list_uploads [OF root]) (simp_all add: fail)
    show ?thesis
      unfolding create_upload_def Let_def names mk_def [symmetric]
      using Inr
      by (auto simp: io_simps fail not_less intro!: wp_bind [OF wp_mono [OF free]]
          wp_bind [OF wp_mono [OF sessions]] main [unfolded mk_def] split: sum.splits)
  qed (auto simp: create_upload_def io_simps fail Let_def)
qed

section \<open>The life of an upload\<close>

text \<open>
  What happens to a folder between the creation of an upload and its commit: chunks that the
  client sends, with every outcome, and file operations of other requests.  \<open>upload_life\<close>
  collects the chunks that were acknowledged.
\<close>

datatype upload_step =
    Send_chunk int string reader int gotime string
  | File_request file_op

fun upload_step_ok :: "upload_step \<Rightarrow> bool" where
  "upload_step_ok (Send_chunk offset expected src max_bytes now tmp) \<longleftrightarrow> okname (temp_name tmp)"
| "upload_step_ok (File_request oper) \<longleftrightarrow> file_op_ok oper"

fun upload_life ::
  "upload_env \<Rightarrow> path \<Rightarrow> string \<Rightarrow> upload_step list \<Rightarrow> disk \<Rightarrow> string list \<times> disk" where
  "upload_life env root i [] d = ([], d)"
| "upload_life env root i (Send_chunk offset expected src max_bytes now tmp # steps) d =
     (case append_upload_chunk env root i offset expected src max_bytes now tmp d of
        (r, d1) \<Rightarrow> (case upload_life env root i steps d1 of
           (bs, d2) \<Rightarrow> (if is_ok r then rd_data src # bs else bs, d2)))"
| "upload_life env root i (File_request oper # steps) d =
     upload_life env root i steps (snd (run_file_op root oper d))"

lemma stored_spares:
  assumes s: "stored env t root i s bs" and u: "spares root t u"
  shows "stored env u root i s bs"
proof (rule stored_cong [OF s])
  note d = storedD [OF s]
  have hidden: "item_at u (root @ [n]) = item_at t (root @ [n])"
    if "hidden_name n" "okname n" "item_at t (root @ [n]) \<noteq> None" for n
    using u that d(3) unfolding spares_def by simp
  fix q
  assume "prefix q root \<or> q = root @ [metadata_name i] \<or> q = root @ [part_name i]"
  then show "item_at u q = item_at t q"
  proof (elim disjE)
    assume "prefix q root"
    then have "\<not> strict_prefix root q" by (auto simp: strict_prefix_def dest: prefix_order.antisym)
    then show ?thesis using u by (auto simp: spares_def)
  qed (use hidden d(6,7) session_names [OF d(1)] session_names_distinct [OF d(1)] in auto)
qed

lemma upload_life_stored:
  assumes "stored env (entries d) root i s bs0" and "json_roundtrip env" and "session_text s"
    and "\<forall>st\<in>set steps. upload_step_ok st" and "upload_life env root i steps d = (bs, d')"
  shows "\<exists>s'. stored env (entries d') root i s' (bs0 @ bs) \<and> us_path s' = us_path s \<and>
     us_total s' = us_total s \<and> us_sha s' = us_sha s"
  using assms
proof (induction steps arbitrary: d s bs0 bs)
  case (Cons st steps)
  show ?case
  proof (cases st)
    case (Send_chunk offset expected src max_bytes now tmp)
    obtain r d1 where app: "append_upload_chunk env root i offset expected src max_bytes now tmp d = (r, d1)"
      by fastforce
    obtain bs1 where life: "upload_life env root i steps d1 = (bs1, d')"
      and bs: "bs = (if is_ok r then rd_data src # bs1 else bs1)"
      using Cons.prems(5) by (auto simp: Send_chunk app split: prod.splits)
    have tmp: "okname (temp_name tmp)" using Cons.prems(4) Send_chunk by simp
    have step: "case r of Inl _ \<Rightarrow> stored env (entries d1) root i s bs0
       | Inr s' \<Rightarrow> s' = add_chunk env s (us_received s) (rd_data src) now \<and>
                  stored env (entries d1) root i s' (bs0 @ [rd_data src])"
      by (rule wpD [OF wp_append_upload_chunk [OF Cons.prems(1-3) tmp] app]) simp_all
    show ?thesis
    proof (cases r)
      case (Inl e)
      then show ?thesis using Cons.IH [OF _ Cons.prems(2,3) _ life, of bs0] step Cons.prems(4) bs by simp
    next
      case (Inr s')
      then have s': "s' = add_chunk env s (us_received s) (rd_data src) now"
        "stored env (entries d1) root i s' (bs0 @ [rd_data src])"
        using step unfolding Inr sum.case by blast+
      have enc: "session_text s'" using add_chunk_text [OF Cons.prems(3)] s'(1) by simp
      from Cons.IH [OF s'(2) Cons.prems(2) enc _ life] Cons.prems(4) bs Inr s'(1) show ?thesis
        by (auto simp: Send_chunk)
    qed
  next
    case (File_request oper)
    obtain r d1 where run: "run_file_op root oper d = (r, d1)" by fastforce
    have "clear_path (entries d) root" using storedD(3) [OF Cons.prems(1)] by (rule real_dir_clear)
    then have "spares root (entries d) (entries d1)"
      using wpD [OF run_file_op_spares run] Cons.prems(4) by (simp add: File_request)
    then have "stored env (entries d1) root i s bs0" by (rule stored_spares [OF Cons.prems(1)])
    then show ?thesis using Cons.IH [OF _ Cons.prems(2,3)] Cons.prems(4,5) by (simp add: File_request run)
  qed
qed auto

section \<open>Properties\<close>

text \<open>C5. The whole life of an upload: when a committed upload was created, filled and
  completed, with any failing system calls, rejected chunks and file operations of others in
  between, the target was free, it now holds exactly the acknowledged chunks in order, and
  their number of bytes and their checksum are the declared ones.\<close>

theorem commit_is_what_was_acknowledged:
  assumes "clear_path (entries d) root" and "valid_upload_id i" and "okname (temp_name tmp)"
    and "json_roundtrip env"
    and "valid_utf8 (clean_relative relative)" and "valid_utf8 (trim_space client)"
    and "create_upload env root relative total_bytes expected client now i tmp d = (Inr s, d1)"
    and "\<forall>st\<in>set steps. upload_step_ok st" and "upload_life env root i steps d1 = (bs, d2)"
    and "complete_upload env root i d2 = (Inr res, d3)"
  shows "(\<exists>parent name. new_target (entries d2) root (clean_relative relative) parent name \<and>
       item_at (entries d2) (parent @ [name]) = None \<and>
       item_at (entries d3) (parent @ [name]) = Some (Regular (concat bs))) \<and>
     ur_size res = total_bytes \<and> total_bytes = int (length (concat bs)) \<and>
     ur_sha res = hex_text (digest env (concat bs)) \<and>
     (\<exists>sha. normalize_sha256 (upload_lower env) expected = Inr sha \<and> (sha = [] \<or> sha = ur_sha res))"
proof -
  have created: "stored env (entries d1) root i s [] \<and> session_text s \<and> us_path s = clean_relative relative \<and>
      us_total s = total_bytes \<and> normalize_sha256 (upload_lower env) expected = Inr (us_sha s)"
    using wpD [OF wp_create_upload [OF assms(1-6)] assms(7), of "\<lambda>r u. case r of Inl _ \<Rightarrow> True
      | Inr s \<Rightarrow> stored env u root i s [] \<and> session_text s \<and> us_path s = clean_relative relative \<and>
          us_total s = total_bytes \<and> normalize_sha256 (upload_lower env) expected = Inr (us_sha s)"] by simp
  then obtain s' where s': "stored env (entries d2) root i s' bs" "us_path s' = clean_relative relative"
    "us_total s' = total_bytes" "us_sha s' = us_sha s"
    using upload_life_stored [OF _ assms(4) _ assms(8,9), of s "[]"] by auto
  have "committed env (entries d2) root i s' (concat bs) (entries d3) \<and>
      ur_size res = us_total s' \<and> ur_sha res = hex_text (digest env (concat bs))"
    using wpD [OF wp_complete_upload [OF s'(1)] assms(10), of "\<lambda>r u. case r of Inl _ \<Rightarrow> True
      | Inr res \<Rightarrow> committed env (entries d2) root i s' (concat bs) u \<and>
          ur_size res = us_total s' \<and> ur_sha res = hex_text (digest env (concat bs))"] by simp
  then show ?thesis using created s'(2-4) by (auto simp: committed_def)
qed


text \<open>C18. Completing an upload either installs the whole file at a name that did not exist, or
  returns an error and changes nothing at all, so that it can be tried again.\<close>

theorem complete_upload_all_or_nothing:
  assumes "stored env (entries d) root i s bs" and "complete_upload env root i d = (r, d')"
  shows "case r of
      Inl e \<Rightarrow> entries d' = entries d
    | Inr res \<Rightarrow> committed env (entries d) root i s (concat bs) (entries d')"
  by (rule wpD [OF wp_complete_upload [OF assms(1)] assms(2)]) simp_all

section \<open>A sample upload\<close>

text \<open>A codec of three sessions, enough to evaluate one upload of two chunks.\<close>

definition sample_id :: string where "sample_id = replicate 32 CHR ''a''"
definition sample_sha :: string where "sample_sha = hex_text (replicate 32 CHR 0x00)"

definition sample_session :: "upload_session" where
  "sample_session = \<lparr>us_id = sample_id, us_path = ''docs/b'', us_total = 4, us_received = 0, us_sha = [],
     us_client = ''pc'', us_chunks = [], us_created = 5, us_updated = 5\<rparr>"

definition sample_session1 :: "upload_session" where
  "sample_session1 = sample_session\<lparr>us_chunks := [\<lparr>ch_offset = 0, ch_size = 3, ch_sha = sample_sha\<rparr>],
     us_received := 3, us_updated := 6\<rparr>"

definition sample_session2 :: "upload_session" where
  "sample_session2 = sample_session\<lparr>us_chunks := [\<lparr>ch_offset = 0, ch_size = 3, ch_sha = sample_sha\<rparr>,
     \<lparr>ch_offset = 3, ch_size = 1, ch_sha = sample_sha\<rparr>], us_received := 4, us_updated := 7\<rparr>"

definition sample_env :: upload_env where
  "sample_env = \<lparr>
     marshal = (\<lambda>s. if s = sample_session then Inr ''0'' else if s = sample_session1 then Inr ''1''
                    else if s = sample_session2 then Inr ''2'' else Inl (Err ''unsupported value'')),
     unmarshal = (\<lambda>x. if x = ''0'' @ [CHR 0x0A] then Inr sample_session
                      else if x = ''1'' @ [CHR 0x0A] then Inr sample_session1
                      else if x = ''2'' @ [CHR 0x0A] then Inr sample_session2
                      else Inl (Err ''unexpected end of JSON input'')),
     digest = (\<lambda>_. replicate 32 CHR 0x00), upload_lower = id\<rparr>"

lemma sample_json: "json_roundtrip sample_env"
  by (auto simp: json_roundtrip_def sample_env_def split: if_splits)

definition sample_steps :: "upload_step list" where
  "sample_steps =
     [Send_chunk 0 [] sample_reader 100 6 ''11'',
      Send_chunk 0 [] sample_reader 100 6 ''12'',
      File_request (Make_directory ''new''),
      Send_chunk 3 [] \<lparr>rd_data = ''!'', rd_error = None\<rparr> 100 7 ''13'']"

definition sample_created :: disk where
  "sample_created = snd (create_upload sample_env [''srv''] ''docs/b'' 4 [] ''pc'' 5 sample_id ''10''
     (sample_disk\<lparr>faults := []\<rparr>))"

lemma sample_create:
  "fst (create_upload sample_env [''srv''] ''docs/b'' 4 [] ''pc'' 5 sample_id ''10'' (sample_disk\<lparr>faults := []\<rparr>)) =
     Inr sample_session"
  unfolding sample_disk_def sample_env_def sample_session_def sample_session1_def sample_session2_def sample_id_def
  by code_simp


lemmas sample_defs = sample_disk_def sample_env_def sample_session_def sample_session1_def
  sample_session2_def sample_id_def sample_sha_def sample_steps_def sample_reader_def

definition sample_rest :: "(path \<times> item) list" where
  "sample_rest = [([''srv''], Directory), ([''srv'', ''.home-ai-trash''], Directory),
     ([''srv'', ''docs''], Directory), ([''srv'', ''docs'', ''a''], Regular ''one'')]"

definition sample_files :: "string \<Rightarrow> string \<Rightarrow> (path \<times> item) list" where
  "sample_files json part = [([''srv'', metadata_name sample_id], Regular (json @ [CHR 0x0A])),
     ([''srv'', part_name sample_id], Regular part)]"

definition sample_made :: "(path \<times> item) list" where
  "sample_made = [([''srv'', ''new''], Directory)]"

abbreviation sample_at :: "(path \<times> item) list \<Rightarrow> disk" where
  "sample_at t \<equiv> \<lparr>entries = t @ sample_rest, faults = []\<rparr>"

lemmas sample_eval = sample_rest_def sample_files_def sample_made_def sample_defs

lemma sample_created_entries: "sample_created = sample_at (sample_files ''0'' [])"
  unfolding sample_created_def sample_eval by code_simp

lemma sample_life:
  "append_upload_chunk sample_env [''srv''] sample_id 0 [] sample_reader 100 6 ''11''
     (sample_at (sample_files ''0'' [])) = (Inr sample_session1, sample_at (sample_files ''1'' ''two''))"
  "append_upload_chunk sample_env [''srv''] sample_id 0 [] sample_reader 100 6 ''12''
     (sample_at (sample_files ''1'' ''two'')) = (Inl ErrUploadOffsetMismatch, sample_at (sample_files ''1'' ''two''))"
  "run_file_op [''srv''] (Make_directory ''new'') (sample_at (sample_files ''1'' ''two'')) =
     (Inr (), sample_at (sample_made @ sample_files ''1'' ''two''))"
  "append_upload_chunk sample_env [''srv''] sample_id 3 [] \<lparr>rd_data = ''!'', rd_error = None\<rparr> 100 7 ''13''
     (sample_at (sample_made @ sample_files ''1'' ''two'')) =
       (Inr sample_session2, sample_at (sample_files ''2'' ''two!'' @ sample_made))"
  unfolding sample_eval by code_simp+

lemma sample_filled:
  "upload_life sample_env [''srv''] sample_id sample_steps (sample_at (sample_files ''0'' [])) =
     ([''two'', ''!''], sample_at (sample_files ''2'' ''two!'' @ sample_made))"
  unfolding sample_steps_def upload_life.simps sample_life prod.case snd_conv by (simp add: sample_reader_def)

lemma sample_complete:
  "fst (complete_upload sample_env [''srv''] sample_id (sample_at (sample_files ''2'' ''two!'' @ sample_made))) =
     Inr \<lparr>ur_path = ''docs/b'', ur_size = 4, ur_sha = sample_sha\<rparr>"
  unfolding sample_eval by code_simp

lemma sample_texts:
  "valid_upload_id sample_id" "okname (temp_name ''10'')" "valid_utf8 (clean_relative ''docs/b'')"
  "valid_utf8 (trim_space ''pc'')" "okname (temp_name ''11'')"
  unfolding sample_id_def by code_simp+

lemma sample_steps_ok: "\<forall>st\<in>set sample_steps. upload_step_ok st"
  by (simp add: sample_steps_def sample_reader_def) code_simp

lemma sample_root_clear: "clear_path (entries (sample_disk\<lparr>faults := []\<rparr>)) [''srv'']"
  using sample_clear by simp

lemma sample_creation:
  "create_upload sample_env [''srv''] ''docs/b'' 4 [] ''pc'' 5 sample_id ''10'' (sample_disk\<lparr>faults := []\<rparr>) =
     (Inr sample_session, sample_at (sample_files ''0'' []))"
  using sample_create sample_created_entries by (simp add: sample_created_def prod_eq_iff)

lemma sample_stored:
  "stored sample_env (entries (sample_at (sample_files ''0'' []))) [''srv''] sample_id sample_session []"
  "session_text sample_session"
  using wpD [OF wp_create_upload [OF sample_root_clear sample_texts(1,2) sample_json sample_texts(3,4)]
      sample_creation, of "\<lambda>r u. case r of Inl _ \<Rightarrow> True | Inr s \<Rightarrow>
        stored sample_env u [''srv''] sample_id s [] \<and> session_text s"] by simp_all

theorem commit_is_what_was_acknowledged_witness:
  "\<exists>parent name. new_target (sample_files ''2'' ''two!'' @ sample_made @ sample_rest) [''srv'']
      (clean_relative ''docs/b'') parent name \<and>
      item_at (entries (snd (complete_upload sample_env [''srv''] sample_id
        (sample_at (sample_files ''2'' ''two!'' @ sample_made))))) (parent @ [name]) = Some (Regular ''two!'')"
proof -
  let ?filled = "sample_at (sample_files ''2'' ''two!'' @ sample_made)"
  have "complete_upload sample_env [''srv''] sample_id ?filled =
      (Inr \<lparr>ur_path = ''docs/b'', ur_size = 4, ur_sha = sample_sha\<rparr>,
       snd (complete_upload sample_env [''srv''] sample_id ?filled))"
    by (metis prod.collapse sample_complete)
  from commit_is_what_was_acknowledged [OF sample_root_clear sample_texts(1,2) sample_json
      sample_texts(3,4) sample_creation sample_steps_ok sample_filled this]
  show ?thesis by auto
qed


theorem complete_upload_all_or_nothing_witness:
  "entries (snd (complete_upload sample_env [''srv''] sample_id (sample_at (sample_files ''0'' [])))) =
     entries (sample_at (sample_files ''0'' []))"
proof -
  have "complete_upload sample_env [''srv''] sample_id (sample_at (sample_files ''0'' [])) =
      (Inl (Err ''upload is incomplete''), snd (complete_upload sample_env [''srv''] sample_id (sample_at (sample_files ''0'' []))))"
    unfolding sample_eval by code_simp
  from complete_upload_all_or_nothing [OF sample_stored(1) this] show ?thesis by simp
qed

section \<open>Torn sessions\<close>

text \<open>
  When the roll back of a chunk fails, the part is longer than the metadata says.  No chunk is
  lost, but \<open>GetUpload\<close> refuses the session from then on, and \<open>CancelUpload\<close> calls it first: the
  part can be neither continued nor completed nor removed.
\<close>

lemma torn_upload_stuck:
  assumes s: "stored env t root i s bs"
    and torn: "item_at t (root @ [part_name i]) = Some (Regular (concat bs @ junk))" "junk \<noteq> []"
  shows "wp (get_upload env root i) (\<lambda>r u. \<not> is_ok r \<and> u = t) t"
    "wp (cancel_upload env root i) (\<lambda>r u. \<not> is_ok r \<and> u = t) t"
    "wp (complete_upload env root i) (\<lambda>r u. \<not> is_ok r \<and> u = t) t"
    "wp (append_upload_chunk env root i offset expected src max_bytes now tmp) (\<lambda>r u. \<not> is_ok r \<and> u = t) t"
proof -
  have refused: "wp (get_upload env root i) Q t" if "\<And>e. Q (Inl e) t" for Q
    by (rule wp_get_stored [OF s]) (use that torn in simp_all)
  show "wp (get_upload env root i) (\<lambda>r u. \<not> is_ok r \<and> u = t) t" by (rule refused) simp
  show "wp (cancel_upload env root i) (\<lambda>r u. \<not> is_ok r \<and> u = t) t"
    unfolding cancel_upload_def using storedD(1) [OF s] by (auto intro!: wp_bind refused simp: io_simps)
  show "wp (complete_upload env root i) (\<lambda>r u. \<not> is_ok r \<and> u = t) t"
    unfolding complete_upload_def by (rule wp_bind, rule refused) simp
  show "wp (append_upload_chunk env root i offset expected src max_bytes now tmp) (\<lambda>r u. \<not> is_ok r \<and> u = t) t"
    unfolding append_upload_chunk_def by (rule wp_bind, rule refused) simp
qed

end
