(* ===== verification/Trash.thy ===== *)
theory Trash
  imports UploadSafety
begin

text \<open>
  \<open>src/internal/filedata/trash.go\<close>: deleted entries are moved below the hidden directory of
  the folder, with a metadata file that says where they came from, and moved back or removed.
\<close>

section \<open>Entries and layout\<close>

record trash_entry =
  te_id :: string
  te_path :: string
  te_name :: string
  te_kind :: string
  te_size :: nat
  te_deleted :: gotime

text \<open>\<open>encoding/json\<close> for the metadata.\<close>

record trash_codec =
  encode_entry :: "trash_entry \<Rightarrow> string res"
  decode_entry :: "string \<Rightarrow> trash_entry res"

definition items_name :: string where "items_name = ''items''"
definition meta_name :: string where "meta_name = ''meta''"
definition json_suffix :: string where "json_suffix = ''.json''"

definition trash_root :: "path \<Rightarrow> path" where
  "trash_root root = join_path root trash_dir_name"

definition items_dir :: "path \<Rightarrow> path" where
  "items_dir root = join_path (trash_root root) items_name"

definition meta_dir :: "path \<Rightarrow> path" where
  "meta_dir root = join_path (trash_root root) meta_name"

definition layout_dir :: "bool \<Rightarrow> path \<Rightarrow> unit io" where
  "layout_dir create p = attempt (lstat p) (\<lambda>r.
     if r = Inl (ErrSys ENOENT) \<and> create then wrapping (mkdir p) ''create trash directory: ''
     else bind_io (lift_res r) (\<lambda>k.
          guard_io (k = Directory) (Err ''trash path must be a real directory'')))"

definition trash_layout :: "path \<Rightarrow> bool \<Rightarrow> (path \<times> path) io" where
  "trash_layout root create =
     bind_io (lstat root) (\<lambda>k.
     bind_io (guard_io (k = Directory) (Err ''logical folder root must be a real directory'')) (\<lambda>_.
     bind_io (layout_dir create (trash_root root)) (\<lambda>_.
     bind_io (layout_dir create (items_dir root)) (\<lambda>_.
     bind_io (layout_dir create (meta_dir root)) (\<lambda>_.
     ret (items_dir root, meta_dir root))))))"

definition valid_trash_id :: "string \<Rightarrow> bool" where
  "valid_trash_id value \<longleftrightarrow> length value = 32 \<and> hex_decode value \<noteq> None"

definition write_trash_metadata :: "trash_codec \<Rightarrow> path \<Rightarrow> string \<Rightarrow> trash_entry \<Rightarrow> string \<Rightarrow> unit io" where
  "write_trash_metadata cd dir name e tmp =
     bind_io (lift_res (encode_entry cd e)) (\<lambda>data.
     let temp = join_path dir (''.home-ai-trash-meta-'' @ tmp) in
     bind_io (create_excl temp) (\<lambda>q.
     write_and_rename q (or_else (append_to q (data @ [CHR 0x0A])) close_handle id) temp
       (join_path dir name) id))"

definition read_trash_metadata :: "trash_codec \<Rightarrow> path \<Rightarrow> trash_entry io" where
  "read_trash_metadata cd p =
     bind_io (wrapping (read_file p) ''read trash metadata: '') (\<lambda>data.
     wrapping (lift_res (decode_entry cd data)) ''decode trash metadata: '')"

section \<open>Operations\<close>

text \<open>
  \<open>fresh\<close> is what \<open>newTrashID\<close> returns, \<open>tmp\<close> the suffix on which \<open>os.CreateTemp\<close> stops.
\<close>

definition trash_record :: "string \<Rightarrow> string \<Rightarrow> item \<Rightarrow> gotime \<Rightarrow> trash_entry" where
  "trash_record i relative k now =
     \<lparr>te_id = i, te_path = relative, te_name = path_base relative,
      te_kind = (if k = Directory then ''directory'' else ''file''),
      te_size = (if k = Directory then 0 else file_size k ''file''), te_deleted = now\<rparr>"

definition commit_trash :: "trash_codec \<Rightarrow> path \<Rightarrow> path \<Rightarrow> path \<Rightarrow> trash_entry \<Rightarrow> string \<Rightarrow> trash_entry io" where
  "commit_trash cd source items meta e tmp =
     bind_io (wrapping (rename source (join_path items (te_id e))) ''move entry to trash: '') (\<lambda>_.
     attempt (write_trash_metadata cd meta (te_id e @ json_suffix) e tmp) (\<lambda>r. case r of
       Inr _ \<Rightarrow> ret e
     | Inl err \<Rightarrow>
         attempt (rename (join_path items (te_id e)) source) (\<lambda>r'. case r' of
           Inr _ \<Rightarrow> throw err
         | Inl err' \<Rightarrow> throw (Errf ''write trash metadata: %v; rollback failed: %v''
                              [error_text err, error_text err']))))"

definition trash_file :: "trash_codec \<Rightarrow> path \<Rightarrow> string \<Rightarrow> gotime \<Rightarrow> string res \<Rightarrow> string \<Rightarrow> trash_entry io" where
  "trash_file cd root relative0 now fresh tmp =
     (let relative = clean_relative relative0 in
      bind_io (guard_io (relative \<noteq> []) (Err ''logical folder root cannot be trashed'')) (\<lambda>_.
      bind_io (resolve_existing root relative) (\<lambda>source.
      bind_io (lstat source) (\<lambda>k.
      bind_io (guard_io (\<not> is_symlink k) (Err ''symlink trash is not supported'')) (\<lambda>_.
      bind_io (trash_layout root True) (\<lambda>(items, meta).
      bind_io (lift_res fresh) (\<lambda>i.
      commit_trash cd source items meta (trash_record i relative k now) tmp)))))))"

definition trash_file_id :: "string \<times> item \<Rightarrow> string option" where
  "trash_file_id e =
     (let i = trim_suffix (fst e) json_suffix
      in if snd e = Directory \<or> \<not> has_suffix (fst e) json_suffix \<or> \<not> valid_trash_id i
         then None else Some i)"

fun read_trash :: "trash_codec \<Rightarrow> path \<Rightarrow> string list \<Rightarrow> trash_entry list io" where
  "read_trash cd dir [] = ret []"
| "read_trash cd dir (i # is) =
     attempt (read_trash_metadata cd (join_path dir (i @ json_suffix))) (\<lambda>r.
     bind_io (read_trash cd dir is) (\<lambda>es.
     ret (case r of Inl _ \<Rightarrow> es | Inr e \<Rightarrow> if te_id e = i then e # es else es)))"

definition list_trash :: "trash_codec \<Rightarrow> path \<Rightarrow> trash_entry list io" where
  "list_trash cd root = attempt (trash_layout root False) (\<lambda>r.
     if r = Inl (ErrSys ENOENT) then ret []
     else bind_io (lift_res r) (\<lambda>(_, meta).
          bind_io (wrapping (read_dir meta) ''read trash metadata: '') (\<lambda>items.
          bind_io (read_trash cd meta (List.map_filter trash_file_id items)) (\<lambda>es.
          ret (rev (sort_key te_deleted (rev es)))))))"

definition stored_trash_entry :: "trash_codec \<Rightarrow> path \<Rightarrow> string \<Rightarrow> (path \<times> path \<times> trash_entry) io" where
  "stored_trash_entry cd root i =
     bind_io (trash_layout root False) (\<lambda>(items, meta).
     bind_io (guard_io (valid_trash_id i) (Err ''invalid trash identity'')) (\<lambda>_.
     bind_io (read_trash_metadata cd (join_path meta (i @ json_suffix))) (\<lambda>e.
     ret (join_path items i, join_path meta (i @ json_suffix), e))))"

definition trash_item_ok :: "path \<Rightarrow> unit io" where
  "trash_item_ok p =
     bind_io (wrapping (lstat p) ''inspect trash item: '') (\<lambda>k.
     guard_io (\<not> is_symlink k) (Err ''trash item is a symlink''))"

definition restore_trash :: "trash_codec \<Rightarrow> path \<Rightarrow> string \<Rightarrow> trash_entry io" where
  "restore_trash cd root i =
     bind_io (stored_trash_entry cd root i) (\<lambda>(item, meta, e).
     bind_io (guard_io (te_id e = i) (Err ''trash metadata identity mismatch'')) (\<lambda>_.
     bind_io (lift_res (split_target (te_path e))) (\<lambda>(parent_relative, name).
     bind_io (wrapping (resolve_existing root parent_relative) ''restore parent unavailable: '') (\<lambda>parent.
     bind_io (must_not_exist (join_path parent name) (Err ''restore target already exists'')) (\<lambda>_.
     bind_io (trash_item_ok item) (\<lambda>_.
     bind_io (wrapping (rename item (join_path parent name)) ''restore trash item: '') (\<lambda>_.
     bind_io (wrapping (remove meta) ''remove restored trash metadata: '') (\<lambda>_.
     ret e))))))))"

definition purge_trash :: "trash_codec \<Rightarrow> path \<Rightarrow> string \<Rightarrow> trash_entry io" where
  "purge_trash cd root i =
     bind_io (stored_trash_entry cd root i) (\<lambda>(item, meta, e).
     bind_io (trash_item_ok item) (\<lambda>_.
     bind_io (wrapping (remove_all item) ''purge trash item: '') (\<lambda>_.
     bind_io (wrapping (remove meta) ''remove trash metadata: '') (\<lambda>_.
     ret e))))"

end
