(* ===== verification/TrashSafety.thy ===== *)
theory TrashSafety
  imports Trash
begin

text \<open>
  Why nothing is lost in the trash of \<open>src/internal/filedata/trash.go\<close>: one rule per operation,
  the invariant of an entry that the trash holds, and the properties.
\<close>

section \<open>The layout of the trash\<close>

definition scaffold :: "path \<Rightarrow> path set" where
  "scaffold root = {trash_root root, items_dir root, meta_dir root}"

definition laid :: "path \<Rightarrow> tree \<Rightarrow> tree \<Rightarrow> bool" where
  "laid root t u \<longleftrightarrow>
     (\<forall>q. item_at u q = item_at t q \<or>
          (q \<in> scaffold root \<and> item_at t q = None \<and> item_at u q = Some Directory))"

lemma trash_names:
  "plain trash_dir_name" "plain items_name" "plain meta_name"
  "okname trash_dir_name" "okname items_name" "okname meta_name"
  by (simp_all add: okname_def plain_def trash_dir_name_def items_name_def meta_name_def slash_def)

lemma trash_dirs [simp]:
  "trash_root root = root @ [trash_dir_name]"
  "items_dir root = root @ [trash_dir_name, items_name]"
  "meta_dir root = root @ [trash_dir_name, meta_name]"
  by (simp_all add: trash_root_def items_dir_def meta_dir_def trash_names)

lemma items_not_meta [simp]: "items_name \<noteq> meta_name" "meta_name \<noteq> items_name"
  by (simp_all add: items_name_def meta_name_def)

lemma laid_refl [simp]: "laid root t t"
  by (simp add: laid_def)

lemma laid_trans: "laid root t u \<Longrightarrow> laid root u v \<Longrightarrow> laid root t v"
  unfolding laid_def by metis

lemma laid_put: "q \<in> scaffold root \<Longrightarrow> item_at t q = None \<Longrightarrow> laid root t (put q Directory t)"
  by (auto simp: laid_def scaffold_def split: if_splits)

lemma laid_kept: "laid root t u \<Longrightarrow> item_at t q \<noteq> None \<Longrightarrow> item_at u q = item_at t q"
  unfolding laid_def by metis

lemma laid_same: "laid root t u \<Longrightarrow> same_outside (\<lambda>q. q \<in> scaffold root) t u"
  unfolding laid_def same_outside_def by metis

lemma laid_real_dir: "laid root t u \<Longrightarrow> real_dir t p \<Longrightarrow> real_dir u p"
  by (rule real_dir_cong, assumption)
    (auto simp: real_dir_def clear_path_def strict_prefix_def intro!: laid_kept)

lemma wp_layout_dir:
  assumes p: "clear_path t p" and e: "\<And>e. Q (Inl e) t"
    and k: "item_at t p = Some Directory \<Longrightarrow> Q (Inr ()) t"
    and new: "create \<Longrightarrow> item_at t p = None \<Longrightarrow> Q (Inr ()) (put p Directory t)"
  shows "wp (layout_dir create p) Q t"
  unfolding layout_dir_def
  by (intro wp_attempt wp_lstat_clear [OF p])
    (auto intro!: wp_bind wp_or_else wp_mkdir e k new p)

lemma wp_scaffold_dir:
  assumes u: "laid root t u" "\<not> create \<longrightarrow> u = t" "real_dir u p" "okname x"
    and s: "p @ [x] \<in> scaffold root"
    and e: "\<And>err v. laid root t v \<Longrightarrow> \<not> create \<longrightarrow> v = t \<Longrightarrow> Q (Inl err) v"
    and k: "\<And>v. laid root t v \<Longrightarrow> \<not> create \<longrightarrow> v = t \<Longrightarrow> laid root u v \<Longrightarrow> real_dir v (p @ [x]) \<Longrightarrow> Q (Inr ()) v"
  shows "wp (layout_dir create (p @ [x])) Q u"
proof (rule wp_layout_dir, goal_cases)
  case 4
  have "laid root u (put (p @ [x]) Directory u)" by (rule laid_put [OF s 4(2)])
  moreover from this have "real_dir (put (p @ [x]) Directory u) p" using u(3) laid_real_dir by blast
  ultimately show ?case using u(1,4) 4(1) by (intro k) (auto simp: real_dir_def intro: laid_trans)
qed (use u e k in \<open>auto simp: real_dir_def\<close>)

lemma wp_trash_layout:
  assumes root: "clear_path t root"
    and e: "\<And>err u. laid root t u \<Longrightarrow> \<not> create \<longrightarrow> u = t \<Longrightarrow> Q (Inl err) u"
    and k: "\<And>u. laid root t u \<Longrightarrow> \<not> create \<longrightarrow> u = t \<Longrightarrow> real_dir t root \<Longrightarrow>
        real_dir u (items_dir root) \<Longrightarrow> real_dir u (meta_dir root) \<Longrightarrow> Q (Inr (items_dir root, meta_dir root)) u"
  shows "wp (trash_layout root create) Q t"
proof -
  have meta: "wp (bind_io (layout_dir create (meta_dir root)) (\<lambda>_. ret (items_dir root, meta_dir root))) Q v"
    if v: "laid root t v" "\<not> create \<longrightarrow> v = t" "real_dir v (trash_root root)" "real_dir v (items_dir root)"
      and t: "real_dir t root" for v
  proof (rule wp_bind)
    show "wp (layout_dir create (meta_dir root))
        (\<lambda>r u. case r of Inl e \<Rightarrow> Q (Inl e) u | Inr x \<Rightarrow> wp (ret (items_dir root, meta_dir root)) Q u) v"
      using wp_scaffold_dir [OF v(1,2,3) trash_names(6), of "\<lambda>r u. case r of Inl e \<Rightarrow> Q (Inl e) u | Inr x \<Rightarrow> wp (ret (items_dir root, meta_dir root)) Q u"]
        e k t laid_real_dir v(4) by (simp add: scaffold_def)
  qed
  have items: "wp (bind_io (layout_dir create (items_dir root)) (\<lambda>_.
      bind_io (layout_dir create (meta_dir root)) (\<lambda>_. ret (items_dir root, meta_dir root)))) Q v"
    if v: "laid root t v" "\<not> create \<longrightarrow> v = t" "real_dir v (trash_root root)" and t: "real_dir t root" for v
  proof (rule wp_bind)
    show "wp (layout_dir create (items_dir root)) (\<lambda>r u. case r of Inl e \<Rightarrow> Q (Inl e) u
        | Inr x \<Rightarrow> wp (bind_io (layout_dir create (meta_dir root)) (\<lambda>_. ret (items_dir root, meta_dir root))) Q u) v"
      using wp_scaffold_dir [OF v(1,2,3) trash_names(5), of "\<lambda>r u. case r of Inl e \<Rightarrow> Q (Inl e) u
        | Inr x \<Rightarrow> wp (bind_io (layout_dir create (meta_dir root)) (\<lambda>_. ret (items_dir root, meta_dir root))) Q u"]
        e meta t laid_real_dir v(3) by (simp add: scaffold_def)
  qed
  have trash: "wp (bind_io (layout_dir create (trash_root root)) (\<lambda>_. bind_io (layout_dir create (items_dir root)) (\<lambda>_.
      bind_io (layout_dir create (meta_dir root)) (\<lambda>_. ret (items_dir root, meta_dir root))))) Q t"
    if t: "real_dir t root"
    unfolding trash_dirs(1)
    by (rule wp_bind, rule wp_scaffold_dir [OF laid_refl _ t trash_names(4)])
      (use e items t in \<open>auto simp: scaffold_def\<close>)
  show ?thesis
    unfolding trash_layout_def
    using e [OF laid_refl] root trash
    by (auto intro!: wp_bind wp_lstat_clear [OF root] simp: real_dir_def)
qed

section \<open>Names in the trash\<close>

definition trash_temp_name :: "string \<Rightarrow> string" where
  "trash_temp_name tmp = ''.home-ai-trash-meta-'' @ tmp"

lemma hex_decode_chars: "hex_decode s \<noteq> None \<Longrightarrow> c \<in> set s \<Longrightarrow> hex_value c \<noteq> None"
  by (induction s rule: hex_decode.induct) (auto split: option.splits)

lemma hex_value_bytes: "hex_value c \<noteq> None \<Longrightarrow> 48 \<le> byte c"
  by (auto simp: hex_value_def byte_in_def split: if_splits)

lemma trash_id_ok:
  assumes "valid_trash_id i"
  shows "okname i" "okname (i @ json_suffix)" "trash_temp_name tmp \<noteq> i @ json_suffix"
proof -
  have b: "48 \<le> byte c" if "c \<in> set i" for c
    using assms that hex_decode_chars hex_value_bytes by (auto simp: valid_trash_id_def)
  have "slash \<notin> set i" "CHR 0x00 \<notin> set i" "CHR ''.'' \<notin> set i"
    using b [of slash] b [of "CHR 0x00"] b [of "CHR ''.''"] by (auto simp: slash_def byte_def)
  moreover obtain c s where "i = c # s" using assms by (cases i) (auto simp: valid_trash_id_def)
  ultimately show "okname i" "okname (i @ json_suffix)" "trash_temp_name tmp \<noteq> i @ json_suffix"
    by (auto simp: okname_def plain_def json_suffix_def trash_temp_name_def slash_def)
qed

lemma trash_json_inject: "i @ json_suffix = j @ json_suffix \<longleftrightarrow> i = j"
  by simp

lemma not_odd: "\<not> odd_name items_name" "\<not> odd_name meta_name"
  by (simp_all add: odd_name_def items_name_def meta_name_def)

lemma resolved_not_trash:
  assumes r: "resolved t root relative p" and a: "\<not> odd_name a"
  shows "\<not> prefix (root @ trash_dir_name # a # rest) p"
proof
  assume "prefix (root @ trash_dir_name # a # rest) p"
  then obtain zs where "p = root @ trash_dir_name # (a # rest @ zs)" by (auto simp: prefix_def)
  with resolved_visible [OF r this] a show False by (simp add: hidden_name_def)
qed

lemma resolved_above_trash:
  assumes r: "resolved t root relative p" and a: "\<not> odd_name a"
    and p: "prefix p (root @ trash_dir_name # a # rest)"
  shows "prefix p (root @ [trash_dir_name])"
proof -
  have "prefix root p" using resolvedD(1) [OF r] by simp
  then obtain ys where ys: "p = root @ ys" by (auto simp: prefix_def)
  then have y: "prefix ys (trash_dir_name # a # rest)" using p by simp
  show ?thesis
  proof (cases ys)
    case (Cons y zs)
    then have "y = trash_dir_name" "prefix zs (a # rest)" using y by simp_all
    moreover have "zs = [] \<or> (\<exists>ws. zs = a # ws)" using calculation(2) by (cases zs) auto
    moreover have "\<nexists>ws. zs = a # ws"
      using resolved_not_trash [OF r a, of "[]"] calculation(1) by (auto simp: ys Cons prefix_def)
    ultimately show ?thesis by (simp add: ys Cons)
  qed (simp add: ys)
qed

lemma wp_write_trash_metadata:
  assumes dir: "real_dir t dir"
    and names: "okname (trash_temp_name tmp)" "okname name" "trash_temp_name tmp \<noteq> name"
    and e: "\<And>err u. same_outside (prefix (dir @ [trash_temp_name tmp])) t u \<Longrightarrow> Q (Inl err) u"
    and k: "\<And>u data. encode_entry cd en = Inr data \<Longrightarrow>
        same_outside (\<lambda>q. prefix (dir @ [trash_temp_name tmp]) q \<or> prefix (dir @ [name]) q) t u \<Longrightarrow>
        item_at u (dir @ [name]) = Some (Regular (data @ [CHR 0x0A])) \<Longrightarrow> Q (Inr ()) u"
  shows "wp (write_trash_metadata cd dir name en tmp) Q t"
proof (cases "encode_entry cd en")
  case (Inr js)
  let ?temp = "dir @ [trash_temp_name tmp]" and ?data = "js @ [CHR 0x0A]"
  have put: "put q (Regular c) (put q (Regular d) u) = put q (Regular c) u" for q c d u
    by (simp add: put_def)
  have body: "wp (or_else (append_to ?temp ?data) close_handle id) R (put ?temp (Regular []) t)"
    if "\<And>err v x. writes_to ?temp x t v \<Longrightarrow> R (Inl err) v"
      "\<And>v w. writes_to ?temp ?data t v \<Longrightarrow> True \<Longrightarrow> R (Inr w) v" for R
    by (auto intro!: wp_or_else wp_append_to wp_handle that(1) [OF writes_to_new] that(2) [OF writes_to_new] simp: put)
  have commit: "wp (write_and_rename ?temp (or_else (append_to ?temp ?data) close_handle id) ?temp
      (dir @ [name]) id) Q (put ?temp (Regular []) t)"
    by (rule wp_write_and_rename [where data = ?data and ok = "\<lambda>_. True", OF dir names(1,2,3) body])
      (auto intro: e k [OF Inr])
  have join: "join_path dir (''.home-ai-trash-meta-'' @ tmp) = ?temp" "join_path dir name = dir @ [name]"
    using names(1,2) by (simp_all add: trash_temp_name_def okname_def)
  show ?thesis
    unfolding write_trash_metadata_def Let_def join
    by (auto intro!: wp_bind wp_create_excl e commit simp: Inr dir names)
qed (auto simp: write_trash_metadata_def e intro!: wp_bind)

lemma plain_join: "okname x \<Longrightarrow> join_path p x = p @ [x]"
  by (simp add: okname_def)

section \<open>Moving to the trash\<close>

text \<open>\<open>trashed root source i t u\<close>: what was at \<open>source\<close> is now item \<open>i\<close> of the trash.\<close>

definition trashed :: "path \<Rightarrow> path \<Rightarrow> string \<Rightarrow> tree \<Rightarrow> tree \<Rightarrow> bool" where
  "trashed root source i t u \<longleftrightarrow>
     (\<forall>r. item_at u (items_dir root @ i # r) = item_at t (source @ r)) \<and>
     (\<forall>r. item_at u (source @ r) = None)"

definition trash_changes :: "path \<Rightarrow> path \<Rightarrow> string \<Rightarrow> string \<Rightarrow> tree \<Rightarrow> path \<Rightarrow> bool" where
  "trash_changes root source i tmp t q \<longleftrightarrow>
     (q \<in> scaffold root \<and> item_at t q = None) \<or> prefix source q \<or> prefix (items_dir root @ [i]) q \<or>
     prefix (meta_dir root @ [trash_temp_name tmp]) q \<or> prefix (meta_dir root @ [i @ json_suffix]) q"

declare trash_dirs [simp del]

lemma rename_back:
  assumes ab: "\<not> prefix a b" "\<not> prefix b a"
    and w: "\<And>q. prefix b q \<Longrightarrow> item_at w q = item_at (graft a b t) q"
  shows "item_at (graft b a w) q =
     (if prefix a q then item_at t q else if prefix b q then None else item_at w q)"
proof (cases "prefix a q")
  case True
  then obtain r where r: "q = a @ r" by (auto simp: prefix_def)
  have "item_at w (b @ r) = item_at t (a @ r)"
    using w [of "b @ r"] by (simp add: item_at_graft [OF ab])
  then show ?thesis by (simp add: r item_at_graft [OF ab(2,1)])
qed (simp add: item_at_graft [OF ab(2,1)])

definition trash_area :: "path \<Rightarrow> string \<Rightarrow> string \<Rightarrow> tree \<Rightarrow> path \<Rightarrow> bool" where
  "trash_area root i tmp t q \<longleftrightarrow>
     (q \<in> scaffold root \<and> item_at t q = None) \<or> prefix (items_dir root @ [i]) q \<or>
     prefix (meta_dir root @ [trash_temp_name tmp]) q \<or> prefix (meta_dir root @ [i @ json_suffix]) q"

lemma wp_commit_trash:
  assumes src: "resolved t0 root relative source" and t: "laid root t0 t"
    and dirs: "real_dir t (items_dir root)" "real_dir t (meta_dir root)"
    and names: "valid_trash_id (te_id en)" "okname (trash_temp_name tmp)"
    and e: "\<And>err u. same_outside (trash_area root (te_id en) tmp t0) t0 u \<Longrightarrow> Q (Inl err) u"
    and e': "\<And>err u. trashed root source (te_id en) t0 u \<Longrightarrow>
        same_outside (\<lambda>q. trash_area root (te_id en) tmp t0 q \<or> prefix source q) t0 u \<Longrightarrow> Q (Inl err) u"
    and k: "\<And>u data. trashed root source (te_id en) t0 u \<Longrightarrow> encode_entry cd en = Inr data \<Longrightarrow>
        same_outside (\<lambda>q. trash_area root (te_id en) tmp t0 q \<or> prefix source q) t0 u \<Longrightarrow>
        item_at u (meta_dir root @ [te_id en @ json_suffix]) = Some (Regular (data @ [CHR 0x0A])) \<Longrightarrow>
        real_dir u (items_dir root) \<Longrightarrow> real_dir u (meta_dir root) \<Longrightarrow> Q (Inr en) u"
  shows "wp (commit_trash cd source (items_dir root) (meta_dir root) en tmp) Q t"
proof -
  let ?i = "te_id en"
  let ?item = "items_dir root @ [?i]" and ?temp = "meta_dir root @ [trash_temp_name tmp]"
    and ?json = "meta_dir root @ [?i @ json_suffix]"
  note ids = trash_id_ok [OF names(1)]
  have item: "join_path (items_dir root) ?i = ?item" by (rule plain_join [OF ids(1)])
  have apart: "\<not> prefix ?item source" "\<not> prefix ?temp source" "\<not> prefix ?json source"
    "\<not> prefix ?item ?temp" "\<not> prefix ?item ?json" "\<not> prefix ?temp ?item" "\<not> prefix ?json ?item"
    using resolved_not_trash [OF src not_odd(1), of "[?i]"] resolved_not_trash [OF src not_odd(2)]
    by (simp_all add: trash_dirs)
  have base: "item_at t q = item_at t0 q" if "item_at t0 q \<noteq> None \<or> q \<notin> scaffold root" for q
    using t that unfolding laid_def by metis
  have out0: "same_outside (\<lambda>q. q \<in> scaffold root \<and> item_at t0 q = None) t0 t"
    using base unfolding same_outside_def by metis
  have above: "item_at t0 q = Some Directory" if "strict_prefix q source" for q
    using resolved_clear [OF src] that by (simp add: clear_path_def)
  have source_item: "item_at t0 source \<noteq> None" using resolvedD(4) [OF src] by auto
  have low: "\<not> prefix source (root @ trash_dir_name # a # rest)"
    if "\<not> prefix source ?item" "\<not> odd_name a" for a rest
  proof
    assume "prefix source (root @ trash_dir_name # a # rest)"
    then have "prefix source (root @ [trash_dir_name])" by (rule resolved_above_trash [OF src that(2)])
    moreover have "prefix (root @ [trash_dir_name]) ?item" by (simp add: trash_dirs)
    ultimately show False using that(1) prefix_order.trans by blast
  qed
  have low': "\<not> prefix source q" if "\<not> prefix source ?item"
    "prefix q (items_dir root) \<or> prefix q (meta_dir root) \<or> prefix q ?temp \<or> prefix q ?json" for q
    using low [OF that(1) not_odd(1), of "[]"] low [OF that(1) not_odd(2)] that(2) prefix_order.trans
    by (auto simp: trash_dirs)
  have below: "\<not> prefix ?item q" "\<not> prefix ?temp q" "\<not> prefix ?json q"
    if "prefix q (items_dir root) \<or> prefix q (meta_dir root)" for q
    using that by (auto simp: trash_dirs dest: prefix_order.trans prefix_length_le)
  have not_scaffold: "source @ r \<notin> scaffold root" if "\<not> prefix source ?item" for r
    using low' [OF that, of "source @ r"] by (auto simp: scaffold_def trash_dirs)
  have clear: "clear_path t source" "clear_path t ?item"
    using dirs ids by (auto intro!: clear_path_cong [OF resolved_clear [OF src]] base simp: above)
  have moved: "wp (attempt (write_trash_metadata cd (meta_dir root) (?i @ json_suffix) en tmp) (\<lambda>r. case r of
       Inr _ \<Rightarrow> ret en
     | Inl err \<Rightarrow> attempt (rename ?item source) (\<lambda>r'. case r' of
           Inr _ \<Rightarrow> throw err
         | Inl err' \<Rightarrow> throw (Errf ''write trash metadata: %v; rollback failed: %v''
                              [error_text err, error_text err'])))) Q (graft source ?item t)"
    if ns: "\<not> prefix source ?item"
  proof -
    let ?v = "graft source ?item t"
    note v = item_at_graft [OF ns apart(1)]
    have dir: "item_at ?v q = item_at t q" if "prefix q (items_dir root) \<or> prefix q (meta_dir root)" for q
      using low' [OF ns, of q] that below [of q] by (auto simp: v)
    have dirs': "real_dir ?v (meta_dir root)" "real_dir ?v (items_dir root)"
      using dirs by (auto intro: real_dir_cong dir)
    have trashed: "trashed root source ?i t0 w"
      if "\<And>q. prefix ?item q \<or> prefix source q \<Longrightarrow> item_at w q = item_at ?v q" for w
      unfolding trashed_def
    proof (intro conjI allI)
      fix r
      have "item_at w (?item @ r) = item_at t (source @ r)" using that [of "?item @ r"] by (simp add: v)
      also have "\<dots> = item_at t0 (source @ r)" using base not_scaffold [OF ns] by blast
      finally show "item_at w (items_dir root @ ?i # r) = item_at t0 (source @ r)" by simp
      have "\<not> prefix ?item (source @ r)"
        using ns apart(1) by (metis prefixI prefix_same_cases)
      then show "item_at w (source @ r) = None" using that [of "source @ r"] by (simp add: v)
    qed
    have apart': "\<not> prefix ?temp q" "\<not> prefix ?json q" if "prefix ?item q \<or> prefix source q" for q
      using that apart low' [OF ns] by (metis prefix_same_cases prefix_order.order_refl)+
    have outside: "same_outside (\<lambda>q. trash_area root ?i tmp t0 q \<or> prefix source q) t0 w"
      if "same_outside (\<lambda>q. prefix ?temp q \<or> prefix ?json q) ?v w" for w
    proof -
      have "same_outside (\<lambda>q. trash_area root ?i tmp t0 q \<or> prefix source q) t ?v"
        by (auto simp: same_outside_def v trash_area_def)
      then show ?thesis
        using same_outside_weaken [OF out0] same_outside_weaken [OF that] same_outside_trans
        by (smt (verit, del_insts) trash_area_def)
    qed
    have undo: "wp (attempt (rename ?item source) (\<lambda>r'. case r' of
           Inr _ \<Rightarrow> throw err
         | Inl err' \<Rightarrow> throw (Errf ''write trash metadata: %v; rollback failed: %v''
                              [error_text err, error_text err']))) Q w"
      if w: "same_outside (prefix ?temp) ?v w" for w err
    proof -
      have same: "item_at w q = item_at ?v q" if "\<not> prefix ?temp q" for q using w that by (rule same_outsideD)
      have "real_dir w (items_dir root)" using dirs'(2) by (rule real_dir_cong) (simp add: same below)
      then have wi: "clear_path w ?item" using ids by simp
      have up: "item_at w q = item_at t q" if q: "strict_prefix q source" for q
      proof -
        have "\<not> prefix ?item q" "\<not> prefix ?temp q" "\<not> prefix source q"
          using q apart(1,2) by (auto simp: strict_prefix_def dest: prefix_order.trans prefix_order.antisym)
        then show ?thesis using same by (simp add: v)
      qed
      have ws: "clear_path w source" using clear(1) by (rule clear_path_cong) (rule up)
      have tr: "trashed root source ?i t0 w" by (rule trashed) (simp add: same apart')
      have out: "same_outside (\<lambda>q. trash_area root ?i tmp t0 q \<or> prefix source q) t0 w"
        by (rule outside) (rule same_outside_weaken [OF w], simp)
      have undone: "same_outside (trash_area root ?i tmp t0) t0 (graft ?item source w)"
        unfolding same_outside_def
      proof (intro allI)
        fix q
        have g: "item_at (graft ?item source w) q =
            (if prefix source q then item_at t q else if prefix ?item q then None else item_at w q)"
          by (rule rename_back [OF ns apart(1)]) (simp add: same apart')
        show "trash_area root ?i tmp t0 q \<or> item_at (graft ?item source w) q = item_at t0 q"
          using out0 out by (auto simp: g trash_area_def same_outside_def)
      qed
      show ?thesis
        by (intro wp_attempt wp_rename [OF wi ws]) (use e [OF undone] e' [OF tr out] ns apart in auto)
    qed
    show ?thesis
    proof (rule wp_attempt, rule wp_write_trash_metadata [OF dirs'(1) names(2) ids(2,3)], goal_cases)
      case (1 err w)
      then show ?case using undo by simp
    next
      case (2 w data)
      have same: "item_at w q = item_at ?v q" if "\<not> prefix ?temp q" "\<not> prefix ?json q" for q
        using 2(2) that by (auto dest: same_outsideD)
      have "real_dir w (items_dir root)" using dirs'(2) by (rule real_dir_cong) (simp add: same below)
      moreover have "real_dir w (meta_dir root)" using dirs'(1) by (rule real_dir_cong) (simp add: same below)
      moreover have "trashed root source ?i t0 w" by (rule trashed) (simp add: same apart')
      ultimately show ?case using k 2 outside [OF 2(2)] by simp
    qed
  qed
  show ?thesis
    unfolding commit_trash_def item
  proof (rule wp_bind, rule wp_or_else, rule wp_rename [OF clear], goal_cases)
    case (1 err)
    have "same_outside (trash_area root ?i tmp t0) t0 t"
      by (rule same_outside_weaken [OF out0]) (simp add: trash_area_def)
    then show ?case using e by simp
  next
    case (3 k)
    then show ?case using moved by simp
  qed (use apart(1) in auto)
qed

definition trash_attempt :: "path \<Rightarrow> string res \<Rightarrow> string \<Rightarrow> tree \<Rightarrow> path \<Rightarrow> bool" where
  "trash_attempt root fresh tmp t q \<longleftrightarrow>
     (q \<in> scaffold root \<and> item_at t q = None) \<or> (\<exists>i. fresh = Inr i \<and> trash_area root i tmp t q)"

lemma wp_trash_file:
  assumes root: "clear_path t root" and tmp: "okname (trash_temp_name tmp)"
    and fresh: "\<And>i. fresh = Inr i \<Longrightarrow> valid_trash_id i"
    and e: "\<And>err u. same_outside (trash_attempt root fresh tmp t) t u \<Longrightarrow> Q (Inl err) u"
    and e': "\<And>err u i source. fresh = Inr i \<Longrightarrow> resolved t root (clean_relative relative) source \<Longrightarrow>
        trashed root source i t u \<Longrightarrow>
        same_outside (\<lambda>q. trash_area root i tmp t q \<or> prefix source q) t u \<Longrightarrow> Q (Inl err) u"
    and k: "\<And>u i source k data. fresh = Inr i \<Longrightarrow> resolved t root (clean_relative relative) source \<Longrightarrow>
        clean_relative relative \<noteq> [] \<Longrightarrow> item_at t source = Some k \<Longrightarrow> trashed root source i t u \<Longrightarrow>
        same_outside (\<lambda>q. trash_area root i tmp t q \<or> prefix source q) t u \<Longrightarrow>
        encode_entry cd (trash_record i (clean_relative relative) k now) = Inr data \<Longrightarrow>
        item_at u (meta_dir root @ [i @ json_suffix]) = Some (Regular (data @ [CHR 0x0A])) \<Longrightarrow>
        real_dir u (items_dir root) \<Longrightarrow> real_dir u (meta_dir root) \<Longrightarrow>
        Q (Inr (trash_record i (clean_relative relative) k now)) u"
  shows "wp (trash_file cd root relative now fresh tmp) Q t"
proof -
  have same: "Q (Inl err) t" for err by (rule e) simp
  have laid: "Q (Inl err) u" if "laid root t u" for err u
    using that by (intro e) (auto simp: laid_def same_outside_def trash_attempt_def)
  have commit: "wp (bind_io (lift_res fresh) (\<lambda>i.
      commit_trash cd source (items_dir root) (meta_dir root) (trash_record i (clean_relative relative) k now) tmp)) Q u"
    if s: "resolved t root (clean_relative relative) source" "item_at t source = Some k"
      and ne: "clean_relative relative \<noteq> []"
      and u: "laid root t u" "real_dir u (items_dir root)" "real_dir u (meta_dir root)" for source k u
  proof (cases fresh)
    case (Inr i)
    have id: "te_id (trash_record i (clean_relative relative) k now) = i" by (simp add: trash_record_def)
    have "wp (commit_trash cd source (items_dir root) (meta_dir root) (trash_record i (clean_relative relative) k now) tmp) Q u"
    proof (rule wp_commit_trash [OF s(1) u(1-3)], unfold id, goal_cases)
      case (3 err w)
      show ?case by (rule e, rule same_outside_weaken [OF 3]) (simp add: trash_attempt_def Inr)
    next
      case (4 err w)
      then show ?case by (rule e' [OF Inr s(1)])
    next
      case (5 w data)
      then show ?case by (intro k [OF Inr s(1) ne s(2)])
    qed (use fresh Inr tmp in auto)
    then show ?thesis using Inr by (auto intro!: wp_bind)
  qed (auto intro!: wp_bind laid u(1))
  have layout: "wp (trash_layout root True) (\<lambda>r u. case r of Inl e \<Rightarrow> Q (Inl e) u
      | Inr x \<Rightarrow> wp (case x of (items, meta) \<Rightarrow> bind_io (lift_res fresh) (\<lambda>i.
          commit_trash cd source items meta (trash_record i (clean_relative relative) k now) tmp)) Q u) t"
    if "resolved t root (clean_relative relative) source" "item_at t source = Some k"
      "clean_relative relative \<noteq> []" for source k
    by (rule wp_trash_layout [OF root]) (use that laid commit in auto)
  show ?thesis
    unfolding trash_file_def Let_def
    by (auto intro!: wp_bind wp_resolve root wp_lstat_clear layout same)
qed

section \<open>What the trash holds\<close>

text \<open>
  \<open>holds cd t root e c\<close>: the trash has the entry \<open>e\<close> with its metadata, and below its item
  every path that \<open>c\<close> defines.
\<close>

definition holds :: "trash_codec \<Rightarrow> tree \<Rightarrow> path \<Rightarrow> trash_entry \<Rightarrow> (path \<Rightarrow> item option) \<Rightarrow> bool" where
  "holds cd t root e c \<longleftrightarrow>
     valid_trash_id (te_id e) \<and> real_dir t (items_dir root) \<and> real_dir t (meta_dir root) \<and>
     (\<exists>data. item_at t (meta_dir root @ [te_id e @ json_suffix]) = Some (Regular data) \<and>
             decode_entry cd data = Inr e) \<and>
     (\<forall>r k. c r = Some k \<longrightarrow> clear_path t (items_dir root @ te_id e # r) \<and>
             item_at t (items_dir root @ te_id e # r) = Some k)"

definition of_item :: "path \<Rightarrow> string \<Rightarrow> path \<Rightarrow> bool" where
  "of_item root i q \<longleftrightarrow>
     prefix q (items_dir root) \<or> prefix q (meta_dir root) \<or> q = meta_dir root @ [i @ json_suffix] \<or>
     prefix (items_dir root @ [i]) q"

lemma real_dir_above:
  assumes "real_dir t p" and "prefix q p"
  shows "real_dir t q"
proof -
  have "set q \<subseteq> set p" using assms(2) by (rule set_mono_prefix)
  then show ?thesis
    using assms unfolding real_dir_def clear_path_def
    by (metis in_mono prefix_order.le_less prefix_order.less_le_trans)
qed

lemma holds_cong:
  assumes h: "holds cd t root e c"
    and same: "\<And>q. of_item root (te_id e) q \<Longrightarrow> clear_path t q \<Longrightarrow> item_at t q \<noteq> None \<Longrightarrow> item_at u q = item_at t q"
  shows "holds cd u root e c"
proof -
  have dirs: "real_dir t (items_dir root)" "real_dir t (meta_dir root)" and id: "valid_trash_id (te_id e)"
    using h by (simp_all add: holds_def)
  have up: "clear_path t q \<and> item_at t q = Some Directory" if "prefix q p" "real_dir t p" for p q
    using real_dir_above [OF that(2,1)] by (simp add: real_dir_def)
  have real: "real_dir u p" if "real_dir t p" "p = items_dir root \<or> p = meta_dir root" for p
    using that(1) by (rule real_dir_cong) (use that up in \<open>intro same; auto simp: of_item_def\<close>)
  have json: "clear_path t (meta_dir root @ [te_id e @ json_suffix])"
    using dirs(2) trash_id_ok(2) [OF id] by simp
  have item: "item_at u (items_dir root @ te_id e # r) = item_at t (items_dir root @ te_id e # r)"
    if "clear_path t (items_dir root @ te_id e # r)" "item_at t (items_dir root @ te_id e # r) \<noteq> None" for r
    using that by (intro same) (auto simp: of_item_def prefix_def)
  have "clear_path u (items_dir root @ te_id e # r)" if c: "clear_path t (items_dir root @ te_id e # r)" for r
    using c
  proof (rule clear_path_cong)
    fix q
    assume q: "strict_prefix q (items_dir root @ te_id e # r)"
    then have d: "item_at t q = Some Directory" using c by (simp add: clear_path_def)
    have "clear_path t q" using q c unfolding clear_path_def
      by (metis (no_types, lifting) in_mono prefix_order.less_trans set_mono_prefix strict_prefix_def)
    moreover have "of_item root (te_id e) q"
      using q by (auto simp: of_item_def prefix_Cons strict_prefix_def prefix_def append_eq_append_conv2 Cons_eq_append_conv)
    ultimately show "item_at u q = item_at t q" using same d by simp
  qed
  moreover have "item_at u (meta_dir root @ [te_id e @ json_suffix]) = item_at t (meta_dir root @ [te_id e @ json_suffix])"
    if "item_at t (meta_dir root @ [te_id e @ json_suffix]) \<noteq> None"
    using that json by (intro same) (simp_all add: of_item_def)
  ultimately show ?thesis
    using h real dirs item unfolding holds_def by (auto split: if_splits)
qed

section \<open>Taking out of the trash\<close>

lemma at_real_below_other:
  assumes p: "clear_path t p" "item_at t p = Some k" "k \<noteq> Directory" "\<not> is_symlink k" and x: "plain x"
  shows "\<exists>e. e \<noteq> ENOENT \<and> at_real False (p @ [x]) f t = Inl e"
proof (cases "CHR 0x00 \<in> set x")
  case False
  obtain q y where q: "p = q @ [y]" using p(2,3) by (cases p rule: rev_cases) auto
  then have d: "real_dir t q" "okname y" using p(1) by simp_all
  then have plains: "\<forall>z\<in>set q. plain z" "plain y"
    by (auto simp: real_dir_def clear_path_def okname_def)
  have "item_at t q' = Some Directory" if "prefix q' q" for q'
    using d that by (auto simp: real_dir_def clear_path_def strict_prefix_def)
  then have "walk 40 False t [] (q @ [y, x]) = walk 40 False t q [y, x]"
    using walk_skip [OF plains(1), of "[]" t 40 False "[y, x]"] by simp
  moreover have "walk 40 False t q [y, x] = Inl ENOTDIR"
    using p plains(2) by (auto simp: q plain_def is_symlink_iff split: item.splits)
  moreover have "\<not> (\<exists>z\<in>set (q @ [y, x]). CHR 0x00 \<in> set z)"
    using d False by (auto simp: real_dir_def clear_path_def okname_def)
  ultimately show ?thesis by (simp add: q at_real_def real_path_def)
qed (auto simp: at_real_nul)

lemma split_target_plain:
  assumes "split_target r = Inr (pr, name)"
  shows "plain name"
proof -
  have "name \<noteq> ''.''" "name \<noteq> ''..''" "name \<noteq> []" "name = path_base (clean_relative r)"
    "\<not> is_abs (clean_relative r)"
    using assms by (auto simp: split_target_Inr Let_def)
  then show ?thesis using path_base_plain by metis
qed

lemma wp_free_name:
  assumes p: "clear_path t p" "\<exists>k. item_at t p = Some k \<and> \<not> is_symlink k" and x: "plain x"
    and e: "\<And>e. Q (Inl e) t"
    and k: "real_dir t p \<Longrightarrow> okname x \<Longrightarrow> item_at t (p @ [x]) = None \<Longrightarrow> Q (Inr ()) t"
  shows "wp (must_not_exist (p @ [x]) err) Q t"
proof (cases "item_at t p = Some Directory")
  case True
  then have "real_dir t p" using p(1) by (simp add: real_dir_def)
  then show ?thesis by (intro wp_must_not_exist x e k)
next
  case False
  then obtain k where "item_at t p = Some k" "k \<noteq> Directory" "\<not> is_symlink k" using p(2) by auto
  from at_real_below_other [OF p(1) this x, of "\<lambda>q i. case i of None \<Rightarrow> Inl ENOENT | Some k \<Rightarrow> Inr k"]
  show ?thesis
    unfolding must_not_exist_def lstat_def
    by (intro wp_attempt wp_query) (auto simp: e trouble_codes_def)
qed

lemma wp_read_trash_metadata:
  assumes p: "clear_path t p" and e: "\<And>e. Q (Inl e) t"
    and k: "\<And>en. (\<And>data. item_at t p = Some (Regular data) \<Longrightarrow> decode_entry cd data = Inr en) \<Longrightarrow> Q (Inr en) t"
  shows "wp (read_trash_metadata cd p) Q t"
  unfolding read_trash_metadata_def
proof (rule wp_bind, rule wp_or_else, rule wp_read_file [OF p], goal_cases)
  case (2 c)
  show ?case
  proof (cases "decode_entry cd c")
    case (Inr en)
    then have "Q (Inr en) t" using 2 by (intro k) simp
    then show ?thesis using Inr by (auto intro!: wp_or_else)
  qed (auto intro!: wp_or_else e)
qed (simp add: e)

definition trash_entry_at :: "trash_codec \<Rightarrow> tree \<Rightarrow> path \<Rightarrow> string \<Rightarrow> trash_entry \<Rightarrow> bool" where
  "trash_entry_at cd t root i en \<longleftrightarrow>
     valid_trash_id i \<and> real_dir t root \<and> real_dir t (items_dir root) \<and> real_dir t (meta_dir root) \<and>
     (\<forall>data. item_at t (meta_dir root @ [i @ json_suffix]) = Some (Regular data) \<longrightarrow>
             decode_entry cd data = Inr en)"

lemma wp_stored_trash_entry:
  assumes root: "clear_path t root" and e: "\<And>e. Q (Inl e) t"
    and k: "\<And>en. trash_entry_at cd t root i en \<Longrightarrow>
        Q (Inr (items_dir root @ [i], meta_dir root @ [i @ json_suffix], en)) t"
  shows "wp (stored_trash_entry cd root i) Q t"
  unfolding stored_trash_entry_def
proof (rule wp_bind, rule wp_trash_layout [OF root], goal_cases)
  case (2 u)
  then have u: "u = t" by simp
  have meta: "wp (read_trash_metadata cd (meta_dir root @ [i @ json_suffix]))
      (\<lambda>r u. case r of Inl e \<Rightarrow> Q (Inl e) u
       | Inr en \<Rightarrow> wp (ret (items_dir root @ [i], meta_dir root @ [i @ json_suffix], en)) Q u) t"
    if i: "valid_trash_id i"
  proof (rule wp_read_trash_metadata)
    show "clear_path t (meta_dir root @ [i @ json_suffix])" using 2 u trash_id_ok(2) [OF i] by simp
  qed (use 2 u i e k in \<open>auto simp: trash_entry_at_def\<close>)
  show ?case
    unfolding u sum.case prod.case
    using e meta by (auto intro!: wp_bind simp: plain_join trash_id_ok)
qed (simp add: e)

lemma wp_trash_item_ok:
  assumes p: "clear_path t p" and e: "\<And>e. Q (Inl e) t"
    and k: "\<And>k. item_at t p = Some k \<Longrightarrow> \<not> is_symlink k \<Longrightarrow> Q (Inr ()) t"
  shows "wp (trash_item_ok p) Q t"
  unfolding trash_item_ok_def
  by (auto intro!: wp_bind wp_or_else wp_lstat_clear [OF p] e k)

text \<open>\<open>restorable\<close>: what \<open>RestoreTrash\<close> has checked before it moves the item.\<close>

definition restorable :: "trash_codec \<Rightarrow> tree \<Rightarrow> path \<Rightarrow> string \<Rightarrow> trash_entry \<Rightarrow> path \<Rightarrow> bool" where
  "restorable cd t root i en target \<longleftrightarrow>
     trash_entry_at cd t root i en \<and> te_id en = i \<and> item_at t target = None \<and>
     item_at t (items_dir root @ [i]) \<noteq> None \<and>
     (\<exists>pr parent name. split_target (te_path en) = Inr (pr, name) \<and> resolved t root pr parent \<and>
        real_dir t parent \<and> okname name \<and> target = parent @ [name]) \<and>
     \<not> prefix (items_dir root @ [i]) target \<and> \<not> prefix target (items_dir root @ [i])"


lemma wp_restore_trash:
  assumes root: "clear_path t root" and e: "\<And>err. Q (Inl err) t"
    and e': "\<And>err en target. restorable cd t root i en target \<Longrightarrow>
        Q (Inl err) (graft (items_dir root @ [i]) target t)"
    and k: "\<And>en target. restorable cd t root i en target \<Longrightarrow>
        Q (Inr en) (cut (meta_dir root @ [i @ json_suffix]) (graft (items_dir root @ [i]) target t))"
  shows "wp (restore_trash cd root i) Q t"
proof -
  let ?item = "items_dir root @ [i]" and ?json = "meta_dir root @ [i @ json_suffix]"
  have moved: "wp (bind_io (wrapping (rename ?item (parent @ [name])) ''restore trash item: '') (\<lambda>_.
     bind_io (wrapping (remove ?json) ''remove restored trash metadata: '') (\<lambda>_. ret en))) Q t"
    if en: "trash_entry_at cd t root i en" "te_id en = i"
      and s: "split_target (te_path en) = Inr (pr, name)" "resolved t root pr parent"
      and p: "real_dir t parent" "okname name" "item_at t (parent @ [name]) = None" for en pr name parent
  proof -
    have i: "valid_trash_id i" and d: "real_dir t (items_dir root)" "real_dir t (meta_dir root)"
      using en(1) by (simp_all add: trash_entry_at_def)
    show ?thesis
    proof (rule wp_bind, rule wp_or_else, rule wp_rename, goal_cases)
      case (5 k)
      have r: "restorable cd t root i en (parent @ [name])"
        using en s p 5 unfolding restorable_def by blast
      have "item_at (graft ?item (parent @ [name]) t) q = item_at t q" if q: "prefix q (meta_dir root)" for q
      proof -
        have "item_at t q \<noteq> None"
          using d(2) q by (auto simp: real_dir_def clear_path_def strict_prefix_def)
        moreover have "\<not> prefix ?item q"
          using q by (auto simp: trash_dirs dest: prefix_order.trans prefix_length_le)
        moreover have "\<not> prefix (parent @ [name]) q"
        proof
          assume "prefix (parent @ [name]) q"
          then have "strict_prefix (parent @ [name]) (meta_dir root) \<or> parent @ [name] = meta_dir root"
            using q by (metis prefix_order.le_less prefix_order.trans)
          then show False using d(2) p(3) by (auto simp: real_dir_def clear_path_def)
        qed
        ultimately show ?thesis using 5 by (simp add: item_at_graft)
      qed
      then have "real_dir (graft ?item (parent @ [name]) t) (meta_dir root)"
        using d(2) real_dir_cong by blast
      then show ?case
        using trash_id_ok(2) [OF i] e' [OF r] k [OF r]
        by (auto intro!: wp_bind wp_or_else wp_remove)
    qed (use d p i e in \<open>auto simp: trash_id_ok\<close>)
  qed
  have free: "wp (must_not_exist (parent @ [name]) (Err ''restore target already exists''))
     (\<lambda>r u. case r of Inl e \<Rightarrow> Q (Inl e) u | Inr _ \<Rightarrow> wp (bind_io (trash_item_ok ?item) (\<lambda>_.
     bind_io (wrapping (rename ?item (parent @ [name])) ''restore trash item: '') (\<lambda>_.
     bind_io (wrapping (remove ?json) ''remove restored trash metadata: '') (\<lambda>_. ret en)))) Q u) t"
    if en: "trash_entry_at cd t root i en" "te_id en = i"
      and s: "split_target (te_path en) = Inr (pr, name)" "resolved t root pr parent" for en pr name parent
  proof (rule wp_free_name)
    show "plain name" by (rule split_target_plain [OF s(1)])
    assume p: "real_dir t parent" "okname name" "item_at t (parent @ [name]) = None"
    have "clear_path t ?item" using en(1) by (simp add: trash_entry_at_def trash_id_ok)
    then show "case Inr () of Inl e \<Rightarrow> Q (Inl e) t | Inr _ \<Rightarrow> wp (bind_io (trash_item_ok ?item) (\<lambda>_.
       bind_io (wrapping (rename ?item (parent @ [name])) ''restore trash item: '') (\<lambda>_.
       bind_io (wrapping (remove ?json) ''remove restored trash metadata: '') (\<lambda>_. ret en)))) Q t"
      unfolding sum.case
      by (intro wp_bind [OF wp_trash_item_ok]) (use e moved [OF en s p] in simp_all)
  qed (use s(2) e in \<open>auto simp: resolved_def\<close>)
  have rest: "wp (bind_io (lift_res (split_target (te_path en))) (\<lambda>(parent_relative, name).
     bind_io (wrapping (resolve_existing root parent_relative) ''restore parent unavailable: '') (\<lambda>parent.
     bind_io (must_not_exist (join_path parent name) (Err ''restore target already exists'')) (\<lambda>_.
     bind_io (trash_item_ok ?item) (\<lambda>_.
     bind_io (wrapping (rename ?item (join_path parent name)) ''restore trash item: '') (\<lambda>_.
     bind_io (wrapping (remove ?json) ''remove restored trash metadata: '') (\<lambda>_.
     ret en))))))) Q t"
    if en: "trash_entry_at cd t root i en" "te_id en = i" for en
  proof (cases "split_target (te_path en)")
    case (Inr a)
    obtain pr name where a: "a = (pr, name)" by (cases a)
    have "plain name" using Inr split_target_plain by (simp add: a)
    then show ?thesis
      unfolding Inr a
      by (intro wp_bind) (auto intro!: wp_bind wp_or_else wp_resolve [OF root] e free [OF en Inr [unfolded a], unfolded sum.case] simp: io_simps)
  qed (auto intro!: wp_bind simp: e)
  show ?thesis
    unfolding restore_trash_def
    by (rule wp_bind, rule wp_stored_trash_entry [OF root]) (use e rest in \<open>auto intro!: wp_bind\<close>)
qed

lemma wp_remove_all:
  assumes p: "clear_path t p" "p \<noteq> []"
    and e: "\<And>err u. same_outside (prefix p) t u \<Longrightarrow> Q (Inl err) u"
    and k: "Q (Inr ()) (cut p t)"
  shows "wp (remove_all p) Q t"
  unfolding remove_all_def
proof (rule wp_sys_call, goal_cases)
  case (1 err n)
  have "item_at (fold cut (map (\<lambda>c. p @ [fst c]) cs) v) q = item_at v q" if "\<not> prefix p q"
    for cs :: "(string \<times> item) list" and v :: tree and q
  proof (induction cs arbitrary: v)
    case (Cons a cs)
    have "\<not> prefix (p @ [fst a]) q" using that by (metis append_prefixD)
    then show ?case by (simp add: Cons item_at_cut)
  qed simp
  then have "same_outside (prefix p) t (fold cut (map (\<lambda>c. p @ [fst c]) cs) t)"
    for cs :: "(string \<times> item) list"
    by (auto simp: same_outside_def)
  then show ?case by (intro e) (simp add: p(1))
next
  case 2
  then show ?case using p e [of t] k by (simp add: real_path_clear)
qed

lemma wp_purge_trash:
  assumes root: "clear_path t root"
    and e: "\<And>err u. u = t \<or> valid_trash_id i \<Longrightarrow> same_outside (prefix (items_dir root @ [i])) t u \<Longrightarrow> Q (Inl err) u"
    and k: "\<And>en. trash_entry_at cd t root i en \<Longrightarrow>
        Q (Inr en) (cut (meta_dir root @ [i @ json_suffix]) (cut (items_dir root @ [i]) t))"
  shows "wp (purge_trash cd root i) Q t"
proof -
  let ?item = "items_dir root @ [i]" and ?json = "meta_dir root @ [i @ json_suffix]"
  have same: "Q (Inl err) t" for err by (rule e) simp_all
  have purge: "wp (bind_io (trash_item_ok ?item) (\<lambda>_.
     bind_io (wrapping (remove_all ?item) ''purge trash item: '') (\<lambda>_.
     bind_io (wrapping (remove ?json) ''remove trash metadata: '') (\<lambda>_. ret en)))) Q t"
    if en: "trash_entry_at cd t root i en" for en
  proof -
    have i: "valid_trash_id i" and d: "real_dir t (items_dir root)" "real_dir t (meta_dir root)"
      using en by (simp_all add: trash_entry_at_def)
    have clear: "clear_path t ?item" using d i by (simp add: trash_id_ok)
    have below: "\<not> prefix ?item q" if "prefix q (meta_dir root)" for q
      using that by (auto simp: trash_dirs dest: prefix_order.trans prefix_length_le)
    have "real_dir (cut ?item t) (meta_dir root)"
      using d(2) by (rule real_dir_cong) (simp add: item_at_cut below)
    then have json: "clear_path (cut ?item t) ?json" using trash_id_ok(2) [OF i] by simp
    have "wp (wrapping (remove ?json) ''remove trash metadata: '')
        (\<lambda>r u. case r of Inl e \<Rightarrow> Q (Inl e) u | Inr x \<Rightarrow> wp (ret en) Q u) (cut ?item t)"
      using json k [OF en]
      by (auto intro!: wp_or_else wp_remove e simp: i same_outside_def item_at_cut)
    then show ?thesis
      by (intro wp_bind [OF wp_trash_item_ok [OF clear]] wp_bind)
        (use same e clear i in \<open>auto intro!: wp_or_else wp_remove_all wp_bind\<close>)
  qed
  show ?thesis
    unfolding purge_trash_def
    by (rule wp_bind, rule wp_stored_trash_entry [OF root]) (use same purge in auto)
qed

section \<open>Sequences of requests\<close>

text \<open>
  What may happen in a folder while an entry is in its trash: any request for files, and any
  request about another entry of the trash.
\<close>

datatype trash_step =
    Folder_request file_op
  | Trash_request string gotime "string res" string
  | Restore_request string
  | Purge_request string

fun run_trash_step :: "trash_codec \<Rightarrow> path \<Rightarrow> trash_step \<Rightarrow> unit io" where
  "run_trash_step cd root (Folder_request oper) = run_file_op root oper"
| "run_trash_step cd root (Trash_request r now fresh tmp) = ignore (trash_file cd root r now fresh tmp)"
| "run_trash_step cd root (Restore_request j) = ignore (restore_trash cd root j)"
| "run_trash_step cd root (Purge_request j) = ignore (purge_trash cd root j)"

fun other_step :: "string \<Rightarrow> trash_step \<Rightarrow> bool" where
  "other_step i (Folder_request oper) \<longleftrightarrow> file_op_ok oper"
| "other_step i (Trash_request r now fresh tmp) \<longleftrightarrow>
     okname (trash_temp_name tmp) \<and> (case fresh of Inl _ \<Rightarrow> True | Inr j \<Rightarrow> valid_trash_id j \<and> j \<noteq> i)"
| "other_step i (Restore_request j) \<longleftrightarrow> j \<noteq> i"
| "other_step i (Purge_request j) \<longleftrightarrow> j \<noteq> i"

definition run_trash_steps :: "trash_codec \<Rightarrow> path \<Rightarrow> trash_step list \<Rightarrow> disk \<Rightarrow> disk" where
  "run_trash_steps cd root steps d = fold (\<lambda>st d. snd (run_trash_step cd root st d)) steps d"

lemma holds_root: "holds cd t root e c \<Longrightarrow> clear_path t root"
  by (auto simp: holds_def real_dir_def clear_path_def trash_dirs)
    (metis append.right_neutral prefix_order.less_trans strict_prefix_def prefixI append_self_conv list.discI same_prefix_nil)

lemma of_item_area:
  assumes q: "of_item root i q" and ids: "valid_trash_id i" "valid_trash_id j" "j \<noteq> i"
  shows "\<not> prefix (items_dir root @ [j]) q" "\<not> prefix (meta_dir root @ [j @ json_suffix]) q"
    "\<not> prefix (meta_dir root @ [trash_temp_name tmp]) q"
  using q ids trash_id_ok(3) [OF ids(1), of tmp]
  by (auto simp: of_item_def trash_dirs prefix_def append_eq_append_conv2 Cons_eq_append_conv)

lemma of_item_below_trash:
  assumes "of_item root i q"
  shows "prefix q (root @ [trash_dir_name]) \<or>
    (\<exists>a rest. q = root @ trash_dir_name # a # rest \<and> \<not> odd_name a)"
proof -
  have "prefix q (root @ [trash_dir_name, a]) \<Longrightarrow> prefix q (root @ [trash_dir_name]) \<or> q = root @ [trash_dir_name, a]" for a
    by (metis append.assoc append_Cons append_Nil prefix_snoc)
  then show ?thesis
    using assms not_odd by (auto simp: of_item_def trash_dirs prefix_def)
qed

text \<open>A source that has been moved to the trash was not above it.\<close>

lemma trashed_apart:
  assumes t: "trashed root source j t u" and s: "resolved t root relative source"
    and q: "of_item root i q"
  shows "\<not> prefix source q"
proof
  assume p: "prefix source q"
  have "prefix source (root @ [trash_dir_name])"
    using of_item_below_trash [OF q] p resolved_above_trash [OF s] by (metis prefix_order.trans)
  then have "prefix source (items_dir root @ [j])"
    by (rule prefix_order.trans) (simp add: trash_dirs)
  then obtain r where "items_dir root @ [j] = source @ r" by (auto simp: prefix_def)
  then have "item_at u (items_dir root @ [j]) = None" using t by (simp add: trashed_def)
  moreover have "item_at u (items_dir root @ [j]) = item_at t source"
    using t unfolding trashed_def by (metis append.right_neutral)
  ultimately show False using resolvedD(4) [OF s] by simp
qed

lemma holds_same_outside:
  assumes h: "holds cd t root e c" and u: "same_outside A t u"
    and A: "\<And>q. of_item root (te_id e) q \<Longrightarrow> clear_path t q \<Longrightarrow> item_at t q \<noteq> None \<Longrightarrow> \<not> A q"
  shows "holds cd u root e c"
  using h by (rule holds_cong) (use u A in \<open>auto simp: same_outside_def\<close>)

lemma holds_spares:
  assumes h: "holds cd t root e c" and s: "spares root t u"
  shows "holds cd u root e c"
proof (rule holds_cong [OF h])
  fix q
  assume q: "of_item root (te_id e) q" "clear_path t q" "item_at t q \<noteq> None"
  show "item_at u q = item_at t q"
  proof (cases "strict_prefix root q")
    case True
    then obtain x rest where x: "q = root @ x # rest" by (auto elim: strict_prefixE')
    then have "hidden_name x"
      using of_item_below_trash [OF q(1)] by (auto simp: hidden_name_def)
    then show ?thesis using s q x by (simp add: spares_def)
  qed (use s in \<open>auto simp: spares_def\<close>)
qed

lemma trash_step_holds:
  assumes h: "holds cd t root e c" and st: "other_step (te_id e) st"
  shows "wp (run_trash_step cd root st) (\<lambda>_ u. holds cd u root e c) t"
proof -
  have root: "clear_path t root" using h by (rule holds_root)
  have i: "valid_trash_id (te_id e)" using h by (simp add: holds_def)
  show ?thesis
  proof (cases st)
    case (Folder_request oper)
    then show ?thesis
      using run_file_op_spares [OF root, of oper] st
      by (auto intro: holds_spares [OF h] elim!: wp_mono)
  next
    case (Trash_request r now fresh tmp)
    have area: "\<not> trash_area root j tmp t q"
      if "valid_trash_id j" "j \<noteq> te_id e" "of_item root (te_id e) q" "item_at t q \<noteq> None" for j q
      using of_item_area [OF that(3) i that(1,2)] that(4) by (simp add: trash_area_def)
    have "wp (trash_file cd root r now fresh tmp) (\<lambda>_ u. holds cd u root e c) t"
    proof (rule wp_trash_file [OF root])
      show "okname (trash_temp_name tmp)" "fresh = Inr j \<Longrightarrow> valid_trash_id j" for j
        using st Trash_request by auto
    next
      fix u
      assume "same_outside (trash_attempt root fresh tmp t) t u"
      then show "holds cd u root e c"
        by (rule holds_same_outside [OF h])
          (use st Trash_request area in \<open>auto simp: trash_attempt_def\<close>)
    next
      fix u j source
      assume a: "fresh = Inr j" "resolved t root (clean_relative r) source" "trashed root source j t u"
        "same_outside (\<lambda>q. trash_area root j tmp t q \<or> prefix source q) t u"
      show "holds cd u root e c"
        by (rule holds_same_outside [OF h a(4)])
          (use st Trash_request area a(1) trashed_apart [OF a(3,2)] in auto)
      then show "holds cd u root e c" .
    qed
    then show ?thesis by (simp add: Trash_request wp_ignore)
  next
    case (Restore_request j)
    have gone: "same_outside (\<lambda>q. prefix (items_dir root @ [j]) q \<or> prefix target q) t (graft (items_dir root @ [j]) target t)"
      if "restorable cd t root j en target" for en target
      using that by (auto simp: restorable_def same_outside_def item_at_graft)
    have okay: "holds cd (graft (items_dir root @ [j]) target t) root e c"
      "holds cd (cut (meta_dir root @ [j @ json_suffix]) (graft (items_dir root @ [j]) target t)) root e c"
      if r: "restorable cd t root j en target" for en target
    proof -
      have j: "valid_trash_id j" "j \<noteq> te_id e"
        using r st Restore_request by (auto simp: restorable_def trash_entry_at_def)
      have new: "\<not> prefix target q" if "clear_path t q" "item_at t q \<noteq> None" for q
        using r that by (auto simp: restorable_def clear_path_def strict_prefix_def)
      show one: "holds cd (graft (items_dir root @ [j]) target t) root e c"
        by (rule holds_same_outside [OF h gone [OF r]]) (use of_item_area [OF _ i j] new in auto)
      show "holds cd (cut (meta_dir root @ [j @ json_suffix]) (graft (items_dir root @ [j]) target t)) root e c"
        by (rule holds_same_outside [OF one, of "prefix (meta_dir root @ [j @ json_suffix])"])
          (use of_item_area [OF _ i j] in \<open>auto simp: same_outside_def item_at_cut\<close>)
    qed
    show ?thesis
      unfolding Restore_request run_trash_step.simps
      by (intro wp_ignore wp_restore_trash root h okay)
  next
    case (Purge_request j)
    have okay: "holds cd (cut (meta_dir root @ [j @ json_suffix]) (cut (items_dir root @ [j]) t)) root e c"
      if "trash_entry_at cd t root j en" for en
    proof -
      have j: "valid_trash_id j" "j \<noteq> te_id e"
        using that st Purge_request by (auto simp: trash_entry_at_def)
      show ?thesis
        by (rule holds_same_outside [OF h, of "\<lambda>q. prefix (meta_dir root @ [j @ json_suffix]) q \<or> prefix (items_dir root @ [j]) q"])
          (use of_item_area [OF _ i j] in \<open>auto simp: same_outside_def item_at_cut\<close>)
    qed
    have torn: "holds cd u root e c"
      if "u = t \<or> valid_trash_id j" "same_outside (prefix (items_dir root @ [j])) t u" for u
      using that st Purge_request of_item_area [OF _ i] h
      by (auto intro: holds_same_outside [OF h that(2)])
    show ?thesis
      unfolding Purge_request run_trash_step.simps
      by (intro wp_ignore wp_purge_trash root okay torn)
  qed
qed

section \<open>A disk on which no call fails\<close>

abbreviation quiet :: "tree \<Rightarrow> disk" where
  "quiet t \<equiv> \<lparr>entries = t, faults = []\<rparr>"

lemma quiet_io:
  "ret x d = (Inr x, d)" "throw e d = (Inl e, d)" "lift_res r d = (r, d)"
  "bind_io m k d = (case m d of (Inl e, d') \<Rightarrow> (Inl e, d') | (Inr x, d') \<Rightarrow> k x d')"
  "attempt m k' d = (case m d of (r, d') \<Rightarrow> k' r d')"
  "guard_io b e d = (if b then (Inr (), d) else (Inl e, d))"
  "or_else m c f d = (case m d of (Inr x, d') \<Rightarrow> (Inr x, d') | (Inl e, d') \<Rightarrow> (Inl (f e), snd (c d')))"
  by (simp_all add: ret_def throw_def lift_res_def bind_io_def attempt_def guard_io_def or_else_def
      ignore_def split: prod.splits sum.splits)

lemma quiet_call [simp]:
  "sys_call torn f (quiet t) = (case f t of
     Inl e \<Rightarrow> (Inl (ErrSys e), quiet t) | Inr (x, u) \<Rightarrow> (Inr x, quiet u))"
  by (auto simp: sys_call_def split: sum.splits)

lemma quiet_lstat [simp]:
  "clear_path t p \<Longrightarrow> lstat p (quiet t) =
     (case item_at t p of None \<Rightarrow> Inl (ErrSys ENOENT) | Some k \<Rightarrow> Inr k, quiet t)"
  by (simp add: lstat_def query_def split: option.splits)

lemma quiet_descend:
  assumes "clear_path t (cur @ ss)" and "\<exists>k. item_at t (cur @ ss) = Some k \<and> \<not> is_symlink k"
  shows "descend cur ss (quiet t) = (Inr (cur @ ss), quiet t)"
  using assms
proof (induction ss arbitrary: cur)
  case (Cons s ss)
  have up: "strict_prefix q (cur @ s # ss)" if "strict_prefix q (cur @ [s])" for q
    using that by (metis append.assoc append_Cons append_Nil prefixI prefix_order.less_le_trans)
  have s: "okname s" and clear: "clear_path t (cur @ [s])"
    using Cons.prems(1) up by (auto simp: clear_path_def)
  have "\<exists>k. item_at t (cur @ [s]) = Some k \<and> \<not> is_symlink k"
  proof (cases ss)
    case Nil
    then show ?thesis using Cons.prems(2) by simp
  next
    case (Cons a list)
    then have "item_at t (cur @ [s]) = Some Directory"
      using Cons.prems(1) by (simp add: clear_path_def strict_prefix_def)
    then show ?thesis by (simp add: is_symlink_def)
  qed
  then show ?case
    using Cons.IH [of "cur @ [s]"] Cons.prems s clear
    by (auto simp: quiet_io plain_join) (auto simp: okname_def plain_def)
qed (simp add: quiet_io)

lemma quiet_resolve:
  assumes r: "resolved t root relative p" and rel: "\<not> is_abs (clean_relative relative)"
    "\<not> path_escapes (clean_relative relative)"
  shows "resolve_existing root relative (quiet t) = (Inr p, quiet t)"
proof -
  note d = resolvedD [OF r]
  have root: "clear_path t root" "item_at t root = Some Directory" using d(2) by (simp_all add: real_dir_def)
  show ?thesis
    using d(1,3,4,5) root rel quiet_descend [of t root "user_segments relative"]
    by (auto simp: resolve_existing_def quiet_io user_segments_def Let_def)
qed


lemma restore_trash_quiet:
  assumes h: "holds cd t root e c" and k: "c [] = Some k" "\<not> is_symlink k"
    and target: "split_target (te_path e) = Inr (pr, name)" "resolved t root pr parent"
      "real_dir t parent" "okname name" "item_at t (parent @ [name]) = None"
    and pr: "\<not> is_abs (clean_relative pr)" "\<not> path_escapes (clean_relative pr)"
  shows "\<exists>d. restore_trash cd root (te_id e) (quiet t) = (Inr e, d)"
proof -
  let ?item = "items_dir root @ [te_id e]" and ?json = "meta_dir root @ [te_id e @ json_suffix]"
  have i: "valid_trash_id (te_id e)" and d: "real_dir t (items_dir root)" "real_dir t (meta_dir root)"
    using h by (simp_all add: holds_def)
  obtain data where data: "item_at t ?json = Some (Regular data)" "decode_entry cd data = Inr e"
    using h by (auto simp: holds_def)
  have item: "item_at t ?item = Some k" "clear_path t ?item" using h k(1) by (auto simp: holds_def trash_id_ok(1))
  have root: "real_dir t root" using target(2) by (rule resolvedD)
  have trash: "real_dir t (root @ [trash_dir_name])"
    using d(1) clear_path_snoc [of t "root @ [trash_dir_name]" items_name] by (auto simp: real_dir_def trash_dirs)
  have layout: "trash_layout root False (quiet t) = (Inr (items_dir root, meta_dir root), quiet t)"
    using d root trash
    by (simp add: trash_layout_def layout_dir_def quiet_io real_dir_def trash_root_def trash_names)
  have json: "clear_path t ?json" using d(2) trash_id_ok(2) [OF i] by simp
  then have read: "read_trash_metadata cd ?json (quiet t) = (Inr e, quiet t)"
    using data real_path_clear [of t ?json True]
    by (simp add: read_trash_metadata_def quiet_io read_file_def query_def at_real_def)
  have stored: "stored_trash_entry cd root (te_id e) (quiet t) = (Inr (?item, ?json, e), quiet t)"
    using layout read i by (simp add: stored_trash_entry_def quiet_io plain_join trash_id_ok)
  let ?target = "parent @ [name]" and ?moved = "graft ?item (parent @ [name]) t"
  have apart: "\<not> prefix ?item ?target" "\<not> prefix ?target q" if "item_at t q \<noteq> None" "clear_path t q" for q
  proof -
    have "\<not> prefix ?item parent"
      using resolved_not_trash [OF target(2) not_odd(1), of "[te_id e]"] by (simp add: trash_dirs)
    then show "\<not> prefix ?item ?target" using item(1) target(5) by auto
    show "\<not> prefix ?target q" using that target(5) by (auto simp: clear_path_def strict_prefix_def)
  qed
  note ap = apart [OF _ item(2)] 
  have below: "\<not> prefix ?item q" if "prefix q ?json" for q
    using that by (auto simp: trash_dirs dest: prefix_order.trans prefix_length_le)
  have kept: "item_at ?moved q = item_at t q" if q: "prefix q ?json" "item_at t q \<noteq> None" "clear_path t q" for q
    using below [OF q(1)] apart(2) [OF q(2,3)] item apart(1) [OF _ item(2)] apart(2) [OF _ item(2)]
    by (simp add: item_at_graft)
  have "clear_path ?moved ?json"
    using json
  proof (rule clear_path_cong)
    fix q
    assume "strict_prefix q ?json"
    then have q: "prefix q (meta_dir root)" by (simp add: strict_prefix_snoc)
    have "real_dir t q" using d(2) q by (rule real_dir_above)
    then show "item_at ?moved q = item_at t q" using kept [of q] q by (simp add: real_dir_def)
  qed
  moreover have "item_at ?moved ?json = Some (Regular data)" using kept [of ?json] data json by simp
  moreover have "clear_path t ?target" using target(3,4) by simp
  ultimately show ?thesis
    using stored target item k(2) apart(1) [OF _ item(2)] quiet_resolve [OF target(2) pr]
    by (auto simp: restore_trash_def quiet_io plain_join must_not_exist_def trash_item_ok_def
        rename_def with_paths_def rename_tree_def remove_def)
qed

section \<open>Properties\<close>

text \<open>What the model relies on from \<open>encoding/json\<close> for entries with valid UTF-8 names.\<close>

definition entry_json :: "trash_codec \<Rightarrow> bool" where
  "entry_json cd \<longleftrightarrow>
     (\<forall>e data. list_all valid_utf8 [te_id e, te_path e, te_name e, te_kind e] \<and>
        encode_entry cd e = Inr data \<longrightarrow> decode_entry cd (data @ [CHR 0x0A]) = Inr e)"

definition trash_content :: "tree \<Rightarrow> path \<Rightarrow> path \<Rightarrow> item option" where
  "trash_content t source r = (if clear_path t (source @ r) then item_at t (source @ r) else None)"

lemma trash_id_ascii: "valid_trash_id i \<Longrightarrow> ascii i"
proof -
  assume i: "valid_trash_id i"
  have "byte c < 128" if "hex_value c \<noteq> None" for c
    using that by (auto simp: hex_value_def byte_in_def split: if_splits)
  then show "ascii i"
    using i hex_decode_chars unfolding valid_trash_id_def ascii_def list_all_iff by blast
qed

lemma trashed_content:
  assumes t: "trashed root source i t u" and items: "real_dir u (items_dir root)" and i: "valid_trash_id i"
    and c: "trash_content t source r = Some k"
  shows "clear_path u (items_dir root @ i # r) \<and> item_at u (items_dir root @ i # r) = Some k"
proof -
  have at: "item_at u (items_dir root @ i # s) = item_at t (source @ s)" for s
    using t by (simp add: trashed_def)
  have c': "clear_path t (source @ r)" "item_at t (source @ r) = Some k"
    using c by (auto simp: trash_content_def split: if_splits)
  have "item_at u q = Some Directory" if q: "strict_prefix q (items_dir root @ i # r)" for q
  proof (cases "prefix q (items_dir root)")
    case True
    then show ?thesis by (rule real_dir_prefix [OF items])
  next
    case False
    then have "strict_prefix (items_dir root) q"
      using q by (metis prefixI prefix_same_cases strict_prefix_def)
    then obtain x s where s: "q = items_dir root @ x # s" by (auto elim: strict_prefixE')
    then have "x = i" "strict_prefix s r" using q by (auto simp: strict_prefix_def)
    then show ?thesis using at [of s] c'(1) s by (simp add: clear_path_def strict_prefix_def)
  qed
  then show ?thesis
    using at [of r] c' items trash_id_ok(1) [OF i] by (auto simp: clear_path_def real_dir_def)
qed

lemma trash_file_holds:
  assumes root: "clear_path (entries d) root" and i: "valid_trash_id i" and tmp: "okname (trash_temp_name tmp)"
    and json: "entry_json cd" and texts: "valid_utf8 (clean_relative relative)"
      "valid_utf8 (path_base (clean_relative relative))"
    and run: "trash_file cd root relative now (Inr i) tmp d = (Inr e, d1)"
  obtains source where "resolved (entries d) root (clean_relative relative) source"
    "clean_relative relative \<noteq> []" "te_path e = clean_relative relative" "te_id e = i"
    "\<forall>r. item_at (entries d1) (source @ r) = None"
    "holds cd (entries d1) root e (trash_content (entries d) source)"
proof -
  let ?Q = "\<lambda>(r :: trash_entry res) u. case r of Inl _ \<Rightarrow> True | Inr e \<Rightarrow> \<exists>source.
     resolved (entries d) root (clean_relative relative) source \<and> clean_relative relative \<noteq> [] \<and>
     te_path e = clean_relative relative \<and> te_id e = i \<and> (\<forall>r. item_at u (source @ r) = None) \<and>
     holds cd u root e (trash_content (entries d) source)"
  have "?Q (Inr e) (entries d1)"
  proof (rule wpD [where Q = ?Q, OF wp_trash_file [OF root tmp] run], goal_cases)
    case (4 u i' source k data)
    let ?e = "trash_record i (clean_relative relative) k now"
    have "list_all valid_utf8 [te_id ?e, te_path ?e, te_name ?e, te_kind ?e]"
      using texts ascii_valid_utf8 [OF trash_id_ascii [OF i]]
      by (auto simp: trash_record_def intro!: ascii_valid_utf8 simp: ascii_def byte_def)
    then have "decode_entry cd (data @ [CHR 0x0A]) = Inr ?e"
      using json 4(1,7) unfolding entry_json_def by blast
    then have "holds cd u root ?e (trash_content (entries d) source)"
      using 4 i trashed_content [of root source i "entries d" u] by (auto simp: holds_def trash_record_def)
    then show ?case using 4 by (auto simp: trash_record_def trashed_def)
  qed (use i in auto)
  then show ?thesis using that by auto
qed

lemma steady_source:
  assumes s: "resolved t root (clean_relative relative) source" "steady relative" "clean_relative relative \<noteq> []"
  obtains pr name parent where "split_target (clean_relative relative) = Inr (pr, name)"
    "source = parent @ [name]" "okname name" "parent = root @ user_segments pr"
    "\<not> is_abs (clean_relative pr)" "\<not> path_escapes (clean_relative pr)" "\<not> reserved_relative (clean_relative pr)"
proof -
  define r where "r = clean_relative relative"
  have r: "r \<noteq> []" "clean_relative r = r" using assms(2,3) by (simp_all add: steady_def Let_def r_def)
  define segs l where "segs = butlast (split_on slash r)" and "l = last (split_on slash r)"
  have split: "split_on slash r = segs @ [l]" by (simp add: segs_def l_def)
  have source: "source = root @ segs @ [l]"
    using resolvedD(1) [OF assms(1)] r split by (simp add: r_def user_segments_def)
  have names: "\<forall>x\<in>set (segs @ [l]). okname x"
    using resolved_clear [OF assms(1)] by (auto simp: source clear_path_def)
  then have plain: "\<forall>x\<in>set (segs @ [l]). plain x" by (auto simp: okname_def)
  have res: "\<not> reserved_relative r" using resolvedD(5) [OF assms(1)] r(2) by (simp add: r_def)
  have t: "split_target r = Inr (join_on slash segs, l)"
    using split_target_of_segments [of r segs l] r(2) split plain res by simp
  define pr where "pr = join_on slash segs"
  have pr: "clean_relative pr = pr"
    and more: "user_segments pr = segs \<and> \<not> is_abs pr \<and> \<not> path_escapes pr \<and> \<not> reserved_relative pr"
  proof -
    have dir: "path_dir r = (if segs = [] then ''.'' else pr)" "segs \<noteq> [] \<Longrightarrow> pr \<noteq> ''.''"
      using plain_path_parts [OF split plain] by (simp_all add: pr_def)
    then show clean: "clean_relative pr = pr"
      using assms(2) by (cases "segs = []") (auto simp: steady_def Let_def r_def pr_def clean_relative_def to_slashes_def)
    show "user_segments pr = segs \<and> \<not> is_abs pr \<and> \<not> path_escapes pr \<and> \<not> reserved_relative pr"
    proof (cases "segs = []")
      case False
      then have s: "split_on slash pr = segs" unfolding pr_def using plain plain_free by (intro split_join) auto
      obtain ps p where ps: "segs = ps @ [p]" using False by (cases segs rule: rev_cases) auto
      have parts: "pr \<noteq> []" "\<not> is_abs pr" "\<not> path_escapes pr"
        using plain_path_parts [of pr ps p] s ps plain by simp_all
      have "hd (split_on slash r) = hd (split_on slash pr)" using split s False by simp
      then have "\<not> reserved_relative pr"
        using res r parts(1) clean by (simp add: reserved_relative_def)
      then show ?thesis using parts s clean by (simp add: user_segments_def)
    qed (simp add: pr_def user_segments_def clean_relative_def to_slashes_def is_abs_def path_escapes_def has_prefix_def)
  qed
  show ?thesis
    by (rule that [of pr l "root @ segs"]) (use t source names pr more in \<open>simp_all add: r_def flip: pr_def\<close>)
qed

lemma trash_steps_hold:
  assumes "holds cd (entries d) root e c" and "\<forall>st\<in>set steps. other_step (te_id e) st"
  shows "holds cd (entries (run_trash_steps cd root steps d)) root e c"
  using assms
proof (induction steps arbitrary: d)
  case (Cons st steps)
  obtain r d' where step: "run_trash_step cd root st d = (r, d')" by fastforce
  have "holds cd (entries d') root e c"
    using wpD [OF trash_step_holds [OF Cons.prems(1)] step] Cons.prems(2) by simp
  from Cons.IH [OF this] Cons.prems(2) show ?case by (simp add: run_trash_steps_def step)
qed (simp add: run_trash_steps_def)

lemma restored_content:
  assumes h: "holds cd t root e c" and r: "restorable cd t root (te_id e) en target" and c: "c r = Some k"
  shows "en = e" "item_at (cut (meta_dir root @ [te_id e @ json_suffix])
      (graft (items_dir root @ [te_id e]) target t)) (target @ r) = Some k"
proof -
  show "en = e"
    using h r by (auto simp: holds_def restorable_def trash_entry_at_def)
  have ap: "\<not> prefix (items_dir root @ [te_id e]) target" "\<not> prefix target (items_dir root @ [te_id e])"
    and t: "item_at t target = None" and i: "valid_trash_id (te_id e)"
    and d: "real_dir t (meta_dir root)"
    using r by (auto simp: restorable_def trash_entry_at_def)
  have "\<not> prefix (meta_dir root @ [te_id e @ json_suffix]) (target @ r)"
  proof
    assume "prefix (meta_dir root @ [te_id e @ json_suffix]) (target @ r)"
    then consider "prefix (meta_dir root @ [te_id e @ json_suffix]) target"
      | "prefix target (meta_dir root @ [te_id e @ json_suffix])"
      by (metis prefixI prefix_same_cases)
    then show False
    proof cases
      case 1
      from r obtain pr parent name where p: "resolved t root pr parent" "target = parent @ [name]"
        by (auto simp: restorable_def)
      have "\<not> prefix (root @ trash_dir_name # meta_name # [te_id e @ json_suffix]) parent"
        by (rule resolved_not_trash [OF p(1) not_odd(2)])
      then have "target = meta_dir root @ [te_id e @ json_suffix]"
        using 1 p(2) by (auto simp: trash_dirs)
      then show False using t h by (auto simp: holds_def)
    next
      case 2
      have "item_at t (meta_dir root @ [te_id e @ json_suffix]) \<noteq> None" using h by (auto simp: holds_def)
      moreover have "clear_path t (meta_dir root @ [te_id e @ json_suffix])"
        using d trash_id_ok(2) [OF i] by simp
      ultimately show False using 2 t by (auto simp: clear_path_def strict_prefix_def)
    qed
  qed
  then show "item_at (cut (meta_dir root @ [te_id e @ json_suffix])
      (graft (items_dir root @ [te_id e]) target t)) (target @ r) = Some k"
    using h c by (simp add: item_at_cut item_at_graft [OF ap] holds_def)
qed


definition sample_trash :: trash_entry where
  "sample_trash = \<lparr>te_id = sample_id, te_path = ''docs'', te_name = ''docs'', te_kind = ''directory'',
     te_size = 0, te_deleted = 5\<rparr>"

definition sample_codec :: trash_codec where
  "sample_codec = \<lparr>
     encode_entry = (\<lambda>e. if e = sample_trash then Inr ''t'' else Inl (Err ''unsupported value'')),
     decode_entry = (\<lambda>s. if s = ''t'' @ [CHR 0x0A] then Inr sample_trash else Inl (Err ''invalid character''))\<rparr>"

lemma sample_entry_json: "entry_json sample_codec"
  by (simp add: entry_json_def sample_codec_def)

definition sample_trash_steps :: "trash_step list" where
  "sample_trash_steps = [Folder_request (Make_directory ''new''), Purge_request (replicate 32 CHR ''b'')]"

lemmas trash_samples = sample_trash_def sample_codec_def sample_disk_def sample_id_def sample_trash_steps_def

definition sample_held :: "(path \<times> item) list" where
  "sample_held = [([''srv'', ''.home-ai-trash'', ''meta'', sample_id @ ''.json''], Regular (''t'' @ [CHR 0x0A])),
     ([''srv'', ''.home-ai-trash'', ''meta''], Directory), ([''srv'', ''.home-ai-trash'', ''items''], Directory),
     ([''srv''], Directory), ([''srv'', ''.home-ai-trash''], Directory),
     ([''srv'', ''.home-ai-trash'', ''items'', sample_id], Directory),
     ([''srv'', ''.home-ai-trash'', ''items'', sample_id, ''a''], Regular ''one'')]"

lemma sample_trashing:
  "trash_file sample_codec [''srv''] ''docs'' 5 (Inr sample_id) ''3'' (sample_disk\<lparr>faults := []\<rparr>) =
     (Inr sample_trash, quiet sample_held)"
  unfolding trash_samples sample_held_def by code_simp

lemma sample_trash_run:
  "run_trash_steps sample_codec [''srv''] sample_trash_steps (quiet sample_held) =
     quiet (([''srv'', ''new''], Directory) # sample_held)"
  unfolding trash_samples sample_held_def by code_simp

lemma sample_restoring:
  "fst (restore_trash sample_codec [''srv''] sample_id (quiet (([''srv'', ''new''], Directory) # sample_held))) =
     Inr sample_trash"
  unfolding trash_samples sample_held_def by code_simp

lemma sample_trash_texts:
  "steady ''docs''" "valid_trash_id sample_id" "okname (trash_temp_name ''3'')"
  "valid_utf8 (clean_relative ''docs'')" "valid_utf8 (path_base (clean_relative ''docs''))"
  "\<forall>st\<in>set sample_trash_steps. other_step sample_id st"
  "user_segments (clean_relative ''docs'') = [''docs'']"
  unfolding sample_id_def sample_trash_steps_def by code_simp+


section \<open>Entries that can be neither restored nor purged\<close>

text \<open>
  \<open>RestoreTrash\<close> moves the item first and removes its metadata last, and reports a failure of
  the removal as a failure of the restore.  The entry is back then, but \<open>ListTrash\<close> still shows
  it, and restoring or purging it can only fail from then on.
\<close>

lemma ghost_entry_stuck:
  assumes root: "clear_path t root" and gone: "item_at t (items_dir root @ [i]) = None"
  shows "wp (restore_trash cd root i) (\<lambda>r u. \<not> is_ok r \<and> u = t) t"
    and "wp (purge_trash cd root i) (\<lambda>r u. \<not> is_ok r \<and> u = t) t"
proof -
  show "wp (restore_trash cd root i) (\<lambda>r u. \<not> is_ok r \<and> u = t) t"
    by (rule wp_restore_trash [OF root]) (use gone in \<open>simp_all add: restorable_def\<close>)
  show "wp (purge_trash cd root i) (\<lambda>r u. \<not> is_ok r \<and> u = t) t"
    unfolding purge_trash_def
  proof (rule wp_bind, rule wp_stored_trash_entry [OF root], goal_cases)
    case (2 en)
    then have "clear_path t (items_dir root @ [i])" by (simp add: trash_entry_at_def trash_id_ok)
    then show ?case using gone by (auto intro!: wp_bind wp_trash_item_ok)
  qed simp
qed

definition sample_ghost :: "(path \<times> item) list" where
  "sample_ghost = [([''srv'', ''.home-ai-trash'', ''meta'', sample_id @ ''.json''], Regular (''t'' @ [CHR 0x0A])),
     ([''srv'', ''.home-ai-trash'', ''meta''], Directory), ([''srv'', ''.home-ai-trash'', ''items''], Directory),
     ([''srv''], Directory), ([''srv'', ''.home-ai-trash''], Directory),
     ([''srv'', ''docs''], Directory), ([''srv'', ''docs'', ''a''], Regular ''one'')]"

lemma failed_restore_leaves_ghost:
  "restore_trash sample_codec [''srv''] sample_id
     (quiet sample_held\<lparr>faults := replicate 9 None @ [Some (IO_error, 0)]\<rparr>) =
     (Inl (Wrap ''remove restored trash metadata: '' (ErrSys EIO)), quiet sample_ghost)"
  "list_trash sample_codec [''srv''] (quiet sample_ghost) = (Inr [sample_trash], quiet sample_ghost)"
  "item_at sample_ghost (items_dir [''srv''] @ [sample_id]) = None"
  unfolding trash_samples sample_held_def sample_ghost_def by code_simp+

end
