(* ===== verification/FolderRemoval.thy ===== *)
theory FolderRemoval
  imports TrashSafety
begin

text \<open>
  \<open>src/internal/filedata/remove_folder.go\<close>, the removal of a folder that holds no data, and
  \<open>usage.go\<close>, the bytes a folder uses and has promised to uploads.
\<close>

section \<open>Blockers\<close>

record removal_blockers =
  bl_visible :: nat
  bl_uploads :: nat
  bl_items :: nat
  bl_metadata :: nat
  bl_other :: nat

definition no_blockers :: removal_blockers where
  "no_blockers = \<lparr>bl_visible = 0, bl_uploads = 0, bl_items = 0, bl_metadata = 0, bl_other = 0\<rparr>"

definition has_blockers :: "removal_blockers \<Rightarrow> bool" where
  "has_blockers b \<longleftrightarrow>
     bl_visible b > 0 \<or> bl_uploads b > 0 \<or> bl_items b > 0 \<or> bl_metadata b > 0 \<or> bl_other b > 0"

definition other_blocker :: "removal_blockers \<Rightarrow> removal_blockers" where
  "other_blocker b = b\<lparr>bl_other := bl_other b + 1\<rparr>"

abbreviation inspecting :: "'a io \<Rightarrow> 'a io" where
  "inspecting m \<equiv> wrapping m ''inspect logical folder trash: ''"

fun inspect_children ::
  "path \<Rightarrow> string list \<Rightarrow> string list \<Rightarrow> removal_blockers \<Rightarrow> (string list \<times> removal_blockers) io" where
  "inspect_children trash [] found b = ret (found, b)"
| "inspect_children trash (n # ns) found b =
     (if n \<noteq> items_name \<and> n \<noteq> meta_name then inspect_children trash ns found (other_blocker b)
      else bind_io (inspecting (lstat (join_path trash n))) (\<lambda>k.
           if k \<noteq> Directory then inspect_children trash ns (n # found) (other_blocker b)
           else bind_io (inspecting (read_dir (join_path trash n))) (\<lambda>es.
                inspect_children trash ns (n # found)
                  (if n = items_name then b\<lparr>bl_items := bl_items b + length es\<rparr>
                   else b\<lparr>bl_metadata := bl_metadata b + length es\<rparr>))))"

definition inspect_trash :: "path \<Rightarrow> removal_blockers \<Rightarrow> removal_blockers io" where
  "inspect_trash root b =
     bind_io (inspecting (lstat (trash_root root))) (\<lambda>k.
     if k \<noteq> Directory then ret (other_blocker b)
     else bind_io (inspecting (read_dir (trash_root root))) (\<lambda>es.
          bind_io (inspect_children (trash_root root) (map fst es) [] b) (\<lambda>(found, b').
          ret (if items_name \<in> set found \<and> meta_name \<in> set found then b' else other_blocker b'))))"

fun inspect_entries :: "path \<Rightarrow> string list \<Rightarrow> removal_blockers \<Rightarrow> removal_blockers io" where
  "inspect_entries root [] b = ret b"
| "inspect_entries root (n # ns) b =
     (if n = trash_dir_name then bind_io (inspect_trash root b) (inspect_entries root ns)
      else if has_prefix n upload_prefix then inspect_entries root ns (b\<lparr>bl_uploads := bl_uploads b + 1\<rparr>)
      else inspect_entries root ns (b\<lparr>bl_visible := bl_visible b + 1\<rparr>))"

definition inspect_folder :: "path \<Rightarrow> removal_blockers io" where
  "inspect_folder root =
     bind_io (wrapping (lstat root) ''inspect logical folder before deletion: '') (\<lambda>k.
     bind_io (guard_io (k = Directory)
       (Err ''refusing to delete a symlink or non-directory logical folder'')) (\<lambda>_.
     bind_io (wrapping (read_dir root) ''read logical folder before deletion: '') (\<lambda>es.
     inspect_entries root (map fst es) no_blockers)))"

definition check_empty_folder :: "path \<Rightarrow> unit io" where
  "check_empty_folder root =
     bind_io (inspect_folder root) (\<lambda>b. guard_io (\<not> has_blockers b) ErrLogicalFolderNotEmpty)"

section \<open>Removal\<close>

definition folder_error :: "string \<Rightarrow> go_error \<Rightarrow> go_error" where
  "folder_error operation e =
     (if e = ErrSys ENOTEMPTY \<or> e = ErrSys EEXIST then ErrLogicalFolderNotEmpty
      else Wrapf ''%s: '' [operation] e)"

definition remove_dir :: "path \<Rightarrow> string \<Rightarrow> unit io" where
  "remove_dir p operation = or_else (remove p) (ret ()) (folder_error operation)"

definition remove_scaffold :: "path \<Rightarrow> unit io" where
  "remove_scaffold root = attempt (lstat (trash_root root)) (\<lambda>r. case r of
     Inr k \<Rightarrow>
       bind_io (guard_io (k = Directory) ErrLogicalFolderNotEmpty) (\<lambda>_.
       bind_io (remove_dir (items_dir root) ''remove empty trash directory'') (\<lambda>_.
       bind_io (remove_dir (meta_dir root) ''remove empty trash directory'') (\<lambda>_.
       remove_dir (trash_root root) ''remove empty trash scaffold'')))
   | Inl e \<Rightarrow> if e = ErrSys ENOENT then ret () else throw (Wrap ''inspect trash scaffold: '' e))"

definition remove_empty_folder :: "path \<Rightarrow> unit io" where
  "remove_empty_folder root =
     bind_io (check_empty_folder root) (\<lambda>_.
     bind_io (remove_scaffold root) (\<lambda>_.
     remove_dir root ''remove empty logical folder''))"

section \<open>Usage\<close>

record usage =
  used_bytes :: int
  reserved_bytes :: int

text \<open>
  The entries that \<open>filepath.WalkDir\<close> visits below a directory: what directories lead to, by
  name in each directory, a directory before what it contains.
\<close>

definition reachable_below :: "tree \<Rightarrow> path \<Rightarrow> path \<Rightarrow> bool" where
  "reachable_below t root p \<longleftrightarrow>
     strict_prefix root p \<and> item_at t p \<noteq> None \<and>
     (\<forall>q\<in>set (prefixes p). strict_prefix root q \<and> q \<noteq> p \<longrightarrow> item_at t q = Some Directory)"

definition visited :: "tree \<Rightarrow> path \<Rightarrow> path list" where
  "visited t root = filter (reachable_below t root) (sorted_list_of_set (set (map fst t)))"

text \<open>The read of the root directory; the list stands for the whole walk.\<close>

definition read_root :: "path \<Rightarrow> (path \<times> item) list io" where
  "read_root root = query (\<lambda>t. at_real True root (\<lambda>q i. case i of
       None \<Rightarrow> Inl ENOENT
     | Some Directory \<Rightarrow> Inr (map (\<lambda>p. (p, the (item_at t p))) (visited t q))
     | Some _ \<Rightarrow> Inl ENOTDIR) t)"

definition upload_artifact :: "path \<Rightarrow> path \<Rightarrow> bool" where
  "upload_artifact root p \<longleftrightarrow>
     butlast p = root \<and> (has_prefix (last p) upload_prefix \<or> has_prefix (last p) ''.home-ai-upload.'')"

fun add_usage :: "path \<Rightarrow> (path \<times> item) list \<Rightarrow> int \<Rightarrow> int io" where
  "add_usage root [] used = ret used"
| "add_usage root ((p, k) # es) used =
     (case k of
        Symlink _ _ \<Rightarrow> throw (Err ''NAS usage contains a symlink'')
      | Directory \<Rightarrow> bind_io (read_dir p) (\<lambda>_. add_usage root es used)
      | Special \<Rightarrow> throw (Err ''NAS usage contains a special file'')
      | Regular c \<Rightarrow>
          if upload_artifact root p then add_usage root es used
          else bind_io (lstat p) (\<lambda>k'.
               let size = int (file_size k' ''file'') in
               if size > max_int64 - used then throw (Err ''NAS usage overflows'')
               else add_usage root es (used + size)))"

definition walk_usage :: "path \<Rightarrow> int io" where
  "walk_usage root =
     bind_io (lstat root) (\<lambda>k. case k of
       Symlink _ _ \<Rightarrow> throw (Err ''NAS usage contains a symlink'')
     | Directory \<Rightarrow> bind_io (read_root root) (\<lambda>es. add_usage root es 0)
     | Special \<Rightarrow> throw (Err ''NAS usage contains a special file'')
     | Regular c \<Rightarrow> add_usage root [(root, k)] 0)"

fun add_reserved :: "upload_session list \<Rightarrow> int \<Rightarrow> int res" where
  "add_reserved [] reserved = Inr reserved"
| "add_reserved (s # ss) reserved =
     (if us_total s < 0 \<or> us_total s > max_int64 - reserved
      then Inl (Err ''invalid upload reservation'')
      else add_reserved ss (reserved + us_total s))"

definition usage_of :: "upload_env \<Rightarrow> path \<Rightarrow> usage io" where
  "usage_of env root =
     bind_io (wrapping (walk_usage root) ''read folder usage: '') (\<lambda>used.
     bind_io (list_uploads env root) (\<lambda>ss.
     bind_io (lift_res (add_reserved ss 0)) (\<lambda>reserved.
     ret \<lparr>used_bytes = used, reserved_bytes = reserved\<rparr>)))"

section \<open>What an inspection shows\<close>

lemma wp_read_dir:
  assumes "clear_path t p" "item_at t p = Some Directory"
    and "\<And>e. Q (Inl e) t" and "Q (Inr (children t p)) t"
  shows "wp (read_dir p) Q t"
proof -
  have "real_path True t p = Inr p" using assms(1,2) by (intro real_path_clear) auto
  then show ?thesis
    unfolding read_dir_def using assms by (intro wp_query) (auto simp: at_real_def)
qed

lemma children_mem:
  assumes "item_at t (p @ [x]) \<noteq> None"
  shows "x \<in> set (map fst (children t p))"
proof -
  obtain k where "(p @ [x], k) \<in> set t"
    using assms by (auto simp: item_at_def dest: map_of_SomeD)
  then show ?thesis by (force simp: children_def)
qed

lemma wp_inspect_children:
  assumes trash: "real_dir t trash"
    and e: "\<And>e. Q (Inl e) t"
    and k: "\<And>found' b'. (\<not> has_blockers b' \<Longrightarrow> \<not> has_blockers b) \<Longrightarrow>
        (\<And>n. \<not> has_blockers b' \<Longrightarrow> n \<in> set found' - set found \<Longrightarrow> item_at t (trash @ [n]) = Some Directory) \<Longrightarrow>
        Q (Inr (found', b')) t"
  shows "wp (inspect_children trash ns found b) Q t"
  using k
proof (induction ns arbitrary: found b)
  case Nil
  show ?case unfolding inspect_children.simps wp_ret by (rule Nil) simp_all
next
  case (Cons n ns)
  show ?case
  proof (cases "n \<noteq> items_name \<and> n \<noteq> meta_name")
    case True
    have "wp (inspect_children trash ns found (other_blocker b)) Q t"
      by (rule Cons.IH) (rule Cons.prems, auto simp: other_blocker_def has_blockers_def)
    then show ?thesis using True by simp
  next
    case False
    then have n: "okname n" "plain n" using trash_names by auto
    have dirs: "clear_path t (trash @ [n])" using trash n by simp
    have other: "wp (inspect_children trash ns (n # found) (other_blocker b)) Q t"
      by (rule Cons.IH) (rule Cons.prems, auto simp: other_blocker_def has_blockers_def)
    have more: "wp (inspect_children trash ns (n # found) b') Q t"
      if "item_at t (trash @ [n]) = Some Directory" "\<not> has_blockers b' \<longrightarrow> \<not> has_blockers b" for b'
      by (rule Cons.IH) (rule Cons.prems, use that in auto)
    let ?counted = "\<lambda>es. if n = items_name then b\<lparr>bl_items := bl_items b + length es\<rparr>
        else b\<lparr>bl_metadata := bl_metadata b + length es\<rparr>"
    have counted: "\<not> has_blockers (?counted es) \<longrightarrow> \<not> has_blockers b" for es :: "(string \<times> item) list"
      by (auto simp: has_blockers_def)
    have read: "wp (bind_io (inspecting (read_dir (trash @ [n]))) (\<lambda>es.
        inspect_children trash ns (n # found) (?counted es))) Q t"
      if "item_at t (trash @ [n]) = Some Directory"
    proof (rule wp_bind, rule wp_or_else, rule wp_read_dir [OF dirs that], goal_cases)
      case 2
      show ?case unfolding sum.case by (rule more [OF that counted])
    qed (simp add: e)
    have "wp (bind_io (inspecting (lstat (trash @ [n]))) (\<lambda>k.
        if k \<noteq> Directory then inspect_children trash ns (n # found) (other_blocker b)
        else bind_io (inspecting (read_dir (trash @ [n]))) (\<lambda>es.
             inspect_children trash ns (n # found) (?counted es)))) Q t"
      by (intro wp_bind wp_or_else wp_lstat_clear [OF dirs]) (simp_all add: e other read)
    then show ?thesis
      unfolding inspect_children.simps join_path_plain [OF n(2)] if_not_P [OF False] .
  qed
qed

lemma wp_inspect_trash:
  assumes root: "real_dir t root"
    and e: "\<And>e. Q (Inl e) t"
    and k: "\<And>b'. (\<not> has_blockers b' \<Longrightarrow> \<not> has_blockers b \<and> (\<forall>p\<in>scaffold root. item_at t p = Some Directory)) \<Longrightarrow>
        Q (Inr b') t"
  shows "wp (inspect_trash root b) Q t"
proof -
  have clear: "clear_path t (trash_root root)" using root trash_names by (simp add: trash_dirs)
  have other: "Q (Inr (other_blocker b')) t" for b' by (rule k) (simp add: other_blocker_def has_blockers_def)
  let ?rest = "\<lambda>(found, b'). ret (if items_name \<in> set found \<and> meta_name \<in> set found then b' else other_blocker b')"
  have count: "wp (bind_io (inspect_children (trash_root root) ns [] b) ?rest) Q t"
    if dir: "item_at t (trash_root root) = Some Directory" for ns
  proof (rule wp_bind, rule wp_inspect_children)
    show "real_dir t (trash_root root)" using clear dir by (simp add: real_dir_def)
  qed (use dir e other in \<open>auto intro!: k simp: scaffold_def trash_dirs\<close>)
  have read: "wp (bind_io (inspecting (read_dir (trash_root root))) (\<lambda>es.
      bind_io (inspect_children (trash_root root) (map fst es) [] b) ?rest)) Q t"
    if "item_at t (trash_root root) = Some Directory"
    by (intro wp_bind [OF wp_or_else] wp_read_dir [OF clear that]) (use that in \<open>simp_all add: e count\<close>)
  show ?thesis
    unfolding inspect_trash_def
    by (intro wp_bind [OF wp_or_else] wp_lstat_clear [OF clear]) (simp_all add: e other read)
qed

lemma wp_inspect_entries:
  assumes root: "real_dir t root" and e: "\<And>e. Q (Inl e) t"
    and k: "\<And>b'. (\<not> has_blockers b' \<Longrightarrow> \<not> has_blockers b \<and> set ns \<subseteq> {trash_dir_name} \<and>
        (trash_dir_name \<in> set ns \<longrightarrow> (\<forall>p\<in>scaffold root. item_at t p = Some Directory))) \<Longrightarrow>
        Q (Inr b') t"
  shows "wp (inspect_entries root ns b) Q t"
  using k
proof (induction ns arbitrary: b)
  case (Cons n ns)
  show ?case
  proof (cases "n = trash_dir_name")
    case True
    have "wp (bind_io (inspect_trash root b) (inspect_entries root ns)) Q t"
    proof (rule wp_bind, rule wp_inspect_trash [OF root], goal_cases)
      case (2 b')
      then show ?case
        unfolding sum.case by (intro Cons.IH Cons.prems) (auto simp: True)
    qed (simp add: e)
    then show ?thesis using True by simp
  next
    case False
    have "wp (inspect_entries root ns b') Q t" if "has_blockers b'" for b'
      by (rule Cons.IH, rule Cons.prems) (use that in blast)
    then show ?thesis using False by (simp add: has_blockers_def)
  qed
qed simp

section \<open>What a removal removes\<close>

text \<open>\<open>emptied A t u\<close>: only directories in \<open>A\<close> are gone.\<close>

definition emptied :: "path set \<Rightarrow> tree \<Rightarrow> tree \<Rightarrow> bool" where
  "emptied A t u \<longleftrightarrow>
     (\<forall>q. item_at u q = item_at t q \<or> (q \<in> A \<and> item_at t q = Some Directory \<and> item_at u q = None))"

lemma emptied_refl: "emptied A t t"
  by (simp add: emptied_def)

lemma emptied_kept: "emptied A t u \<Longrightarrow> q \<notin> A \<Longrightarrow> item_at u q = item_at t q"
  unfolding emptied_def by metis

lemma item_at_none_below:
  assumes "\<forall>e\<in>set t. \<not> strict_prefix p (fst e)" and "strict_prefix p q"
  shows "item_at t q = None"
proof -
  have "map_of t q = None" using assms by (auto simp: map_of_eq_None_iff)
  moreover have "q \<noteq> []" using assms(2) by auto
  ultimately show ?thesis by (simp add: item_at_def)
qed

lemma emptied_rmdir:
  assumes t: "emptied A t u" and p: "p \<in> A" "p \<noteq> []" "item_at u p = Some Directory"
    and below: "\<forall>e\<in>set u. \<not> strict_prefix p (fst e)"
  shows "emptied A t (cut p u)"
proof -
  have "item_at (cut p u) q = (if q = p then None else item_at u q)" for q
    using item_at_none_below [OF below, of q] p(2) by (auto simp: item_at_cut strict_prefix_def)
  then show ?thesis using t p unfolding emptied_def by metis
qed

lemma wp_remove_dir:
  assumes t: "emptied A t u" and p: "p \<in> A" "clear_path u p" "item_at u p = Some Directory"
    and e: "\<And>err. Q (Inl err) u"
    and k: "\<And>v. emptied A t v \<Longrightarrow> item_at v p = None \<Longrightarrow> (\<And>q. strict_prefix p q \<Longrightarrow> item_at v q = None) \<Longrightarrow>
        (\<And>q. \<not> prefix p q \<Longrightarrow> item_at v q = item_at u q) \<Longrightarrow> Q (Inr ()) v"
  shows "wp (remove_dir p operation) Q u"
  unfolding remove_dir_def
proof (rule wp_or_else, rule wp_remove [OF p(2)], goal_cases)
  case (2 k)
  then have "\<forall>e\<in>set u. \<not> strict_prefix p (fst e)" using p(3) by simp
  then have "emptied A t (cut p u)" by (rule emptied_rmdir [OF t p(1) 2(1) p(3)])
  then show ?case using 2(1) by (auto intro!: k simp: item_at_cut strict_prefix_def)
qed (simp add: e)

lemma wp_check_empty_folder:
  assumes root: "clear_path t root" and e: "\<And>err. Q (Inl err) t"
    and k: "real_dir t root \<Longrightarrow>
        item_at t (trash_root root) = None \<or> (\<forall>p\<in>scaffold root. item_at t p = Some Directory) \<Longrightarrow> Q (Inr ()) t"
  shows "wp (check_empty_folder root) Q t"
proof -
  have inspect: "wp (bind_io (wrapping (read_dir root) ''read logical folder before deletion: '') (\<lambda>es.
      bind_io (inspect_entries root (map fst es) no_blockers) (\<lambda>b.
      guard_io (\<not> has_blockers b) ErrLogicalFolderNotEmpty))) Q t"
    if dir: "item_at t root = Some Directory"
  proof (rule wp_bind, rule wp_or_else, rule wp_read_dir [OF root dir], goal_cases)
    case 2
    have real: "real_dir t root" using root dir by (simp add: real_dir_def)
    show ?case
      unfolding sum.case
    proof (rule wp_bind, rule wp_inspect_entries [OF real], goal_cases)
      case (2 b)
      have "trash_dir_name \<in> set (map fst (children t root))" if "item_at t (trash_root root) \<noteq> None"
        using children_mem that by (simp add: trash_dirs)
      then have "item_at t (trash_root root) = None \<or> (\<forall>p\<in>scaffold root. item_at t p = Some Directory)"
        if "\<not> has_blockers b" using 2 that by blast
      then show ?case using k [OF real] e by simp
    qed (simp add: e)
  qed (simp add: e)
  have assoc: "bind_io (bind_io m f) g = bind_io m (\<lambda>x. bind_io (f x) g)" for m and f and g
    by (auto simp: fun_eq_iff bind_io_def split: prod.splits sum.splits)
  show ?thesis
    unfolding check_empty_folder_def inspect_folder_def assoc
    by (intro wp_bind [OF wp_or_else] wp_lstat_clear [OF root]) (auto simp: e inspect io_simps)
qed

lemma wp_remove_empty_folder:
  assumes root: "clear_path t root"
    and e: "\<And>err u. emptied (insert root (scaffold root)) t u \<Longrightarrow> Q (Inl err) u"
    and k: "\<And>u. emptied (insert root (scaffold root)) t u \<Longrightarrow> (\<And>q. prefix root q \<Longrightarrow> item_at u q = None) \<Longrightarrow> Q (Inr ()) u"
  shows "wp (remove_empty_folder root) Q t"
proof -
  let ?A = "insert root (scaffold root)"
  have mem: "root \<in> ?A" "items_dir root \<in> ?A" "meta_dir root \<in> ?A" "trash_root root \<in> ?A"
    by (simp_all add: scaffold_def)
  have last: "wp (remove_dir root ''remove empty logical folder'') Q u"
    if u: "emptied ?A t u" "real_dir u root" for u
  proof (rule wp_remove_dir [OF u(1) mem(1)])
    show "Q (Inr ()) v" if "emptied ?A t v" "item_at v root = None"
      "\<And>q. strict_prefix root q \<Longrightarrow> item_at v q = None" for v
      using that by (intro k) (auto simp: strict_prefix_def)
  qed (use u e in \<open>auto simp: real_dir_def\<close>)
  have kept: "real_dir v root" if "real_dir u root" "\<And>q. \<not> prefix p q \<Longrightarrow> item_at v q = item_at u q"
      "p = trash_root root \<or> p = items_dir root \<or> p = meta_dir root" for u v p
    using that(1)
  proof (rule real_dir_cong)
    fix q
    assume "prefix q root"
    then have "\<not> prefix p q"
      using that(3) by (auto simp: trash_dirs dest!: prefix_length_le)
    then show "item_at v q = item_at u q" by (rule that(2))
  qed
  have clear: "clear_path u (trash_root root)" "clear_path u (items_dir root)" "clear_path u (meta_dir root)"
    if "real_dir u root" "item_at u (trash_root root) = Some Directory" for u
    using that trash_names clear_path_snoc [of u "root @ [trash_dir_name]"] by (auto simp: trash_dirs real_dir_def)
  have trash: "wp (bind_io (remove_dir (trash_root root) ''remove empty trash scaffold'')
      (\<lambda>_. remove_dir root ''remove empty logical folder'')) Q u"
    if u: "emptied ?A t u" "real_dir u root" "item_at u (trash_root root) = Some Directory" for u
  proof (rule wp_bind, rule wp_remove_dir [OF u(1) mem(4) clear(1) [OF u(2,3)] u(3)], goal_cases)
    case (2 v)
    then show ?case using last kept [OF u(2) 2(4)] by simp
  qed (simp add: e u)
  have meta: "wp (bind_io (remove_dir (meta_dir root) ''remove empty trash directory'') (\<lambda>_.
      bind_io (remove_dir (trash_root root) ''remove empty trash scaffold'')
      (\<lambda>_. remove_dir root ''remove empty logical folder''))) Q u"
    if u: "emptied ?A t u" "real_dir u root" "item_at u (trash_root root) = Some Directory"
      "item_at u (meta_dir root) = Some Directory" for u
  proof (rule wp_bind, rule wp_remove_dir [OF u(1) mem(3) clear(3) [OF u(2,3)] u(4)], goal_cases)
    case (2 v)
    then have "item_at v (trash_root root) = Some Directory" using u(3) by (auto simp: trash_dirs)
    then show ?case using 2 trash kept [OF u(2) 2(4)] by simp
  qed (simp add: e u)
  have items: "wp (bind_io (remove_dir (items_dir root) ''remove empty trash directory'') (\<lambda>_.
      bind_io (remove_dir (meta_dir root) ''remove empty trash directory'') (\<lambda>_.
      bind_io (remove_dir (trash_root root) ''remove empty trash scaffold'')
      (\<lambda>_. remove_dir root ''remove empty logical folder'')))) Q t"
    if root': "real_dir t root" and s: "\<forall>p\<in>scaffold root. item_at t p = Some Directory"
  proof -
    have d: "item_at t (trash_root root) = Some Directory" "item_at t (items_dir root) = Some Directory"
      "item_at t (meta_dir root) = Some Directory"
      using s by (simp_all add: scaffold_def)
    show ?thesis
    proof (rule wp_bind, rule wp_remove_dir [OF emptied_refl mem(2) clear(2) [OF root' d(1)] d(2)], goal_cases)
      case (2 v)
      have "item_at v (trash_root root) = Some Directory" "item_at v (meta_dir root) = Some Directory"
        using d 2(4) by (auto simp: trash_dirs)
      then show ?case using 2 meta kept [OF root' 2(4)] by simp
    qed (simp add: e emptied_refl)
  qed
  have assoc: "bind_io (bind_io m f) g = bind_io m (\<lambda>x. bind_io (f x) g)"
    for m :: "unit io" and f g :: "unit \<Rightarrow> unit io"
    by (auto simp: fun_eq_iff bind_io_def split: prod.splits sum.splits)
  show ?thesis
    unfolding remove_empty_folder_def
  proof (rule wp_bind, rule wp_check_empty_folder [OF root], goal_cases)
    case 2
    note root' = 2(1)
    have c: "clear_path t (trash_root root)" using root' trash_names by (simp add: trash_dirs)
    have at: "bind_io (attempt m f) g = attempt m (\<lambda>r. bind_io (f r) g)"
      for m :: "item io" and f :: "item res \<Rightarrow> unit io" and g :: "unit \<Rightarrow> unit io"
      by (auto simp: fun_eq_iff bind_io_def attempt_def split: prod.splits sum.splits)
    show ?case
      unfolding sum.case remove_scaffold_def at
    proof (rule wp_attempt, rule wp_lstat_clear [OF c], goal_cases)
      case (3 k)
      then have "\<forall>p\<in>scaffold root. item_at t p = Some Directory" using 2(2) by auto
      then show ?case
        using items [OF root'] 3 e [OF emptied_refl] by (auto simp: io_simps assoc scaffold_def)
    qed (use e [OF emptied_refl] last [OF emptied_refl root'] in \<open>auto simp: io_simps trouble_codes_def\<close>)
  qed (simp add: e emptied_refl)
qed

text \<open>C32. Removing a logical folder never removes data: whichever system calls fail, nothing
  changes except that the folder and the directories of its empty trash may be gone, and if
  the removal succeeds the folder and everything below it are gone.\<close>

theorem remove_empty_folder_loses_nothing:
  assumes "clear_path (entries d) root" and "remove_empty_folder root d = (r, d')"
  shows "emptied (insert root (scaffold root)) (entries d) (entries d') \<and>
     (case r of Inl _ \<Rightarrow> True | Inr _ \<Rightarrow> \<forall>q. prefix root q \<longrightarrow> item_at (entries d') q = None)"
  by (rule wpD [OF wp_remove_empty_folder [OF assms(1)] assms(2)]) auto

definition sample_empty :: "(path \<times> item) list" where
  "sample_empty = [([''srv''], Directory), ([''srv'', ''.home-ai-trash''], Directory),
     ([''srv'', ''.home-ai-trash'', ''items''], Directory), ([''srv'', ''.home-ai-trash'', ''meta''], Directory),
     ([''media''], Directory)]"

lemma sample_empty_clear: "clear_path sample_empty [''srv'']"
  using clear_path_snoc [of sample_empty "[]" "''srv''"]
  by (simp add: real_dir_def okname_def plain_def slash_def)

lemma sample_removal: "fst (remove_empty_folder [''srv''] (quiet sample_empty)) = Inr ()"
  unfolding sample_empty_def by code_simp

theorem remove_empty_folder_loses_nothing_witness:
  "item_at (entries (snd (remove_empty_folder [''srv''] (quiet sample_empty)))) [''srv'', ''.home-ai-trash''] = None"
proof -
  let ?d = "remove_empty_folder [''srv''] (quiet sample_empty)"
  have clear: "clear_path (entries (quiet sample_empty)) [''srv'']" using sample_empty_clear by simp
  have "?d = (Inr (), snd ?d)" using sample_removal by (metis prod.collapse)
  from remove_empty_folder_loses_nothing [OF clear this] show ?thesis by simp
qed

text \<open>
  A removal that fails between the directories of the trash leaves a trash without one of
  them, which the inspection counts as a blocker: no later attempt can succeed.
\<close>

definition sample_half :: "(path \<times> item) list" where
  "sample_half = [([''srv''], Directory), ([''srv'', ''.home-ai-trash''], Directory),
     ([''srv'', ''.home-ai-trash'', ''meta''], Directory), ([''media''], Directory)]"

lemma interrupted_removal_sticks:
  "remove_empty_folder [''srv''] (quiet sample_empty\<lparr>faults := replicate 10 None @ [Some (IO_error, 0)]\<rparr>) =
     (Inl (Wrapf ''%s: '' [''remove empty trash directory''] (ErrSys EIO)), quiet sample_half)"
  "remove_empty_folder [''srv''] (quiet sample_half) = (Inl ErrLogicalFolderNotEmpty, quiet sample_half)"
  unfolding sample_empty_def sample_half_def by code_simp+

section \<open>What the usage counts\<close>

text \<open>Charged are the regular files below the folder except its upload artefacts.\<close>

definition charged :: "tree \<Rightarrow> path \<Rightarrow> path \<Rightarrow> nat" where
  "charged t root p =
     (case item_at t p of
        Some (Regular c) \<Rightarrow> if upload_artifact root p then 0 else length c
      | _ \<Rightarrow> 0)"

lemma reachable_clear:
  assumes "real_dir t root" and "reachable_below t root p" and "\<forall>x\<in>set p. okname x"
  shows "clear_path t p"
proof -
  have "item_at t q = Some Directory" if q: "strict_prefix q p" for q
  proof (cases "strict_prefix root q")
    case True
    then show ?thesis using assms(2) q by (auto simp: reachable_below_def strict_prefix_def)
  next
    case False
    have "prefix root p" using assms(2) by (simp add: reachable_below_def strict_prefix_def)
    then have "prefix q root" using False q by (metis prefix_order.le_less prefix_same_cases strict_prefix_def)
    then show ?thesis using assms(1) real_dir_prefix by blast
  qed
  then show ?thesis using assms(3) by (simp add: clear_path_def)
qed

lemma wp_add_usage:
  assumes es: "\<forall>(p, k)\<in>set es. clear_path t p \<and> item_at t p = Some k"
    and used: "0 \<le> used" "used \<le> max_int64"
    and e: "\<And>err. Q (Inl err) t"
    and k: "(\<forall>(p, k)\<in>set es. \<not> is_symlink k \<and> k \<noteq> Special) \<Longrightarrow>
        used + int (sum_list (map (charged t root \<circ> fst) es)) \<le> max_int64 \<Longrightarrow>
        Q (Inr (used + int (sum_list (map (charged t root \<circ> fst) es)))) t"
  shows "wp (add_usage root es used) Q t"
  using es used k
proof (induction es arbitrary: used)
  case (Cons a es)
  obtain p k where a: "a = (p, k)" by (cases a)
  have p: "clear_path t p" "item_at t p = Some k" and es: "\<forall>(p, k)\<in>set es. clear_path t p \<and> item_at t p = Some k"
    using Cons.prems(1) by (auto simp: a)
  have rest: "wp (add_usage root es (used + int n)) Q t"
    if "charged t root p = n" "used + int n \<le> max_int64" "\<not> is_symlink k" "k \<noteq> Special" for n
    using Cons.prems(2) that Cons.prems(4) by (intro Cons.IH [OF es]) (auto simp: a algebra_simps)
  show ?case
  proof (cases k)
    case (Regular c)
    show ?thesis
    proof (cases "upload_artifact root p")
      case True
      then show ?thesis using rest [of 0] Cons.prems(3) p Regular by (simp add: a charged_def is_symlink_def)
    next
      case False
      have "wp (add_usage root es (used + int (length c))) Q t" if "int (length c) \<le> max_int64 - used"
        using rest [of "length c"] that p Regular False by (simp add: charged_def is_symlink_def)
      then show ?thesis
        using False Regular p e by (auto intro!: wp_bind wp_lstat_clear [OF p(1)] simp: a Let_def file_size_def)
    qed
  next
    case Directory
    then have "wp (add_usage root es used) Q t"
      using rest [of 0] Cons.prems(3) p by (simp add: charged_def is_symlink_def)
    then show ?thesis
      using Directory p e by (auto intro!: wp_bind wp_read_dir [OF p(1)] simp: a)
  qed (simp_all add: a e)
qed simp

definition well_named :: "tree \<Rightarrow> bool" where
  "well_named t \<longleftrightarrow> (\<forall>e\<in>set t. \<forall>x\<in>set (fst e). okname x)"

lemma visited_set: "set (visited t root) = {p. reachable_below t root p}" "distinct (visited t root)"
proof -
  have "p \<in> fst ` set t" if "reachable_below t root p" for p
  proof -
    from that have "map_of t p \<noteq> None" by (auto simp: reachable_below_def item_at_def split: if_splits)
    then show ?thesis by (simp add: map_of_eq_None_iff)
  qed
  then show "set (visited t root) = {p. reachable_below t root p}" by (auto simp: visited_def)
  show "distinct (visited t root)" by (simp add: visited_def)
qed

lemma visited_ok:
  assumes "well_named t" and "p \<in> set (visited t root)"
  shows "\<forall>x\<in>set p. okname x"
  using assms by (auto simp: visited_def well_named_def)

lemma wp_read_root:
  assumes "clear_path t p" "item_at t p = Some Directory"
    and "\<And>e. Q (Inl e) t" and "Q (Inr (map (\<lambda>q. (q, the (item_at t q))) (visited t p))) t"
  shows "wp (read_root p) Q t"
proof -
  have "real_path True t p = Inr p" using assms(1,2) by (intro real_path_clear) auto
  then show ?thesis
    unfolding read_root_def using assms by (intro wp_query) (auto simp: at_real_def)
qed

definition plain_files :: "tree \<Rightarrow> path \<Rightarrow> bool" where
  "plain_files t root \<longleftrightarrow>
     (\<forall>p. reachable_below t root p \<longrightarrow> item_at t p = Some Directory \<or> (\<exists>c. item_at t p = Some (Regular c)))"

lemma wp_walk_usage:
  assumes root: "clear_path t root" and names: "well_named t"
    and e: "\<And>err. Q (Inl err) t"
    and single: "\<And>n. item_at t root \<noteq> Some Directory \<Longrightarrow> Q (Inr n) t"
    and k: "\<And>n. real_dir t root \<Longrightarrow> plain_files t root \<Longrightarrow>
        n = int (\<Sum>p | reachable_below t root p. charged t root p) \<Longrightarrow> n \<le> max_int64 \<Longrightarrow> Q (Inr n) t"
  shows "wp (walk_usage root) Q t"
proof -
  let ?es = "map (\<lambda>p. (p, the (item_at t p))) (visited t root)"
  have walk: "wp (bind_io (read_root root) (\<lambda>es. add_usage root es 0)) Q t"
    if dir: "item_at t root = Some Directory"
  proof (rule wp_bind, rule wp_read_root [OF root dir], goal_cases)
    case 2
    have real: "real_dir t root" using root dir by (simp add: real_dir_def)
    have es: "\<forall>(p, k)\<in>set ?es. clear_path t p \<and> item_at t p = Some k"
      using reachable_clear [OF real _ visited_ok [OF names]] visited_set(1)
      by (auto simp: reachable_below_def)
    show ?case
      unfolding sum.case
    proof (rule wp_add_usage [OF es], goal_cases)
      case 4
      have "int (sum_list (map (charged t root \<circ> fst) ?es)) = int (\<Sum>p | reachable_below t root p. charged t root p)"
        using visited_set by (simp add: sum_list_distinct_conv_sum_set o_def)
      moreover have "plain_files t root"
        unfolding plain_files_def
      proof (intro allI impI)
        fix p
        assume p: "reachable_below t root p"
        then have "(p, the (item_at t p)) \<in> set ?es" using visited_set(1) by auto
        then have "\<not> is_symlink (the (item_at t p))" "the (item_at t p) \<noteq> Special" using 4(1) by auto
        moreover obtain k where "item_at t p = Some k" using p by (auto simp: reachable_below_def)
        ultimately show "item_at t p = Some Directory \<or> (\<exists>c. item_at t p = Some (Regular c))"
          by (cases k) (auto simp: is_symlink_def)
      qed
      ultimately show ?case using 4(2) k [OF real] by simp
    qed (simp_all add: max_int64_def e)
  qed (simp add: e)
  have reg: "wp (add_usage root [(root, Regular c)] 0) Q t" if "item_at t root = Some (Regular c)" for c
    by (rule wp_add_usage) (use that root e single in \<open>auto simp: max_int64_def\<close>)
  show ?thesis
    unfolding walk_usage_def
    by (rule wp_bind, rule wp_lstat_clear [OF root]) (use e walk reg in \<open>auto split: item.splits\<close>)
qed

lemma wp_sound_uploads:
  assumes root: "clear_path t root"
    and k: "\<And>ss. \<forall>s\<in>set ss. sound_session env t root (us_id s) s \<Longrightarrow> Q (Inr ss) t"
  shows "wp (get_uploads env root is) Q t"
  using k
proof (induction "is" arbitrary: Q)
  case (Cons i "is")
  have rest: "wp (bind_io (get_uploads env root is) (\<lambda>ss. ret (case r of Inr s \<Rightarrow> s # ss | Inl _ \<Rightarrow> ss))) Q t"
    if "case r of Inr s \<Rightarrow> sound_session env t root (us_id s) s | Inl _ \<Rightarrow> True" for r
    by (rule wp_bind, rule Cons.IH) (use that in \<open>auto intro!: Cons.prems split: sum.splits\<close>)
  have "us_id s = i" if "sound_session env t root i s" for s
    using that by (simp add: sound_session_def session_checks_def)
  then show ?case
    unfolding get_uploads.simps
    by (intro wp_attempt wp_get_upload [OF root] rest) auto
qed simp

lemma wp_list_sound:
  assumes root: "clear_path t root" and e: "\<And>e. Q (Inl e) t"
    and k: "\<And>ss. item_at t root = Some Directory \<Longrightarrow> \<forall>s\<in>set ss. sound_session env t root (us_id s) s \<Longrightarrow> Q (Inr ss) t"
  shows "wp (list_uploads env root) Q t"
proof -
  have sessions: "wp (bind_io (get_uploads env root is) (\<lambda>ss. ret (rev (sort_key us_updated (rev ss))))) Q t"
    if "item_at t root = Some Directory" for "is"
    by (rule wp_bind, rule wp_sound_uploads [OF root]) (use that in \<open>auto intro!: k\<close>)
  have "wp (bind_io (wrapping (read_dir root) ''read upload sessions: '') (\<lambda>items.
     bind_io (get_uploads env root (List.map_filter session_file_id items)) (\<lambda>ss.
     ret (rev (sort_key us_updated (rev ss)))))) Q t" if dir: "item_at t root = Some Directory"
    by (rule wp_bind, rule wp_or_else, rule wp_read_dir [OF root dir]) (use e sessions dir in auto)
  then show ?thesis
    unfolding list_uploads_def
    by (intro wp_bind wp_lstat_clear [OF root]) (auto simp: e io_simps)
qed

lemma add_reserved_Inr:
  "add_reserved ss n = Inr m \<Longrightarrow> 0 \<le> n \<Longrightarrow> n \<le> max_int64 \<Longrightarrow>
   m = n + (\<Sum>s\<leftarrow>ss. us_total s) \<and> 0 \<le> m \<and> m \<le> max_int64"
  by (induction ss arbitrary: n) (fastforce split: if_splits)+


lemma sample_usage:
  "fst (usage_of sample_env [''srv''] (sample_at (sample_files ''0'' []))) =
     Inr \<lparr>used_bytes = 3, reserved_bytes = 4\<rparr>"
  unfolding sample_eval by code_simp

lemma sample_names: "well_named (entries (sample_at (sample_files ''0'' [])))"
  unfolding sample_eval by code_simp


text \<open>
  A session whose files cannot be read for a moment is left out by \<open>ListUploads\<close>, and with it
  its reservation: the usage is then too small by the whole upload, without an error.
\<close>

lemma unread_session_not_reserved:
  "\<exists>n. fst (usage_of sample_env [''srv''] (sample_at (sample_files ''0'' [])
     \<lparr>faults := replicate n None @ [Some (IO_error, 0)]\<rparr>)) = Inr \<lparr>used_bytes = 3, reserved_bytes = 0\<rparr>"
  by (rule exI [of _ 7]) (unfold sample_eval, code_simp)

end
