(* ===== verification/Capacity.thy ===== *)
theory Capacity
  imports NasTables FolderRemoval "HOL-Library.Word"
begin

text \<open>
  How much may be written: the capacity functions of \<open>src/internal/api/files.go\<close>,
  \<open>nas_management.go\<close>, \<open>pool_reservations.go\<close> and \<open>smb_capacity.go\<close>, and the limit of the helper in
  \<open>src/cmd/home-ai-core-updater/quota_ops.go\<close>.  Byte counts of the kernel are 64-bit words, quotas
  and usage are 64-bit signed integers.
\<close>

section \<open>Percentages\<close>

definition capacity_percent :: "64 word \<Rightarrow> int \<Rightarrow> 64 word" where
  "capacity_percent whole percent =
     (if whole = 0 \<or> percent \<le> 0 then 0
      else let value = word_of_int percent
           in (whole div 100) * value + ((whole mod 100) * value) div 100)"

definition percent_bytes :: "64 word \<Rightarrow> int \<Rightarrow> 64 word" where
  "percent_bytes whole percent =
     (if whole = 0 \<or> percent \<le> 0 then 0
      else let value = word_of_int percent
           in (whole div 100) * value + ((whole mod 100) * value) div 100)"

text \<open>The largest limit, in units of 1024 bytes, that keeps the reserve of a pool free.\<close>

definition safe_hard_limit :: "64 word \<Rightarrow> 64 word \<Rightarrow> 64 word \<Rightarrow> int \<Rightarrow> 64 word res" where
  "safe_hard_limit whole free used percent =
     (if percent < 0 \<or> percent > 50 then Inl (Err ''reserve percent must be between 0 and 50'')
      else if percent = 0 then Inr 0
      else let reserve = percent_bytes whole percent;
               writable = (if free > reserve then free - reserve else 0) div 1024 in
        if - 1 - used < writable then Inl (Err ''quota hard limit overflows'')
        else let limit = used + writable in Inr (if limit = 0 then 1 else limit))"

section \<open>Pools\<close>

record capacity =
  cap_total :: "64 word"
  cap_free :: "64 word"

definition pool_state :: "pool_row \<Rightarrow> capacity \<Rightarrow> string" where
  "pool_state p c =
     (if pool_reserve p > 0 \<and> cap_free c \<le> capacity_percent (cap_total c) (pool_reserve p) then ''reserve''
      else if pool_warning p > 0 \<and> cap_free c \<le> capacity_percent (cap_total c) (pool_warning p) then ''warning''
      else ''ok'')"

text \<open>\<open>None\<close> is the answer that the reserve is reached.\<close>

definition pool_write_allowance :: "capacity \<Rightarrow> int \<Rightarrow> int option" where
  "pool_write_allowance c reserve_percent =
     (let reserve = capacity_percent (cap_total c) reserve_percent in
      if cap_free c \<le> reserve then None
      else let available = cap_free c - reserve
           in Some (if available > word_of_int max_int64 then max_int64 else sint available))"

section \<open>Usage and reservations\<close>

text \<open>
  What the helper answers: the usage of a folder counted by \<open>du\<close>, and the limit and the usage of a
  quota project.  \<open>hq_root\<close>, \<open>hq_folder\<close> are the arguments of the calls.
\<close>

record quota_status =
  qs_limit :: "64 word"
  qs_used :: "64 word"

record quota_helper =
  hq_usage :: "string \<Rightarrow> string \<Rightarrow> usage res"
  hq_project :: "string \<Rightarrow> 32 word \<Rightarrow> quota_status res"

definition nf_id :: "nas_folder \<Rightarrow> string" where "nf_id f = fol_id (nf_row f)"
definition nf_root :: "nas_folder \<Rightarrow> string" where "nf_root f = pool_root (nf_pool f)"
definition nf_relative :: "nas_folder \<Rightarrow> string" where "nf_relative f = fol_relative (nf_row f)"
definition nf_private :: "nas_folder \<Rightarrow> bool" where "nf_private f \<longleftrightarrow> fol_kind (nf_row f) = ''private''"

definition project_status :: "quota_helper \<Rightarrow> nas_folder \<Rightarrow> quota_status res" where
  "project_status h f = hq_project h (nf_root f) (of_nat (nf_project f) + 1000000)"

definition kernel_limit :: "nas_folder \<Rightarrow> 64 word" where
  "kernel_limit f = word_of_int (fol_hard (nf_row f) div 1024) * 1024"

definition folder_usage :: "upload_env \<Rightarrow> quota_helper \<Rightarrow> nas_folder \<Rightarrow> usage io" where
  "folder_usage env h f =
     attempt (bind_io (folder_root (nf_root f) (nf_relative f)) (usage_of env)) (\<lambda>r. case r of
       Inr u \<Rightarrow> ret u
     | Inl _ \<Rightarrow> lift_res (hq_usage h (nf_root f) (nf_relative f)))"

fun add_private_usage :: "upload_env \<Rightarrow> quota_helper \<Rightarrow> string \<Rightarrow> nas_folder list \<Rightarrow> usage \<Rightarrow> usage io" where
  "add_private_usage env h uid [] whole = ret whole"
| "add_private_usage env h uid (f # fs) whole =
     (if \<not> nf_private f \<or> fol_owner (nf_row f) \<noteq> uid then add_private_usage env h uid fs whole
      else bind_io (folder_usage env h f) (\<lambda>u.
           if used_bytes u > max_int64 - used_bytes whole \<or> reserved_bytes u > max_int64 - reserved_bytes whole
           then throw (Err ''user usage overflows'')
           else add_private_usage env h uid fs
                  \<lparr>used_bytes = used_bytes whole + used_bytes u, reserved_bytes = reserved_bytes whole + reserved_bytes u\<rparr>))"

definition private_user_usage :: "upload_env \<Rightarrow> quota_helper \<Rightarrow> nas_folder list \<Rightarrow> string \<Rightarrow> usage io" where
  "private_user_usage env h fs uid = add_private_usage env h uid fs \<lparr>used_bytes = 0, reserved_bytes = 0\<rparr>"

fun add_pending :: "bool \<Rightarrow> string \<Rightarrow> upload_session list \<Rightarrow> int \<Rightarrow> int res" where
  "add_pending own upload [] reserved = Inr reserved"
| "add_pending own upload (s # ss) reserved =
     (if own \<and> us_id s = upload then add_pending own upload ss reserved
      else let pending = wrap64 (us_total s - us_received s) in
        if pending > max_int64 - reserved then Inl (Err ''pool reservations overflow'')
        else add_pending own upload ss (reserved + pending))"

record reservations =
  rv_reserved :: int
  rv_hard :: bool
  rv_cap :: int

fun collect_reservations ::
  "upload_env \<Rightarrow> quota_helper \<Rightarrow> nas_folder \<Rightarrow> string \<Rightarrow> nas_folder list \<Rightarrow> reservations \<Rightarrow> reservations io" where
  "collect_reservations env h target upload [] v = ret v"
| "collect_reservations env h target upload (f # fs) v =
     (if fol_pool (nf_row f) \<noteq> fol_pool (nf_row target) then collect_reservations env h target upload fs v
      else if fol_hard (nf_row f) > 0 then
        bind_io (lift_res (project_status h f)) (\<lambda>st.
        bind_io (guard_io (\<not> (qs_limit st \<noteq> kernel_limit f \<or> qs_used st > kernel_limit f))
                  (Err ''filesystem quota does not match the folder allocation'')) (\<lambda>_.
        let remaining = sint (kernel_limit f - qs_used st) in
        if nf_id f = nf_id target
        then collect_reservations env h target upload fs (v\<lparr>rv_hard := True, rv_cap := remaining\<rparr>)
        else if remaining > max_int64 - rv_reserved v then throw (Err ''pool reservations overflow'')
        else collect_reservations env h target upload fs
               (v\<lparr>rv_hard := True, rv_reserved := rv_reserved v + remaining\<rparr>)))
      else
        bind_io (folder_root (nf_root f) (nf_relative f)) (\<lambda>root.
        bind_io (list_uploads env root) (\<lambda>ss.
        bind_io (lift_res (add_pending (nf_id f = nf_id target) upload ss (rv_reserved v))) (\<lambda>r.
        collect_reservations env h target upload fs (v\<lparr>rv_reserved := r\<rparr>)))))"

text \<open>\<open>again\<close> is the second reading of the capacity, for the headroom of pools with kernel quotas.\<close>

definition pool_headroom :: "64 word \<Rightarrow> 64 word" where
  "pool_headroom whole = max (2 ^ 24) (whole div 100)"

definition reserved_pool_allowance ::
  "upload_env \<Rightarrow> quota_helper \<Rightarrow> capacity res \<Rightarrow> nas_folder list \<Rightarrow> nas_folder \<Rightarrow> string \<Rightarrow> int \<Rightarrow> int io" where
  "reserved_pool_allowance env h again fs target upload available =
     bind_io (collect_reservations env h target upload fs \<lparr>rv_reserved = 0, rv_hard = False, rv_cap = max_int64\<rparr>) (\<lambda>v.
     if \<not> rv_hard v then ret (min (rv_cap v) (max 0 (wrap64 (available - rv_reserved v))))
     else bind_io (lift_res again) (\<lambda>c.
          let headroom = pool_headroom (cap_total c) in
          if headroom > word_of_int max_int64 \<or> sint headroom > max_int64 - rv_reserved v then ret 0
          else ret (min (rv_cap v) (max 0 (wrap64 (available - (rv_reserved v + sint headroom)))))))"

section \<open>The allowance of a write\<close>

text \<open>
  \<open>first\<close> and \<open>again\<close> are the two readings of the capacity.  \<open>i\<close> is the upload that continues,
  empty for a new write.
\<close>

definition private_quota :: "nas \<Rightarrow> nas_folder \<Rightarrow> int" where
  "private_quota s f = (if nf_private f then user_quota (fol_owner (nf_row f)) s else 0)"

definition quota_left :: "int \<Rightarrow> usage \<Rightarrow> int \<Rightarrow> int" where
  "quota_left quota u credit = max 0 (wrap64 (quota - used_bytes u - reserved_bytes u + credit))"

definition upload_credit :: "upload_env \<Rightarrow> path \<Rightarrow> string \<Rightarrow> int io" where
  "upload_credit env root i =
     (if i = [] then ret 0
      else bind_io (get_upload env root i) (\<lambda>up. ret (wrap64 (us_total up - us_received up))))"

definition quota_allowance :: "upload_env \<Rightarrow> quota_helper \<Rightarrow> nas \<Rightarrow> nas_folder \<Rightarrow> string \<Rightarrow> int \<Rightarrow> int io" where
  "quota_allowance env h s f i allowance =
     (let quota = fol_quota (nf_row f); user = private_quota s f in
      if quota = 0 \<and> user = 0 then ret allowance
      else bind_io (folder_root (nf_root f) (nf_relative f)) (\<lambda>root.
      bind_io (folder_usage env h f) (\<lambda>u.
      bind_io (upload_credit env root i) (\<lambda>credit.
      let a = (if quota > 0 then min allowance (quota_left quota u credit) else allowance) in
      if user > 0
      then bind_io (private_user_usage env h (list_nas_folders s) (fol_owner (nf_row f)))
             (\<lambda>v. ret (min a (quota_left user v credit)))
      else ret a))))"

definition file_write_allowance ::
  "upload_env \<Rightarrow> quota_helper \<Rightarrow> capacity res \<Rightarrow> capacity res \<Rightarrow> nas \<Rightarrow> nas_folder \<Rightarrow> string \<Rightarrow> int io" where
  "file_write_allowance env h first again s f i =
     (case first of
        Inl _ \<Rightarrow> throw (Err ''file pool capacity is unavailable'')
      | Inr c \<Rightarrow>
          (case pool_write_allowance c (pool_reserve (nf_pool f)) of
             None \<Rightarrow> throw (Err ''file pool free-space reserve would be violated'')
           | Some available \<Rightarrow>
               bind_io (reserved_pool_allowance env h again (list_nas_folders s) f i available)
                 (quota_allowance env h s f i)))"

section \<open>Writable shares\<close>

text \<open>
  \<open>smbWritableFolders\<close>: the first loop keeps the folders that are allowed, the budget of each
  user and the users that have a private folder without a verified limit.
\<close>

record smb_budget =
  sb_allowed :: "(string \<times> bool) list"
  sb_budget :: "(string \<times> int) list"
  sb_safe :: "(string \<times> bool) list"

definition look :: "'v \<Rightarrow> ('k \<times> 'v) list \<Rightarrow> 'k \<Rightarrow> 'v" where
  "look d m k = (case map_of m k of None \<Rightarrow> d | Some v \<Rightarrow> v)"

definition budget_step :: "quota_helper \<Rightarrow> (string \<Rightarrow> int) \<Rightarrow> nas_folder \<Rightarrow> smb_budget \<Rightarrow> smb_budget" where
  "budget_step h quotas f b =
     (let row = nf_row f; u = fol_owner row; private = nf_private f;
          b1 = (if private \<and> map_of (sb_safe b) u = None then b\<lparr>sb_safe := AList.update u True (sb_safe b)\<rparr> else b) in
      if fol_hard row \<le> 0 \<or> nf_project f = 0 then
        let b2 = b1\<lparr>sb_allowed := AList.update (fol_id row)
                     (fol_quota row = 0 \<and> (\<not> private \<or> quotas u = 0)) (sb_allowed b1)\<rparr>
        in (if private then b2\<lparr>sb_safe := AList.update u False (sb_safe b2)\<rparr> else b2)
      else case project_status h f of
        Inl _ \<Rightarrow> b1\<lparr>sb_safe := AList.update u False (sb_safe b1)\<rparr>
      | Inr st \<Rightarrow>
          if qs_limit st \<noteq> kernel_limit f \<or> qs_used st > kernel_limit f
          then b1\<lparr>sb_safe := AList.update u False (sb_safe b1)\<rparr>
          else
            let b2 = (if \<not> private then b1
                      else if fol_hard row > max_int64 - look 0 (sb_budget b1) u
                      then b1\<lparr>sb_safe := AList.update u False (sb_safe b1)\<rparr>
                      else b1\<lparr>sb_budget := AList.update u (look 0 (sb_budget b1) u + fol_hard row) (sb_budget b1)\<rparr>)
            in b2\<lparr>sb_allowed := AList.update (fol_id row) True (sb_allowed b2)\<rparr>)"

definition budgets :: "quota_helper \<Rightarrow> (string \<Rightarrow> int) \<Rightarrow> nas_folder list \<Rightarrow> smb_budget" where
  "budgets h quotas fs = fold (budget_step h quotas) fs \<lparr>sb_allowed = [], sb_budget = [], sb_safe = []\<rparr>"

definition final_step :: "(string \<Rightarrow> int) \<Rightarrow> smb_budget \<Rightarrow> nas_folder \<Rightarrow> (string \<times> bool) list \<Rightarrow> (string \<times> bool) list" where
  "final_step quotas b f allowed =
     (let row = nf_row f; u = fol_owner row in
      AList.update (fol_id row)
        (if nf_private f \<and> quotas u > 0 \<and> (\<not> look False (sb_safe b) u \<or> look 0 (sb_budget b) u > quotas u)
         then False else look False allowed (fol_id row)) allowed)"

definition smb_writable_folders :: "quota_helper \<Rightarrow> (string \<Rightarrow> int) \<Rightarrow> nas_folder list \<Rightarrow> string \<Rightarrow> bool" where
  "smb_writable_folders h quotas fs i =
     (let b = budgets h quotas fs in look False (fold (final_step quotas b) fs (sb_allowed b)) i)"

section \<open>Percentages are exact\<close>

lemma sint_small:
  fixes w :: "64 word"
  assumes "uint w \<le> max_int64"
  shows "sint w = uint w"
proof -
  have "- (2 ^ 63) \<le> uint w" "uint w < 2 ^ 63"
    using assms order_trans [OF _ uint_nonnegative [of w], of "- (2 ^ 63)"] by (simp_all add: max_int64_def)
  then show ?thesis by (simp add: sint_uint signed_take_bit_int_eq_self)
qed

lemma capacity_percent_exact:
  assumes "0 \<le> p" "p \<le> 100"
  shows "uint (capacity_percent c p) = uint c * p div 100"
proof -
  let ?t = "uint c"
  have t: "0 \<le> ?t" "?t < 2 ^ 64" using uint_range_size [of c] by (simp_all add: word_size)
  have p: "uint (word_of_int p :: 64 word) = p" using assms by (simp add: uint_word_of_int)
  have split: "?t * p = 100 * ((?t div 100) * p) + (?t mod 100) * p"
    by (metis distrib_right mult.assoc mult_div_mod_eq)
  have exact: "?t * p div 100 = (?t div 100) * p + (?t mod 100) * p div 100"
    unfolding split by simp
  have le: "?t * p div 100 \<le> ?t"
    using mult_left_mono [OF assms(2) t(1)] zdiv_mono1 [of "?t * p" "?t * 100" 100] by simp
  have small: "(?t mod 100) * p < 2 ^ 64"
  proof -
    have "?t mod 100 \<le> 99" using pos_mod_bound [of 100 ?t] by simp
    then have "(?t mod 100) * p \<le> 99 * 100" using assms by (intro mult_mono) simp_all
    then show ?thesis by simp
  qed
  have nonneg: "0 \<le> (?t div 100) * p" "0 \<le> (?t mod 100) * p div 100"
    using t assms by (simp_all add: pos_imp_zdiv_nonneg_iff)
  have first: "uint ((c div 100) * word_of_int p) = (?t div 100) * p"
    using nonneg le exact t by (simp add: uint_mult_lem [THEN iffD1] uint_div p uint_word_ariths)
  have second: "uint ((c mod 100) * word_of_int p div 100) = (?t mod 100) * p div 100"
    using small nonneg assms by (simp add: uint_div uint_mod p uint_word_ariths)
  show ?thesis
  proof (cases "c = 0 \<or> p \<le> 0")
    case False
    have "uint (capacity_percent c p) = ((?t div 100) * p + (?t mod 100) * p div 100) mod 2 ^ 64"
      using False first second by (simp add: capacity_percent_def Let_def uint_word_ariths)
    then show ?thesis using exact le t nonneg by simp
  next
    case True
    then show ?thesis using assms by (auto simp: capacity_percent_def)
  qed
qed

lemma capacity_percent_le: "0 \<le> p \<Longrightarrow> p \<le> 100 \<Longrightarrow> capacity_percent c p \<le> c"
proof -
  assume p: "0 \<le> p" "p \<le> 100"
  have "uint c * p div 100 \<le> uint c"
    using mult_left_mono [OF p(2) uint_nonnegative [of c]] zdiv_mono1 [of "uint c * p" "uint c * 100" 100] by simp
  then show ?thesis by (simp add: word_le_def capacity_percent_exact p)
qed

lemma percent_bytes_same: "percent_bytes = capacity_percent"
  by (intro ext) (simp add: percent_bytes_def capacity_percent_def)

lemma pool_write_allowance_room:
  assumes "0 \<le> p" "p \<le> 100" "pool_write_allowance c p = Some n"
  shows "0 < n" "n \<le> max_int64" "n \<le> uint (cap_free c) - uint (cap_total c) * p div 100"
proof -
  let ?r = "capacity_percent (cap_total c) p"
  have r: "?r < cap_free c" using assms(3) by (auto simp: pool_write_allowance_def Let_def split: if_splits)
  then have sub: "uint (cap_free c - ?r) = uint (cap_free c) - uint ?r"
    by (simp add: uint_sub_lem [THEN iffD1] word_le_def word_less_def)
  have pos: "0 < uint (cap_free c - ?r)" using r sub by (simp add: word_less_def)
  have max: "uint (word_of_int max_int64 :: 64 word) = max_int64" by (simp add: uint_word_of_int max_int64_def)
  have n: "n = min max_int64 (uint (cap_free c - ?r))"
  proof (cases "cap_free c - ?r > word_of_int max_int64")
    case True
    then have "n = max_int64" using assms(3) r by (simp add: pool_write_allowance_def Let_def not_le [symmetric])
    then show ?thesis using True max by (simp add: word_less_def)
  next
    case False
    then have "uint (cap_free c - ?r) \<le> max_int64" using max by (simp add: word_less_def)
    then have "sint (cap_free c - ?r) = uint (cap_free c - ?r)"
      by (rule sint_small)
    moreover have "n = sint (cap_free c - ?r)"
      using assms(3) r False by (simp add: pool_write_allowance_def Let_def not_le [symmetric])
    ultimately show ?thesis using \<open>uint (cap_free c - ?r) \<le> max_int64\<close> by simp
  qed
  show "0 < n" "n \<le> max_int64" using n pos by (simp_all add: max_int64_def)
  show "n \<le> uint (cap_free c) - uint (cap_total c) * p div 100"
    using n sub capacity_percent_exact [OF assms(1,2)] by simp
qed

section \<open>What is promised to others\<close>

text \<open>\<open>yields m P\<close>: whatever the disk and the failing calls, a result of \<open>m\<close> satisfies \<open>P\<close>.\<close>

definition yields :: "'a io \<Rightarrow> ('a \<Rightarrow> bool) \<Rightarrow> bool" where
  "yields m P \<longleftrightarrow> (\<forall>d x d'. m d = (Inr x, d') \<longrightarrow> P x)"

definition answers :: "'a io \<Rightarrow> 'a \<Rightarrow> bool" where
  "answers m x \<longleftrightarrow> (\<exists>d d'. m d = (Inr x, d'))"

lemma yields_rules [intro]:
  "P x \<Longrightarrow> yields (ret x) P"
  "yields (throw e) P"
  "(\<And>x. r = Inr x \<Longrightarrow> P x) \<Longrightarrow> yields (lift_res r) P"
  by (simp_all add: yields_def ret_def throw_def lift_res_def)

lemma yields_bind:
  assumes "\<And>x. answers m x \<Longrightarrow> yields (k x) P"
  shows "yields (bind_io m k) P"
  unfolding yields_def
proof (intro allI impI)
  fix d x d' assume r: "bind_io m k d = (Inr x, d')"
  obtain y e where y: "m d = (y, e)" by fastforce
  with r obtain z where "m d = (Inr z, e)" "k z e = (Inr x, d')"
    by (cases y) (auto simp: bind_io_def)
  then show "P x" using assms [of z] unfolding answers_def yields_def by blast
qed

lemma yields_if: "(b \<Longrightarrow> yields x P) \<Longrightarrow> (\<not> b \<Longrightarrow> yields y P) \<Longrightarrow> yields (if b then x else y) P"
  by simp

lemma yields_attempt:
  assumes "\<And>r. (\<And>x. r = Inr x \<Longrightarrow> answers m x) \<Longrightarrow> yields (k r) P"
  shows "yields (attempt m k) P"
  unfolding yields_def
proof (intro allI impI)
  fix d x d' assume r: "attempt m k d = (Inr x, d')"
  obtain y e where y: "m d = (y, e)" by fastforce
  then have "\<And>z. y = Inr z \<Longrightarrow> answers m z" by (auto simp: answers_def)
  then show "P x" using assms [of y] r y by (auto simp: yields_def attempt_def)
qed

lemma yields_answers: "yields m P \<Longrightarrow> answers m x \<Longrightarrow> P x"
  by (auto simp: yields_def answers_def)

lemma yields_mono: "yields m P \<Longrightarrow> (\<And>x. P x \<Longrightarrow> Q x) \<Longrightarrow> yields m Q"
  by (auto simp: yields_def)

lemma answers_lift [simp]: "answers (lift_res r) x \<longleftrightarrow> r = Inr x"
  by (auto simp: answers_def lift_res_def)

lemma answers_guard [simp]: "answers (guard_io b e) x \<longleftrightarrow> b"
  by (auto simp: answers_def guard_io_def ret_def throw_def)

text \<open>The metadata of an upload is decoded into 64-bit integers.\<close>

definition metadata_in_range :: "upload_env \<Rightarrow> bool" where
  "metadata_in_range env \<longleftrightarrow> (\<forall>data s. unmarshal env data = Inr s \<longrightarrow> us_total s \<le> max_int64)"

definition pending_ok :: "upload_session \<Rightarrow> bool" where
  "pending_ok s \<longleftrightarrow> 0 \<le> us_received s \<and> us_received s \<le> us_total s \<and> us_total s \<le> max_int64"

lemma wrap64_id: "- (max_int64 + 1) \<le> x \<Longrightarrow> x \<le> max_int64 \<Longrightarrow> wrap64 x = x"
  by (simp add: wrap64_def max_int64_def)

lemma pending_ok_wrap: "pending_ok s \<Longrightarrow> wrap64 (us_total s - us_received s) = us_total s - us_received s"
  by (rule wrap64_id) (auto simp: pending_ok_def max_int64_def)

lemma yields_check_session: "yields (check_session env root i s) (\<lambda>x. x = s \<and> session_checks env i s)"
  unfolding check_session_def check_part_def
  by (intro yields_bind yields_rules) auto

lemma yields_get_upload:
  assumes "metadata_in_range env"
  shows "yields (get_upload env root i) pending_ok"
proof -
  have "yields (case unmarshal env data of Inl e \<Rightarrow> throw (Wrap ''decode upload metadata: '' e)
      | Inr s \<Rightarrow> check_session env root i s) pending_ok" for data
  proof (cases "unmarshal env data")
    case (Inr s)
    then show ?thesis
      using assms by (auto simp: metadata_in_range_def pending_ok_def session_checks_def
          intro!: yields_mono [OF yields_check_session])
  qed (simp add: yields_rules)
  then show ?thesis unfolding get_upload_def by (intro yields_bind)
qed

lemma yields_get_uploads:
  assumes "metadata_in_range env"
  shows "yields (get_uploads env root is) (\<lambda>ss. \<forall>s\<in>set ss. pending_ok s)"
proof (induction "is")
  case (Cons i "is")
  note one = yields_answers [OF yields_get_upload [OF assms]]
  show ?case
    unfolding get_uploads.simps
    by (intro yields_attempt yields_bind yields_rules)
       (auto dest!: yields_answers [OF Cons] dest: one split: sum.splits)
qed (auto)

lemma yields_list_uploads:
  assumes "metadata_in_range env"
  shows "yields (list_uploads env root) (\<lambda>ss. \<forall>s\<in>set ss. pending_ok s)"
  unfolding list_uploads_def
  by (intro yields_bind yields_rules) (auto dest: yields_answers [OF yields_get_uploads [OF assms]])

text \<open>What a folder with a limit enforced by the kernel may still grow by.\<close>

definition hard_left :: "quota_helper \<Rightarrow> nas_folder \<Rightarrow> int" where
  "hard_left h f =
     (case project_status h f of Inl _ \<Rightarrow> 0 | Inr st \<Rightarrow> uint (kernel_limit f) - uint (qs_used st))"

definition limited_in :: "nas_folder \<Rightarrow> nas_folder list \<Rightarrow> nas_folder list" where
  "limited_in target fs = filter (\<lambda>f. fol_pool (nf_row f) = fol_pool (nf_row target) \<and> fol_hard (nf_row f) > 0) fs"

definition promised :: "quota_helper \<Rightarrow> nas_folder \<Rightarrow> nas_folder list \<Rightarrow> int" where
  "promised h target fs =
     sum_list (map (hard_left h) (filter (\<lambda>f. nf_id f \<noteq> nf_id target) (limited_in target fs)))"

lemma kernel_limit_exact:
  assumes "0 < fol_hard (nf_row f)" "fol_hard (nf_row f) \<le> max_int64"
  shows "uint (kernel_limit f) = fol_hard (nf_row f) div 1024 * 1024"
proof -
  let ?k = "fol_hard (nf_row f) div 1024"
  have "0 \<le> ?k" "?k * 1024 \<le> fol_hard (nf_row f)" using assms by (simp_all add: pos_imp_zdiv_nonneg_iff minus_mod_eq_div_mult [symmetric])
  then show ?thesis
    using assms by (simp add: kernel_limit_def uint_word_ariths uint_word_of_int max_int64_def)
qed

lemma hard_left_word:
  assumes "project_status h f = Inr st" "0 < fol_hard (nf_row f)" "fol_hard (nf_row f) \<le> max_int64"
    and "qs_used st \<le> kernel_limit f"
  shows "sint (kernel_limit f - qs_used st) = hard_left h f" "0 \<le> hard_left h f" "hard_left h f \<le> max_int64"
proof -
  have sub: "uint (kernel_limit f - qs_used st) = uint (kernel_limit f) - uint (qs_used st)"
    using assms(4) by (simp add: uint_sub_lem [THEN iffD1] word_le_def)
  have "uint (kernel_limit f) \<le> max_int64"
    using kernel_limit_exact [OF assms(2,3)] assms(2,3) minus_mod_eq_div_mult [of "fol_hard (nf_row f)" 1024]
      pos_mod_sign [of 1024 "fol_hard (nf_row f)"] by linarith
  moreover have "0 \<le> uint (qs_used st)" by simp
  ultimately have "uint (kernel_limit f - qs_used st) \<le> max_int64" using sub by linarith
  then show "sint (kernel_limit f - qs_used st) = hard_left h f" "0 \<le> hard_left h f" "hard_left h f \<le> max_int64"
    using sub sint_small assms(1) uint_nonnegative [of "kernel_limit f - qs_used st"]
    by (simp_all add: hard_left_def)
qed

definition collected :: "quota_helper \<Rightarrow> nas_folder \<Rightarrow> nas_folder list \<Rightarrow> reservations \<Rightarrow> reservations \<Rightarrow> bool" where
  "collected h target fs v w \<longleftrightarrow>
     rv_reserved v \<le> rv_reserved w \<and> rv_reserved v + promised h target fs \<le> rv_reserved w \<and>
     rv_reserved w \<le> max_int64 \<and> (rv_hard w \<longleftrightarrow> rv_hard v \<or> limited_in target fs \<noteq> []) \<and> rv_cap w \<le> max_int64 \<and> 0 \<le> rv_cap w \<and>
     (\<forall>f\<in>set (limited_in target fs). nf_id f = nf_id target \<longrightarrow> rv_cap w = hard_left h f) \<and>
     (nf_id target \<notin> nf_id ` set (limited_in target fs) \<longrightarrow> rv_cap w = rv_cap v)"

lemma add_pending_sound:
  assumes "add_pending own upload ss r = Inr n" "\<forall>s\<in>set ss. pending_ok s" "0 \<le> r" "r \<le> max_int64"
  shows "r \<le> n \<and> n \<le> max_int64"
  using assms
proof (induction ss arbitrary: r)
  case (Cons s ss)
  have "0 \<le> us_total s - us_received s" using Cons.prems(2) by (simp add: pending_ok_def)
  then show ?case
    using Cons.prems Cons.IH [of r] Cons.IH [of "r + (us_total s - us_received s)"]
    by (cases "own \<and> us_id s = upload") (auto simp: pending_ok_wrap Let_def split: if_splits)
qed simp

lemma limited_simps [simp]:
  "limited_in target [] = []"
  "limited_in target (f # fs) =
     (if fol_pool (nf_row f) = fol_pool (nf_row target) \<and> fol_hard (nf_row f) > 0
      then f # limited_in target fs else limited_in target fs)"
  by (simp_all add: limited_in_def)

lemma promised_simps [simp]:
  "promised h target [] = 0"
  "promised h target (f # fs) =
     (if fol_pool (nf_row f) = fol_pool (nf_row target) \<and> fol_hard (nf_row f) > 0 \<and> nf_id f \<noteq> nf_id target
      then hard_left h f + promised h target fs else promised h target fs)"
  by (simp_all add: promised_def)

lemma yields_collect:
  assumes env: "metadata_in_range env" and fs: "\<forall>f\<in>set fs. fol_hard (nf_row f) \<le> max_int64"
    and ids: "distinct (map nf_id fs)"
    and v: "0 \<le> rv_reserved v" "rv_reserved v \<le> max_int64" "0 \<le> rv_cap v" "rv_cap v \<le> max_int64"
  shows "yields (collect_reservations env h target upload fs v) (collected h target fs v)"
  using fs ids v
proof (induction fs arbitrary: v)
  case Nil
  then show ?case by (auto simp: collected_def)
next
  case (Cons f fs)
  let ?row = "nf_row f"
  consider (other) "fol_pool ?row \<noteq> fol_pool (nf_row target)"
    | (hard) "fol_pool ?row = fol_pool (nf_row target)" "fol_hard ?row > 0"
    | (soft) "fol_pool ?row = fol_pool (nf_row target)" "\<not> fol_hard ?row > 0" by blast
  then show ?case
  proof cases
    case other
    then have "collected h target (f # fs) v = collected h target fs v" by (simp add: fun_eq_iff collected_def)
    then show ?thesis using other Cons by simp
  next
    case hard
    have step: "yields (let remaining = sint (kernel_limit f - qs_used st) in
          if nf_id f = nf_id target
          then collect_reservations env h target upload fs (v\<lparr>rv_hard := True, rv_cap := remaining\<rparr>)
          else if remaining > max_int64 - rv_reserved v then throw (Err ''pool reservations overflow'')
          else collect_reservations env h target upload fs
                 (v\<lparr>rv_hard := True, rv_reserved := rv_reserved v + remaining\<rparr>)) (collected h target (f # fs) v)"
      if st: "project_status h f = Inr st" "qs_used st \<le> kernel_limit f" for st
    proof -
      have left: "sint (kernel_limit f - qs_used st) = hard_left h f" "0 \<le> hard_left h f" "hard_left h f \<le> max_int64"
        using hard_left_word [OF st(1) hard(2) _ st(2)] Cons.prems(1) by auto
      have alone: "nf_id g \<noteq> nf_id f" if "g \<in> set (limited_in target fs)" for g
        using that Cons.prems(2) by (auto simp: limited_in_def image_iff)
      show ?thesis
      proof (cases "nf_id f = nf_id target")
        case True
        let ?v = "v\<lparr>rv_hard := True, rv_cap := hard_left h f\<rparr>"
        from True alone have "nf_id target \<notin> nf_id ` set (limited_in target fs)" by (metis imageE)
        then have "collected h target fs ?v w \<Longrightarrow> collected h target (f # fs) v w" for w
          using True hard by (auto simp: collected_def)
        then show ?thesis using Cons.prems left True by (auto intro!: yields_mono [OF Cons.IH [of ?v]])
      next
        case False
        let ?v = "v\<lparr>rv_hard := True, rv_reserved := rv_reserved v + hard_left h f\<rparr>"
        from False left have "collected h target fs ?v w \<Longrightarrow> collected h target (f # fs) v w" for w
          using hard by (auto simp: collected_def)
        then show ?thesis using Cons.prems left False unfolding Let_def
          by (auto intro!: yields_if yields_mono [OF Cons.IH [of ?v]] yields_rules)
      qed
    qed
    show ?thesis
      using hard by (auto intro!: yields_bind step simp: not_less)
  next
    case soft
    have "yields (collect_reservations env h target upload fs (v\<lparr>rv_reserved := r\<rparr>)) (collected h target (f # fs) v)"
      if "rv_reserved v \<le> r" "r \<le> max_int64" for r
    proof -
      let ?v = "v\<lparr>rv_reserved := r\<rparr>"
      from soft that have "collected h target fs ?v w \<Longrightarrow> collected h target (f # fs) v w" for w
        by (auto simp: collected_def)
      then show ?thesis using Cons.prems that by (auto intro!: yields_mono [OF Cons.IH [of ?v]])
    qed
    then show ?thesis
      using soft Cons.prems by (auto intro!: yields_bind dest!: add_pending_sound yields_answers [OF yields_list_uploads [OF env]])
  qed
qed


definition headroom_of :: "capacity \<Rightarrow> int" where
  "headroom_of c = max (2 ^ 24) (uint (cap_total c) div 100)"

lemma pool_headroom_exact: "uint (pool_headroom n) = max (2 ^ 24) (uint n div 100)"
  by (simp add: pool_headroom_def max_def word_le_def uint_div)

text \<open>\<open>pool_room\<close> is what a pool's other promises leave of \<open>available\<close>.\<close>

definition pool_room :: "quota_helper \<Rightarrow> capacity res \<Rightarrow> nas_folder list \<Rightarrow> nas_folder \<Rightarrow> int \<Rightarrow> int" where
  "pool_room h again fs target available =
     available - promised h target fs -
     (if limited_in target fs = [] then 0 else case again of Inl _ \<Rightarrow> 0 | Inr c \<Rightarrow> headroom_of c)"

lemma yields_reserved:
  assumes env: "metadata_in_range env" and fs: "\<forall>f\<in>set fs. fol_hard (nf_row f) \<le> max_int64"
    and ids: "distinct (map nf_id fs)" and available: "0 \<le> available" "available \<le> max_int64"
  shows "yields (reserved_pool_allowance env h again fs target upload available) (\<lambda>n. 0 \<le> n \<and>
      (\<forall>f\<in>set (limited_in target fs). nf_id f = nf_id target \<longrightarrow> n \<le> hard_left h f) \<and>
      (n = 0 \<or> n \<le> pool_room h again fs target available))"
  unfolding reserved_pool_allowance_def
proof (rule yields_bind)
  fix v
  let ?v0 = "\<lparr>rv_reserved = 0, rv_hard = False, rv_cap = max_int64\<rparr>"
  assume "answers (collect_reservations env h target upload fs ?v0) v"
  from yields_answers [OF yields_collect [OF env fs ids] this]
  have v: "promised h target fs \<le> rv_reserved v" "rv_reserved v \<le> max_int64"
      "rv_hard v \<longleftrightarrow> limited_in target fs \<noteq> []" "0 \<le> rv_cap v"
      "\<forall>f\<in>set (limited_in target fs). nf_id f = nf_id target \<longrightarrow> rv_cap v = hard_left h f"
    and pos: "0 \<le> rv_reserved v"
    unfolding collected_def by (simp_all add: max_int64_def)
  have exact: "wrap64 (available - r) = available - r" if "0 \<le> r" "r \<le> max_int64" for r
    using that available by (intro wrap64_id) auto
  show "yields (if \<not> rv_hard v then ret (min (rv_cap v) (max 0 (wrap64 (available - rv_reserved v))))
     else bind_io (lift_res again) (\<lambda>c.
          let headroom = pool_headroom (cap_total c) in
          if headroom > word_of_int max_int64 \<or> sint headroom > max_int64 - rv_reserved v then ret 0
          else ret (min (rv_cap v) (max 0 (wrap64 (available - (rv_reserved v + sint headroom)))))))
     (\<lambda>n. 0 \<le> n \<and> (\<forall>f\<in>set (limited_in target fs). nf_id f = nf_id target \<longrightarrow> n \<le> hard_left h f) \<and>
      (n = 0 \<or> n \<le> pool_room h again fs target available))" (is "yields _ ?P")
  proof (cases "rv_hard v")
    case False
    then show ?thesis using v pos exact [of "rv_reserved v"] by (auto simp: pool_room_def)
  next
    case hard: True
    have cap: "x \<le> rv_cap v \<Longrightarrow> f \<in> set (limited_in target fs) \<Longrightarrow> nf_id f = nf_id target \<Longrightarrow> x \<le> hard_left h f" for x f
      using v(5) by auto
    have "?P (min (rv_cap v) (max 0 (wrap64 (available - (rv_reserved v + sint (pool_headroom (cap_total c)))))))"
      if c: "again = Inr c" and small: "\<not> pool_headroom (cap_total c) > word_of_int max_int64"
        "\<not> sint (pool_headroom (cap_total c)) > max_int64 - rv_reserved v" for c
    proof -
      have "uint (word_of_int max_int64 :: 64 word) = max_int64" by (simp add: uint_word_of_int max_int64_def)
      then have "uint (pool_headroom (cap_total c)) \<le> max_int64" using small(1) by (simp add: word_less_def)
      then have "sint (pool_headroom (cap_total c)) = headroom_of c"
        by (simp add: sint_small pool_headroom_exact headroom_of_def)
      moreover have "0 \<le> headroom_of c" by (simp add: headroom_of_def)
      ultimately have "wrap64 (available - (rv_reserved v + sint (pool_headroom (cap_total c)))) =
          available - (rv_reserved v + headroom_of c)"
        using small(2) exact [of "rv_reserved v + headroom_of c"] pos by simp
      then show ?thesis using v hard c cap by (auto simp: pool_room_def)
    qed
    moreover have "?P 0" using v cap by auto
    ultimately show ?thesis using hard unfolding Let_def by (auto intro!: yields_bind yields_if yields_rules)
  qed
qed


lemma folder_view_facts:
  "folder_view s r = Some f \<Longrightarrow> nf_id f = fol_id r \<and> nf_pool f \<in> set (nas_pools s)"
  by (auto simp: folder_view_def nf_id_def dest: select_key_Some)

lemma distinct_views:
  "distinct (map fol_id rs) \<Longrightarrow>
     distinct (map nf_id (List.map_filter (folder_view s) rs)) \<and>
     nf_id ` set (List.map_filter (folder_view s) rs) \<subseteq> fol_id ` set rs"
proof (induction rs)
  case (Cons r rs)
  have "folder_view s r = Some f \<Longrightarrow> nf_id f = fol_id r" for f using folder_view_facts by blast
  with Cons show ?case by (cases "folder_view s r") (simp_all add: map_filter_simps subset_iff image_iff, metis+)
qed (simp add: map_filter_simps)

lemma listed_folders:
  assumes "nas_ok s"
  shows "distinct (map nf_id (list_nas_folders s))"
    and "f \<in> set (list_nas_folders s) \<Longrightarrow> 0 \<le> pool_reserve (nf_pool f) \<and> pool_reserve (nf_pool f) \<le> 50"
proof -
  have "distinct (map fol_id (nas_folders s))" using assms by (simp add: nas_ok_def unique_key_def)
  then show "distinct (map nf_id (list_nas_folders s))"
    unfolding list_nas_folders_def by (intro distinct_views [THEN conjunct1]) (simp add: distinct_map)
  assume "f \<in> set (list_nas_folders s)"
  then have "nf_pool f \<in> set (nas_pools s)"
    by (auto simp: list_nas_folders_def List.map_filter_def dest: folder_view_facts)
  then show "0 \<le> pool_reserve (nf_pool f) \<and> pool_reserve (nf_pool f) \<le> 50"
    using assms by (simp add: nas_ok_def pool_ok_def)
qed

definition within_quotas :: "upload_env \<Rightarrow> quota_helper \<Rightarrow> nas \<Rightarrow> nas_folder \<Rightarrow> string \<Rightarrow> int \<Rightarrow> bool" where
  "within_quotas env h s f i n \<longleftrightarrow>
     (fol_quota (nf_row f) > 0 \<longrightarrow>
        (\<exists>root u credit. answers (folder_root (nf_root f) (nf_relative f)) root \<and> answers (folder_usage env h f) u \<and> answers (upload_credit env root i) credit \<and>
           n \<le> quota_left (fol_quota (nf_row f)) u credit)) \<and>
     (private_quota s f > 0 \<longrightarrow>
        (\<exists>root u credit. answers (folder_root (nf_root f) (nf_relative f)) root \<and> answers (private_user_usage env h (list_nas_folders s) (fol_owner (nf_row f))) u \<and>
           answers (upload_credit env root i) credit \<and> n \<le> quota_left (private_quota s f) u credit))"

lemma within_quotas_min:
  assumes "answers (folder_root (nf_root f) (nf_relative f)) root"
    and "answers (folder_usage env h f) u" "answers (upload_credit env root i) credit"
    and "private_quota s f > 0 \<Longrightarrow>
      \<exists>v. answers (private_user_usage env h (list_nas_folders s) (fol_owner (nf_row f))) v \<and>
          n \<le> quota_left (private_quota s f) v credit"
    and "fol_quota (nf_row f) > 0 \<Longrightarrow> n \<le> quota_left (fol_quota (nf_row f)) u credit"
  shows "within_quotas env h s f i n"
  unfolding within_quotas_def using assms by blast

lemma yields_quota_allowance:
  "yields (quota_allowance env h s f i a) (\<lambda>n. n \<le> a \<and> (0 \<le> a \<longrightarrow> 0 \<le> n) \<and> within_quotas env h s f i n)"
proof (cases "fol_quota (nf_row f) = 0 \<and> private_quota s f = 0")
  case True
  then show ?thesis unfolding quota_allowance_def by (simp add: yields_rules within_quotas_def)
next
  case False
  have pos: "0 \<le> quota_left q u credit" for q u credit by (simp add: quota_left_def)
  show ?thesis
    unfolding quota_allowance_def Let_def using False
    by (simp only: if_False)
       (intro yields_bind yields_if yields_rules conjI within_quotas_min;
        (assumption | auto simp: min_def pos)?)
qed



section \<open>The limit of the kernel\<close>

text \<open>The limit that the helper gives to the kernel is never the number 0 that means no limit, never
  below what is used already, and when it is reached the reserve of the pool is still free.\<close>

theorem safe_hard_limit_keeps_reserve:
  assumes "safe_hard_limit c free used p = Inr limit" "p \<noteq> 0"
  shows "limit \<noteq> 0 \<and> uint used \<le> uint limit \<and>
     (limit \<noteq> 1 \<longrightarrow> (uint limit - uint used) * 1024 \<le> max 0 (uint free - uint c * p div 100))"
proof -
  let ?r = "capacity_percent c p"
  let ?w = "(if free > ?r then free - ?r else 0) div 1024"
  have p: "0 \<le> p" "p \<le> 50" and fits: "\<not> - 1 - used < ?w"
    and limit: "limit = (if used + ?w = 0 then 1 else used + ?w)"
    using assms by (auto simp: safe_hard_limit_def percent_bytes_same Let_def split: if_splits)
  have "uint (- 1 - used) = 2 ^ 64 - 1 - uint used"
    using uint_sub_lem [of used "- 1"] uint_range_size [of used]
    by (simp add: word_size word_le_def unsigned_minus_1_eq_mask mask_eq_exp_minus_1)
  then have "uint used + uint ?w < 2 ^ 64" using fits by (simp add: word_less_def)
  then have sum: "uint (used + ?w) = uint used + uint ?w" by (simp add: uint_add_lem [THEN iffD1])
  have "uint (if free > ?r then free - ?r else 0) = max 0 (uint free - uint ?r)"
    by (auto simp: word_less_def uint_sub_lem [THEN iffD1] word_le_def)
  then have w: "uint ?w * 1024 \<le> max 0 (uint free - uint ?r)"
    by (simp add: uint_div minus_mod_eq_div_mult [symmetric])
  have exact: "uint ?r = uint c * p div 100" using p by (intro capacity_percent_exact) auto
  show ?thesis
  proof (cases "used + ?w = 0")
    case True
    then have "uint used + uint ?w = 0" using sum by simp
    then have "uint used = 0" using uint_nonnegative [of used] uint_nonnegative [of ?w] by linarith
    then show ?thesis using True limit by simp
  next
    case False
    then show ?thesis using limit sum w exact by simp
  qed
qed

section \<open>Writable shares\<close>

definition limit_verified :: "quota_helper \<Rightarrow> nas_folder \<Rightarrow> bool" where
  "limit_verified h f \<longleftrightarrow> fol_hard (nf_row f) > 0 \<and> nf_project f \<noteq> 0 \<and>
     (case project_status h f of Inl _ \<Rightarrow> False
      | Inr st \<Rightarrow> qs_limit st = kernel_limit f \<and> qs_used st \<le> kernel_limit f)"

definition owned :: "string \<Rightarrow> nas_folder list \<Rightarrow> nas_folder list" where
  "owned u fs = filter (\<lambda>f. nf_private f \<and> fol_owner (nf_row f) = u) fs"

definition granted :: "nas_folder list \<Rightarrow> int" where
  "granted fs = sum_list (map (\<lambda>f. fol_hard (nf_row f)) fs)"

definition share_writable :: "quota_helper \<Rightarrow> (string \<Rightarrow> int) \<Rightarrow> nas_folder list \<Rightarrow> nas_folder \<Rightarrow> bool" where
  "share_writable h quotas fs f \<longleftrightarrow>
     (let u = fol_owner (nf_row f) in
      (if fol_hard (nf_row f) > 0 \<and> nf_project f \<noteq> 0 then limit_verified h f else fol_quota (nf_row f) = 0) \<and>
      (nf_private f \<and> quotas u > 0 \<longrightarrow>
         (\<forall>g\<in>set (owned u fs). limit_verified h g) \<and> granted (owned u fs) \<le> quotas u))"

definition owner_ok :: "nas_folder \<Rightarrow> bool" where
  "owner_ok f \<longleftrightarrow> (nf_private f \<longleftrightarrow> fol_owner (nf_row f) \<noteq> [])"

definition all_verified :: "quota_helper \<Rightarrow> nas_folder list \<Rightarrow> bool" where
  "all_verified h fs \<longleftrightarrow> (\<forall>g\<in>set fs. limit_verified h g) \<and> granted fs \<le> max_int64"

definition first_pass :: "quota_helper \<Rightarrow> (string \<Rightarrow> int) \<Rightarrow> nas_folder \<Rightarrow> bool" where
  "first_pass h quotas f \<longleftrightarrow>
     (if fol_hard (nf_row f) > 0 \<and> nf_project f \<noteq> 0 then limit_verified h f
      else fol_quota (nf_row f) = 0 \<and> (\<not> nf_private f \<or> quotas (fol_owner (nf_row f)) = 0))"

definition budget_ok :: "quota_helper \<Rightarrow> (string \<Rightarrow> int) \<Rightarrow> nas_folder list \<Rightarrow> smb_budget \<Rightarrow> bool" where
  "budget_ok h quotas gs b \<longleftrightarrow>
     (\<forall>f\<in>set gs. look False (sb_allowed b) (nf_id f) = first_pass h quotas f) \<and>
     (\<forall>i. i \<notin> nf_id ` set gs \<longrightarrow> map_of (sb_allowed b) i = None) \<and>
     (\<forall>u. u \<noteq> [] \<longrightarrow>
        map_of (sb_safe b) u = (if owned u gs = [] then None else Some (all_verified h (owned u gs))) \<and>
        (all_verified h (owned u gs) \<longrightarrow> look 0 (sb_budget b) u = granted (owned u gs)))"

lemma owned_snoc [simp]:
  "owned u (gs @ [f]) = (if nf_private f \<and> fol_owner (nf_row f) = u then owned u gs @ [f] else owned u gs)"
  by (simp add: owned_def)

lemma granted_simps [simp]:
  "granted [] = 0" "granted (gs @ [f]) = granted gs + fol_hard (nf_row f)"
  by (simp_all add: granted_def)

lemma look_update [simp]: "look d (AList.update k v m) k' = (if k' = k then v else look d m k')"
  by (simp add: look_def update_conv')

lemma all_verified_snoc [simp]:
  "all_verified h (gs @ [f]) \<longleftrightarrow>
     all_verified h gs \<and> limit_verified h f \<and> granted gs + fol_hard (nf_row f) \<le> max_int64"
  by (auto simp: all_verified_def limit_verified_def)

lemma step_allowed:
  "map_of (sb_allowed (budget_step h quotas f b)) =
     (if fol_hard (nf_row f) > 0 \<and> nf_project f \<noteq> 0 \<and> \<not> limit_verified h f then map_of (sb_allowed b)
      else (map_of (sb_allowed b))(nf_id f \<mapsto> first_pass h quotas f))"
  by (auto simp: budget_step_def Let_def limit_verified_def first_pass_def nf_id_def update_conv' split: sum.splits)

definition fits :: "quota_helper \<Rightarrow> nas_folder \<Rightarrow> smb_budget \<Rightarrow> bool" where
  "fits h f b \<longleftrightarrow>
     limit_verified h f \<and> \<not> fol_hard (nf_row f) > max_int64 - look 0 (sb_budget b) (fol_owner (nf_row f))"

lemma step_safe:
  assumes "owner_ok f" "u \<noteq> []"
  shows "map_of (sb_safe (budget_step h quotas f b)) u =
     (if nf_private f \<and> fol_owner (nf_row f) = u
      then Some (map_of (sb_safe b) u \<noteq> Some False \<and> fits h f b)
      else map_of (sb_safe b) u)"
  using assms
  by (auto simp: budget_step_def Let_def limit_verified_def fits_def update_conv' owner_ok_def split: sum.splits)

lemma step_budget:
  "look 0 (sb_budget (budget_step h quotas f b)) u =
     (if nf_private f \<and> fol_owner (nf_row f) = u \<and> fits h f b
      then look 0 (sb_budget b) u + fol_hard (nf_row f) else look 0 (sb_budget b) u)"
  by (auto simp: budget_step_def Let_def limit_verified_def fits_def split: sum.splits)


lemma all_verified_Nil [simp]: "all_verified h []"
  by (simp add: all_verified_def granted_def max_int64_def)

lemma all_verified_one [simp]:
  "all_verified h [f] \<longleftrightarrow> limit_verified h f \<and> fol_hard (nf_row f) \<le> max_int64"
  using all_verified_snoc [of h "[]" f] by simp

lemma budget_step_ok:
  assumes b: "budget_ok h quotas gs b" and f: "owner_ok f" "nf_id f \<notin> nf_id ` set gs"
  shows "budget_ok h quotas (gs @ [f]) (budget_step h quotas f b)"
  unfolding budget_ok_def
proof (intro conjI allI impI ballI)
  let ?c = "budget_step h quotas f b"
  have first: "first_pass h quotas f = False"
    if "fol_hard (nf_row f) > 0 \<and> nf_project f \<noteq> 0 \<and> \<not> limit_verified h f"
    using that by (auto simp: first_pass_def)
  show "look False (sb_allowed ?c) (nf_id g) = first_pass h quotas g" if "g \<in> set (gs @ [f])" for g
  proof (cases "g = f")
    case True
    then show ?thesis using b f(2) first by (auto simp: look_def step_allowed budget_ok_def)
  next
    case False
    then have "nf_id g \<noteq> nf_id f" "g \<in> set gs" using that f(2) by (auto, metis imageI)
    then show ?thesis using b by (simp add: look_def step_allowed budget_ok_def)
  qed
  show "map_of (sb_allowed ?c) i = None" if "i \<notin> nf_id ` set (gs @ [f])" for i
    using that b by (auto simp: step_allowed budget_ok_def)
  fix u :: string assume u: "u \<noteq> []"
  have old: "map_of (sb_safe b) u = (if owned u gs = [] then None else Some (all_verified h (owned u gs)))"
      "all_verified h (owned u gs) \<Longrightarrow> look 0 (sb_budget b) u = granted (owned u gs)"
    using b u by (simp_all add: budget_ok_def)
  show "map_of (sb_safe ?c) u = (if owned u (gs @ [f]) = [] then None else Some (all_verified h (owned u (gs @ [f]))))"
    using old step_safe [OF f(1) u, of h quotas b] by (auto simp: fits_def)
  show "look 0 (sb_budget ?c) u = granted (owned u (gs @ [f]))" if "all_verified h (owned u (gs @ [f]))"
    using old that by (auto simp: step_budget fits_def split: if_splits)
qed

lemma budgets_ok:
  assumes "distinct (map nf_id fs)" "\<forall>f\<in>set fs. owner_ok f"
  shows "budget_ok h quotas fs (budgets h quotas fs)"
  using assms
proof (induction fs rule: rev_induct)
  case Nil
  then show ?case by (simp add: budget_ok_def budgets_def owned_def look_def)
next
  case (snoc f fs)
  then show ?case using budget_step_ok [of h quotas fs "budgets h quotas fs" f] by (simp add: budgets_def)
qed

definition final_verdict :: "(string \<Rightarrow> int) \<Rightarrow> smb_budget \<Rightarrow> nas_folder \<Rightarrow> bool \<Rightarrow> bool" where
  "final_verdict quotas b f v \<longleftrightarrow>
     v \<and> \<not> (nf_private f \<and> quotas (fol_owner (nf_row f)) > 0 \<and>
        (\<not> look False (sb_safe b) (fol_owner (nf_row f)) \<or>
         look 0 (sb_budget b) (fol_owner (nf_row f)) > quotas (fol_owner (nf_row f))))"

lemma final_step_look:
  "look False (final_step quotas b f m) i =
     (if i = nf_id f then final_verdict quotas b f (look False m i) else look False m i)"
  by (auto simp: final_step_def Let_def nf_id_def final_verdict_def)

lemma final_steps_outside:
  "i \<notin> nf_id ` set fs \<Longrightarrow> look False (fold (final_step quotas b) fs m) i = look False m i"
  by (induction fs arbitrary: m) (auto simp: final_step_look)

lemma final_steps_look:
  assumes "distinct (map nf_id fs)" "f \<in> set fs"
  shows "look False (fold (final_step quotas b) fs m) (nf_id f) = final_verdict quotas b f (look False m (nf_id f))"
  using assms
proof (induction fs arbitrary: m)
  case (Cons g fs)
  show ?case
  proof (cases "g = f")
    case True
    then show ?thesis using Cons.prems by (simp add: final_steps_outside final_step_look)
  next
    case False
    then have f: "f \<in> set fs" and other: "nf_id f \<noteq> nf_id g" using Cons.prems by (auto, metis imageI)
    then show ?thesis using Cons.IH [OF _ f] Cons.prems by (simp add: final_step_look)
  qed
qed simp

lemma writable_folders_exact:
  assumes "distinct (map nf_id fs)" "\<forall>g\<in>set fs. owner_ok g" "f \<in> set fs"
    and quotas: "\<forall>u. 0 \<le> quotas u \<and> quotas u \<le> max_int64"
  shows "smb_writable_folders h quotas fs (nf_id f) \<longleftrightarrow> share_writable h quotas fs f"
proof -
  let ?b = "budgets h quotas fs" and ?u = "fol_owner (nf_row f)"
  have b: "budget_ok h quotas fs ?b" using budgets_ok [OF assms(1,2)] .
  have "smb_writable_folders h quotas fs (nf_id f) \<longleftrightarrow> final_verdict quotas ?b f (first_pass h quotas f)"
    using b assms(3) final_steps_look [OF assms(1,3)]
    by (simp add: smb_writable_folders_def Let_def budget_ok_def)
  moreover have "final_verdict quotas ?b f (first_pass h quotas f) \<longleftrightarrow> share_writable h quotas fs f"
  proof (cases "nf_private f \<and> quotas ?u > 0")
    case True
    then have own: "?u \<noteq> []" "f \<in> set (owned ?u fs)" "owned ?u fs \<noteq> []"
      using assms(2,3) by (auto simp: owner_ok_def owned_def dest: filter_empty_conv [THEN iffD1])
    then have safe: "look False (sb_safe ?b) ?u \<longleftrightarrow> all_verified h (owned ?u fs)"
        "all_verified h (owned ?u fs) \<Longrightarrow> look 0 (sb_budget ?b) ?u = granted (owned ?u fs)"
      using b by (auto simp: budget_ok_def look_def)
    have range: "quotas ?u \<le> max_int64" using quotas by simp
    have "limit_verified h f" if "all_verified h (owned ?u fs) \<or> (\<forall>g\<in>set (owned ?u fs). limit_verified h g)"
      using that own by (auto simp: all_verified_def)
    with True safe range show ?thesis
      by (auto simp: final_verdict_def share_writable_def first_pass_def all_verified_def Let_def limit_verified_def)
  next
    case False
    then have "nf_private f \<Longrightarrow> quotas ?u = 0" using quotas by (metis order_antisym not_less)
    with False show ?thesis by (auto simp: final_verdict_def share_writable_def first_pass_def Let_def)
  qed
  ultimately show ?thesis by simp
qed


lemma listed_owner_ok:
  assumes "nas_ok s" "f \<in> set (list_nas_folders s)"
  shows "owner_ok f"
proof -
  obtain r where "r \<in> set (nas_folders s)" "folder_view s r = Some f"
    using assms(2) by (auto simp: list_nas_folders_def List.map_filter_def)
  then have "nf_row f = r" "folder_ok s r" using assms(1) by (auto simp: folder_view_def nas_ok_def)
  then show ?thesis by (auto simp: owner_ok_def nf_private_def folder_ok_def)
qed

text \<open>C36. Over the network shares a folder may be written to in exactly these cases: a folder with a limit
  in the kernel, when the kernel enforces that limit; a folder with none, when it has no quota;
  and of a user with a quota only when every private folder of the user has an enforced limit and the
  limits together are within the quota.  The two passes with their budgets decide exactly this.\<close>

theorem shares_writable_exactly:
  assumes "nas_ok s" "f \<in> set (list_nas_folders s)" "\<forall>u. user_quota u s \<le> max_int64"
  shows "smb_writable_folders h (\<lambda>u. user_quota u s) (list_nas_folders s) (nf_id f) \<longleftrightarrow>
     share_writable h (\<lambda>u. user_quota u s) (list_nas_folders s) f"
proof (rule writable_folders_exact)
  have "0 \<le> q" if "map_of (nas_user_quotas s) u = Some q" for u q
    using assms(1) map_of_SomeD [OF that] by (auto simp: nas_ok_def)
  then show "\<forall>u. 0 \<le> user_quota u s \<and> user_quota u s \<le> max_int64"
    using assms(3) by (auto simp: user_quota_def split: option.splits)
qed (use assms listed_folders(1) listed_owner_ok in auto)

definition quota_nas :: nas where
  "quota_nas = fold (run_nas_op plain_lower)
     [ManageFolder ''nsf_1'' ''Ben'' 8192 8192 [] 8, SetQuota ''usr_2'' 10000] sample_stored_nas"

definition quota_kernel :: quota_helper where
  "quota_kernel = \<lparr>hq_usage = (\<lambda>_ _. Inr \<lparr>used_bytes = 0, reserved_bytes = 0\<rparr>),
     hq_project = (\<lambda>_ _. Inr \<lparr>qs_limit = 8192, qs_used = 4096\<rparr>)\<rparr>"

lemma quota_nas_folders:
  "map (\<lambda>f. (nf_id f, fol_pool (nf_row f), fol_kind (nf_row f), fol_owner (nf_row f), fol_quota (nf_row f),
      fol_hard (nf_row f), nf_project f, pool_reserve (nf_pool f))) (list_nas_folders quota_nas) =
   [(''nsf_1'', ''nsp_1'', ''private'', ''usr_2'', 8192, 8192, 1, 5),
    (''nsf_2'', ''nsp_1'', ''shared'', [], 0, 0, 2, 5)]"
  by code_simp


definition quota_root :: path where
  "quota_root = [''mnt'', ''home-ai-core'', ''data'', data_root_name]"

definition quota_disk :: disk where
  "quota_disk = \<lparr>entries = map (\<lambda>p. (p, Directory))
     [[''mnt''], [''mnt'', ''home-ai-core''], [''mnt'', ''home-ai-core'', ''data''], quota_root,
      quota_root @ [''users''], quota_root @ [''users'', ''usr_2''], quota_root @ [''users'', ''usr_2'', ''nsf_1''],
      quota_root @ [''shared''], quota_root @ [''shared'', ''nsf_2'']], faults = []\<rparr>"

definition quota_capacity :: capacity where
  "quota_capacity = \<lparr>cap_total = 100000000, cap_free = 90000000\<rparr>"

lemma quota_allowed:
  "map_option (\<lambda>f. fst (file_write_allowance sample_env quota_kernel (Inr quota_capacity) (Inr quota_capacity)
     quota_nas f [] quota_disk)) (List.find (\<lambda>f. nf_id f = ''nsf_1'') (list_nas_folders quota_nas)) = Some (Inr 4096)"
  by code_simp

lemma quota_nas_ok: "nas_ok quota_nas"
proof -
  have "nas_ok sample_stored_nas"
    unfolding sample_stored_nas_def by (rule nas_ok_reachable) (simp add: sample_nas_def nas_ok_new)
  then show ?thesis unfolding quota_nas_def by (rule nas_ok_reachable)
qed

lemma quota_folders_hard: "g \<in> set (list_nas_folders quota_nas) \<Longrightarrow> fol_hard (nf_row g) \<le> max_int64"
  using quota_nas_folders by (auto simp: map_eq_Cons_conv max_int64_def)


theorem safe_hard_limit_keeps_reserve_witness:
  "uint (10 + 29296 :: 64 word) * 1024 - 10 * 1024 \<le> 90000000 - 60000000"
  using safe_hard_limit_keeps_reserve [of 120000000 90000000 10 50 "10 + 29296"]
  by (simp add: safe_hard_limit_def percent_bytes_def Let_def)

theorem shares_writable_exactly_witness:
  "smb_writable_folders quota_kernel (\<lambda>u. user_quota u quota_nas) (list_nas_folders quota_nas) ''nsf_1''"
proof -
  have "map fst (nas_user_quotas quota_nas) = [''usr_2''] \<and> map snd (nas_user_quotas quota_nas) = [10000]"
    by code_simp
  then have q: "nas_user_quotas quota_nas = [(''usr_2'', 10000)]"
    by (auto simp: map_eq_Cons_conv)
  obtain f g where fs: "list_nas_folders quota_nas = [f, g]"
    and f: "nf_id f = ''nsf_1''" "fol_kind (nf_row f) = ''private''" "fol_owner (nf_row f) = ''usr_2''"
      "fol_hard (nf_row f) = 8192" "nf_project f = 1" and g: "fol_kind (nf_row g) = ''shared''"
    using quota_nas_folders by (auto simp: map_eq_Cons_conv)
  have "\<forall>u. user_quota u quota_nas \<le> max_int64" by (simp add: user_quota_def q max_int64_def)
  moreover have "share_writable quota_kernel (\<lambda>u. user_quota u quota_nas) [f, g] f"
    using f g by (simp add: share_writable_def limit_verified_def project_status_def quota_kernel_def kernel_limit_def
        owned_def nf_private_def granted_def user_quota_def q)
  ultimately show ?thesis
    using shares_writable_exactly [OF quota_nas_ok, of f quota_kernel] fs f(1) by simp
qed

end
