(* ===== verification/UpdateBundle.thy ===== *)
theory UpdateBundle
  imports FolderRemoval
begin

text \<open>
  The bundle of an update, on a disk whose calls may fail: \<open>src/internal/updater/manifest.go\<close>,
  \<open>verify.go\<close>, \<open>signed_archive.go\<close> and the extraction in \<open>service.go\<close>.  JSON, SHA-256, the readers of
  gzip and tar, and the decoding and checking of Ed25519 keys and signatures are arguments.
\<close>

section \<open>Manifests\<close>

record manifest_file =
  mf_path :: string
  mf_sha :: string
  mf_size :: int

record update_manifest =
  um_schema :: int
  um_product :: string
  um_version :: string
  um_arch :: string
  um_protocol :: int
  um_helper_version :: string
  um_files :: "manifest_file list"

text \<open>
  One entry of a tar archive: the bytes the reader gives for it, at most \<open>te_size\<close>, and the error
  it ends with, if any.  An archive is the error of opening it, or its entries and how it ends.
\<close>

datatype tar_type = Tar_dir | Tar_file | Tar_other

record tar_entry =
  te_name :: string
  te_type :: tar_type
  te_size :: int
  te_data :: string
  te_error :: "go_error option"

record update_env =
  ue_manifest :: "string \<Rightarrow> update_manifest res"
  ue_sha :: "string \<Rightarrow> string"
  ue_lower :: "nat \<Rightarrow> nat"
  ue_archive :: "string \<Rightarrow> (tar_entry list \<times> go_error option) res"
  ue_public_key :: "string \<Rightarrow> string res"
  ue_base64 :: "string \<Rightarrow> string option"
  ue_signed :: "string \<Rightarrow> string \<Rightarrow> string \<Rightarrow> bool"

text \<open>\<open>seen\<close> are the paths before; the flags say whether the core, the web files and the helper are listed.\<close>

definition manifest_path_ok :: "string \<Rightarrow> bool" where
  "manifest_path_ok p \<longleftrightarrow>
     path_clean p = p \<and> \<not> has_prefix p (''..'' @ [slash]) \<and> \<not> has_prefix p [slash]"

fun check_manifest_files :: "(nat \<Rightarrow> nat) \<Rightarrow> manifest_file list \<Rightarrow> string list \<Rightarrow> go_error option" where
  "check_manifest_files low [] seen = None"
| "check_manifest_files low (f # fs) seen =
     (if \<not> manifest_path_ok (mf_path f) then Some (Err ''update manifest contains unsafe path'')
      else if length (mf_sha f) \<noteq> 64 \<or> to_lower low (mf_sha f) \<noteq> mf_sha f \<or> mf_size f < 0
      then Some (Err ''update manifest contains invalid file metadata'')
      else if hex_decode (mf_sha f) = None then Some (Err ''update manifest contains invalid checksum'')
      else if mf_path f \<in> set seen then Some (Err ''update manifest contains duplicate file path'')
      else check_manifest_files low fs (mf_path f # seen))"

definition core_file :: string where "core_file = ''bin/home-ai-core''"
definition helper_file :: string where "helper_file = ''helper/home-ai-core-updater''"

definition lists_web :: "update_manifest \<Rightarrow> bool" where
  "lists_web m \<longleftrightarrow> (\<exists>f\<in>set (um_files m). has_prefix (mf_path f) ''web/'')"

definition validate_update_manifest :: "(nat \<Rightarrow> nat) \<Rightarrow> update_manifest \<Rightarrow> go_error option" where
  "validate_update_manifest low m =
     (if um_schema m \<noteq> 1 then Some (Err ''unsupported update manifest schema'')
      else if um_product m \<noteq> ''home-ai-core'' then Some (Err ''unexpected update product'')
      else if trim_space (um_version m) = [] \<or> trim_space (um_arch m) = []
      then Some (Err ''update manifest is missing version or architecture'')
      else if um_files m = [] then Some (Err ''update manifest has no files'')
      else case check_manifest_files low (um_files m) [] of
        Some e \<Rightarrow> Some e
      | None \<Rightarrow>
          if core_file \<notin> mf_path ` set (um_files m) \<or> \<not> lists_web m
          then Some (Err ''update manifest is missing core binary or web files'')
          else if um_protocol m \<noteq> 0 \<and>
            (um_protocol m < 1 \<or> trim_space (um_helper_version m) = [] \<or> helper_file \<notin> mf_path ` set (um_files m))
          then Some (Err ''update manifest has invalid updater helper metadata'')
          else None)"

section \<open>Signed checksums\<close>

definition verify_checksum_signature :: "update_env \<Rightarrow> string \<Rightarrow> string \<Rightarrow> string \<Rightarrow> unit res" where
  "verify_checksum_signature env checksum signature pem =
     bind_res (ue_public_key env pem) (\<lambda>key.
     case ue_base64 env (trim_space signature) of
       None \<Rightarrow> Inl (Err ''update signature is not valid base64'')
     | Some sig \<Rightarrow>
         if length sig \<noteq> 64 then Inl (Err ''update signature has invalid length'')
         else if \<not> ue_signed env key checksum sig
         then Inl (Err ''update detached signature verification failed'')
         else Inr ())"

text \<open>The digest that a checksum file gives for a file; the errors are those of the caller.\<close>

definition checksum_digest ::
  "update_env \<Rightarrow> string \<Rightarrow> string \<Rightarrow> string \<Rightarrow> string \<Rightarrow> string \<Rightarrow> string res" where
  "checksum_digest env wrong_name wrong_length not_hex data expected_file =
     (case text_fields data of
        [digest0, name] \<Rightarrow>
          if trim_prefix name ''*'' \<noteq> expected_file then Inl (Err wrong_name)
          else let hash = to_lower (ue_lower env) digest0 in
            if length hash \<noteq> 64 then Inl (Err wrong_length)
            else if hex_decode hash = None then Inl (Err not_hex) else Inr hash
      | _ \<Rightarrow> Inl (Err wrong_name))"

definition verify_signed_checksum :: "update_env \<Rightarrow> string \<Rightarrow> string \<Rightarrow> string \<Rightarrow> string \<Rightarrow> string res" where
  "verify_signed_checksum env checksum signature key expected_file =
     (if length checksum > 4096 \<or> length signature > 4096 \<or> length key > 4096
      then Inl (Err ''update trust metadata exceeds limit'')
      else bind_res (verify_checksum_signature env checksum signature key) (\<lambda>_.
        checksum_digest env ''signed checksum archive name mismatch'' ''invalid signed archive digest''
          ''encoding/hex: invalid byte'' checksum expected_file))"

section \<open>Verification of a prepared bundle\<close>

definition relative_text :: "path \<Rightarrow> path \<Rightarrow> string" where
  "relative_text root p = (if p = root then ''.'' else join_on slash (drop (length root) p))"

fun check_prepared_files :: "update_env \<Rightarrow> path \<Rightarrow> manifest_file list \<Rightarrow> unit io" where
  "check_prepared_files env root [] = ret ()"
| "check_prepared_files env root (f # fs) =
     (let p = join_path root (mf_path f) in
      bind_io (or_else (lstat p) (ret ()) (Wrapf ''stat update file %q: %w'' [mf_path f])) (\<lambda>k.
      bind_io (guard_io (is_regular k) (Errf ''update file %q is not a regular file'' [mf_path f])) (\<lambda>_.
      bind_io (guard_io (int (file_size k ''file'') = mf_size f) (Errf ''update file %q size mismatch'' [mf_path f])) (\<lambda>_.
      bind_io (open_read p) (\<lambda>q.
      bind_io (or_else (read_handle q) close_handle id) (\<lambda>data.
      bind_io close_handle (\<lambda>_.
      bind_io (guard_io (hex_text (ue_sha env data) = mf_sha f) (Errf ''update file %q checksum mismatch'' [mf_path f])) (\<lambda>_.
      check_prepared_files env root fs))))))))"

text \<open>The visit of one entry by \<open>WalkDir\<close>; the directories are read on the way.\<close>

definition check_expected :: "string list \<Rightarrow> path \<Rightarrow> path \<Rightarrow> unit io" where
  "check_expected paths root p =
     (let rel = relative_text root p in
      if rel = ''manifest.json'' then ret ()
      else bind_io (guard_io (\<not> has_prefix rel (''..'' @ [slash]) \<and> \<not> has_prefix rel [slash])
                     (Errf ''unsafe prepared update path %q'' [rel])) (\<lambda>_.
           guard_io (rel \<in> set paths) (Errf ''unexpected prepared update file %q'' [rel])))"

fun check_entries :: "string list \<Rightarrow> path \<Rightarrow> (path \<times> item) list \<Rightarrow> unit io" where
  "check_entries paths root [] = ret ()"
| "check_entries paths root ((p, k) # es) =
     bind_io (if k = Directory then bind_io (read_dir p) (\<lambda>_. ret ()) else check_expected paths root p)
       (\<lambda>_. check_entries paths root es)"

definition walk_prepared :: "string list \<Rightarrow> path \<Rightarrow> unit io" where
  "walk_prepared paths root =
     bind_io (lstat root) (\<lambda>k.
     if k = Directory then bind_io (read_root root) (check_entries paths root)
     else check_expected paths root root)"

definition verify_prepared_bundle :: "update_env \<Rightarrow> string \<Rightarrow> path \<Rightarrow> string \<Rightarrow> update_manifest io" where
  "verify_prepared_bundle env arch root version =
     bind_io (wrapping (read_file (root @ [''manifest.json''])) ''read update manifest: '') (\<lambda>data.
     bind_io (wrapping (lift_res (ue_manifest env data)) ''decode update manifest: '') (\<lambda>m.
     bind_io (lift_res (case validate_update_manifest (ue_lower env) m of Some e \<Rightarrow> Inl e | None \<Rightarrow> Inr ())) (\<lambda>_.
     bind_io (guard_io (um_version m = version)
               (Errf ''manifest version %q does not match %q'' [um_version m, version])) (\<lambda>_.
     bind_io (guard_io (um_arch m = arch)
               (Errf ''manifest architecture %q does not match host %q'' [um_arch m, arch])) (\<lambda>_.
     bind_io (check_prepared_files env root (um_files m)) (\<lambda>_.
     bind_io (walk_prepared (map mf_path (um_files m)) root) (\<lambda>_.
     ret m)))))))"

section \<open>Extraction of an archive\<close>

definition max_bundle_bytes :: int where "max_bundle_bytes = 536870912"
definition max_extracted_bytes :: int where "max_extracted_bytes = 805306368"
definition max_bundle_files :: nat where "max_bundle_files = 20000"

definition stat :: "path \<Rightarrow> item io" where
  "stat p = query (at_real True p (\<lambda>q i. case i of None \<Rightarrow> Inl ENOENT | Some k \<Rightarrow> Inr k))"

text \<open>\<open>os.MkdirAll\<close>: a directory that appeared in between is accepted.\<close>

definition mkdir_or_there :: "path \<Rightarrow> unit io" where
  "mkdir_or_there p = attempt (mkdir p) (\<lambda>r. case r of
     Inr _ \<Rightarrow> ret ()
   | Inl e \<Rightarrow> attempt (lstat p) (\<lambda>r'. if r' = Inr Directory then ret () else throw e))"

function mkdir_all :: "path \<Rightarrow> unit io" where
  "mkdir_all p =
     attempt (stat p) (\<lambda>r. case r of
       Inr k \<Rightarrow> if k = Directory then ret () else throw (ErrSys ENOTDIR)
     | Inl _ \<Rightarrow>
         if p = [] then mkdir_or_there p
         else bind_io (mkdir_all (butlast p)) (\<lambda>_. mkdir_or_there p))"
  by pat_completeness auto
termination
  by (relation "measure length") auto

declare mkdir_all.simps [simp del]

record extraction =
  ex_files :: nat
  ex_total :: int
  ex_hashes :: "(string \<times> string) list"

text \<open>The checks of an entry's name, and the place it goes to.\<close>

definition entry_target :: "path \<Rightarrow> tar_entry \<Rightarrow> (string \<times> path) res" where
  "entry_target target e =
     (let raw = te_name e; name = path_clean raw; p = join_path target name in
      if name = ''.'' \<or> has_prefix name (''..'' @ [slash]) \<or> has_prefix raw [slash] \<or>
         (if te_type e = Tar_dir then raw \<noteq> name \<and> raw \<noteq> name @ [slash] else raw \<noteq> name)
      then Inl (Err ''update archive contains unsafe path'')
      else if \<not> strict_prefix target p then Inl (Err ''update archive path escapes staging directory'')
      else Inr (name, p))"

definition write_entry :: "path \<Rightarrow> tar_entry \<Rightarrow> string io" where
  "write_entry p e =
     bind_io (create_excl p) (\<lambda>q.
     bind_io (or_else (append_to q (te_data e)) close_handle id) (\<lambda>_.
     case te_error e of
       Some err \<Rightarrow> bind_io (ignore close_handle) (\<lambda>_. throw err)
     | None \<Rightarrow>
         bind_io close_handle (\<lambda>_.
         bind_io (guard_io (int (length (te_data e)) = te_size e) (Err ''update archive file size mismatch'')) (\<lambda>_.
         ret (te_data e)))))"

definition extract_file :: "update_env \<Rightarrow> string \<Rightarrow> path \<Rightarrow> tar_entry \<Rightarrow> extraction \<Rightarrow> extraction io" where
  "extract_file env name p e x =
     bind_io (guard_io (\<not> (Suc (ex_files x) > max_bundle_files \<or> te_size e < 0))
               (Err ''update archive exceeds file limits'')) (\<lambda>_.
     let all = wrap64 (ex_total x + te_size e) in
     bind_io (guard_io (\<not> all > max_extracted_bytes) (Err ''update archive exceeds extracted size limit'')) (\<lambda>_.
     bind_io (mkdir_all (butlast p)) (\<lambda>_.
     bind_io (write_entry p e) (\<lambda>data.
     ret \<lparr>ex_files = Suc (ex_files x), ex_total = all,
          ex_hashes = (name, hex_text (ue_sha env data)) # ex_hashes x\<rparr>))))"

definition extract_entry :: "update_env \<Rightarrow> path \<Rightarrow> tar_entry \<Rightarrow> extraction \<Rightarrow> extraction io" where
  "extract_entry env target e x =
     bind_io (lift_res (entry_target target e)) (\<lambda>(name, p).
     case te_type e of
       Tar_dir \<Rightarrow> bind_io (mkdir_all p) (\<lambda>_. ret x)
     | Tar_file \<Rightarrow> extract_file env name p e x
     | Tar_other \<Rightarrow> throw (Err ''update archive contains unsupported entry type''))"

fun extract_entries :: "update_env \<Rightarrow> path \<Rightarrow> tar_entry list \<Rightarrow> extraction \<Rightarrow> extraction io" where
  "extract_entries env target [] x = ret x"
| "extract_entries env target (e # es) x =
     bind_io (extract_entry env target e x) (extract_entries env target es)"

fun check_extracted :: "path \<Rightarrow> (string \<times> string) list \<Rightarrow> manifest_file list \<Rightarrow> unit io" where
  "check_extracted target hashes [] = ret ()"
| "check_extracted target hashes (f # fs) =
     bind_io (guard_io (map_of hashes (mf_path f) \<noteq> None) (Errf ''update file %q is missing'' [mf_path f])) (\<lambda>_.
     bind_io (stat (join_path target (mf_path f))) (\<lambda>k.
     bind_io (guard_io (int (file_size k ''file'') = mf_size f) (Errf ''update file %q size mismatch'' [mf_path f])) (\<lambda>_.
     bind_io (guard_io (map_of hashes (mf_path f) = Some (mf_sha f))
               (Errf ''update file %q checksum mismatch'' [mf_path f])) (\<lambda>_.
     check_extracted target hashes fs))))"

definition match_manifest :: "path \<Rightarrow> extraction \<Rightarrow> update_manifest \<Rightarrow> unit io" where
  "match_manifest target x m =
     bind_io (check_extracted target (ex_hashes x) (um_files m)) (\<lambda>_.
     case List.find (\<lambda>p. p \<noteq> ''manifest.json'' \<and> p \<notin> mf_path ` set (um_files m)) (map fst (ex_hashes x)) of
       Some p \<Rightarrow> throw (Errf ''unexpected file %q in update bundle'' [p])
     | None \<Rightarrow> ret ())"

definition extract_and_verify_bundle :: "update_env \<Rightarrow> path \<Rightarrow> path \<Rightarrow> string \<Rightarrow> string \<Rightarrow> unit io" where
  "extract_and_verify_bundle env archive target version arch =
     bind_io (open_read archive) (\<lambda>q.
     bind_io (read_handle q) (\<lambda>bytes.
     bind_io (wrapping (lift_res (ue_archive env bytes)) ''open update gzip: '') (\<lambda>(es, ending).
     bind_io (extract_entries env target es \<lparr>ex_files = 0, ex_total = 0, ex_hashes = []\<rparr>) (\<lambda>x.
     bind_io (lift_res (case ending of Some err \<Rightarrow> Inl (Wrap ''read update archive: '' err) | None \<Rightarrow> Inr ())) (\<lambda>_.
     bind_io (or_else (read_file (target @ [''manifest.json''])) (ret ()) (\<lambda>_. Err ''update manifest is missing'')) (\<lambda>data.
     bind_io (wrapping (lift_res (ue_manifest env data)) ''decode update manifest: '') (\<lambda>m.
     bind_io (lift_res (case validate_update_manifest (ue_lower env) m of Some e \<Rightarrow> Inl e | None \<Rightarrow> Inr ())) (\<lambda>_.
     bind_io (guard_io (um_version m = version) (Err ''update manifest version mismatch'')) (\<lambda>_.
     bind_io (guard_io (um_arch m = arch) (Err ''update manifest architecture mismatch'')) (\<lambda>_.
     match_manifest target x m))))))))))"

end
