(* ===== verification/BundleSafety.thy ===== *)
theory BundleSafety
  imports UpdateBundle
begin

text \<open>
  What the functions of UpdateBundle guarantee, for every disk and every failing of its calls: a
  verified bundle is exactly what its manifest lists, and the extraction of an archive stays in its
  directory.
\<close>

section \<open>What a verified bundle is\<close>

lemma wp_check_expected:
  assumes "\<And>e. Q (Inl e) t"
    and "relative_text root p = ''manifest.json'' \<or> relative_text root p \<in> set paths \<Longrightarrow> Q (Inr ()) t"
  shows "wp (check_expected paths root p) Q t"
  using assms by (auto simp: check_expected_def Let_def intro!: wp_bind)

definition expected_at :: "string list \<Rightarrow> path \<Rightarrow> path \<Rightarrow> bool" where
  "expected_at paths root p \<longleftrightarrow>
     relative_text root p = ''manifest.json'' \<or> relative_text root p \<in> set paths"

lemma wp_check_entries:
  assumes "\<forall>(p, k)\<in>set es. clear_path t p \<and> item_at t p = Some k"
    and "\<And>e. Q (Inl e) t"
    and "(\<forall>(p, k)\<in>set es. k \<noteq> Directory \<longrightarrow> expected_at paths root p) \<Longrightarrow> Q (Inr ()) t"
  shows "wp (check_entries paths root es) Q t"
  using assms
proof (induction es)
  case (Cons e es)
  obtain p k where e: "e = (p, k)" by (cases e)
  have rest: "wp (check_entries paths root es) Q t" if "k \<noteq> Directory \<longrightarrow> expected_at paths root p"
    using Cons that by (intro Cons.IH) (auto simp: e)
  show ?case
  proof (cases "k = Directory")
    case True
    then have "clear_path t p" "item_at t p = Some Directory" using Cons.prems(1) e by auto
    then show ?thesis
      using True rest Cons.prems(2)
      by (auto simp: e intro!: wp_bind [of "read_dir p"] wp_bind wp_read_dir)
  next
    case False
    then show ?thesis
      using rest Cons.prems(2) by (auto simp: e expected_at_def intro!: wp_bind wp_check_expected)
  qed
qed simp

definition only_expected :: "tree \<Rightarrow> path \<Rightarrow> string list \<Rightarrow> bool" where
  "only_expected t root paths \<longleftrightarrow>
     (\<forall>p. reachable_below t root p \<and> item_at t p \<noteq> Some Directory \<longrightarrow> expected_at paths root p)"

lemma wp_walk_prepared:
  assumes root: "real_dir t root" and names: "well_named t"
    and e: "\<And>e. Q (Inl e) t" and k: "only_expected t root paths \<Longrightarrow> Q (Inr ()) t"
  shows "wp (walk_prepared paths root) Q t"
proof -
  let ?es = "map (\<lambda>p. (p, the (item_at t p))) (visited t root)"
  have clear: "clear_path t root" and dir: "item_at t root = Some Directory"
    using root by (simp_all add: real_dir_def)
  have "wp (check_entries paths root ?es) Q t"
  proof (rule wp_check_entries, goal_cases)
    case 1
    show ?case
      using reachable_clear [OF root _ visited_ok [OF names]] visited_set(1)
      by (auto simp: reachable_below_def)
  next
    case 3
    then have "only_expected t root paths"
      using visited_set(1) [of t root] by (auto simp: only_expected_def reachable_below_def)
    then show ?case by (rule k)
  qed (rule e)
  then show ?thesis
    unfolding walk_prepared_def
    by (intro wp_bind wp_lstat_clear [OF clear]) (auto simp: dir e intro!: wp_bind wp_read_root [OF clear dir])
qed

definition file_checked :: "update_env \<Rightarrow> tree \<Rightarrow> path \<Rightarrow> manifest_file \<Rightarrow> bool" where
  "file_checked env t root f \<longleftrightarrow>
     (\<exists>q c. real_path False t (join_path root (mf_path f)) = Inr q \<and> item_at t q = Some (Regular c) \<and>
        int (length c) = mf_size f) \<and>
     (\<exists>q c. real_path True t (join_path root (mf_path f)) = Inr q \<and> item_at t q = Some (Regular c) \<and>
        hex_text (ue_sha env c) = mf_sha f)"

lemma wp_lstat_raw:
  assumes "\<And>e. Q (Inl e) t"
    and "\<And>q k. real_path False t p = Inr q \<Longrightarrow> item_at t q = Some k \<Longrightarrow> Q (Inr k) t"
  shows "wp (lstat p) Q t"
  unfolding lstat_def using assms
  by (intro wp_query) (auto simp: at_real_def split: sum.splits option.splits)

lemma wp_open_raw:
  assumes "\<And>e. Q (Inl e) t"
    and "\<And>q k. real_path True t p = Inr q \<Longrightarrow> item_at t q = Some k \<Longrightarrow> Q (Inr q) t"
  shows "wp (open_read p) Q t"
  unfolding open_read_def using assms
  by (intro wp_query) (auto simp: at_real_def split: sum.splits option.splits)

lemma wp_read_raw:
  assumes "\<And>e. Q (Inl e) t"
    and "\<And>c. item_at t q = Some (Regular c) \<Longrightarrow> Q (Inr c) t"
  shows "wp (read_handle q) Q t"
  unfolding read_handle_def using assms by (intro wp_query) (auto split: option.splits item.splits)

lemma wp_read_file_raw:
  assumes "\<And>e. Q (Inl e) t"
    and "\<And>q c. real_path True t p = Inr q \<Longrightarrow> item_at t q = Some (Regular c) \<Longrightarrow> Q (Inr c) t"
  shows "wp (read_file p) Q t"
  unfolding read_file_def using assms
  by (intro wp_query) (auto simp: at_real_def split: sum.splits option.splits item.splits)

lemma wp_close: "Q (Inr ()) t \<Longrightarrow> (\<And>e. Q (Inl e) t) \<Longrightarrow> wp close_handle Q t"
  unfolding close_handle_def by (rule wp_sys_call) auto

lemma wp_check_prepared_files:
  assumes "\<And>e. Q (Inl e) t" and "(\<forall>f\<in>set fs. file_checked env t root f) \<Longrightarrow> Q (Inr ()) t"
  shows "wp (check_prepared_files env root fs) Q t"
  using assms
proof (induction fs)
  case (Cons f fs)
  let ?p = "join_path root (mf_path f)"
  have rest: "wp (check_prepared_files env root fs) Q t" if "file_checked env t root f"
    using Cons that by (intro Cons.IH) auto
  have opened: "wp (bind_io (open_read ?p) (\<lambda>q.
      bind_io (or_else (read_handle q) close_handle id) (\<lambda>data.
      bind_io close_handle (\<lambda>_.
      bind_io (guard_io (hex_text (ue_sha env data) = mf_sha f) (Errf ''update file %q checksum mismatch'' [mf_path f])) (\<lambda>_.
      check_prepared_files env root fs))))) Q t"
    if "real_path False t ?p = Inr q" "item_at t q = Some (Regular c)" "int (length c) = mf_size f" for q c
    using that Cons.prems(1) rest
    by (auto simp: file_checked_def intro!: wp_bind wp_open_raw wp_or_else wp_read_raw wp_close)
  show ?case
    unfolding check_prepared_files.simps Let_def
    using Cons.prems(1) opened
    by (auto simp: file_size_def is_regular_def intro!: wp_bind wp_or_else wp_lstat_raw split: item.splits)
qed simp

text \<open>In a tree of a disk every entry is in a directory.\<close>

definition closed_tree :: "tree \<Rightarrow> bool" where
  "closed_tree t \<longleftrightarrow> (\<forall>p x. item_at t (p @ [x]) \<noteq> None \<longrightarrow> item_at t p = Some Directory)"

lemma closed_butlast: "closed_tree t \<Longrightarrow> item_at t p \<noteq> None \<Longrightarrow> item_at t (butlast p) = Some Directory"
  by (cases p rule: rev_cases) (auto simp: closed_tree_def)

text \<open>A walk that goes on after \<open>xs\<close> has reached a directory there.\<close>

lemma walk_through:
  "closed_tree t \<Longrightarrow> walk n f t cur zs = Inr q \<Longrightarrow> item_at t cur = Some Directory \<Longrightarrow> zs = xs @ y # ys \<Longrightarrow>
     \<exists>c. walk n True t cur xs = Inr c \<and> item_at t c = Some Directory"
proof (induction n f t cur zs arbitrary: xs rule: walk.induct)
  case (2 n f t cur z zs)
  show ?case
  proof (cases xs)
    case (Cons x xs')
    then have z: "z = x" "zs = xs' @ y # ys" using "2.prems"(4) by simp_all
    have run: "walk n f t cur (x # xs' @ y # ys) = Inr q" and dir: "item_at t cur = Some Directory"
      using "2.prems"(2,3) z by simp_all
    consider (skip) "x = [] \<or> x = ''.''" | (up) "x = ''..''" | (name) "\<not> (x = [] \<or> x = ''.'')" "x \<noteq> ''..''" by blast
    then show ?thesis
    proof cases
      case skip
      then show ?thesis using "2.IH"(1) [unfolded z, of xs'] skip "2.prems"(1) dir run Cons by auto
    next
      case up
      have "item_at t (butlast cur) = Some Directory" by (rule closed_butlast [OF "2.prems"(1)]) (simp add: dir)
      then show ?thesis using "2.IH"(2) [unfolded z, of xs'] up "2.prems"(1) run Cons by auto
    next
      case name
      show ?thesis
      proof (cases "item_at t (cur @ [x])")
        case (Some k)
        show ?thesis
        proof (cases k)
          case Directory
          then show ?thesis using "2.IH"(3) [unfolded z, of Directory xs'] name "2.prems"(1) run Some Cons by auto
        next
          case (Symlink absolute tg)
          then have n: "n \<noteq> 0" and sub: "walk (n - 1) f t (if absolute then [] else cur) ((tg @ xs') @ y # ys) = Inr q"
            using name run Some by (auto split: if_splits)
          have "item_at t (if absolute then [] else cur) = Some Directory" using dir by simp
          then have "\<exists>c. walk (n - 1) True t (if absolute then [] else cur) (tg @ xs') = Inr c \<and> item_at t c = Some Directory"
            by (intro "2.IH"(4) [unfolded z, of "Symlink absolute tg" absolute tg "tg @ xs'"])
               (use name "2.prems"(1) n Some Symlink sub in \<open>simp_all del: walk.simps\<close>)
          moreover have "walk n True t cur (x # xs') = walk (n - 1) True t (if absolute then [] else cur) (tg @ xs')"
            using name n Some Symlink by (subst walk.simps) (simp del: walk.simps)
          ultimately show ?thesis using Cons by (simp del: walk.simps)
        qed (use name run Some in auto)
      qed (use name run in auto)
    qed
  qed (use "2.prems" in auto)
qed simp

definition bundle_at :: "update_env \<Rightarrow> tree \<Rightarrow> path \<Rightarrow> update_manifest \<Rightarrow> bool" where
  "bundle_at env t root m \<longleftrightarrow>
     (\<forall>f\<in>set (um_files m). clear_path t (root @ split_on slash (mf_path f)) \<and>
        (\<exists>c. item_at t (root @ split_on slash (mf_path f)) = Some (Regular c) \<and>
             int (length c) = mf_size f \<and> hex_text (ue_sha env c) = mf_sha f)) \<and>
     (\<forall>p. reachable_below t root p \<longrightarrow>
        item_at t p = Some Directory \<or> p = root @ [''manifest.json''] \<or>
        (\<exists>f\<in>set (um_files m). p = root @ split_on slash (mf_path f)))"

lemma checked_paths:
  "check_manifest_files low fs seen = None \<Longrightarrow> f \<in> set fs \<Longrightarrow> manifest_path_ok (mf_path f)"
  by (induction fs arbitrary: seen) (auto split: if_splits)

lemma valid_paths: "validate_update_manifest low m = None \<Longrightarrow> f \<in> set (um_files m) \<Longrightarrow> manifest_path_ok (mf_path f)"
  by (auto simp: validate_update_manifest_def split: if_splits option.splits intro: checked_paths)

text \<open>A listed path is the folder itself, its parent, or goes down plain segments.\<close>

lemma clean_onto_all_plain: "\<forall>s\<in>set xs. plain s \<Longrightarrow> clean_onto b out xs = out @ xs"
  by (induction b out xs rule: clean_onto.induct) (auto simp: plain_def)

lemma manifest_path_cases:
  assumes "manifest_path_ok p"
  shows "p = ''.'' \<or> p = ''..'' \<or>
     (\<forall>s\<in>set (split_on slash p). plain s) \<and> join_path root p = root @ split_on slash p"
proof (cases "p = ''.'' \<or> p = ''..''")
  case False
  have "\<not> is_abs p" "\<not> path_escapes p" "p = path_clean p"
    using assms False by (auto simp: manifest_path_ok_def is_abs_def path_escapes_def)
  then have "\<forall>s\<in>set (split_on slash p). plain s" using clean_segments [of p p] False by auto
  then show ?thesis using clean_onto_all_plain by (simp add: join_path_def)
qed auto

text \<open>A walk from a real directory starts there.\<close>

lemma walk_from_dir:
  assumes "real_dir t root" "xs \<noteq> []"
  shows "walk n f t [] (root @ xs) = walk n f t root xs"
proof -
  have "walk n f t cur (ds @ xs) = walk n f t (cur @ ds) xs"
    if "\<forall>d\<in>set ds. plain d" "\<And>i. 0 < i \<Longrightarrow> i \<le> length ds \<Longrightarrow> item_at t (cur @ take i ds) = Some Directory" for cur ds
    using that
  proof (induction ds arbitrary: cur)
    case (Cons d ds)
    have d: "d \<noteq> []" "d \<noteq> ''.''" "d \<noteq> ''..''" using Cons.prems(1) by (auto simp: plain_def)
    have dir: "item_at t (cur @ [d]) = Some Directory" using Cons.prems(2) [of 1] by simp
    have "walk n f t (cur @ [d]) (ds @ xs) = walk n f t ((cur @ [d]) @ ds) xs"
    proof (rule Cons.IH)
      fix i assume "0 < i" "i \<le> length ds"
      then show "item_at t ((cur @ [d]) @ take i ds) = Some Directory" using Cons.prems(2) [of "Suc i"] by simp
    qed (use Cons.prems(1) in simp)
    then show ?case using d dir by (subst append_Cons, subst walk.simps) (simp del: walk.simps)
  qed simp
  moreover have "item_at t (take i root) = Some Directory" for i
    using assms(1) by (rule real_dir_prefix) (rule take_is_prefix)
  moreover have "\<forall>d\<in>set root. plain d"
    using assms(1) by (auto simp: real_dir_def clear_path_def okname_def)
  ultimately show ?thesis by simp
qed

lemma expected_file:
  assumes "expected_at (map mf_path fs) root p" "p \<noteq> root @ [''manifest.json'']" "p = root @ segs" "segs \<noteq> []"
    and "\<forall>s\<in>set segs. plain s"
  shows "\<exists>f\<in>set fs. mf_path f = join_on slash segs \<and> split_on slash (mf_path f) = segs"
proof -
  have free: "\<forall>s\<in>set segs. slash \<notin> set s" using assms(5) plain_free by blast
  then have split: "split_on slash (join_on slash segs) = segs" using assms(4) by (simp add: split_join)
  have "relative_text root p = join_on slash segs" using assms(3,4) by (simp add: relative_text_def)
  moreover have "join_on slash segs \<noteq> ''manifest.json''"
  proof
    assume "join_on slash segs = ''manifest.json''"
    then have "segs = split_on slash ''manifest.json''" using split by simp
    then show False using assms(2,3) by (simp add: slash_def)
  qed
  ultimately show ?thesis using assms(1) split by (auto simp: expected_at_def)
qed

lemma dotted_not_plain:
  assumes "split_on slash p = segs"
  shows "\<forall>s\<in>set segs. plain s \<Longrightarrow> p \<noteq> ''.''" "\<forall>s\<in>set segs. plain s \<Longrightarrow> p \<noteq> ''..''"
proof -
  have "\<not> plain s \<and> s \<in> set (split_on slash s)" if "s = ''.'' \<or> s = ''..''" for s
    using that by (elim disjE) (simp_all add: slash_def plain_def)
  then show "\<forall>s\<in>set segs. plain s \<Longrightarrow> p \<noteq> ''.''" "\<forall>s\<in>set segs. plain s \<Longrightarrow> p \<noteq> ''..''"
    using assms by blast+
qed

lemma bundle_clear:
  assumes root: "real_dir t root" and names: "well_named t" and closed: "closed_tree t"
    and manifest: "real_path True t (root @ [''manifest.json'']) = Inr q0" "item_at t q0 = Some (Regular c0)"
    and files: "\<forall>f\<in>set fs. manifest_path_ok (mf_path f) \<and> file_checked env t root f"
    and expected: "only_expected t root (map mf_path fs)" and f: "f \<in> set fs"
    and segs: "split_on slash (mf_path f) = segs" "\<forall>s\<in>set segs. plain s" "join_path root (mf_path f) = root @ segs"
  shows "clear_path t (root @ segs)"
proof -
  have run: "walk 40 False t [] (root @ segs) = Inr q" "\<forall>s\<in>set (root @ segs). CHR 0x00 \<notin> set s"
    if "real_path False t (root @ segs) = Inr q" for q
    using that by (auto simp: real_path_def split: if_splits)
  obtain q where q: "real_path False t (root @ segs) = Inr q"
    using files f segs(3) by (auto simp: file_checked_def)
  have ok: "\<forall>s\<in>set segs. okname s" using run(2) [OF q] segs(2) by (auto simp: okname_def)
  have dirs: "real_dir t (root @ ys)" if "segs = ys @ zs" "zs \<noteq> []" for ys zs
    using that
  proof (induction ys arbitrary: zs rule: rev_induct)
    case (snoc y ys)
    have dir: "real_dir t (root @ ys)" using snoc by simp
    let ?p = "root @ ys @ [y]"
    have clear: "clear_path t ?p" using dir ok snoc.prems(1) by (simp flip: append_assoc)
    have walk: "walk 40 False t (root @ ys) (y # zs) = Inr q"
      using run(1) [OF q] walk_from_dir [OF dir, of "y # zs" 40 False] snoc.prems(1) by simp
    have y: "y \<noteq> []" "y \<noteq> ''.''" "y \<noteq> ''..''" using segs(2) snoc.prems(1) by (auto simp: plain_def)
    have "item_at t ?p = Some Directory"
    proof (rule ccontr)
      assume no: "item_at t ?p \<noteq> Some Directory"
      obtain a tg where link: "item_at t ?p = Some (Symlink a tg)"
        using walk y no snoc.prems(2) by (auto split: option.splits item.splits)
      have "reachable_below t root ?p"
        using link clear by (auto simp: reachable_below_def strict_prefix_def clear_path_def)
      then have exp: "expected_at (map mf_path fs) root ?p"
        using expected no by (auto simp: only_expected_def)
      show False
      proof (cases "?p = root @ [''manifest.json'']")
        case True
        obtain z zs' where zs: "zs = z # zs'" using snoc.prems(2) by (cases zs) auto
        have "walk 40 False t [] ((root @ [''manifest.json'']) @ z # zs') = Inr q"
          using run(1) [OF q] snoc.prems(1) True zs by simp
        from walk_through [OF closed this _ refl] have "item_at t q0 = Some Directory"
          using manifest(1) by (auto simp: real_path_def simp del: walk.simps split: if_splits)
        then show False using manifest(2) by simp
      next
        case False
        have "\<forall>s\<in>set (ys @ [y]). plain s" using segs(2) snoc.prems(1) by auto
        from expected_file [OF exp False _ _ this] obtain g where
          g: "g \<in> set fs" "split_on slash (mf_path g) = ys @ [y]" by auto
        have "mf_path g \<noteq> ''.''" "mf_path g \<noteq> ''..''"
          using dotted_not_plain [OF g(2)] \<open>\<forall>s\<in>set (ys @ [y]). plain s\<close> by blast+
        then have "join_path root (mf_path g) = ?p"
          using manifest_path_cases [of "mf_path g" root] files g by auto
        moreover have "real_path False t ?p = Inr ?p" using clear by (intro real_path_clear) auto
        ultimately show False using files g(1) link by (auto simp: file_checked_def)
      qed
    qed
    then show ?case using clear by (simp add: real_dir_def)
  qed (use root in simp)
  have "segs \<noteq> []" using segs(1) by auto
  then obtain ys y where ys: "segs = ys @ [y]" by (cases segs rule: rev_cases) auto
  then show ?thesis using dirs [of ys "[y]"] ok by (simp flip: append_assoc)
qed

lemma real_dir_up:
  assumes "real_dir t root" "prefix p root"
  shows "real_dir t p"
proof -
  have "item_at t q = Some Directory" if "prefix q p" for q
    using real_dir_prefix [OF assms(1)] that assms(2) by (meson prefix_order.trans)
  moreover have "\<forall>x\<in>set p. okname x"
    using assms set_mono_prefix [OF assms(2)] by (auto simp: real_dir_def clear_path_def)
  ultimately show ?thesis by (simp add: real_dir_def clear_path_def strict_prefix_def)
qed

lemma checked_file_plain:
  assumes root: "real_dir t root" and f: "manifest_path_ok (mf_path f)" "file_checked env t root f"
  shows "(\<forall>s\<in>set (split_on slash (mf_path f)). plain s) \<and>
     join_path root (mf_path f) = root @ split_on slash (mf_path f)"
proof -
  have "join_path root (mf_path f) \<noteq> p" if "real_dir t p" for p
  proof
    assume p: "join_path root (mf_path f) = p"
    have "real_path False t p = Inr p" "item_at t p = Some Directory"
      using that real_path_clear [of t p False] by (simp_all add: real_dir_def)
    then show False using f(2) p by (auto simp: file_checked_def)
  qed
  moreover have "real_dir t root" "real_dir t (butlast root)"
    using root real_dir_up [OF root] by (simp_all add: prefixeq_butlast)
  moreover have "join_path root ''.'' = root"
    by (simp add: join_path_def slash_def)
  moreover have "join_path root ''..'' \<in> {root, butlast root}"
    by (simp add: join_path_def slash_def)
  ultimately have "mf_path f \<noteq> ''.''" "mf_path f \<noteq> ''..''" by (metis, metis insertE singletonD)
  then show ?thesis using manifest_path_cases [OF f(1), of root] by blast
qed

lemma bundle_atI:
  assumes root: "real_dir t root" and names: "well_named t" and closed: "closed_tree t"
    and manifest: "real_path True t (root @ [''manifest.json'']) = Inr q0" "item_at t q0 = Some (Regular c0)"
    and files: "\<forall>f\<in>set (um_files m). manifest_path_ok (mf_path f) \<and> file_checked env t root f"
    and expected: "only_expected t root (map mf_path (um_files m))"
  shows "bundle_at env t root m"
  unfolding bundle_at_def
proof (intro conjI ballI allI impI)
  fix f assume f: "f \<in> set (um_files m)"
  let ?p = "root @ split_on slash (mf_path f)"
  have c: "file_checked env t root f" using files f by blast
  note plain = checked_file_plain [OF root _ c] 
  show clear: "clear_path t ?p"
    using bundle_clear [OF root names closed manifest files expected f refl] plain files f by blast
  have q: "real_path False t ?p = Inr ?p" using clear by (intro real_path_clear) auto
  have "join_path root (mf_path f) = ?p" using plain files f by blast
  then obtain c where c1: "item_at t ?p = Some (Regular c)" "int (length c) = mf_size f"
    using c q by (auto simp: file_checked_def)
  then have "real_path True t ?p = Inr ?p" using clear by (intro real_path_clear) auto
  then show "\<exists>c. item_at t ?p = Some (Regular c) \<and> int (length c) = mf_size f \<and> hex_text (ue_sha env c) = mf_sha f"
    using c c1 \<open>join_path root (mf_path f) = ?p\<close> by (auto simp: file_checked_def)
next
  fix p assume p: "reachable_below t root p"
  then obtain segs where segs: "p = root @ segs" "segs \<noteq> []"
    by (auto simp: reachable_below_def strict_prefix_def prefix_def)
  have "\<forall>s\<in>set segs. plain s"
    using visited_ok [OF names, of p root] visited_set(1) [of t root] p segs(1) by (auto simp: okname_def)
  then show "item_at t p = Some Directory \<or> p = root @ [''manifest.json''] \<or>
      (\<exists>f\<in>set (um_files m). p = root @ split_on slash (mf_path f))"
    using expected_file [of "um_files m" root p segs] expected p segs
    by (auto simp: only_expected_def)
qed

text \<open>C10. What the verification of a prepared bundle accepts, whichever calls fail: a valid manifest of the
  requested version and the host's architecture, every listed file a regular file, reached without
  symbolic links, of the listed size and checksum, and nothing else below the directory but the manifest.\<close>

theorem verified_bundle_is_exact:
  assumes "real_dir (entries d) root" "well_named (entries d)" "closed_tree (entries d)"
    and "verify_prepared_bundle env arch root version d = (Inr m, d')"
  shows "entries d' = entries d \<and> validate_update_manifest (ue_lower env) m = None \<and>
     um_version m = version \<and> um_arch m = arch \<and> bundle_at env (entries d) root m"
proof -
  let ?t = "entries d"
  let ?Q = "\<lambda>r u. u = ?t \<and> (\<forall>m. r = Inr m \<longrightarrow> validate_update_manifest (ue_lower env) m = None \<and>
     um_version m = version \<and> um_arch m = arch \<and> bundle_at env ?t root m)"
  have "wp (verify_prepared_bundle env arch root version) ?Q ?t"
    unfolding verify_prepared_bundle_def
  proof (intro wp_bind wp_or_else wp_read_file_raw, goal_cases)
    case (2 q c)
    have "wp (check_prepared_files env root (um_files m)) (\<lambda>r u. case r of Inl e \<Rightarrow> ?Q (Inl e) u
        | Inr _ \<Rightarrow> wp (bind_io (walk_prepared (map mf_path (um_files m)) root) (\<lambda>_. ret m)) ?Q u) ?t"
      if m: "validate_update_manifest (ue_lower env) m = None" "um_version m = version" "um_arch m = arch" for m
    proof (rule wp_check_prepared_files, simp, simp, rule wp_bind, rule wp_walk_prepared [OF assms(1,2)], goal_cases)
      case 2
      then show ?case
        using m bundle_atI [OF assms(1-3) \<open>real_path True ?t (root @ [''manifest.json'']) = Inr q\<close>] valid_paths [OF m(1)]
          \<open>item_at ?t q = Some (Regular c)\<close> by simp
    qed simp
    then show ?case by (auto intro!: wp_bind wp_or_else split: sum.splits option.splits)
  qed simp
  then show ?thesis using assms(4) by (auto dest: wpD)
qed

section \<open>Extraction stays in its directory\<close>

definition tree_below :: "tree \<Rightarrow> path \<Rightarrow> bool" where
  "tree_below u target \<longleftrightarrow>
     (\<forall>p. strict_prefix target p \<and> item_at u p \<noteq> None \<longrightarrow>
        clear_path u p \<and> (item_at u p = Some Directory \<or> (\<exists>c. item_at u p = Some (Regular c))))"

lemma tree_belowD:
  assumes "tree_below u target" "strict_prefix target p" "item_at u p = Some k"
  shows "clear_path u p" "k = Directory \<or> (\<exists>c. k = Regular c)"
  using assms by (auto simp: tree_below_def dest!: spec [of _ p])

definition confined :: "tree \<Rightarrow> path \<Rightarrow> tree \<Rightarrow> bool" where
  "confined t target u \<longleftrightarrow>
     same_outside (strict_prefix target) t u \<and> real_dir u target \<and> tree_below u target"

definition dirs_added :: "tree \<Rightarrow> tree \<Rightarrow> bool" where
  "dirs_added u v \<longleftrightarrow> (\<forall>q. item_at v q = item_at u q \<or> item_at u q = None \<and> item_at v q = Some Directory)"

lemma dirs_added_refl [simp]: "dirs_added u u"
  by (simp add: dirs_added_def)

lemma dirs_added_trans: "dirs_added u v \<Longrightarrow> dirs_added v w \<Longrightarrow> dirs_added u w"
  unfolding dirs_added_def by metis

lemma confined_parts:
  assumes "confined t target u"
  shows "same_outside (strict_prefix target) t u" "real_dir u target" "tree_below u target"
  using assms by (simp_all add: confined_def)

lemma confined_put:
  assumes u: "confined t target u" and p: "strict_prefix target p" "clear_path u p"
    and i: "i = Directory \<or> (\<exists>c. i = Regular c)" and old: "item_at u p \<noteq> Some Directory"
  shows "confined t target (put p i u)"
proof -
  note c = confined_parts [OF u]
  have ne: "p \<noteq> []" using p(1) by (auto simp: strict_prefix_def)
  have keep: "clear_path (put p i u) q" if "clear_path u q" for q
    using that old ne by (auto simp: clear_path_def)
  have "same_outside (strict_prefix target) t (put p i u)"
    using c(1) p(1) ne by (auto simp: same_outside_def)
  moreover have "real_dir (put p i u) target"
    using c(2) keep p(1) ne by (auto simp: real_dir_def)
  moreover have "tree_below (put p i u) target"
    using c(3) keep p ne i by (auto simp: tree_below_def)
  ultimately show ?thesis by (simp add: confined_def)
qed

lemma walk_staged:
  "tree_below u target \<Longrightarrow> real_dir u cur \<Longrightarrow> prefix target cur \<Longrightarrow> \<forall>s\<in>set segs. okname s \<Longrightarrow>
     walk n f u cur segs = Inr q \<Longrightarrow> q = cur @ segs \<and> clear_path u (cur @ segs)"
proof (induction segs arbitrary: cur)
  case Nil
  then show ?case by (simp add: real_dir_def)
next
  case (Cons y ys)
  have y: "y \<noteq> []" "y \<noteq> ''.''" "y \<noteq> ''..''" using Cons.prems(4) by (auto simp: okname_def plain_def)
  have clear: "clear_path u (cur @ [y])" using Cons.prems(2,4) by simp
  have below: "strict_prefix target (cur @ [y])"
    using Cons.prems(3) by (simp only: strict_prefix_snoc)
  show ?case
  proof (cases "item_at u (cur @ [y])")
    case None
    then show ?thesis using Cons.prems(5) y clear by (auto split: if_splits)
  next
    case (Some k)
    then have "k = Directory \<or> (\<exists>c. k = Regular c)"
      using tree_belowD(2) [OF Cons.prems(1) below] by simp
    then show ?thesis
    proof
      assume k: "k = Directory"
      then have "real_dir u (cur @ [y])" using clear Some by (simp add: real_dir_def)
      moreover have "prefix target (cur @ [y])" using Cons.prems(3) by simp
      moreover have "walk n f u (cur @ [y]) ys = Inr q" using Cons.prems(5) y Some k by simp
      ultimately show ?thesis using Cons.IH [of "cur @ [y]"] Cons.prems(1,4) by auto
    next
      assume "\<exists>c. k = Regular c"
      then show ?thesis using Cons.prems(5) y clear Some by (auto split: if_splits)
    qed
  qed
qed

lemma real_path_staged:
  assumes u: "confined t target u" and p: "p = target @ segs" "\<forall>s\<in>set segs. plain s"
    and run: "real_path f u p = Inr q"
  shows "q = p \<and> clear_path u p"
proof -
  have nul: "\<forall>s\<in>set segs. okname s" and walk: "walk 40 f u [] p = Inr q"
    using run p by (auto simp: real_path_def okname_def split: if_splits)
  note c = confined_parts [OF u]
  show ?thesis
  proof (cases "segs = []")
    case True
    then show ?thesis using c(2) real_path_clear [of u target f] run p by (auto simp: real_dir_def)
  next
    case False
    then have "walk 40 f u target segs = Inr q" using walk walk_from_dir [OF c(2), of segs 40 f] p by simp
    from walk_staged [OF c(3,2) _ nul this] show ?thesis using p by simp
  qed
qed

lemma wp_stat_raw:
  assumes "\<And>e. Q (Inl e) t"
    and "\<And>q k. real_path True t p = Inr q \<Longrightarrow> item_at t q = Some k \<Longrightarrow> Q (Inr k) t"
  shows "wp (stat p) Q t"
  unfolding stat_def using assms
  by (intro wp_query) (auto simp: at_real_def split: sum.splits option.splits)

lemma wp_mkdir_raw:
  assumes "\<And>e. Q (Inl e) t"
    and "\<And>q. real_path False t p = Inr q \<Longrightarrow> item_at t q = None \<Longrightarrow> Q (Inr ()) (put q Directory t)"
  shows "wp (mkdir p) Q t"
  unfolding mkdir_def using assms
  by (intro wp_sys_call) (auto simp: at_real_def split: sum.splits option.splits)

lemma wp_create_raw:
  assumes "\<And>e. Q (Inl e) t"
    and "\<And>q. real_path False t p = Inr q \<Longrightarrow> item_at t q = None \<Longrightarrow> Q (Inr q) (put q (Regular []) t)"
  shows "wp (create_excl p) Q t"
  unfolding create_excl_def using assms
  by (intro wp_sys_call) (auto simp: at_real_def split: sum.splits option.splits)

text \<open>On a directory that is there, \<open>MkdirAll\<close> changes nothing.\<close>

lemma wp_mkdir_all_there:
  assumes "real_dir u p" and "\<And>r. Q r u"
  shows "wp (mkdir_all p) Q u"
  using assms
proof (induction p arbitrary: Q rule: mkdir_all.induct)
  case (1 p)
  have path: "real_path False u p = Inr p" "item_at u p = Some Directory"
    using 1(2) real_path_clear [of u p False] by (simp_all add: real_dir_def)
  have "real_dir u (butlast p)" using real_dir_up [OF 1(2)] by (simp add: prefixeq_butlast)
  then have rec: "wp (mkdir_all (butlast p)) R u" if "p \<noteq> []" "\<And>r. R r u" for R
    using that 1(1) by blast
  have tail: "wp (mkdir_or_there p) Q u"
    unfolding mkdir_or_there_def using path 1(3)
    by (auto intro!: wp_attempt wp_mkdir_raw wp_lstat_raw)
  have "wp (if p = [] then mkdir_or_there p else bind_io (mkdir_all (butlast p)) (\<lambda>_. mkdir_or_there p)) Q u"
    using tail 1(3) by (auto intro!: wp_bind rec split: sum.splits)
  then show ?case
    using 1(3) by (subst mkdir_all.simps) (auto intro!: wp_attempt wp_stat_raw)
qed

lemma wp_mkdir_all:
  assumes u: "confined t target u" and p: "p = target @ segs" "\<forall>s\<in>set segs. plain s"
    and e: "\<And>e v. confined t target v \<Longrightarrow> Q (Inl e) v"
    and k: "\<And>v. confined t target v \<Longrightarrow> dirs_added u v \<Longrightarrow> real_dir v p \<Longrightarrow> Q (Inr ()) v"
  shows "wp (mkdir_all p) Q u"
  using p e k
proof (induction segs arbitrary: p Q rule: rev_induct)
  case Nil
  have "wp (mkdir_all target) (\<lambda>r v. v = u) u"
    by (rule wp_mkdir_all_there) (use confined_parts(2) [OF u] in simp_all)
  then show ?case
    using Nil confined_parts(2) [OF u] u by (auto elim!: wp_mono) (metis (full_types) old.sum.exhaust old.unit.exhaust dirs_added_refl)
next
  case (snoc y ys)
  have p: "p = target @ ys @ [y]" "butlast p = target @ ys" "p \<noteq> []" using snoc.prems(1) by (simp_all add: butlast_append)
  have below: "strict_prefix target p" by (simp add: p strict_prefix_def)
  have stat: "real_dir u p" if "real_path True u p = Inr q" "item_at u q = Some Directory" for q
    using real_path_staged [OF u, of p "ys @ [y]"] snoc.prems(2) p(1) that by (auto simp: real_dir_def)
  have make: "wp (mkdir_or_there p) Q v"
    if v: "confined t target v" "dirs_added u v" "real_dir v (target @ ys)" for v
  proof -
    have here: "q = p \<and> clear_path v p" if "real_path f v p = Inr q" for f q
      using real_path_staged [OF v(1), of p "ys @ [y]"] snoc.prems(2) p(1) that by auto
    have new: "Q (Inr ()) (put p Directory v)" if "clear_path v p" "item_at v p = None"
    proof (rule snoc.prems(4))
      show "confined t target (put p Directory v)"
        by (rule confined_put [OF v(1) below]) (use that in simp_all)
      show "dirs_added u (put p Directory v)"
        using v(2) that(2) p(3) unfolding dirs_added_def by (metis item_at_put)
      show "real_dir (put p Directory v) p"
        using that p(3) by (auto simp: real_dir_def clear_path_def)
    qed
    have old: "Q (Inr ()) v" if "clear_path v p" "item_at v p = Some Directory"
      using that snoc.prems(4) v by (simp add: real_dir_def)
    show ?thesis
      unfolding mkdir_or_there_def
      using new old snoc.prems(3) [OF v(1)]
      by (auto intro!: wp_attempt wp_mkdir_raw wp_lstat_raw dest!: here)
  qed
  have "wp (bind_io (mkdir_all (butlast p)) (\<lambda>_. mkdir_or_there p)) Q u"
    using snoc.prems by (intro wp_bind, unfold p(2), intro snoc.IH) (auto intro: make [unfolded p(1)])
  then show ?case
    using p(3) stat snoc.prems(3) [OF u] snoc.prems(4) [OF u dirs_added_refl]
    by (subst mkdir_all.simps) (auto intro!: wp_attempt wp_stat_raw)
qed

text \<open>The hashes that were recorded are those of the files that are there.\<close>

definition recorded :: "update_env \<Rightarrow> path \<Rightarrow> extraction \<Rightarrow> tree \<Rightarrow> bool" where
  "recorded env target x u \<longleftrightarrow>
     (\<forall>(n, h)\<in>set (ex_hashes x). (\<forall>s\<in>set (split_on slash n). plain s) \<and>
        (\<exists>c. item_at u (target @ split_on slash n) = Some (Regular c) \<and> h = hex_text (ue_sha env c))) \<and>
     (\<forall>p c. strict_prefix target p \<and> item_at u p = Some (Regular c) \<longrightarrow>
        (\<exists>n h. (n, h) \<in> set (ex_hashes x) \<and> p = target @ split_on slash n))"

lemma recordedD:
  assumes "recorded env target x u" "(n, h) \<in> set (ex_hashes x)"
  shows "(\<forall>s\<in>set (split_on slash n). plain s) \<and>
     (\<exists>c. item_at u (target @ split_on slash n) = Some (Regular c) \<and> h = hex_text (ue_sha env c))"
  using assms unfolding recorded_def by blast

lemma recorded_dirs:
  assumes "recorded env target x u" "dirs_added u v"
  shows "recorded env target x v"
proof -
  have "item_at v p = Some (Regular c) \<longleftrightarrow> item_at u p = Some (Regular c)" for p c
    using assms(2) by (auto simp: dirs_added_def dest!: spec [of _ p])
  then show ?thesis using assms(1) by (simp add: recorded_def)
qed

lemma recorded_file:
  assumes u: "recorded env target x u" and n: "\<forall>s\<in>set (split_on slash n). plain s"
    and p: "p = target @ split_on slash n" "item_at u p = None"
    and v: "\<And>q. item_at v q = (if q = p then Some (Regular c) else item_at u q)"
  shows "recorded env target \<lparr>ex_files = m, ex_total = a, ex_hashes = (n, hex_text (ue_sha env c)) # ex_hashes x\<rparr> v"
proof -
  have "target @ split_on slash n' \<noteq> p" if "(n', h) \<in> set (ex_hashes x)" for n' h
    using u that p(2) by (auto simp: recorded_def dest!: bspec)
  then show ?thesis using u n p v by (fastforce simp: recorded_def)
qed

lemma wp_write_entry:
  assumes u: "confined t target u" and p: "p = target @ segs" "segs \<noteq> []" "\<forall>s\<in>set segs. plain s"
    and e: "\<And>e v. confined t target v \<Longrightarrow> Q (Inl e) v"
    and k: "\<And>v. confined t target v \<Longrightarrow> item_at u p = None \<Longrightarrow>
        (\<And>q. item_at v q = (if q = p then Some (Regular (te_data en)) else item_at u q)) \<Longrightarrow>
        int (length (te_data en)) = te_size en \<Longrightarrow> Q (Inr (te_data en)) v"
  shows "wp (write_entry p en) Q u"
proof -
  have below: "strict_prefix target p" "p \<noteq> []" using p by (auto simp: strict_prefix_def)
  have ok: "confined t target (put p (Regular c) u)" if "clear_path u p" "item_at u p = None" for c
    using confined_put [OF u below(1) that(1)] that(2) by simp
  have app: "append_bytes p s (put p (Regular []) u) = put p (Regular s) (put p (Regular []) u)" for s
    using below(2) by (simp add: append_bytes_def)
  have ok2: "confined t target (put p (Regular s) (put p (Regular []) u))" if "clear_path u p" "item_at u p = None" for s
    using confined_put [OF ok [OF that, of "[]"] below(1), of "Regular s"] that below(2)
    by (auto simp: clear_path_def)
  have "wp (bind_io (or_else (append_to p (te_data en)) close_handle id) (\<lambda>_. case te_error en of
       Some err \<Rightarrow> bind_io (ignore close_handle) (\<lambda>_. throw err)
     | None \<Rightarrow>
         bind_io close_handle (\<lambda>_.
         bind_io (guard_io (int (length (te_data en)) = te_size en) (Err ''update archive file size mismatch'')) (\<lambda>_.
         ret (te_data en))))) Q (put p (Regular []) u)"
    if c: "clear_path u p" "item_at u p = None"
    unfolding append_to_def
    using ok2 [OF c] c k [OF ok2 [OF c]] e below(2)
    by (auto simp: app intro!: wp_bind wp_or_else wp_sys_call wp_close wp_ignore split: option.splits)
  note rest = this
  show ?thesis
    unfolding write_entry_def
  proof (intro wp_bind [of "create_excl p"] wp_create_raw, goal_cases)
    case (2 q)
    then have "q = p" "clear_path u p" "item_at u p = None" using real_path_staged [OF u p(1,3), of False q] by auto
    then show ?case using rest by simp
  qed (simp add: e [OF u])
qed

lemma clean_not_abs:
  assumes "\<not> is_abs y"
  shows "\<not> is_abs (path_clean y)"
proof -
  let ?out = "clean_onto False [] (split_on slash y)"
  have "\<exists>k q. ?out = replicate k ''..'' @ q \<and> (\<forall>x\<in>set q. plain x)"
    by (rule clean_onto_dots) (simp_all add: split_on_parts)
  moreover have "''..'' \<noteq> [] \<and> slash \<notin> set ''..''" by (simp add: slash_def)
  ultimately have names: "\<forall>s\<in>set ?out. s \<noteq> [] \<and> slash \<notin> set s"
    by (metis Un_iff in_set_replicate plain_def set_append)
  have "\<not> has_prefix (join_on slash ?out) [slash]"
  proof (cases ?out)
    case (Cons o' os)
    then obtain c cs where "o' = c # cs" "c \<noteq> slash" using names by (cases o') auto
    then show ?thesis using Cons by (cases os) (auto simp: has_prefix_def)
  qed (simp add: has_prefix_def)
  then show ?thesis using assms by (auto simp: path_clean_def Let_def is_abs_def has_prefix_def slash_def)
qed

lemma entry_target_Inr:
  assumes "entry_target target e = Inr (name, p)"
  shows "p = target @ split_on slash name \<and> (\<forall>s\<in>set (split_on slash name). plain s)"
proof -
  have name: "name = path_clean (te_name e)" "p = join_path target name" "name \<noteq> ''.''"
      "\<not> has_prefix name (''..'' @ [slash])" "\<not> has_prefix (te_name e) [slash]" "strict_prefix target p"
    using assms by (auto simp: entry_target_def Let_def split: if_splits)
  have abs: "\<not> is_abs name"
    using name(1,5) clean_not_abs by (simp add: is_abs_def)
  have "name \<noteq> ''..''"
  proof
    assume "name = ''..''"
    then have "p \<in> {target, butlast target}" using name(2) by (simp add: join_path_def slash_def)
    then have "length p \<le> length target" by auto
    then show False using name(6) by (auto simp: strict_prefix_def prefix_def)
  qed
  then have "\<not> path_escapes name" using name(4) by (simp add: path_escapes_def)
  then have "\<forall>s\<in>set (split_on slash name). plain s" using clean_segments [OF name(1,3) abs] by blast
  then show ?thesis using clean_onto_all_plain name(2) by (simp add: join_path_def)
qed

definition extracted :: "update_env \<Rightarrow> tree \<Rightarrow> path \<Rightarrow> extraction \<Rightarrow> tree \<Rightarrow> bool" where
  "extracted env t target x u \<longleftrightarrow> confined t target u \<and> recorded env target x u"

lemma wp_extract_entry:
  assumes u: "extracted env t target x u"
    and e: "\<And>e v. confined t target v \<Longrightarrow> Q (Inl e) v"
    and k: "\<And>x' v. extracted env t target x' v \<Longrightarrow> Q (Inr x') v"
  shows "wp (extract_entry env target en x) Q u"
proof (cases "entry_target target en")
  case (Inl err)
  then show ?thesis using e u by (auto simp: extract_entry_def extracted_def intro!: wp_bind)
next
  case (Inr np)
  obtain name p where np: "np = (name, p)" by (cases np)
  have t: "p = target @ split_on slash name" "\<forall>s\<in>set (split_on slash name). plain s"
    using entry_target_Inr [of target en name p] Inr np by simp_all
  obtain ys y where ys: "split_on slash name = ys @ [y]" by (cases "split_on slash name" rule: rev_cases) auto
  have parent: "butlast p = target @ ys" "\<forall>s\<in>set ys. plain s" using t ys by (simp_all add: butlast_append)
  have c: "confined t target u" "recorded env target x u" using u by (simp_all add: extracted_def)
  have dir: "wp (bind_io (mkdir_all p) (\<lambda>_. ret x)) Q u"
    by (rule wp_bind, rule wp_mkdir_all [OF c(1) t]) (use e k recorded_dirs [OF c(2)] in \<open>auto simp: extracted_def\<close>)
  have written: "wp (bind_io (write_entry p en) (\<lambda>data. ret \<lparr>ex_files = Suc (ex_files x), ex_total = a,
          ex_hashes = (name, hex_text (ue_sha env data)) # ex_hashes x\<rparr>)) Q v"
    if v: "confined t target v" "dirs_added u v" for v a
  proof (rule wp_bind, rule wp_write_entry [OF v(1) t(1) _ t(2)], goal_cases)
    case (3 w)
    have "recorded env target \<lparr>ex_files = Suc (ex_files x), ex_total = a,
        ex_hashes = (name, hex_text (ue_sha env (te_data en))) # ex_hashes x\<rparr> w"
      by (rule recorded_file [OF recorded_dirs [OF c(2) v(2)] t(2,1) 3(2,3)])
    then show ?case using k 3(1) by (simp add: extracted_def)
  qed (simp_all add: e)
  have "wp (mkdir_all (butlast p)) (\<lambda>r v. case r of Inl e \<Rightarrow> Q (Inl e) v
      | Inr _ \<Rightarrow> wp (bind_io (write_entry p en) (\<lambda>data. ret \<lparr>ex_files = Suc (ex_files x), ex_total = a,
          ex_hashes = (name, hex_text (ue_sha env data)) # ex_hashes x\<rparr>)) Q v) u" for a
    unfolding parent(1) by (rule wp_mkdir_all [OF c(1) refl parent(2)]) (use e written in auto)
  then have reg: "wp (extract_file env name p en x) Q u"
    unfolding extract_file_def Let_def using e [OF c(1)] by (auto intro!: wp_bind)
  show ?thesis
    unfolding extract_entry_def
    by (rule wp_bind) (use Inr np dir reg e [OF c(1)] in \<open>cases "te_type en"; simp\<close>)
qed

lemma wp_extract_entries:
  assumes u: "extracted env t target x u"
    and e: "\<And>e v. confined t target v \<Longrightarrow> Q (Inl e) v"
    and k: "\<And>x' v. extracted env t target x' v \<Longrightarrow> Q (Inr x') v"
  shows "wp (extract_entries env target es x) Q u"
  using u k
proof (induction es arbitrary: x u)
  case (Cons en es)
  show ?case
    unfolding extract_entries.simps
    by (rule wp_bind, rule wp_extract_entry [OF Cons.prems(1)]) (use Cons e in auto)
qed simp

lemma wp_check_extracted:
  assumes u: "extracted env t target x u"
    and e: "\<And>e. Q (Inl e) u"
    and k: "\<forall>f\<in>set fs. (\<forall>s\<in>set (split_on slash (mf_path f)). plain s) \<and>
        (\<exists>c. item_at u (target @ split_on slash (mf_path f)) = Some (Regular c) \<and>
             int (length c) = mf_size f \<and> hex_text (ue_sha env c) = mf_sha f) \<Longrightarrow> Q (Inr ()) u"
  shows "wp (check_extracted target (ex_hashes x) fs) Q u"
  using k
proof (induction fs)
  case (Cons f fs)
  let ?segs = "split_on slash (mf_path f)"
  have c: "confined t target u" "recorded env target x u" using u by (simp_all add: extracted_def)
  have rest: "wp (check_extracted target (ex_hashes x) fs) Q u"
    if "\<forall>s\<in>set ?segs. plain s" "item_at u (target @ ?segs) = Some (Regular c)"
      "int (length c) = mf_size f" "hex_text (ue_sha env c) = mf_sha f" for c
    using Cons that by (intro Cons.IH) auto
  show ?case
  proof (cases "map_of (ex_hashes x) (mf_path f)")
    case (Some h)
    have h: "(\<forall>s\<in>set ?segs. plain s) \<and>
        (\<exists>c. item_at u (target @ ?segs) = Some (Regular c) \<and> h = hex_text (ue_sha env c))"
      by (rule recordedD [OF c(2) map_of_SomeD [OF Some]])
    then obtain b where b: "item_at u (target @ ?segs) = Some (Regular b)" "h = hex_text (ue_sha env b)" by blast
    have join: "join_path target (mf_path f) = target @ ?segs"
      using h clean_onto_all_plain by (simp add: join_path_def)
    have "k = Regular b" if "real_path True u (target @ ?segs) = Inr q" "item_at u q = Some k" for q k
      using real_path_staged [OF c(1) refl _ that(1)] h b(1) that(2) by auto
    moreover have "Q (Inl e) u" for e by (rule e)
    ultimately have "wp (stat (target @ ?segs)) (\<lambda>r v. v = u \<and> (\<forall>k. r = Inr k \<longrightarrow> k = Regular b)) u"
      by (intro wp_stat_raw) auto
    then have "wp (stat (target @ ?segs)) (\<lambda>r v. case r of Inl err \<Rightarrow> Q (Inl err) v | Inr k \<Rightarrow>
        wp (bind_io (guard_io (int (file_size k ''file'') = mf_size f) (Errf ''update file %q size mismatch'' [mf_path f])) (\<lambda>_.
            bind_io (guard_io (h = mf_sha f)
               (Errf ''update file %q checksum mismatch'' [mf_path f])) (\<lambda>_.
            check_extracted target (ex_hashes x) fs))) Q v) u"
      by (rule wp_mono) (use e Some b rest [OF _ b(1)] h in \<open>auto simp: file_size_def intro!: wp_bind split: sum.splits\<close>)
    then show ?thesis
      unfolding check_extracted.simps join by (intro wp_bind [of "guard_io _ _"]) (auto simp: Some intro!: wp_bind)
  qed (auto simp: e intro!: wp_bind)
qed simp

definition staged_bundle :: "update_env \<Rightarrow> tree \<Rightarrow> path \<Rightarrow> update_manifest \<Rightarrow> bool" where
  "staged_bundle env u target m \<longleftrightarrow>
     (\<forall>f\<in>set (um_files m). \<exists>c. item_at u (target @ split_on slash (mf_path f)) = Some (Regular c) \<and>
        int (length c) = mf_size f \<and> hex_text (ue_sha env c) = mf_sha f) \<and>
     (\<forall>p. strict_prefix target p \<and> item_at u p \<noteq> None \<longrightarrow>
        item_at u p = Some Directory \<or> p = target @ [''manifest.json''] \<or>
        (\<exists>f\<in>set (um_files m). p = target @ split_on slash (mf_path f)))"

text \<open>C11. Whatever archive is extracted and whichever calls fail, nothing outside the staging directory
  changes; and on success the directory holds exactly the files of a valid manifest of the requested
  version and architecture, each of the listed size and checksum, besides the manifest.\<close>

theorem extraction_confined_and_exact:
  assumes target: "real_dir (entries d) target" "\<forall>p. strict_prefix target p \<longrightarrow> item_at (entries d) p = None"
    and run: "extract_and_verify_bundle env archive target version arch d = (r, d')"
  shows "same_outside (strict_prefix target) (entries d) (entries d') \<and>
    (r = Inr () \<longrightarrow> (\<exists>m. validate_update_manifest (ue_lower env) m = None \<and> um_version m = version \<and>
       um_arch m = arch \<and> staged_bundle env (entries d') target m))"
proof -
  let ?t = "entries d"
  let ?x0 = "\<lparr>ex_files = 0, ex_total = 0, ex_hashes = []\<rparr>"
  let ?Q = "\<lambda>r u. same_outside (strict_prefix target) ?t u \<and>
    (r = Inr () \<longrightarrow> (\<exists>m. validate_update_manifest (ue_lower env) m = None \<and> um_version m = version \<and>
       um_arch m = arch \<and> staged_bundle env u target m))"
  have start: "extracted env ?t target ?x0 ?t"
    using target by (auto simp: extracted_def confined_def tree_below_def recorded_def)
  have fail: "?Q (Inl e) u" if "confined ?t target u" for e u
    using that by (simp add: confined_def)
  have exact: "staged_bundle env u target m"
    if x: "extracted env ?t target x u" and files: "\<forall>f\<in>set (um_files m). 
        \<exists>c. item_at u (target @ split_on slash (mf_path f)) = Some (Regular c) \<and>
             int (length c) = mf_size f \<and> hex_text (ue_sha env c) = mf_sha f"
      and none: "List.find (\<lambda>p. p \<noteq> ''manifest.json'' \<and> p \<notin> mf_path ` set (um_files m)) (map fst (ex_hashes x)) = None"
    for x u m
  proof -
    have "p = target @ [''manifest.json''] \<or> (\<exists>f\<in>set (um_files m). p = target @ split_on slash (mf_path f))"
      if "strict_prefix target p" "item_at u p = Some (Regular c)" for p c
    proof -
      obtain n h where n: "(n, h) \<in> set (ex_hashes x)" "p = target @ split_on slash n"
        using x \<open>strict_prefix target p\<close> \<open>item_at u p = Some (Regular c)\<close>
        by (auto simp: extracted_def recorded_def)
      then have "n = ''manifest.json'' \<or> n \<in> mf_path ` set (um_files m)"
        using none by (force simp: find_None_iff)
      moreover have "split_on slash ''manifest.json'' = [''manifest.json'']" by (simp add: slash_def)
      ultimately show ?thesis using n(2) by auto
    qed
    moreover have "item_at u p = Some Directory \<or> (\<exists>c. item_at u p = Some (Regular c))"
      if "strict_prefix target p" "item_at u p \<noteq> None" for p
      using x that by (auto simp: extracted_def confined_def tree_below_def)
    ultimately show ?thesis using files unfolding staged_bundle_def by meson
  qed
  have finish: "wp (match_manifest target x m) ?Q u"
    if x: "extracted env ?t target x u" and m: "validate_update_manifest (ue_lower env) m = None"
      "um_version m = version" "um_arch m = arch" for x u m
    unfolding match_manifest_def
  proof (rule wp_bind, rule wp_check_extracted [OF x], goal_cases)
    case 2
    then show ?case
      using exact [OF x, of m] m fail [of u] x by (auto simp: extracted_def split: option.splits)
  qed (use fail x in \<open>auto simp: extracted_def\<close>)
  have "wp (extract_and_verify_bundle env archive target version arch) ?Q ?t"
    unfolding extract_and_verify_bundle_def
  proof (rule wp_bind, rule wp_open_raw, simp, simp, rule wp_bind, rule wp_read_raw, simp, simp, goal_cases)
    case (1 q k bytes)
    show ?case
    proof (rule wp_bind, rule wp_or_else, simp, cases "ue_archive env bytes", simp, simp, clarsimp, rule wp_bind,
        rule wp_extract_entries [OF start], goal_cases)
      case (2 es ending x u)
      then have out: "same_outside (strict_prefix target) ?t u" by (simp add: extracted_def confined_def)
      show ?case
        using out finish [OF 2(2)]
        by (auto intro!: wp_bind [of "lift_res _"] wp_bind [of "or_else _ _ _"] wp_bind [of "guard_io _ _"]
            wp_or_else wp_read_file_raw split: sum.splits option.splits)
    qed (use fail in auto)
  qed
  then show ?thesis using run by (auto dest: wpD)
qed

section \<open>Samples\<close>

definition sample_bundle :: update_manifest where
  "sample_bundle = \<lparr>um_schema = 1, um_product = ''home-ai-core'', um_version = ''1.2.0'', um_arch = ''amd64'',
     um_protocol = 0, um_helper_version = [],
     um_files = [\<lparr>mf_path = ''bin/home-ai-core'', mf_sha = sample_sha, mf_size = 4\<rparr>,
                 \<lparr>mf_path = ''web/index.html'', mf_sha = sample_sha, mf_size = 2\<rparr>]\<rparr>"

definition sample_entries :: "tar_entry list" where
  "sample_entries =
     [\<lparr>te_name = ''web/'', te_type = Tar_dir, te_size = 0, te_data = [], te_error = None\<rparr>,
      \<lparr>te_name = ''manifest.json'', te_type = Tar_file, te_size = 1, te_data = ''m'', te_error = None\<rparr>,
      \<lparr>te_name = ''bin/home-ai-core'', te_type = Tar_file, te_size = 4, te_data = ''core'', te_error = None\<rparr>,
      \<lparr>te_name = ''web/index.html'', te_type = Tar_file, te_size = 2, te_data = ''ui'', te_error = None\<rparr>]"

definition sample_update :: update_env where
  "sample_update = \<lparr>
     ue_manifest = (\<lambda>x. if x = ''m'' then Inr sample_bundle else Inl (Err ''unexpected end of JSON input'')),
     ue_sha = (\<lambda>_. replicate 32 CHR 0x00), ue_lower = id,
     ue_archive = (\<lambda>x. if x = ''gz'' then Inr (sample_entries, None) else Inl (Err ''gzip: invalid header'')),
     ue_public_key = (\<lambda>p. if p = ''pem'' then Inr ''key'' else Inl (Err ''trusted update public key is not valid PEM'')),
     ue_base64 = Some, ue_signed = (\<lambda>k c s. k = ''key'')\<rparr>"

definition sample_staging :: disk where
  "sample_staging = \<lparr>entries = [([''in''], Directory), ([''in'', ''a''], Regular ''gz''), ([''out''], Directory)], faults = []\<rparr>"

definition sample_prepared :: disk where
  "sample_prepared = \<lparr>entries = [([''out''], Directory), ([''out'', ''manifest.json''], Regular ''m''),
     ([''out'', ''bin''], Directory), ([''out'', ''bin'', ''home-ai-core''], Regular ''core''),
     ([''out'', ''web''], Directory), ([''out'', ''web'', ''index.html''], Regular ''ui'')], faults = []\<rparr>"

lemma sample_verified:
  "fst (verify_prepared_bundle sample_update ''amd64'' [''out''] ''1.2.0'' sample_prepared) = Inr sample_bundle"
  by code_simp

lemma sample_extracted:
  "extract_and_verify_bundle sample_update [''in'', ''a''] [''out''] ''1.2.0'' ''amd64'' sample_staging =
     (Inr (), snd (extract_and_verify_bundle sample_update [''in'', ''a''] [''out''] ''1.2.0'' ''amd64'' sample_staging))"
proof -
  have "fst (extract_and_verify_bundle sample_update [''in'', ''a''] [''out''] ''1.2.0'' ''amd64'' sample_staging) = Inr ()"
    by code_simp
  then show ?thesis by (metis prod.collapse)
qed

text \<open>In a list of entries that names every directory, every entry is in a directory.\<close>

lemma closed_tree_list:
  assumes "\<forall>e\<in>set t. item_at t (butlast (fst e)) = Some Directory"
  shows "closed_tree t"
proof -
  have "item_at t p = Some Directory" if here: "item_at t (p @ [x]) \<noteq> None" for p x
  proof -
    obtain i where "map_of t (p @ [x]) = Some i" using here by (cases "map_of t (p @ [x])") (simp_all add: item_at_def)
    then have "(p @ [x], i) \<in> set t" by (rule map_of_SomeD)
    then show ?thesis using assms by force
  qed
  then show ?thesis by (simp add: closed_tree_def)
qed

lemma sample_staging_parts:
  "real_dir (entries sample_staging) [''out'']" "real_dir (entries sample_prepared) [''out'']"
  "well_named (entries sample_prepared)" "closed_tree (entries sample_prepared)"
  by (simp_all add: sample_staging_def sample_prepared_def real_dir_def clear_path_def strict_prefix_def prefix_Cons
      item_at_def well_named_def okname_def plain_def slash_def closed_tree_list)

theorem verified_bundle_is_exact_witness:
  "bundle_at sample_update (entries sample_prepared) [''out''] sample_bundle"
proof -
  obtain d where "verify_prepared_bundle sample_update ''amd64'' [''out''] ''1.2.0'' sample_prepared = (Inr sample_bundle, d)"
    using sample_verified by (metis prod.collapse)
  from verified_bundle_is_exact [OF sample_staging_parts(2,3,4) this] show ?thesis by blast
qed

theorem extraction_confined_and_exact_witness:
  "\<exists>d m. extract_and_verify_bundle sample_update [''in'', ''a''] [''out''] ''1.2.0'' ''amd64'' sample_staging = (Inr (), d) \<and>
     item_at (entries d) [''in'', ''a''] = Some (Regular ''gz'') \<and> staged_bundle sample_update (entries d) [''out''] m"
proof -
  have empty: "\<forall>p. strict_prefix [''out''] p \<longrightarrow> item_at (entries sample_staging) p = None"
    by (auto simp: sample_staging_def item_at_def strict_prefix_def prefix_Cons)
  let ?d = "snd (extract_and_verify_bundle sample_update [''in'', ''a''] [''out''] ''1.2.0'' ''amd64'' sample_staging)"
  note e = extraction_confined_and_exact [OF sample_staging_parts(1) empty sample_extracted]
  obtain m where m: "staged_bundle sample_update (entries ?d) [''out''] m" using e by blast
  have "item_at (entries ?d) [''in'', ''a''] = item_at (entries sample_staging) [''in'', ''a'']"
    by (rule same_outsideD [OF e [THEN conjunct1]]) (simp add: strict_prefix_def)
  then have "item_at (entries ?d) [''in'', ''a''] = Some (Regular ''gz'')"
    by (simp add: sample_staging_def item_at_def)
  then show ?thesis using m sample_extracted by blast
qed

end
