(* ===== verification/UpdateInstall.thy ===== *)
theory UpdateInstall
  imports UpdateBundle
begin

text \<open>
  Installing an update and going back to the version before, in the privileged helper
  (\<open>src/cmd/home-ai-core-updater/update_ops.go\<close>): the files it moves, the calls that may fail, and the
  service it stops and starts.
\<close>

section \<open>The host\<close>

text \<open>
  The places the helper works on, each a fixed path: the live binary, web files and helper with the
  temporary names beside them, the backup of the version before, the copy made before a manual rollback, and
  the prepared update.
\<close>

datatype place =
    Live_binary | New_binary | Rollback_binary | Restore_binary | Target_binary
  | Live_web | New_web | Rollback_web | Target_web | Pre_rollback_web
  | Live_helper | New_helper | Rollback_helper | Restore_helper | Target_helper
  | Backup_binary | Backup_web | Backup_helper | Backup_metadata
  | Current_binary | Current_web | Current_helper
  | Prepared_binary | Prepared_web | Prepared_helper

text \<open>A folder is given by its files: their paths below it and their bytes.\<close>

datatype blob = Bytes string | Folder "(path \<times> string) list"

type_synonym places = "place \<Rightarrow> blob option"

text \<open>
  The outcome of the next call: \<open>Works\<close>, or it fails for a reason outside the model.  A failing copy leaves
  anything at its target, a failing removal some part of what it was to remove: the places given say what is
  there afterwards.  Of a failing call of systemctl, the text it prints and whether the service runs are given.
\<close>

datatype outcome = Works | Fails trouble places | Refused string bool

record host =
  places :: places
  service_up :: bool
  outcomes :: "outcome list"

type_synonym 'a host_op = "(host, 'a) op"

definition host_call ::
  "(places \<Rightarrow> places \<Rightarrow> places) \<Rightarrow> (places \<Rightarrow> 'a res \<times> places) \<Rightarrow> 'a host_op" where
  "host_call tear f = (\<lambda>h.
     case outcomes h of
       Fails e tn # os \<Rightarrow> (Inl (ErrSys (trouble_errno e)), h\<lparr>places := tear tn (places h), outcomes := os\<rparr>)
     | os \<Rightarrow> (case f (places h) of (r, pl) \<Rightarrow> (r, h\<lparr>places := pl, outcomes := tl os\<rparr>)))"

abbreviation whole_call :: "(places \<Rightarrow> 'a res \<times> places) \<Rightarrow> 'a host_op" where
  "whole_call f \<equiv> host_call (\<lambda>tn pl. pl) f"

abbreviation copy_call :: "place \<Rightarrow> (places \<Rightarrow> 'a res \<times> places) \<Rightarrow> 'a host_op" where
  "copy_call p f \<equiv> host_call (\<lambda>tn pl. pl(p := tn p)) f"

definition copy_file :: "place \<Rightarrow> place \<Rightarrow> unit host_op" where
  "copy_file source target = copy_call target (\<lambda>pl.
     case pl source of
       None \<Rightarrow> (Inl (ErrSys ENOENT), pl)
     | Some (Folder _) \<Rightarrow> (Inl (Err ''source is not a regular file''), pl)
     | Some (Bytes c) \<Rightarrow>
         (case pl target of
            Some (Folder _) \<Rightarrow> (Inl (ErrSys EISDIR), pl)
          | _ \<Rightarrow> (Inr (), pl(target \<mapsto> Bytes c))))"

text \<open>The files of a tree are written one by one into what is already at the target.\<close>

fun copy_entries :: "(path \<times> string) list \<Rightarrow> (path \<times> string) list \<Rightarrow> unit res \<times> (path \<times> string) list" where
  "copy_entries [] old = (Inr (), old)"
| "copy_entries ((p, c) # fs) old =
     (if \<exists>q\<in>set (map fst old). strict_prefix q p then (Inl (ErrSys ENOTDIR), old)
      else if \<exists>q\<in>set (map fst old). strict_prefix p q then (Inl (ErrSys EISDIR), old)
      else copy_entries fs (filter (\<lambda>e. fst e \<noteq> p) old @ [(p, c)]))"

definition copy_tree :: "place \<Rightarrow> place \<Rightarrow> unit host_op" where
  "copy_tree source target = copy_call target (\<lambda>pl.
     case pl source of
       None \<Rightarrow> (Inl (ErrSys ENOENT), pl)
     | Some (Bytes c) \<Rightarrow>
         (case pl target of
            Some (Folder _) \<Rightarrow> (Inl (ErrSys EISDIR), pl)
          | _ \<Rightarrow> (Inr (), pl(target \<mapsto> Bytes c)))
     | Some (Folder fs) \<Rightarrow>
         (case pl target of
            Some (Bytes _) \<Rightarrow> (Inl (ErrSys ENOTDIR), pl)
          | Some (Folder old) \<Rightarrow> (case copy_entries fs old of (r, new) \<Rightarrow> (r, pl(target \<mapsto> Folder new)))
          | None \<Rightarrow> (case copy_entries fs [] of (r, new) \<Rightarrow> (r, pl(target \<mapsto> Folder new)))))"

definition remove_places :: "place list \<Rightarrow> unit host_op" where
  "remove_places ps = host_call
     (\<lambda>tn pl p. if p \<in> set ps \<and> pl p \<noteq> None then tn p else pl p)
     (\<lambda>pl. (Inr (), \<lambda>p. if p \<in> set ps then None else pl p))"

definition remove_file :: "place \<Rightarrow> unit host_op" where
  "remove_file p = whole_call (\<lambda>pl.
     case pl p of
       None \<Rightarrow> (Inl (ErrSys ENOENT), pl)
     | Some (Folder (_ # _)) \<Rightarrow> (Inl (ErrSys ENOTEMPTY), pl)
     | Some _ \<Rightarrow> (Inr (), pl(p := None)))"

definition rename_place :: "place \<Rightarrow> place \<Rightarrow> unit host_op" where
  "rename_place a b = whole_call (\<lambda>pl.
     case (pl a, pl b) of
       (None, _) \<Rightarrow> (Inl (ErrSys ENOENT), pl)
     | (Some (Bytes _), Some (Folder _)) \<Rightarrow> (Inl (ErrSys EISDIR), pl)
     | (Some (Folder _), Some (Bytes _)) \<Rightarrow> (Inl (ErrSys ENOTDIR), pl)
     | (Some (Folder _), Some (Folder (_ # _))) \<Rightarrow> (Inl (ErrSys ENOTEMPTY), pl)
     | (Some x, _) \<Rightarrow> (Inr (), pl(a := None, b \<mapsto> x)))"

definition stat_place :: "place \<Rightarrow> blob host_op" where
  "stat_place p = whole_call (\<lambda>pl. (case pl p of None \<Rightarrow> Inl (ErrSys ENOENT) | Some b \<Rightarrow> Inr b, pl))"

fun regular_result :: "blob res \<Rightarrow> bool" where
  "regular_result (Inr (Bytes _)) = True"
| "regular_result _ = False"

definition write_place :: "place \<Rightarrow> string \<Rightarrow> unit host_op" where
  "write_place p c = copy_call p (\<lambda>pl.
     case pl p of Some (Folder _) \<Rightarrow> (Inl (ErrSys EISDIR), pl) | _ \<Rightarrow> (Inr (), pl(p \<mapsto> Bytes c)))"

definition read_place :: "place \<Rightarrow> string host_op" where
  "read_place p = whole_call (\<lambda>pl. (case pl p of
     None \<Rightarrow> Inl (ErrSys ENOENT) | Some (Folder _) \<Rightarrow> Inl (ErrSys EISDIR) | Some (Bytes c) \<Rightarrow> Inr c, pl))"

text \<open>Making a directory or changing a mode changes none of the places, but may fail.\<close>

definition touch_place :: "unit host_op" where
  "touch_place = whole_call (\<lambda>pl. (Inr (), pl))"

datatype service_action = Stop | Start

definition systemctl :: "service_action \<Rightarrow> unit host_op" where
  "systemctl a = (\<lambda>h.
     case outcomes h of
       Refused e u # os \<Rightarrow> (Inl (Err e), h\<lparr>service_up := u, outcomes := os\<rparr>)
     | os \<Rightarrow> (Inr (), h\<lparr>service_up := (a = Start), outcomes := tl os\<rparr>))"

text \<open>The polls until the deadline as one call: it fails when none of them finds the service active.\<close>

definition wait_active :: "unit host_op" where
  "wait_active = (\<lambda>h.
     case outcomes h of
       Refused e u # os \<Rightarrow> (Inl (Err e), h\<lparr>service_up := u, outcomes := os\<rparr>)
     | os \<Rightarrow> (Inr (), h\<lparr>outcomes := tl os\<rparr>))"

section \<open>The backup\<close>

record backup_metadata =
  bm_version :: string
  bm_replaced_by :: string
  bm_created_at :: string

record metadata_env =
  me_encode :: "backup_metadata \<Rightarrow> string"
  me_decode :: "string \<Rightarrow> backup_metadata res"

definition version_char :: "char \<Rightarrow> bool" where
  "version_char c \<longleftrightarrow> byte_in 97 122 c \<or> byte_in 65 90 c \<or> is_digit c \<or> c \<in> set ''.-_''"

definition valid_version :: "string \<Rightarrow> bool" where
  "valid_version v \<longleftrightarrow> v \<noteq> [] \<and> (\<forall>c\<in>set v. version_char c)"

definition write_backup_metadata :: "metadata_env \<Rightarrow> backup_metadata \<Rightarrow> unit host_op" where
  "write_backup_metadata env m = write_place Backup_metadata (me_encode env m @ [CHR 0x0A])"

definition read_backup_metadata :: "metadata_env \<Rightarrow> backup_metadata host_op" where
  "read_backup_metadata env = bind_io (read_place Backup_metadata) (\<lambda>c. lift_res (me_decode env c))"

definition available_rollback :: "metadata_env \<Rightarrow> backup_metadata option host_op" where
  "available_rollback env =
     attempt (read_backup_metadata env) (\<lambda>r. case r of
       Inl _ \<Rightarrow> ret None
     | Inr m \<Rightarrow>
         if \<not> valid_version (bm_version m) then ret None
         else attempt (stat_place Backup_binary) (\<lambda>r.
           if \<not> regular_result r then ret None
           else attempt (stat_place Backup_web) (\<lambda>r.
             case r of Inr (Folder _) \<Rightarrow> ret (Some m) | _ \<Rightarrow> ret None)))"

section \<open>Installing\<close>

definition back_up_live :: "metadata_env \<Rightarrow> string \<Rightarrow> string \<Rightarrow> string \<Rightarrow> unit host_op" where
  "back_up_live env now current version =
     bind_io (remove_places [Backup_binary, Backup_web, Backup_helper, Backup_metadata]) (\<lambda>_.
     bind_io touch_place (\<lambda>_.
     bind_io (wrapping (copy_file Live_binary Backup_binary) ''backup core binary: '') (\<lambda>_.
     bind_io (wrapping (copy_tree Live_web Backup_web) ''backup web ui: '') (\<lambda>_.
     if valid_version current
     then wrapping (write_backup_metadata env
            \<lparr>bm_version = current, bm_replaced_by = version, bm_created_at = now\<rparr>) ''write rollback metadata: ''
     else ret ()))))"

definition stage_new :: "unit host_op" where
  "stage_new =
     bind_io (wrapping (copy_file Prepared_binary New_binary) ''stage new core binary: '') (\<lambda>_.
     bind_io (ignore (remove_places [New_web])) (\<lambda>_.
     bind_io (ignore (remove_places [Rollback_web])) (\<lambda>_.
     wrapping (copy_tree Prepared_web New_web) ''stage new web ui: '')))"

definition stage_helper :: "unit host_op" where
  "stage_helper =
     attempt (stat_place Prepared_helper) (\<lambda>r.
     if regular_result r
     then bind_io (wrapping touch_place ''prepare helper backup: '') (\<lambda>_.
          bind_io (wrapping (copy_file Live_helper Backup_helper) ''backup updater helper: '') (\<lambda>_.
          wrapping (copy_file Prepared_helper New_helper) ''stage updater helper: ''))
     else ret ())"

text \<open>
  What \<open>rollback\<close> and \<open>restoreCurrent\<close> do for a file and for the web files: the file is copied beside the live one
  and renamed; the folder that was set aside is renamed, and without one the backup is copied.
\<close>

definition put_back :: "place \<Rightarrow> place \<Rightarrow> place \<Rightarrow> unit host_op" where
  "put_back source tmp target =
     attempt (copy_file source tmp) (\<lambda>r. if r = Inr () then ignore (rename_place tmp target) else ret ())"

definition put_back_web :: "place \<Rightarrow> place \<Rightarrow> unit host_op" where
  "put_back_web aside source =
     bind_io (ignore (remove_places [Live_web])) (\<lambda>_.
     attempt (stat_place aside) (\<lambda>r. case r of
       Inr _ \<Rightarrow> ignore (rename_place aside Live_web)
     | Inl _ \<Rightarrow> ignore (copy_tree source Live_web)))"

definition put_back_helper :: "place \<Rightarrow> place \<Rightarrow> unit host_op" where
  "put_back_helper source tmp =
     attempt (stat_place source) (\<lambda>r. if regular_result r then put_back source tmp Live_helper else ret ())"

definition rollback :: "unit host_op" where
  "rollback =
     bind_io (ignore (systemctl Stop)) (\<lambda>_.
     bind_io (put_back Backup_binary Rollback_binary Live_binary) (\<lambda>_.
     bind_io (put_back_web Rollback_web Backup_web) (\<lambda>_.
     bind_io (put_back_helper Backup_helper Rollback_helper) (\<lambda>_.
     ignore (systemctl Start)))))"

definition swap_in :: "unit host_op" where
  "swap_in =
     bind_io (wrapping (rename_place New_binary Live_binary) ''replace core binary: '') (\<lambda>_.
     bind_io (wrapping (rename_place Live_web Rollback_web) ''preserve current web ui: '') (\<lambda>_.
     bind_io (or_else (rename_place New_web Live_web) (rename_place Rollback_web Live_web)
               (Wrap ''replace web ui: '')) (\<lambda>_.
     bind_io (wrapping (systemctl Start) ''start updated Home-AI-Core: '') (\<lambda>_.
     wait_active))))"

definition swap_helper :: "bool host_op" where
  "swap_helper =
     attempt (stat_place New_helper) (\<lambda>r. case r of
       Inr _ \<Rightarrow>
         bind_io (wrapping (rename_place New_helper Live_helper) ''replace updater helper: '') (\<lambda>_.
         bind_io (wrapping touch_place ''set updater helper permissions: '') (\<lambda>_.
         ret True))
     | Inl e \<Rightarrow>
         if errors_is e (ErrSys ENOENT) then ret False
         else throw (Wrap ''inspect staged updater helper: '' e))"

definition perform_install :: "metadata_env \<Rightarrow> string \<Rightarrow> string \<Rightarrow> string \<Rightarrow> bool host_op" where
  "perform_install env now current version =
     bind_io (back_up_live env now current version) (\<lambda>_.
     bind_io stage_new (\<lambda>_.
     bind_io stage_helper (\<lambda>_.
     bind_io (wrapping (systemctl Stop) ''stop Home-AI-Core: '') (\<lambda>_.
     bind_io (or_else (bind_io swap_in (\<lambda>_. swap_helper)) rollback id) (\<lambda>updated.
     bind_io (ignore (remove_places [Rollback_web])) (\<lambda>_.
     ret updated))))))"

section \<open>Going back\<close>

definition save_current :: "unit host_op" where
  "save_current =
     bind_io (remove_places [Current_binary, Current_web, Current_helper]) (\<lambda>_.
     bind_io touch_place (\<lambda>_.
     bind_io (wrapping (copy_file Live_binary Current_binary) ''backup current core before rollback: '') (\<lambda>_.
     bind_io (wrapping (copy_tree Live_web Current_web) ''backup current web before rollback: '') (\<lambda>_.
     attempt (stat_place Live_helper) (\<lambda>r.
     if regular_result r
     then bind_io touch_place (\<lambda>_.
          wrapping (copy_file Live_helper Current_helper) ''backup current helper before rollback: '')
     else ret ())))))"

definition clear_targets :: "unit host_op" where
  "clear_targets =
     bind_io (ignore (remove_file Target_binary)) (\<lambda>_.
     bind_io (ignore (remove_places [Target_web])) (\<lambda>_.
     bind_io (ignore (remove_places [Pre_rollback_web])) (\<lambda>_.
     ignore (remove_file Target_helper))))"

definition stage_target :: "bool host_op" where
  "stage_target =
     bind_io (wrapping (copy_file Backup_binary Target_binary) ''stage rollback core: '') (\<lambda>_.
     bind_io (wrapping (copy_tree Backup_web Target_web) ''stage rollback web: '') (\<lambda>_.
     attempt (stat_place Backup_helper) (\<lambda>r.
     if regular_result r
     then bind_io (wrapping (copy_file Backup_helper Target_helper) ''stage rollback helper: '') (\<lambda>_. ret True)
     else ret False)))"

definition restore_current :: "unit host_op" where
  "restore_current =
     bind_io (ignore (systemctl Stop)) (\<lambda>_.
     bind_io (put_back Current_binary Restore_binary Live_binary) (\<lambda>_.
     bind_io (put_back_web Pre_rollback_web Current_web) (\<lambda>_.
     bind_io (put_back_helper Current_helper Restore_helper) (\<lambda>_.
     ignore (systemctl Start)))))"

definition swap_back :: "bool \<Rightarrow> unit host_op" where
  "swap_back helper =
     bind_io (or_else (rename_place Live_web Pre_rollback_web) restore_current
               (Wrap ''preserve current web during rollback: '')) (\<lambda>_.
     bind_io (or_else (rename_place Target_web Live_web) restore_current
               (Wrap ''replace web during rollback: '')) (\<lambda>_.
     bind_io (or_else (systemctl Start) restore_current (Wrap ''start rolled-back Home-AI-Core: '')) (\<lambda>_.
     bind_io (or_else wait_active restore_current id) (\<lambda>_.
     if helper
     then or_else (rename_place Target_helper Live_helper) restore_current (Wrap ''restore updater helper: '')
     else ret ()))))"

definition perform_manual_rollback :: "metadata_env \<Rightarrow> bool host_op" where
  "perform_manual_rollback env =
     bind_io (available_rollback env) (\<lambda>m.
     bind_io (guard_io (m \<noteq> None) (Err ''rollback backup is incomplete'')) (\<lambda>_.
     bind_io save_current (\<lambda>_.
     bind_io clear_targets (\<lambda>_.
     bind_io stage_target (\<lambda>helper.
     bind_io (wrapping (systemctl Stop) ''stop Home-AI-Core for rollback: '') (\<lambda>_.
     bind_io (or_else (rename_place Target_binary Live_binary) (systemctl Start)
               (Wrap ''replace core during rollback: '')) (\<lambda>_.
     bind_io (swap_back helper) (\<lambda>_.
     bind_io (ignore (remove_places [Pre_rollback_web])) (\<lambda>_.
     bind_io (ignore (remove_places [Current_binary, Current_web, Current_helper])) (\<lambda>_.
     ret helper))))))))))"

end
