(* ===== verification/InstallSafety.thy ===== *)
theory InstallSafety
  imports UpdateInstall
begin

text \<open>What an installation and a manual rollback leave behind, when calls fail and when they do not.\<close>

section \<open>Reasoning with a number of faults\<close>

text \<open>
  \<open>hwp m Q pl u n\<close>: whatever the outcomes, with at most \<open>n\<close> failing calls among them, \<open>m\<close> on the
  places \<open>pl\<close> ends as \<open>Q\<close> says of its result, the places, the service, and the faults that are left.
\<close>

definition faults_in :: "outcome list \<Rightarrow> nat" where
  "faults_in os = length (filter (\<lambda>x. x \<noteq> Works) os)"

lemma faults_in_simps [simp]:
  "faults_in [] = 0" "faults_in (Works # os) = faults_in os" "faults_in (Fails e tn # os) = Suc (faults_in os)"
  "faults_in (Refused m u # os) = Suc (faults_in os)"
  by (simp_all add: faults_in_def)

lemma faults_in_tl: "faults_in (tl os) \<le> faults_in os"
  by (cases os) (simp_all add: faults_in_def)

type_synonym 'a host_post = "'a res \<Rightarrow> places \<Rightarrow> bool \<Rightarrow> nat \<Rightarrow> bool"

definition hwp :: "'a host_op \<Rightarrow> 'a host_post \<Rightarrow> places \<Rightarrow> bool \<Rightarrow> nat \<Rightarrow> bool" where
  "hwp m Q pl u n \<longleftrightarrow> (\<forall>h. places h = pl \<longrightarrow> service_up h = u \<longrightarrow> faults_in (outcomes h) \<le> n \<longrightarrow>
     (case m h of (r, h') \<Rightarrow> \<exists>n'. faults_in (outcomes h') \<le> n' \<and> n' \<le> n \<and> Q r (places h') (service_up h') n'))"

lemma hwpI:
  assumes "\<And>h r h'. places h = pl \<Longrightarrow> service_up h = u \<Longrightarrow> faults_in (outcomes h) \<le> n \<Longrightarrow> m h = (r, h') \<Longrightarrow>
      \<exists>n'. faults_in (outcomes h') \<le> n' \<and> n' \<le> n \<and> Q r (places h') (service_up h') n'"
  shows "hwp m Q pl u n"
  unfolding hwp_def using assms by (auto split: prod.splits)

lemma hwpD:
  assumes "hwp m Q (places h) (service_up h) n" "m h = (r, h')" "faults_in (outcomes h) \<le> n"
  shows "\<exists>n'. faults_in (outcomes h') \<le> n' \<and> n' \<le> n \<and> Q r (places h') (service_up h') n'"
  using assms unfolding hwp_def by fastforce

lemma hwp_mono:
  assumes "hwp m Q pl u n" "\<And>r pl u n'. n' \<le> n \<Longrightarrow> Q r pl u n' \<Longrightarrow> R r pl u n'"
  shows "hwp m R pl u n"
proof (rule hwpI)
  fix h r h'
  assume "places h = pl" "service_up h = u" "faults_in (outcomes h) \<le> n" "m h = (r, h')"
  then show "\<exists>n'. faults_in (outcomes h') \<le> n' \<and> n' \<le> n \<and> R r (places h') (service_up h') n'"
    using hwpD [of m Q h n r h'] assms by blast
qed

named_theorems hwp_intros

lemma hwp_ret [hwp_intros]: "Q (Inr x) pl u n \<Longrightarrow> hwp (ret x) Q pl u n"
  by (rule hwpI) (auto simp: ret_def)

lemma hwp_throw [hwp_intros]: "Q (Inl e) pl u n \<Longrightarrow> hwp (throw e) Q pl u n"
  by (rule hwpI) (auto simp: throw_def)

lemma hwp_lift [hwp_intros]: "Q r pl u n \<Longrightarrow> hwp (lift_res r) Q pl u n"
  by (rule hwpI) (auto simp: lift_res_def)

lemma hwp_guard [hwp_intros]:
  "(b \<Longrightarrow> Q (Inr ()) pl u n) \<Longrightarrow> (\<not> b \<Longrightarrow> Q (Inl e) pl u n) \<Longrightarrow> hwp (guard_io b e) Q pl u n"
  by (simp add: guard_io_def hwp_ret hwp_throw)

lemma hwp_attempt [hwp_intros]:
  assumes "hwp m (\<lambda>r. hwp (k r) Q) pl u n"
  shows "hwp (attempt m k) Q pl u n"
proof (rule hwpI)
  fix h r h' assume h: "places h = pl" "service_up h = u" "faults_in (outcomes h) \<le> n" "attempt m k h = (r, h')"
  obtain r1 h1 where m: "m h = (r1, h1)" by force
  have k: "k r1 h1 = (r, h')" using h(4) m by (simp add: attempt_def)
  obtain n1 where n1: "faults_in (outcomes h1) \<le> n1" "n1 \<le> n" "hwp (k r1) Q (places h1) (service_up h1) n1"
    using hwpD [of m "\<lambda>r. hwp (k r) Q" h n r1 h1] assms h m by blast
  show "\<exists>n'. faults_in (outcomes h') \<le> n' \<and> n' \<le> n \<and> Q r (places h') (service_up h') n'"
    using hwpD [OF n1(3) k n1(1)] n1(2) le_trans by blast
qed

lemma hwp_bind [hwp_intros]:
  assumes "hwp m (\<lambda>r pl u n. case r of Inl e \<Rightarrow> Q (Inl e) pl u n | Inr x \<Rightarrow> hwp (k x) Q pl u n) pl u n"
  shows "hwp (bind_io m k) Q pl u n"
proof -
  have eq: "bind_io m k = attempt m (\<lambda>r. case r of Inl e \<Rightarrow> throw e | Inr x \<Rightarrow> k x)"
    by (auto simp: bind_io_def attempt_def throw_def fun_eq_iff split: prod.splits sum.splits)
  show ?thesis unfolding eq
    by (rule hwp_attempt, rule hwp_mono [OF assms]) (auto split: sum.splits intro: hwp_throw)
qed

lemma hwp_ignore [hwp_intros]: "hwp m (\<lambda>r. Q (Inr ())) pl u n \<Longrightarrow> hwp (ignore m) Q pl u n"
  unfolding ignore_def by (rule hwp_attempt, erule hwp_mono) (rule hwp_ret)

lemma hwp_or_else [hwp_intros]:
  assumes "hwp m (\<lambda>r pl u n. case r of Inr x \<Rightarrow> Q (Inr x) pl u n
      | Inl e \<Rightarrow> hwp c (\<lambda>_. Q (Inl (f e))) pl u n) pl u n"
  shows "hwp (or_else m c f) Q pl u n"
proof -
  have "hwp (bind_io (ignore c) (\<lambda>_. throw (f e))) Q pl u n" if "hwp c (\<lambda>_. Q (Inl (f e))) pl u n" for e pl u n
    by (rule hwp_bind, rule hwp_ignore, rule hwp_mono [OF that]) (simp add: hwp_throw)
  then show ?thesis
    unfolding or_else_def
    by (intro hwp_attempt hwp_mono [OF assms]) (simp add: hwp_ret split: sum.splits)
qed

lemma outcomes_cases [case_names none works fails refused]:
  obtains "outcomes h = []" | os where "outcomes h = Works # os" | e tn os where "outcomes h = Fails e tn # os"
    | m v os where "outcomes h = Refused m v # os"
  by (cases "outcomes h"; cases "hd (outcomes h)") auto

lemma trouble_not_missing [simp]: "trouble_errno e \<noteq> ENOENT"
  by (cases e) simp_all

lemma fewer_faults: "Suc k \<le> n \<Longrightarrow> n = Suc (n - 1) \<and> k \<le> n - 1"
  by simp

lemma hwp_call [hwp_intros]:
  assumes "case f pl of (r, pl') \<Rightarrow> Q r pl' u n"
    and "\<And>n' e tn. n = Suc n' \<Longrightarrow> Q (Inl (ErrSys (trouble_errno e))) (tear tn pl) u n'"
  shows "hwp (host_call tear f) Q pl u n"
proof (rule hwpI)
  fix h r h'
  assume h: "places h = pl" "service_up h = u" "faults_in (outcomes h) \<le> n" "host_call tear f h = (r, h')"
  show "\<exists>n'. faults_in (outcomes h') \<le> n' \<and> n' \<le> n \<and> Q r (places h') (service_up h') n'"
  proof (cases h rule: outcomes_cases)
    case (fails e tn os)
    then show ?thesis using h assms(2) [of "n - 1" e tn] fewer_faults [of "faults_in os" n]
      by (auto simp: host_call_def intro!: exI [of _ "n - 1"])
  qed (use h assms(1) in \<open>auto simp: host_call_def split: prod.splits intro!: exI [of _ n]\<close>)
qed

lemma hwp_systemctl [hwp_intros]:
  assumes "Q (Inr ()) pl (a = Start) n"
    and "\<And>n' e v. n = Suc n' \<Longrightarrow> Q (Inl e) pl v n'"
  shows "hwp (systemctl a) Q pl u n"
proof (rule hwpI)
  fix h r h'
  assume h: "places h = pl" "service_up h = u" "faults_in (outcomes h) \<le> n" "systemctl a h = (r, h')"
  show "\<exists>n'. faults_in (outcomes h') \<le> n' \<and> n' \<le> n \<and> Q r (places h') (service_up h') n'"
  proof (cases h rule: outcomes_cases)
    case (refused m v os)
    then show ?thesis using h assms(2) [of "n - 1"] fewer_faults [of "faults_in os" n]
      by (auto simp: systemctl_def intro!: exI [of _ "n - 1"])
  qed (use h assms(1) in \<open>auto simp: systemctl_def intro!: exI [of _ n]\<close>)
qed

lemma hwp_wait [hwp_intros]:
  assumes "Q (Inr ()) pl u n" "\<And>n' e v. n = Suc n' \<Longrightarrow> Q (Inl e) pl v n'"
  shows "hwp wait_active Q pl u n"
proof (rule hwpI)
  fix h r h'
  assume h: "places h = pl" "service_up h = u" "faults_in (outcomes h) \<le> n" "wait_active h = (r, h')"
  show "\<exists>n'. faults_in (outcomes h') \<le> n' \<and> n' \<le> n \<and> Q r (places h') (service_up h') n'"
  proof (cases h rule: outcomes_cases)
    case (refused m v os)
    then show ?thesis using h assms(2) [of "n - 1"] fewer_faults [of "faults_in os" n]
      by (auto simp: wait_active_def intro!: exI [of _ "n - 1"])
  qed (use h assms(1) in \<open>auto simp: wait_active_def intro!: exI [of _ n]\<close>)
qed

section \<open>Installing\<close>

definition plain_tree :: "(path \<times> string) list \<Rightarrow> bool" where
  "plain_tree fs \<longleftrightarrow> distinct (map fst fs) \<and> (\<forall>p\<in>set (map fst fs). \<forall>q\<in>set (map fst fs). \<not> strict_prefix p q)"

lemma copy_entries_plain:
  "plain_tree (old @ fs) \<Longrightarrow> copy_entries fs old = (Inr (), old @ fs)"
proof (induction fs arbitrary: old)
  case (Cons f fs)
  obtain p c where f: "f = (p, c)" by force
  have "filter (\<lambda>e. fst e \<noteq> p) old = old"
    using Cons.prems f by (auto simp: plain_tree_def filter_id_conv intro: rev_image_eqI)
  moreover have "copy_entries fs (old @ [f]) = (Inr (), (old @ [f]) @ fs)"
    using Cons.prems by (intro Cons.IH) simp
  ultimately show ?case
    using Cons.prems f by (auto simp: plain_tree_def)
qed simp

lemma copy_entries_fresh [simp]: "plain_tree fs \<Longrightarrow> copy_entries fs [] = (Inr (), fs)"
  using copy_entries_plain [of "[]" fs] by simp

lemmas host_calls = remove_file_def rename_place_def stat_place_def write_place_def read_place_def touch_place_def

lemma hwp_copy_file [hwp_intros]:
  assumes "\<exists>c. pl s = Some (Bytes c)" "\<forall>fs. pl t \<noteq> Some (Folder fs)" "Q (Inr ()) (pl(t := pl s)) u n"
    and "\<And>n' e x. n = Suc n' \<Longrightarrow> Q (Inl e) (pl(t := x)) u n'"
  shows "hwp (copy_file s t) Q pl u n"
  unfolding copy_file_def using assms by (auto intro!: hwp_call split: option.splits blob.splits)

lemma hwp_copy_tree [hwp_intros]:
  assumes "\<exists>fs. pl s = Some (Folder fs) \<and> plain_tree fs" "pl t = None" "Q (Inr ()) (pl(t := pl s)) u n"
    and "\<And>n' e x. n = Suc n' \<Longrightarrow> Q (Inl e) (pl(t := x)) u n'"
  shows "hwp (copy_tree s t) Q pl u n"
  unfolding copy_tree_def using assms by (auto intro!: hwp_call)

lemma hwp_remove [hwp_intros]:
  assumes "Q (Inr ()) (\<lambda>p. if p \<in> set ps then None else pl p) u n"
    and "\<And>n' e tn. n = Suc n' \<Longrightarrow> Q (Inl e) (\<lambda>p. if p \<in> set ps \<and> pl p \<noteq> None then tn p else pl p) u n'"
  shows "hwp (remove_places ps) Q pl u n"
  unfolding remove_places_def using assms by (auto intro!: hwp_call)

text \<open>Removing what is not there changes nothing, even if it fails.\<close>

lemma hwp_remove_nothing:
  assumes "pl p = None" "Q (Inr ()) pl u n" "\<And>n' e. n = Suc n' \<Longrightarrow> Q (Inl e) pl u n'"
  shows "hwp (remove_places [p]) Q pl u n"
proof (rule hwp_remove)
  have "(\<lambda>q. if q \<in> set [p] then None else pl q) = pl" by (rule ext) (use assms(1) in simp)
  then show "Q (Inr ()) (\<lambda>q. if q \<in> set [p] then None else pl q) u n" using assms(2) by simp
next
  fix n' e tn assume "n = Suc n'"
  moreover have "(\<lambda>q. if q \<in> set [p] \<and> pl q \<noteq> None then tn q else pl q) = pl" by (rule ext) (use assms(1) in auto)
  ultimately show "Q (Inl e) (\<lambda>q. if q \<in> set [p] \<and> pl q \<noteq> None then tn q else pl q) u n'"
    using assms(3) by simp
qed

definition live :: "places \<Rightarrow> string \<Rightarrow> (path \<times> string) list \<Rightarrow> string \<Rightarrow> bool" where
  "live pl b w l \<longleftrightarrow> pl Live_binary = Some (Bytes b) \<and> pl Live_web = Some (Folder w) \<and> pl Live_helper = Some (Bytes l)"

abbreviation others_kept :: "place set \<Rightarrow> places \<Rightarrow> places \<Rightarrow> bool" where
  "others_kept ps pl pl' \<equiv> \<forall>p. p \<notin> ps \<longrightarrow> pl' p = pl p"

definition backup_places :: "place set" where
  "backup_places = {Backup_binary, Backup_web, Backup_helper, Backup_metadata}"

lemma hwp_back_up:
  assumes "live pl b w l" "plain_tree w"
  shows "hwp (back_up_live env now current version) (\<lambda>r pl' u' n'. u' = u \<and> others_kept backup_places pl pl' \<and>
     (case r of Inl _ \<Rightarrow> n' < n | Inr _ \<Rightarrow> pl' Backup_binary = Some (Bytes b) \<and> pl' Backup_web = Some (Folder w) \<and>
        pl' Backup_helper = None \<and> (valid_version current \<longrightarrow> pl' Backup_metadata = Some (Bytes (me_encode env
          \<lparr>bm_version = current, bm_replaced_by = version, bm_created_at = now\<rparr> @ [CHR 0x0A]))))) pl u n"
  unfolding back_up_live_def write_backup_metadata_def host_calls
  using assms by (auto intro!: hwp_intros simp: live_def backup_places_def)


text \<open>The prepared update: its helper is optional.\<close>

definition prepared :: "places \<Rightarrow> string \<Rightarrow> (path \<times> string) list \<Rightarrow> string option \<Rightarrow> bool" where
  "prepared pl b w l \<longleftrightarrow> pl Prepared_binary = Some (Bytes b) \<and> pl Prepared_web = Some (Folder w) \<and>
     pl Prepared_helper = map_option Bytes l"

text \<open>No folder where a temporary file goes, and nothing at the other temporary names.\<close>

definition tidy :: "places \<Rightarrow> bool" where
  "tidy pl \<longleftrightarrow> (\<forall>p\<in>{New_binary, Rollback_binary, Rollback_helper}. \<forall>fs. pl p \<noteq> Some (Folder fs)) \<and>
     (\<forall>p\<in>{New_web, Rollback_web, New_helper}. pl p = None)"

lemma hwp_stage_new:
  assumes "prepared pl b w l" "plain_tree w" "tidy pl"
  shows "hwp stage_new (\<lambda>r pl' u' n'. u' = u \<and> others_kept {New_binary, New_web} pl pl' \<and>
     (case r of Inl _ \<Rightarrow> n' < n | Inr _ \<Rightarrow> n' \<le> n \<and> pl' New_binary = Some (Bytes b) \<and> pl' New_web = Some (Folder w))) pl u n"
  unfolding stage_new_def
  using assms by (auto intro!: hwp_remove_nothing hwp_intros simp: prepared_def tidy_def)

lemma hwp_stage_helper:
  assumes "prepared pl b w l" "pl Live_helper = Some (Bytes l0)" "pl New_helper = None" "pl Backup_helper = None"
  shows "hwp stage_helper (\<lambda>r pl' u' n'. u' = u \<and> others_kept {Backup_helper, New_helper} pl pl' \<and>
     (case r of Inl _ \<Rightarrow> n' < n
      | Inr _ \<Rightarrow> n' \<le> n \<and> (pl' New_helper = None \<and> pl' Backup_helper = None \<and> (n' = n \<longrightarrow> l = None) \<or>
          (\<exists>l1. l = Some l1 \<and> pl' New_helper = Some (Bytes l1) \<and> pl' Backup_helper = Some (Bytes l0))))) pl u n"
  unfolding stage_helper_def host_calls
  using assms by (cases l) (auto intro!: hwp_intros simp: prepared_def)

definition staged :: "places \<Rightarrow> string \<Rightarrow> (path \<times> string) list \<Rightarrow> string \<Rightarrow> string \<Rightarrow> (path \<times> string) list \<Rightarrow> string option \<Rightarrow> bool" where
  "staged pl b w l b' w' l' \<longleftrightarrow> live pl b w l \<and>
     pl Backup_binary = Some (Bytes b) \<and> pl Backup_web = Some (Folder w) \<and>
     pl New_binary = Some (Bytes b') \<and> pl New_web = Some (Folder w') \<and>
     pl New_helper = map_option Bytes l' \<and> pl Backup_helper = (if l' = None then None else Some (Bytes l)) \<and>
     pl Rollback_web = None \<and> (\<forall>p\<in>{Rollback_binary, Rollback_helper}. \<forall>fs. pl p \<noteq> Some (Folder fs))"

text \<open>After the swap, or where it stopped: what the rollback finds.\<close>

definition swapped :: "places \<Rightarrow> string \<Rightarrow> (path \<times> string) list \<Rightarrow> string \<Rightarrow> string \<Rightarrow> (path \<times> string) list \<Rightarrow> string option \<Rightarrow> bool" where
  "swapped pl b w l b' w' l' \<longleftrightarrow>
     pl Live_binary \<in> {Some (Bytes b), Some (Bytes b')} \<and> pl Backup_binary = Some (Bytes b) \<and> pl Backup_web = Some (Folder w) \<and>
     pl Live_helper \<in> insert (Some (Bytes l)) (Some ` Bytes ` set_option l') \<and>
     pl Backup_helper = (if l' = None then None else Some (Bytes l)) \<and>
     (pl Rollback_web = Some (Folder w) \<or> pl Rollback_web = None \<and> pl Live_web = Some (Folder w)) \<and>
     (\<forall>p\<in>{Rollback_binary, Rollback_helper}. \<forall>fs. pl p \<noteq> Some (Folder fs))"

definition swap_places :: "place set" where
  "swap_places = {Live_binary, New_binary, Live_web, New_web, Rollback_web, Live_helper, New_helper}"

lemma hwp_swap:
  assumes "staged pl b w l b' w' l'"
  shows "hwp (bind_io swap_in (\<lambda>_. swap_helper)) (\<lambda>r pl' u' n'. swapped pl' b w l b' w' l' \<and>
     others_kept swap_places pl pl' \<and>
     (case r of Inl _ \<Rightarrow> n' < n
      | Inr x \<Rightarrow> u' \<and> live pl' b' w' (case l' of None \<Rightarrow> l | Some l1 \<Rightarrow> l1) \<and> x = (l' \<noteq> None))) pl u n"
  unfolding swap_in_def swap_helper_def host_calls
  using assms by (cases l') (auto intro!: hwp_intros simp: staged_def swapped_def live_def swap_places_def)

lemma hwp_put_back [hwp_intros]:
  assumes "\<exists>c. pl s = Some (Bytes c)" "\<forall>fs. pl tmp \<noteq> Some (Folder fs)" "\<forall>fs. pl t \<noteq> Some (Folder fs)" "tmp \<noteq> t" "s \<noteq> t"
    and ok: "Q (Inr ()) (pl(t := pl s, tmp := None)) u n"
    and torn: "\<And>x n'. n = Suc n' \<Longrightarrow> Q (Inr ()) (pl(tmp := x)) u n'"
  shows "hwp (put_back s tmp t) Q pl u n"
proof -
  obtain c where c: "pl s = Some (Bytes c)" using assms(1) by blast
  have q: "Q (Inr ()) (pl(tmp := None, t \<mapsto> Bytes c)) u n"
    using ok c assms(4) by (simp add: fun_upd_twist)
  show ?thesis
    unfolding put_back_def rename_place_def
    using c q assms(2-4) by (auto intro!: hwp_intros torn split: option.splits blob.splits)
qed

lemma hwp_put_back_helper [hwp_intros]:
  assumes "pl s = None \<or> (\<exists>c. pl s = Some (Bytes c))"
    and "\<forall>fs. pl tmp \<noteq> Some (Folder fs)" "\<forall>fs. pl Live_helper \<noteq> Some (Folder fs)" "tmp \<noteq> Live_helper" "s \<noteq> Live_helper"
    and "Q (Inr ()) (if pl s = None then pl else pl(Live_helper := pl s, tmp := None)) u n"
    and "\<And>x n'. n = Suc n' \<Longrightarrow> Q (Inr ()) (pl(tmp := x)) u n'"
  shows "hwp (put_back_helper s tmp) Q pl u n"
proof -
  have keep: "Q (Inr ()) pl u n'" if "n = Suc n'" for n'
    using assms(7) [OF that, of "pl tmp"] by simp
  show ?thesis
    unfolding put_back_helper_def stat_place_def
    using assms keep by (cases "pl s") (auto intro!: hwp_intros)
qed

lemma hwp_copy_tree_any:
  assumes "\<And>r y n'. n' \<le> n \<Longrightarrow> Q r (pl(t := y)) u n'"
  shows "hwp (copy_tree s t) Q pl u n"
proof -
  have "Q r pl u n" for r
    using assms [of n r "pl t"] by simp
  then show ?thesis
    unfolding copy_tree_def using assms by (auto intro!: hwp_call split: option.splits blob.splits prod.splits)
qed

lemma hwp_rename_any:
  assumes "\<And>r y z n'. n' \<le> n \<Longrightarrow> Q r (pl(b := y, a := z)) u n'" "a \<noteq> b"
  shows "hwp (rename_place a b) Q pl u n"
proof -
  have q: "Q r (pl(a := None, b := y)) u n" for r y
    using assms(1) [of n r y None] assms(2) by (simp add: fun_upd_twist)
  have "Q r pl u n'" if "n' \<le> n" for r n'
    using assms(1) [OF that, of r "pl b" "pl a"] by simp
  then show ?thesis
    unfolding rename_place_def using q by (auto intro!: hwp_call split: option.splits blob.splits list.splits)
qed

text \<open>The folder set aside comes back, or the backup is copied.  With a fault the web files may suffer.\<close>

lemma hwp_put_back_web:
  assumes "pl aside \<in> {None, Some (Folder fs)}" "pl source = Some (Folder fs)" "plain_tree fs"
    and "aside \<noteq> Live_web" "source \<noteq> Live_web"
    and ok: "Q (Inr ()) (pl(Live_web \<mapsto> Folder fs, aside := None)) u n"
    and torn: "\<And>y z n'. n' < n \<Longrightarrow> Q (Inr ()) (pl(Live_web := y, aside := z)) u n'"
  shows "hwp (put_back_web aside source) Q pl u n"
proof -
  have one: "(\<lambda>p. if p \<in> set [Live_web] then None else pl p) = pl(Live_web := None)"
    and two: "(\<lambda>p. if p \<in> set [Live_web] \<and> pl p \<noteq> None then tn p else pl p) =
       pl(Live_web := if pl Live_web = None then None else tn Live_web)" for tn
    by auto
  have alone: "Q (Inr ()) (pl(Live_web := y)) u n'" if "n' < n" for y n'
    using torn [OF that, of y "pl aside"] assms(4) by (simp add: fun_upd_twist fun_upd_idem)
  let ?rest = "attempt (stat_place aside) (\<lambda>r. case r of
       Inr _ \<Rightarrow> ignore (rename_place aside Live_web)
     | Inl _ \<Rightarrow> ignore (copy_tree source Live_web))"
  have rename: "hwp (ignore (rename_place aside Live_web)) Q (pl(Live_web := y)) u n'"
    and copy: "hwp (ignore (copy_tree source Live_web)) Q (pl(Live_web := y)) u n'" if "n' < n" for y n'
    using that assms(4) by (auto intro!: hwp_ignore hwp_rename_any hwp_copy_tree_any torn alone)
  have bad: "hwp ?rest Q (pl(Live_web := y)) u n'" if "n' < n" for y n'
    unfolding stat_place_def using that rename copy
    by (auto intro!: hwp_attempt hwp_call split: option.splits)
  have idem: "pl(Live_web \<mapsto> Folder fs, aside := None) = pl(Live_web \<mapsto> Folder fs)" if "pl aside = None"
    using that assms(4) by (auto simp: fun_eq_iff)
  have good: "hwp ?rest Q (pl(Live_web := None)) u n"
  proof (cases "pl aside")
    case None
    then show ?thesis
      unfolding stat_place_def using assms(2-5) ok alone copy
      by (auto simp: idem intro!: hwp_attempt hwp_call hwp_ignore hwp_copy_tree)
  next
    case (Some x)
    then have x: "x = Folder fs" using assms(1) by simp
    have "Q (Inr ()) (pl(aside := None, Live_web \<mapsto> Folder fs)) u n"
      using ok assms(4) by (simp add: fun_upd_twist)
    then show ?thesis
      unfolding stat_place_def rename_place_def using Some x assms(4) alone copy
      by (auto intro!: hwp_attempt hwp_call hwp_ignore)
  qed
  show ?thesis
    unfolding put_back_web_def
    by (rule hwp_bind, rule hwp_ignore, rule hwp_remove, unfold one two) (use good bad in auto)
qed


text \<open>What \<open>rollback\<close> and \<open>restoreCurrent\<close> have in common.\<close>

definition undo :: "place \<Rightarrow> place \<Rightarrow> place \<Rightarrow> place \<Rightarrow> place \<Rightarrow> place \<Rightarrow> unit host_op" where
  "undo sb tb aside sw sh th =
     bind_io (ignore (systemctl Stop)) (\<lambda>_.
     bind_io (put_back sb tb Live_binary) (\<lambda>_.
     bind_io (put_back_web aside sw) (\<lambda>_.
     bind_io (put_back_helper sh th) (\<lambda>_.
     ignore (systemctl Start)))))"

lemma undo_simps:
  "rollback = undo Backup_binary Rollback_binary Rollback_web Backup_web Backup_helper Rollback_helper"
  "restore_current = undo Current_binary Restore_binary Pre_rollback_web Current_web Current_helper Restore_helper"
  by (simp_all add: undo_def rollback_def restore_current_def)

definition undo_ready :: "place \<Rightarrow> place \<Rightarrow> place \<Rightarrow> place \<Rightarrow> place \<Rightarrow> place \<Rightarrow> string \<Rightarrow> (path \<times> string) list \<Rightarrow> string \<Rightarrow> places \<Rightarrow> bool" where
  "undo_ready sb tb aside sw sh th b w l pl \<longleftrightarrow>
     distinct [sb, tb, aside, sw, sh, th, Live_binary, Live_web, Live_helper] \<and> plain_tree w \<and>
     pl sb = Some (Bytes b) \<and> pl sw = Some (Folder w) \<and> pl aside \<in> {None, Some (Folder w)} \<and>
     (pl sh = Some (Bytes l) \<or> pl sh = None \<and> pl Live_helper = Some (Bytes l)) \<and>
     (\<forall>p\<in>{tb, th, Live_binary, Live_helper}. \<forall>fs. pl p \<noteq> Some (Folder fs))"

lemma hwp_undo:
  assumes "undo_ready sb tb aside sw sh th b w l pl"
  shows "hwp (undo sb tb aside sw sh th) (\<lambda>_ pl' u' n'. pl' Live_binary \<in> {Some (Bytes b), pl Live_binary} \<and>
     pl' Live_helper \<in> {Some (Bytes l), pl Live_helper} \<and> (n = 0 \<longrightarrow> live pl' b w l \<and> u')) pl u n"
proof -
  have d: "distinct [sb, tb, aside, sw, sh, th, Live_binary, Live_web, Live_helper]"
    using assms by (simp add: undo_ready_def)
  let ?ok = "\<lambda>pl' n'. n' \<le> n \<and> pl' Live_binary \<in> {Some (Bytes b), pl Live_binary} \<and> pl' Live_helper = pl Live_helper \<and>
     (\<forall>p\<in>{sw, aside, sh, th}. pl' p = pl p) \<and> (n = 0 \<longrightarrow> pl' Live_binary = Some (Bytes b))"
  have binary: "hwp (put_back sb tb Live_binary) (\<lambda>r pl' u' n'. r = Inr () \<and> ?ok pl' n') pl u' n1" if "n1 \<le> n" for u' n1
    using assms that d by (intro hwp_put_back) (auto simp: undo_ready_def)
  let ?ok2 = "\<lambda>pl' n'. n' \<le> n \<and> pl' Live_binary \<in> {Some (Bytes b), pl Live_binary} \<and> pl' Live_helper = pl Live_helper \<and>
     (\<forall>p\<in>{sh, th}. pl' p = pl p) \<and> (n = 0 \<longrightarrow> pl' Live_binary = Some (Bytes b) \<and> pl' Live_web = Some (Folder w))"
  have web: "hwp (put_back_web aside sw) (\<lambda>r pl' u' n'. r = Inr () \<and> ?ok2 pl' n') pl1 u' n1" if "?ok pl1 n1" for pl1 u' n1
    using assms that d by (intro hwp_put_back_web [where fs = w]) (auto simp: undo_ready_def)
  have helper: "hwp (put_back_helper sh th) (\<lambda>r pl' u' n'. r = Inr () \<and> n' \<le> n \<and>
     pl' Live_binary \<in> {Some (Bytes b), pl Live_binary} \<and> pl' Live_helper \<in> {Some (Bytes l), pl Live_helper} \<and>
     (n = 0 \<longrightarrow> live pl' b w l)) pl2 u' n2" if "?ok2 pl2 n2" for pl2 u' n2
    using assms that d by (intro hwp_put_back_helper) (auto simp: undo_ready_def live_def)
  show ?thesis
    unfolding undo_def
    by (intro hwp_bind hwp_ignore hwp_systemctl; simp?)
      (auto intro!: hwp_bind hwp_ignore hwp_systemctl hwp_mono [OF binary] hwp_mono [OF web] hwp_mono [OF helper])
qed

lemma hwp_rollback:
  assumes "swapped pl b w l b' w' l'" "plain_tree w"
  shows "hwp rollback (\<lambda>_ pl' u' n'.
     pl' Live_binary \<in> {Some (Bytes b), Some (Bytes b')} \<and>
     pl' Live_helper \<in> insert (Some (Bytes l)) (Some ` Bytes ` set_option l') \<and>
     (n = 0 \<longrightarrow> live pl' b w l \<and> u')) pl u n"
proof -
  have "undo_ready Backup_binary Rollback_binary Rollback_web Backup_web Backup_helper Rollback_helper b w l pl"
    using assms by (auto simp: undo_ready_def swapped_def split: if_splits)
  then show ?thesis
    unfolding undo_simps by (rule hwp_mono [OF hwp_undo]) (use assms in \<open>auto simp: swapped_def\<close>)
qed

text \<open>
  What holds after an installation that started with at most \<open>n\<close> faults to come.  \<open>K\<close> is about places
  the swap does not touch.
\<close>

definition install_post ::
  "nat \<Rightarrow> (places \<Rightarrow> bool) \<Rightarrow> string \<Rightarrow> (path \<times> string) list \<Rightarrow> string \<Rightarrow> string \<Rightarrow> (path \<times> string) list \<Rightarrow> string option \<Rightarrow> bool host_post" where
  "install_post n K b w l b' w' l' r pl u n' \<longleftrightarrow>
     pl Live_binary \<in> {Some (Bytes b), Some (Bytes b')} \<and>
     pl Live_helper \<in> insert (Some (Bytes l)) (Some ` Bytes ` set_option l') \<and>
     (case r of
        Inr x \<Rightarrow> u \<and> live pl b' w' (if x then the l' else l) \<and> (x \<longrightarrow> l' \<noteq> None) \<and> (n = 0 \<longrightarrow> x = (l' \<noteq> None)) \<and>
          pl Backup_binary = Some (Bytes b) \<and> pl Backup_web = Some (Folder w) \<and>
          pl Backup_helper = (if x then Some (Bytes l) else None) \<and> K pl
      | Inl e \<Rightarrow> n \<noteq> 0 \<and> (n = 1 \<longrightarrow> live pl b w l \<and> (u \<or> (\<exists>e'. e = Wrap ''stop Home-AI-Core: '' e'))))"

lemma install_post_early:
  "live pl b w l \<Longrightarrow> u \<or> (\<exists>e'. e = Wrap ''stop Home-AI-Core: '' e') \<Longrightarrow> n' < n \<Longrightarrow> install_post n K b w l b' w' l' (Inl e) pl u n'"
  by (auto simp: install_post_def live_def)

lemma hwp_install_swap:
  assumes "staged pl b w l b' w' l1" "plain_tree w" "n1 \<le> n" "l1 = l' \<or> l1 = None \<and> n1 < n"
    and K: "\<And>pl'. others_kept swap_places pl pl' \<Longrightarrow> K pl'"
  shows "hwp (bind_io (or_else (bind_io swap_in (\<lambda>_. swap_helper)) rollback id) (\<lambda>updated.
     bind_io (ignore (remove_places [Rollback_web])) (\<lambda>_. ret updated))) (install_post n K b w l b' w' l') pl u n1"
proof (rule hwp_bind, rule hwp_or_else, rule hwp_mono [OF hwp_swap [OF assms(1)]], goal_cases)
  case (1 r pl2 u2 n2)
  show ?case
  proof (cases r)
    case (Inl e)
    have s: "swapped pl2 b w l b' w' l1" "n2 < n1" using 1 Inl by simp_all
    then have "hwp rollback (\<lambda>_. install_post n K b w l b' w' l' (Inl e)) pl2 u2 n2"
      using assms(3,4) by (auto intro!: hwp_mono [OF hwp_rollback [OF s(1) assms(2)]] simp: install_post_def)
    then show ?thesis using Inl by (auto elim: hwp_mono)
  next
    case (Inr x)
    have same: "pl2 p = pl p" if "p \<notin> swap_places" for p using 1 that by blast
    have kept: "K pl3" if "\<And>p. p \<noteq> Rollback_web \<Longrightarrow> pl3 p = pl2 p" for pl3
    proof (rule K, intro allI impI)
      fix p assume "p \<notin> swap_places"
      moreover from this have "p \<noteq> Rollback_web" by (auto simp: swap_places_def)
      ultimately show "pl3 p = pl p" using same that by simp
    qed
    have K_left: "K pl2" "K (\<lambda>p. if p = Rollback_web then None else pl2 p)"
        "K (\<lambda>p. if p = Rollback_web \<and> (\<exists>y. pl2 p = Some y) then tn p else pl2 p)" for tn
      by (rule kept, simp)+
    then show ?thesis
      using Inr 1 assms(3,4) by (auto intro!: hwp_intros simp: install_post_def live_def swapped_def split: option.splits)
  qed
qed

lemma hwp_install_stop:
  assumes "staged pl b w l b' w' l1" "plain_tree w" "n1 \<le> n" "l1 = l' \<or> l1 = None \<and> n1 < n"
    and K: "\<And>pl'. others_kept swap_places pl pl' \<Longrightarrow> K pl'"
  shows "hwp (bind_io (wrapping (systemctl Stop) ''stop Home-AI-Core: '') (\<lambda>_.
     bind_io (or_else (bind_io swap_in (\<lambda>_. swap_helper)) rollback id) (\<lambda>updated.
     bind_io (ignore (remove_places [Rollback_web])) (\<lambda>_. ret updated)))) (install_post n K b w l b' w' l') pl u n1"
  using assms hwp_install_swap [OF assms]
  by (auto intro!: hwp_bind hwp_or_else hwp_systemctl hwp_ret install_post_early simp: staged_def)

definition target_places :: "place set" where
  "target_places = {Target_binary, Target_web, Target_helper, Restore_binary, Restore_helper, Pre_rollback_web}"

definition install_keeps :: "metadata_env \<Rightarrow> string \<Rightarrow> string \<Rightarrow> string \<Rightarrow> places \<Rightarrow> places \<Rightarrow> bool" where
  "install_keeps env now current version pl pl' \<longleftrightarrow> (\<forall>p\<in>target_places. pl' p = pl p) \<and>
     (valid_version current \<longrightarrow> pl' Backup_metadata = Some (Bytes (me_encode env
        \<lparr>bm_version = current, bm_replaced_by = version, bm_created_at = now\<rparr> @ [CHR 0x0A])))"

lemma hwp_perform_install:
  assumes "live pl b w l" "plain_tree w" "prepared pl b' w' l'" "plain_tree w'" "tidy pl" "u"
  shows "hwp (perform_install env now current version) (install_post n (install_keeps env now current version pl) b w l b' w' l') pl u n"
  unfolding perform_install_def
proof (rule hwp_bind, rule hwp_mono [OF hwp_back_up [OF assms(1,2)]], goal_cases)
  case (1 r1 pl1 u1 n1)
  have same: "pl1 p = pl p" if "p \<notin> backup_places" for p using 1 that by blast
  have l1: "live pl1 b w l" and p1: "prepared pl1 b' w' l'" and t1: "tidy pl1" and u1: "u1"
    using assms 1 by (simp_all add: same backup_places_def live_def prepared_def tidy_def)
  show ?case
  proof (cases r1)
    case (Inl e)
    then show ?thesis using 1 l1 u1 by (simp add: install_post_early)
  next
    case r1: (Inr x)
    have m1: "valid_version current \<longrightarrow> pl1 Backup_metadata = Some (Bytes (me_encode env
          \<lparr>bm_version = current, bm_replaced_by = version, bm_created_at = now\<rparr> @ [CHR 0x0A]))"
      and r1_le: "n1 \<le> n" and b1: "pl1 Backup_helper = None" "pl1 Backup_binary = Some (Bytes b)" "pl1 Backup_web = Some (Folder w)"
      using 1 r1 by simp_all
    show ?thesis unfolding r1 sum.case
    proof (rule hwp_bind, rule hwp_mono [OF hwp_stage_new [OF p1 assms(4) t1]], goal_cases)
      case (1 r2 pl2 u2 n2)
      have same2: "pl2 p = pl1 p" if "p \<notin> {New_binary, New_web}" for p using 1 that by blast
      have l2: "live pl2 b w l" and p2: "prepared pl2 b' w' l'" and h2: "pl2 New_helper = None" and u2: "u2"
        using 1 l1 p1 t1 u1 by (simp_all add: same2 live_def prepared_def tidy_def)
      show ?case
      proof (cases r2)
        case (Inl e)
        then show ?thesis using 1 r1_le l2 u2 by (simp add: install_post_early)
      next
        case r2: (Inr y)
        have n2: "n2 \<le> n" and s2: "pl2 New_binary = Some (Bytes b')" "pl2 New_web = Some (Folder w')"
          "pl2 Backup_binary = Some (Bytes b)" "pl2 Backup_web = Some (Folder w)" "pl2 Rollback_web = None"
          and t2: "\<forall>p\<in>{Rollback_binary, Rollback_helper}. \<forall>fs. pl2 p \<noteq> Some (Folder fs)"
          using 1 r1_le r2 b1 t1 by (simp_all add: same2 tidy_def)
        have l0: "pl2 Live_helper = Some (Bytes l)" using l2 by (simp add: live_def)
        have b2: "pl2 Backup_helper = None" using b1 by (simp add: same2)
        show ?thesis unfolding r2 sum.case
        proof (rule hwp_bind, rule hwp_mono [OF hwp_stage_helper [OF p2 l0 h2 b2]], goal_cases)
          case (1 r3 pl3 u3 n3)
          have same3: "pl3 p = pl2 p" if "p \<notin> {Backup_helper, New_helper}" for p using 1 that by blast
          have l3: "live pl3 b w l" using l2 by (simp add: same3 live_def)
          show ?case
          proof (cases r3)
            case (Inl e)
            then show ?thesis using 1 n2 l3 u2 by (simp add: install_post_early)
          next
            case (Inr z)
            have helper3: "n3 \<le> n2" "pl3 New_helper = None \<and> pl3 Backup_helper = None \<and> (n3 = n2 \<longrightarrow> l' = None) \<or>
                (\<exists>l1. l' = Some l1 \<and> pl3 New_helper = Some (Bytes l1) \<and> pl3 Backup_helper = Some (Bytes l))"
              using 1 Inr by simp_all
            define l1 where "l1 = (if pl3 New_helper = None then None else l')"
            have "staged pl3 b w l b' w' l1"
              using helper3 l3 s2 t2 by (auto simp: staged_def l1_def same3)
            moreover have "n3 \<le> n" "l1 = l' \<or> l1 = None \<and> n3 < n"
              using helper3 n2 by (auto simp: l1_def)
            moreover have "install_keeps env now current version pl pl'" if "others_kept swap_places pl3 pl'" for pl'
            proof -
              have kept: "pl' p = pl3 p" if "p \<notin> swap_places" for p
                using that \<open>others_kept swap_places pl3 pl'\<close> by blast
              have "pl' p = pl p" if "p \<in> target_places" for p
              proof -
                have "p \<notin> swap_places" "p \<notin> {Backup_helper, New_helper}" "p \<notin> {New_binary, New_web}" "p \<notin> backup_places"
                  using that by (auto simp: target_places_def swap_places_def backup_places_def)
                then show ?thesis by (simp add: kept same3 same2 same)
              qed
              moreover have "pl' Backup_metadata = pl1 Backup_metadata"
                by (simp add: kept same3 same2 swap_places_def)
              ultimately show ?thesis using m1 by (simp add: install_keeps_def)
            qed
            ultimately show ?thesis using Inr hwp_install_stop assms(2) by simp
          qed
        qed
      qed
    qed
  qed
qed

section \<open>Going back\<close>

definition backed_up :: "metadata_env \<Rightarrow> places \<Rightarrow> string \<Rightarrow> (path \<times> string) list \<Rightarrow> string option \<Rightarrow> bool" where
  "backed_up env pl b w l \<longleftrightarrow> pl Backup_binary = Some (Bytes b) \<and> pl Backup_web = Some (Folder w) \<and>
     pl Backup_helper = map_option Bytes l \<and>
     (\<exists>c m. pl Backup_metadata = Some (Bytes c) \<and> me_decode env c = Inr m \<and> valid_version (bm_version m))"

definition tidy_targets :: "places \<Rightarrow> bool" where
  "tidy_targets pl \<longleftrightarrow> (\<forall>p\<in>{Target_binary, Target_helper, Restore_binary, Restore_helper}. \<forall>fs. pl p \<noteq> Some (Folder fs)) \<and>
     pl Target_web = None \<and> pl Pre_rollback_web = None"

lemma hwp_available:
  assumes "backed_up env pl b w l"
  shows "hwp (available_rollback env) (\<lambda>r pl' u' n'. pl' = pl \<and> u' = u \<and>
     (\<exists>m. r = Inr m \<and> (m = None \<longrightarrow> n' < n))) pl u n"
  unfolding available_rollback_def read_backup_metadata_def read_place_def stat_place_def
  using assms by (auto intro!: hwp_intros simp: backed_up_def)

lemma hwp_save_current:
  assumes "live pl b w l" "plain_tree w"
  shows "hwp save_current (\<lambda>r pl' u' n'. u' = u \<and> others_kept {Current_binary, Current_web, Current_helper} pl pl' \<and>
     (case r of Inl _ \<Rightarrow> n' < n | Inr _ \<Rightarrow> n' \<le> n \<and> pl' Current_binary = Some (Bytes b) \<and> pl' Current_web = Some (Folder w) \<and>
        (pl' Current_helper = Some (Bytes l) \<or> pl' Current_helper = None))) pl u n"
  unfolding save_current_def host_calls
  using assms by (auto intro!: hwp_intros simp: live_def)

lemma hwp_remove_file:
  assumes "\<forall>fs. pl p \<noteq> Some (Folder fs)" "\<And>r. Q r (pl(p := None)) u n" "\<And>r n'. n = Suc n' \<Longrightarrow> Q r pl u n'"
  shows "hwp (remove_file p) Q pl u n"
proof -
  have "Q r pl u n" if "pl p = None" for r
    using assms(2) [of r] that by (simp add: fun_upd_idem)
  then show ?thesis
    unfolding remove_file_def using assms by (auto intro!: hwp_call split: option.splits blob.splits list.splits)
qed

lemma hwp_clear_targets:
  assumes "tidy_targets pl"
  shows "hwp clear_targets (\<lambda>r pl' u' n'. r = Inr () \<and> u' = u \<and> n' \<le> n \<and>
     others_kept {Target_binary, Target_helper} pl pl' \<and> tidy_targets pl') pl u n"
  unfolding clear_targets_def
  using assms by (auto intro!: hwp_bind hwp_ignore hwp_remove_file hwp_remove_nothing simp: tidy_targets_def)

lemma hwp_stage_target:
  assumes "backed_up env pl b w l" "plain_tree w" "tidy_targets pl"
  shows "hwp stage_target (\<lambda>r pl' u' n'. u' = u \<and> others_kept {Target_binary, Target_web, Target_helper} pl pl' \<and>
     (case r of Inl _ \<Rightarrow> n' < n
      | Inr x \<Rightarrow> n' \<le> n \<and> pl' Target_binary = Some (Bytes b) \<and> pl' Target_web = Some (Folder w) \<and>
          (if x then l \<noteq> None \<and> pl' Target_helper = map_option Bytes l else n' = n \<longrightarrow> l = None))) pl u n"
  unfolding stage_target_def host_calls
  using assms by (cases l) (auto intro!: hwp_intros simp: backed_up_def tidy_targets_def)

text \<open>What holds after going back, when it started with at most \<open>n\<close> faults to come.\<close>

definition rollback_post ::
  "nat \<Rightarrow> string \<Rightarrow> (path \<times> string) list \<Rightarrow> string \<Rightarrow> string \<Rightarrow> (path \<times> string) list \<Rightarrow> string option \<Rightarrow> bool host_post" where
  "rollback_post n b w l b0 w0 l0 r pl u n' \<longleftrightarrow>
     pl Live_binary \<in> {Some (Bytes b), Some (Bytes b0)} \<and>
     pl Live_helper \<in> insert (Some (Bytes l)) (Some ` Bytes ` set_option l0) \<and>
     (case r of
        Inr x \<Rightarrow> u \<and> live pl b0 w0 (if x then the l0 else l) \<and> (x \<longrightarrow> l0 \<noteq> None) \<and> (n = 0 \<longrightarrow> x = (l0 \<noteq> None))
      | Inl e \<Rightarrow> n \<noteq> 0 \<and> (n = 1 \<longrightarrow> live pl b w l \<and> (u \<or> (\<exists>e'. e = Wrap ''stop Home-AI-Core for rollback: '' e'))))"

lemma rollback_post_early:
  "live pl b w l \<Longrightarrow> u \<or> (\<exists>e'. e = Wrap ''stop Home-AI-Core for rollback: '' e') \<Longrightarrow> n' < n \<Longrightarrow>
   rollback_post n b w l b0 w0 l0 (Inl e) pl u n'"
  by (auto simp: rollback_post_def live_def)

text \<open>Where the way back may stop: everything to restore the current version is there.\<close>

definition saved :: "places \<Rightarrow> string \<Rightarrow> (path \<times> string) list \<Rightarrow> string \<Rightarrow> string \<Rightarrow> string option \<Rightarrow> bool" where
  "saved pl b w l b0 l0 \<longleftrightarrow> undo_ready Current_binary Restore_binary Pre_rollback_web Current_web Current_helper Restore_helper b w l pl \<and>
     pl Live_binary \<in> {Some (Bytes b), Some (Bytes b0)} \<and>
     pl Live_helper \<in> insert (Some (Bytes l)) (Some ` Bytes ` set_option l0)"

lemma hwp_restore_current:
  assumes "saved pl b w l b0 l0" "n1 < n"
  shows "hwp restore_current (\<lambda>_. rollback_post n b w l b0 w0 l0 (Inl e)) pl u n1"
proof -
  have "undo_ready Current_binary Restore_binary Pre_rollback_web Current_web Current_helper Restore_helper b w l pl"
    using assms by (simp add: saved_def)
  then show ?thesis
    unfolding undo_simps by (rule hwp_mono [OF hwp_undo]) (use assms in \<open>auto simp: saved_def rollback_post_def\<close>)
qed

definition at_target :: "places \<Rightarrow> bool \<Rightarrow> (path \<times> string) list \<Rightarrow> string option \<Rightarrow> bool" where
  "at_target pl helper w0 l0 \<longleftrightarrow> pl Target_web = Some (Folder w0) \<and>
     (helper \<longrightarrow> l0 \<noteq> None \<and> pl Target_helper = map_option Bytes l0)"

lemma hwp_swap_back:
  assumes "saved pl b w l b0 l0" "at_target pl helper w0 l0" "n1 \<le> n" "helper \<or> l0 = None \<or> n1 < n"
    and "pl Live_binary = Some (Bytes b0)" "pl Live_web = Some (Folder w)" "pl Live_helper = Some (Bytes l)" "pl Pre_rollback_web = None"
  shows "hwp (swap_back helper) (\<lambda>r. rollback_post n b w l b0 w0 l0
     (case r of Inl e \<Rightarrow> Inl e | Inr _ \<Rightarrow> Inr helper)) pl u n1"
proof -
  let ?p1 = "pl(Live_web := None, Pre_rollback_web \<mapsto> Folder w)"
  let ?p2 = "pl(Pre_rollback_web \<mapsto> Folder w, Target_web := None, Live_web \<mapsto> Folder w0)"
  have "saved ?p1 b w l b0 l0" "saved ?p2 b w l b0 l0"
    using assms by (auto simp: saved_def undo_ready_def)
  then have r: "hwp restore_current (\<lambda>_. rollback_post n b w l b0 w0 l0 (Inl e)) pl u n1"
      "hwp restore_current (\<lambda>_. rollback_post n b w l b0 w0 l0 (Inl e)) ?p1 u n1"
      "hwp restore_current (\<lambda>_. rollback_post n b w l b0 w0 l0 (Inl e)) ?p2 u n1" if "n1 < n" for e u n1
    using assms(1) that by (auto intro: hwp_restore_current)
  show ?thesis
    unfolding swap_back_def rename_place_def
    using assms(2-) r by (cases l0) (auto intro!: hwp_bind hwp_or_else hwp_call hwp_systemctl hwp_wait hwp_ret
      simp: at_target_def rollback_post_def [of _ _ _ _ _ _ _ "Inr _"] live_def)
qed

lemma hwp_leave:
  assumes "rollback_post n b w l b0 w0 l0 (Inr x) pl u n1" "n1 \<le> n"
  shows "hwp (bind_io (ignore (remove_places [Pre_rollback_web])) (\<lambda>_.
     bind_io (ignore (remove_places [Current_binary, Current_web, Current_helper])) (\<lambda>_. ret x)))
     (rollback_post n b w l b0 w0 l0) pl u n1"
  using assms by (auto intro!: hwp_bind hwp_ignore hwp_remove hwp_ret simp: rollback_post_def live_def)

lemma hwp_back_stop:
  assumes "saved pl b w l b0 l0" "at_target pl helper w0 l0" "n1 \<le> n" "helper \<or> l0 = None \<or> n1 < n"
    and "pl Target_binary = Some (Bytes b0)" "live pl b w l" "pl Pre_rollback_web = None"
  shows "hwp (bind_io (wrapping (systemctl Stop) ''stop Home-AI-Core for rollback: '') (\<lambda>_.
     bind_io (or_else (rename_place Target_binary Live_binary) (systemctl Start)
               (Wrap ''replace core during rollback: '')) (\<lambda>_.
     bind_io (swap_back helper) (\<lambda>_.
     bind_io (ignore (remove_places [Pre_rollback_web])) (\<lambda>_.
     bind_io (ignore (remove_places [Current_binary, Current_web, Current_helper])) (\<lambda>_. ret helper))))))
     (rollback_post n b w l b0 w0 l0) pl u n1"
  (is "hwp (bind_io _ (\<lambda>_. bind_io _ (\<lambda>_. ?rest))) ?Q pl u n1")
proof -
  let ?p1 = "pl(Target_binary := None, Live_binary \<mapsto> Bytes b0)"
  have s1: "saved ?p1 b w l b0 l0" using assms(1) by (auto simp: saved_def undo_ready_def)
  have t1: "at_target ?p1 helper w0 l0" using assms(2) by (auto simp: at_target_def)
  have rest: "hwp ?rest ?Q ?p1 u n1" for u
  proof (rule hwp_bind, rule hwp_mono [OF hwp_swap_back [OF s1 t1 assms(3,4)]], goal_cases)
    case (5 r)
    then show ?case using assms(3) by (cases r) (auto intro!: hwp_leave)
  qed (use assms in \<open>simp_all add: live_def\<close>)
  have early: "?Q (Inl e) pl u n2" if "n2 < n" "u \<or> (\<exists>e'. e = Wrap ''stop Home-AI-Core for rollback: '' e')" for e u n2
    using rollback_post_early [OF assms(6)] that by blast
  have low: "?Q (Inl e) pl v n2" if "n2 < n" "n2 < n1 - 1" for e v n2
    using that assms(3,6) by (auto simp: rollback_post_def live_def)
  show ?thesis
    unfolding rename_place_def
    using assms(3,5) rest assms(6) early low
    by (auto intro!: hwp_bind hwp_or_else hwp_call hwp_systemctl hwp_ret simp: live_def)
qed

lemma hwp_manual_rollback:
  assumes "live pl b w l" "plain_tree w" "backed_up env pl b0 w0 l0" "plain_tree w0" "tidy_targets pl" "u"
  shows "hwp (perform_manual_rollback env) (rollback_post n b w l b0 w0 l0) pl u n"
  unfolding perform_manual_rollback_def
proof (rule hwp_bind, rule hwp_mono [OF hwp_available [OF assms(3)]], goal_cases)
  case (1 r0 pl0 u0 n0)
  then obtain m where m: "r0 = Inr m" "pl0 = pl" "u0" "m = None \<longrightarrow> n0 < n" "n0 \<le> n" using assms(6) by auto
  show ?case
  proof (cases m)
    case None
    then show ?thesis using m assms(1) by (auto intro!: hwp_bind hwp_guard rollback_post_early)
  next
    case (Some b1)
    have passed: "bind_io (guard_io (m \<noteq> None) e) k = k ()" for e and k :: "unit \<Rightarrow> bool host_op"
      by (simp add: Some guard_io_def bind_io_def ret_def)
    show ?thesis unfolding m(1,2) sum.case passed
    proof (rule hwp_bind, rule hwp_mono [OF hwp_save_current [OF assms(1,2)]], goal_cases)
      case (1 r1 pl1 u1 n1)
      have same1: "pl1 p = pl p" if "p \<notin> {Current_binary, Current_web, Current_helper}" for p using 1 that by blast
      have l1: "live pl1 b w l" and b1: "backed_up env pl1 b0 w0 l0" and t1: "tidy_targets pl1" and u1: "u1" "n1 \<le> n"
        using assms 1 m by (simp_all add: same1 live_def backed_up_def tidy_targets_def)
      show ?case
      proof (cases r1)
        case (Inl e)
        then show ?thesis using 1 m l1 u1 by (simp add: rollback_post_early)
      next
        case r1: (Inr x)
        have c1: "pl1 Current_binary = Some (Bytes b)" "pl1 Current_web = Some (Folder w)"
            "pl1 Current_helper = Some (Bytes l) \<or> pl1 Current_helper = None"
          using 1 r1 by simp_all
        show ?thesis unfolding r1 sum.case
        proof (rule hwp_bind, rule hwp_mono [OF hwp_clear_targets [OF t1]], goal_cases)
          case (1 r2 pl2 u2 n2)
          have same2: "pl2 p = pl1 p" if "p \<notin> {Target_binary, Target_helper}" for p using 1 that by blast
          have r2: "r2 = Inr ()" and t2: "tidy_targets pl2" and u2: "u2" "n2 \<le> n" using 1 u1 by simp_all
          have b2: "backed_up env pl2 b0 w0 l0" using b1 by (simp add: same2 backed_up_def)
          show ?case unfolding r2 sum.case
          proof (rule hwp_bind, rule hwp_mono [OF hwp_stage_target [OF b2 assms(4) t2]], goal_cases)
            case (1 r3 pl3 u3 n3)
            have same3: "pl3 p = pl2 p" if "p \<notin> {Target_binary, Target_web, Target_helper}" for p using 1 that by blast
            have l3: "live pl3 b w l" using l1 by (simp add: same3 same2 live_def)
            show ?case
            proof (cases r3)
              case (Inl e)
              then show ?thesis using 1 l3 u2 by (simp add: rollback_post_early)
            next
              case (Inr x)
              have "saved pl3 b w l b0 l0"
                using c1 l3 t2 assms(2) by (auto simp: saved_def undo_ready_def tidy_targets_def live_def same3 same2)
              moreover have "at_target pl3 x w0 l0" "x \<or> l0 = None \<or> n3 < n" "n3 \<le> n" "pl3 Target_binary = Some (Bytes b0)"
                using 1 Inr u2 by (auto simp: at_target_def split: if_splits)
              moreover have "pl3 Pre_rollback_web = None" using t2 by (simp add: same3 tidy_targets_def)
              ultimately show ?thesis unfolding Inr sum.case using l3 by (intro hwp_back_stop)
            qed
          qed
        qed
      qed
    qed
  qed
qed

section \<open>Properties\<close>




section \<open>Examples\<close>

definition sample_metadata :: metadata_env where
  "sample_metadata = \<lparr>me_encode = bm_version, me_decode = (\<lambda>c. Inr \<lparr>bm_version = butlast c, bm_replaced_by = [], bm_created_at = []\<rparr>)\<rparr>"

definition sample_places :: places where
  "sample_places = (\<lambda>_. None)(Live_binary \<mapsto> Bytes ''core 1'', Live_web \<mapsto> Folder [([''index.html''], ''web 1'')],
     Live_helper \<mapsto> Bytes ''helper 1'', Prepared_binary \<mapsto> Bytes ''core 2'',
     Prepared_web \<mapsto> Folder [([''index.html''], ''web 2''), ([''js'', ''app.js''], ''code'')],
     Prepared_helper \<mapsto> Bytes ''helper 2'')"

definition sample_host :: "outcome list \<Rightarrow> host" where
  "sample_host os = \<lparr>places = sample_places, service_up = True, outcomes = os\<rparr>"

text \<open>The service does not start with the new files.\<close>

definition failing_start :: "outcome list" where
  "failing_start = replicate 17 Works @ [Refused ''exit status 1'' False]"

definition run_sample :: "outcome list \<Rightarrow> bool res \<times> host" where
  "run_sample os = perform_install sample_metadata ''now'' ''1.0'' ''2.0'' (sample_host os)"

lemma sample_values:
  "fst (run_sample failing_start) = Inl (Wrap ''start updated Home-AI-Core: '' (Err ''exit status 1''))"
  "fst (run_sample []) = Inr True"
  by code_simp+

lemma sample_parts:
  "live sample_places ''core 1'' [([''index.html''], ''web 1'')] ''helper 1''"
  "plain_tree [([''index.html''], ''web 1'')]" "tidy sample_places" "tidy_targets sample_places"
  "prepared sample_places ''core 2'' [([''index.html''], ''web 2''), ([''js'', ''app.js''], ''code'')] (Some ''helper 2'')"
  "plain_tree [([''index.html''], ''web 2''), ([''js'', ''app.js''], ''code'')]"
  "places (sample_host os) = sample_places" "service_up (sample_host os)" "outcomes (sample_host os) = os"
  "faults_in failing_start = 1" "valid_version ''1.0''"
  by (simp_all add: live_def plain_tree_def tidy_def tidy_targets_def prepared_def sample_places_def sample_host_def
      failing_start_def faults_in_def valid_version_def version_char_def is_digit_def byte_in_def byte_def)

lemma sample_run: "perform_install sample_metadata ''now'' ''1.0'' ''2.0'' (sample_host os) = (fst (run_sample os), snd (run_sample os))"
  by (simp add: run_sample_def)


text \<open>Going back from the version the sample installed.\<close>

definition installed_host :: "outcome list \<Rightarrow> host" where
  "installed_host os = (snd (run_sample []))\<lparr>outcomes := os\<rparr>"

definition sample_back :: "outcome list \<Rightarrow> bool res \<times> host" where
  "sample_back os = perform_manual_rollback sample_metadata (installed_host os)"

text \<open>The disk fails when the web files are put aside.\<close>

definition failing_rename :: "outcome list" where
  "failing_rename = replicate 20 Works @ [Fails IO_error sample_places]"

lemma installed_values:
  "map (places (snd (run_sample []))) [Live_binary, Live_web, Live_helper, Backup_binary, Backup_web, Backup_helper, Backup_metadata,
     Target_binary, Target_web, Target_helper, Restore_binary, Restore_helper, Pre_rollback_web] =
   [Some (Bytes ''core 2''), Some (Folder [([''index.html''], ''web 2''), ([''js'', ''app.js''], ''code'')]), Some (Bytes ''helper 2''),
     Some (Bytes ''core 1''), Some (Folder [([''index.html''], ''web 1'')]), Some (Bytes ''helper 1''),
     Some (Bytes (''1.0'' @ [CHR 0x0A])), None, None, None, None, None, None]"
  "service_up (snd (run_sample []))"
  by code_simp+

lemma installed_parts:
  "live (places (installed_host os)) ''core 2'' [([''index.html''], ''web 2''), ([''js'', ''app.js''], ''code'')] ''helper 2''"
  "service_up (installed_host os)" "tidy_targets (places (installed_host os))" "outcomes (installed_host os) = os"
  "backed_up sample_metadata (places (installed_host os)) ''core 1'' [([''index.html''], ''web 1'')] (Some ''helper 1'')"
  "faults_in failing_rename = 1"
  using installed_values
  by (simp_all add: installed_host_def live_def tidy_targets_def backed_up_def sample_metadata_def valid_version_def
      version_char_def is_digit_def byte_in_def byte_def failing_rename_def faults_in_def)

lemma back_values:
  "fst (sample_back failing_rename) = Inl (Wrap ''preserve current web during rollback: '' (ErrSys EIO))"
  by code_simp

lemma sample_back_run: "perform_manual_rollback sample_metadata (installed_host os) = (fst (sample_back os), snd (sample_back os))"
  by (simp add: sample_back_def)



section \<open>What a failed installation leaves behind\<close>

text \<open>The next update, which brings no helper of its own.\<close>

definition next_update :: "host \<Rightarrow> host" where
  "next_update h = h\<lparr>places := (places h)(Prepared_binary \<mapsto> Bytes ''core 3'', Prepared_helper := None), outcomes := []\<rparr>"


end
