(* ===== verification/Version.thy ===== *)
theory Version
  imports GoText
begin

text \<open>
  Module versions: internal/modules/version.go.  A version is three machine integers; the
  parser accepts \<open>major.minor.patch\<close> in canonical decimal form only, \<open>compareVersion\<close> orders
  versions lexicographically, and \<open>satisfies\<close> evaluates a conjunction of comparisons.
\<close>

section \<open>Model\<close>

record version =
  major :: int
  minor :: int
  patch :: int

text \<open>The loop over the parts: the first bad part is the error.\<close>

fun parse_parts :: "string list \<Rightarrow> int list res" where
  "parse_parts [] = Inr []"
| "parse_parts (part # ps) =
     (if part = [] \<or> (length part > 1 \<and> hd part = CHR ''0'') then Inl (Err ''invalid semantic version'')
      else (case atoi part of
              None \<Rightarrow> Inl (Err ''invalid semantic version'')
            | Some n \<Rightarrow>
                if n < 0 then Inl (Err ''invalid semantic version'')
                else (case parse_parts ps of Inl e \<Rightarrow> Inl e | Inr ns \<Rightarrow> Inr (n # ns))))"

definition parse_version :: "string \<Rightarrow> version res" where
  "parse_version value =
     (let v = trim_prefix (trim_space value) ''v'' in
      if contains_any v ''+-''
      then Inl (Err ''pre-release/build metadata is not supported in module versions'')
      else (let parts = split_on CHR ''.'' v in
            if length parts \<noteq> 3 then Inl (Err ''version must use major.minor.patch'')
            else (case parse_parts parts of
                    Inl e \<Rightarrow> Inl e
                  | Inr ns \<Rightarrow> Inr \<lparr>major = ns ! 0, minor = ns ! 1, patch = ns ! 2\<rparr>)))"

definition compare_version :: "version \<Rightarrow> version \<Rightarrow> int" where
  "compare_version a b =
     (if major a \<noteq> major b then (if major a < major b then -1 else 1)
      else if minor a \<noteq> minor b then (if minor a < minor b then -1 else 1)
      else if patch a \<noteq> patch b then (if patch a < patch b then -1 else 1)
      else 0)"

text \<open>The operator of a term and what is left of it, candidates tried in the source's order.\<close>

definition split_term :: "string \<Rightarrow> string \<times> string" where
  "split_term t =
     (if has_prefix t ''>='' then (''>='', trim_prefix t ''>='')
      else if has_prefix t ''<='' then (''<='', trim_prefix t ''<='')
      else if has_prefix t ''>'' then (''>'', trim_prefix t ''>'')
      else if has_prefix t ''<'' then (''<'', trim_prefix t ''<'')
      else if has_prefix t ''='' then (''='', trim_prefix t ''='')
      else (''='', t))"

definition op_holds :: "string \<Rightarrow> int \<Rightarrow> bool" where
  "op_holds op c =
     (if op = ''='' then c = 0 else if op = ''>='' then c \<ge> 0 else if op = ''<='' then c \<le> 0
      else if op = ''>'' then c > 0 else if op = ''<'' then c < 0 else False)"

fun satisfies_terms :: "version \<Rightarrow> string list \<Rightarrow> bool res" where
  "satisfies_terms current [] = Inr True"
| "satisfies_terms current (t # ts) =
     (case split_term t of (op, target) \<Rightarrow>
        (case parse_version target of
           Inl e \<Rightarrow> Inl (Wrapf ''invalid constraint %q: '' [t] e)
         | Inr required \<Rightarrow>
             if op_holds op (compare_version current required)
             then satisfies_terms current ts else Inr False))"

definition satisfies :: "string \<Rightarrow> string \<Rightarrow> bool res" where
  "satisfies value constraint =
     (case parse_version value of
        Inl e \<Rightarrow> Inl e
      | Inr current \<Rightarrow>
          (let c = trim_space constraint in
           if c = [] \<or> c = ''*'' then Inr True else satisfies_terms current (text_fields c)))"

section \<open>Parsing\<close>

text \<open>The canonical text of a version.\<close>

definition render_version :: "version \<Rightarrow> string" where
  "render_version v =
     join_on CHR ''.'' [itoa (nat (major v)), itoa (nat (minor v)), itoa (nat (patch v))]"

definition version_ok :: "version \<Rightarrow> bool" where
  "version_ok v \<longleftrightarrow> (\<forall>n\<in>{major v, minor v, patch v}. 0 \<le> n \<and> n \<le> max_int64)"

lemma digits_no_sign:
  assumes "list_all is_digit s" and "s \<noteq> []"
  shows "\<not> has_prefix s ''-''" and "\<not> has_prefix s ''+''"
  using assms
  by (cases s; auto simp: has_prefix_def is_digit_def byte_in_def byte_def)+

lemma atoi_digits:
  assumes "list_all is_digit s" and "s \<noteq> []"
  shows "atoi s = (if int (digits_value s) \<le> max_int64 then Some (int (digits_value s)) else None)"
  using assms digits_no_sign [OF assms] by (simp add: atoi_def Let_def min_int64_def)

lemma atoi_unsigned:
  assumes "atoi s = Some n" and "\<not> contains_any s ''+-''"
  shows "list_all is_digit s \<and> s \<noteq> [] \<and> n = int (digits_value s) \<and> n \<le> max_int64"
proof -
  have "\<not> has_prefix s ''-''" and "\<not> has_prefix s ''+''"
    using assms(2) by (cases s; auto simp: has_prefix_def contains_any_def)+
  with assms(1) show ?thesis by (auto simp: atoi_def Let_def split: if_splits)
qed

lemma parse_parts_itoa:
  "\<forall>n\<in>set ns. int n \<le> max_int64 \<Longrightarrow> parse_parts (map itoa ns) = Inr (map int ns)"
proof (induction ns)
  case (Cons n ns)
  have "canonical_digits (itoa n)" by simp
  then have "\<not> (length (itoa n) > 1 \<and> hd (itoa n) = CHR ''0'')"
    by (auto simp: canonical_digits_def)
  with Cons show ?case by (simp add: atoi_digits itoa_digits)
qed simp

lemma parse_parts_Inr:
  assumes "parse_parts ps = Inr ns" and "\<forall>p\<in>set ps. \<not> contains_any p ''+-''"
  shows "length ns = length ps \<and> (\<forall>n\<in>set ns. 0 \<le> n \<and> n \<le> max_int64) \<and>
         map (\<lambda>n. itoa (nat n)) ns = ps"
  using assms
proof (induction ps arbitrary: ns)
  case (Cons p ps)
  from Cons.prems(1) obtain n ms where n: "atoi p = Some n" "parse_parts ps = Inr ms"
    and ns: "ns = n # ms" and nz: "\<not> (length p > 1 \<and> hd p = CHR ''0'')" and p0: "p \<noteq> []"
    by (auto split: if_splits option.splits sum.splits)
  have p: "list_all is_digit p" "n = int (digits_value p)" "n \<le> max_int64"
    using atoi_unsigned [OF n(1)] Cons.prems(2) by auto
  have "itoa (digits_value p) = p"
    using p(1) p0 nz by (intro itoa_digits_value) (auto simp: canonical_digits_def)
  moreover have "length ms = length ps \<and> (\<forall>n\<in>set ms. 0 \<le> n \<and> n \<le> max_int64) \<and>
         map (\<lambda>n. itoa (nat n)) ms = ps"
    using Cons.IH [OF n(2)] Cons.prems(2) by simp
  ultimately show ?case using p ns by auto
qed simp

lemma split_parts_no_sign:
  "\<not> contains_any v ''+-'' \<Longrightarrow> p \<in> set (split_on c v) \<Longrightarrow> \<not> contains_any p ''+-''"
proof (induction v arbitrary: p)
  case (Cons x xs)
  obtain q qs where "split_on c xs = q # qs" by (cases "split_on c xs") auto
  with Cons show ?case by (auto simp: contains_any_def split: if_splits)
qed (auto simp: contains_any_def)

lemma parse_version_Inr:
  assumes "parse_version s = Inr v"
  shows "version_ok v \<and> render_version v = trim_prefix (trim_space s) ''v''"
proof -
  define w where "w = trim_prefix (trim_space s) ''v''"
  from assms obtain ns where w: "\<not> contains_any w ''+-''"
    and len: "length (split_on CHR ''.'' w) = 3"
    and ns: "parse_parts (split_on CHR ''.'' w) = Inr ns"
    and v: "v = \<lparr>major = ns ! 0, minor = ns ! 1, patch = ns ! 2\<rparr>"
    by (auto simp: parse_version_def Let_def w_def split: if_splits sum.splits)
  have P: "length ns = 3" "\<forall>n\<in>set ns. 0 \<le> n \<and> n \<le> max_int64"
      "map (\<lambda>n. itoa (nat n)) ns = split_on CHR ''.'' w"
    using parse_parts_Inr [OF ns] split_parts_no_sign [OF w] len by auto
  then obtain a b c where abc: "ns = [a, b, c]"
    by (auto simp: numeral_3_eq_3 length_Suc_conv)
  have "render_version v = join_on CHR ''.'' (map (\<lambda>n. itoa (nat n)) ns)"
    by (simp add: render_version_def v abc)
  then have "render_version v = w" by (simp only: P(3) join_split)
  with P(2) show ?thesis by (auto simp: version_ok_def v abc w_def)
qed

lemma digits_not_in:
  "list_all is_digit s \<Longrightarrow> \<not> is_digit c \<Longrightarrow> c \<notin> set s"
  by (auto simp: list_all_iff)

lemma dot_not_digit: "\<not> is_digit CHR ''.''"
  by (simp add: is_digit_def byte_in_def byte_def)

lemma render_chars:
  "c \<in> set (render_version v) \<Longrightarrow> is_digit c \<or> c = CHR ''.''"
  using itoa_digits by (auto simp: render_version_def list_all_iff)

lemma digit_not_space: "is_digit c \<Longrightarrow> \<not> ascii_space c"
  by (auto simp: is_digit_def byte_in_def ascii_space_def is_space_def)

lemma trim_render [simp]: "trim_space (render_version v) = render_version v"
proof (rule trim_space_id)
  show "ascii (render_version v)"
    using render_chars [of _ v]
    by (auto simp: ascii_def list_all_iff byte_def dest!: render_chars dest: is_digit_less_128)
  show "\<forall>c\<in>set (render_version v). \<not> ascii_space c"
    by (auto dest!: render_chars simp: digit_not_space)
       (simp add: ascii_space_def is_space_def byte_def)
qed

lemma trim_prefix_render [simp]: "trim_prefix (render_version v) ''v'' = render_version v"
proof -
  have "\<not> has_prefix (render_version v) ''v''"
  proof
    assume "has_prefix (render_version v) ''v''"
    then have "CHR ''v'' \<in> set (render_version v)" by (auto simp: has_prefix_iff)
    then show False by (auto dest!: render_chars simp: is_digit_def byte_in_def byte_def)
  qed
  then show ?thesis by (simp add: trim_prefix_def)
qed

lemma parse_render:
  assumes "version_ok v"
  shows "parse_version (render_version v) = Inr v"
proof -
  let ?ns = "[nat (major v), nat (minor v), nat (patch v)]"
  have r: "render_version v = join_on CHR ''.'' (map itoa ?ns)"
    by (simp add: render_version_def)
  have nosign: "\<not> contains_any (render_version v) ''+-''"
    by (auto simp: contains_any_def list_ex_iff is_digit_def byte_in_def byte_def
        dest!: render_chars)
  have "\<forall>p\<in>set (map itoa ?ns). CHR ''.'' \<notin> set p"
    by (auto simp: digits_not_in [OF itoa_digits dot_not_digit])
  then have s: "split_on CHR ''.'' (render_version v) = map itoa ?ns"
    unfolding r by (intro split_join) auto
  have "parse_parts (map itoa ?ns) = Inr (map int ?ns)"
    using assms by (intro parse_parts_itoa) (auto simp: version_ok_def)
  with assms show ?thesis
    by (simp add: parse_version_def Let_def nosign s version_ok_def del: list.map)
qed

text \<open>The parser looks at the trimmed text without its \<open>v\<close> only.\<close>

lemma parse_version_cong:
  "trim_prefix (trim_space s) ''v'' = trim_prefix (trim_space t) ''v'' \<Longrightarrow>
   parse_version s = parse_version t"
  by (simp add: parse_version_def)

section \<open>Three-way comparison\<close>

text \<open>
  The contract of a Go comparison function that returns a negative, zero or positive integer:
  what every user of such a function relies on.
\<close>

locale three_way =
  fixes cmp :: "'a \<Rightarrow> 'a \<Rightarrow> int"
  assumes cmp_eq: "cmp a b = 0 \<longleftrightarrow> a = b"
    and cmp_swap: "cmp a b < 0 \<longleftrightarrow> cmp b a > 0"
    and cmp_trans: "cmp a b \<le> 0 \<Longrightarrow> cmp b c \<le> 0 \<Longrightarrow> cmp a c \<le> 0"
begin

lemma refl: "cmp a a = 0"
  by (simp add: cmp_eq)

lemma ge_iff: "cmp a b \<ge> 0 \<longleftrightarrow> cmp b a \<le> 0"
  using cmp_swap cmp_eq by (metis not_less)

lemma total: "cmp a b \<le> 0 \<or> cmp b a \<le> 0"
  using ge_iff by fastforce

lemma antisym: "cmp a b \<le> 0 \<Longrightarrow> cmp b a \<le> 0 \<Longrightarrow> a = b"
  using cmp_eq cmp_swap by (metis order_antisym_conv not_less)

lemma less_le_trans: "cmp a b < 0 \<Longrightarrow> cmp b c \<le> 0 \<Longrightarrow> cmp a c < 0"
  using cmp_trans antisym cmp_eq ge_iff by (metis less_le not_less)

lemma le_less_trans: "cmp a b \<le> 0 \<Longrightarrow> cmp b c < 0 \<Longrightarrow> cmp a c < 0"
  using cmp_trans antisym cmp_eq ge_iff by (metis less_le not_less)

text \<open>What one comparison operator accepts is an interval of the order.\<close>

lemma op_convex:
  assumes "op_holds op (cmp a r)" "op_holds op (cmp c r)" "cmp a b \<le> 0" "cmp b c \<le> 0"
  shows "op_holds op (cmp b r)"
proof -
  have eq: "cmp b r = 0" if "cmp a r = 0" "cmp c r = 0"
    using that assms(3,4) antisym by (metis cmp_eq)
  have ge: "cmp b r \<ge> 0" if "cmp a r \<ge> 0"
    using that assms(3) cmp_trans ge_iff by blast
  have le: "cmp b r \<le> 0" if "cmp c r \<le> 0"
    using that assms(4) cmp_trans by blast
  have gt: "cmp b r > 0" if "cmp a r > 0"
    using that assms(3) less_le_trans cmp_swap by blast
  have lt: "cmp b r < 0" if "cmp c r < 0"
    using that assms(4) le_less_trans by blast
  show ?thesis
    using assms(1,2) eq ge le gt lt by (auto simp: op_holds_def split: if_splits)
qed

end

lemma compare_version_le:
  "compare_version a b \<le> 0 \<longleftrightarrow>
     major a < major b \<or> (major a = major b \<and>
       (minor a < minor b \<or> (minor a = minor b \<and> patch a \<le> patch b)))"
  by (auto simp: compare_version_def)

interpretation cv: three_way compare_version
proof
  fix a b c :: version
  show "compare_version a b = 0 \<longleftrightarrow> a = b"
    by (cases a; cases b) (auto simp: compare_version_def)
  show "compare_version a b < 0 \<longleftrightarrow> compare_version b a > 0"
    by (auto simp: compare_version_def)
  show "compare_version a b \<le> 0 \<Longrightarrow> compare_version b c \<le> 0 \<Longrightarrow> compare_version a c \<le> 0"
    by (auto simp: compare_version_le)
qed

section \<open>Constraints\<close>

lemma satisfies_terms_True:
  "satisfies_terms v ts = Inr True \<longleftrightarrow>
     (\<forall>t\<in>set ts. \<exists>r. parse_version (snd (split_term t)) = Inr r \<and>
        op_holds (fst (split_term t)) (compare_version v r))"
  by (induction ts) (auto split: prod.splits sum.splits)

lemma satisfies_True_iff:
  "satisfies s c = Inr True \<longleftrightarrow>
     (\<exists>v. parse_version s = Inr v \<and>
        (trim_space c = [] \<or> trim_space c = ''*'' \<or>
         satisfies_terms v (text_fields (trim_space c)) = Inr True))"
  by (auto simp: satisfies_def Let_def split: sum.splits)

lemma satisfies_terms_convex:
  assumes "satisfies_terms a ts = Inr True" and "satisfies_terms c ts = Inr True"
    and "compare_version a b \<le> 0" and "compare_version b c \<le> 0"
  shows "satisfies_terms b ts = Inr True"
  unfolding satisfies_terms_True
proof
  fix t assume t: "t \<in> set ts"
  with assms(1,2) obtain r where "parse_version (snd (split_term t)) = Inr r"
      "op_holds (fst (split_term t)) (compare_version a r)"
      "op_holds (fst (split_term t)) (compare_version c r)"
    unfolding satisfies_terms_True by fastforce
  then show "\<exists>r. parse_version (snd (split_term t)) = Inr r \<and>
      op_holds (fst (split_term t)) (compare_version b r)"
    using cv.op_convex assms(3,4) by blast
qed

section \<open>Properties\<close>

text \<open>The version parser accepts exactly the canonical text of a triple of 64-bit integers that
  are not negative, after white space and one leading v: parsing and rendering are inverse, and no
  two texts of the same version differ in more than that.\<close>

theorem parse_version_iff:
  "parse_version s = Inr v \<longleftrightarrow>
     version_ok v \<and> trim_prefix (trim_space s) ''v'' = render_version v"
proof
  assume "parse_version s = Inr v"
  then show "version_ok v \<and> trim_prefix (trim_space s) ''v'' = render_version v"
    using parse_version_Inr by simp
next
  assume v: "version_ok v \<and> trim_prefix (trim_space s) ''v'' = render_version v"
  then have "parse_version s = parse_version (render_version v)"
    by (intro parse_version_cong) simp
  with v show "parse_version s = Inr v" by (simp add: parse_render)
qed

text \<open>The versions a constraint accepts form an interval of the version order: a version between
  two accepted ones is accepted, whatever the operators and the number of the terms.\<close>

theorem satisfies_interval:
  assumes "parse_version s = Inr a" and "parse_version t = Inr b" and "parse_version u = Inr c"
    and "compare_version a b \<le> 0" and "compare_version b c \<le> 0"
    and "satisfies s k = Inr True" and "satisfies u k = Inr True"
  shows "satisfies t k = Inr True"
  using assms satisfies_terms_convex [of a _ c b] by (auto simp: satisfies_True_iff)

theorem satisfies_interval_witness:
  "satisfies ''0.1.250'' ''>=0.1.211 <1.0.0'' = Inr True"
proof (rule satisfies_interval [of "''v0.1.211''" "\<lparr>major = 0, minor = 1, patch = 211\<rparr>"
      _ "\<lparr>major = 0, minor = 1, patch = 250\<rparr>" "''0.9.0''" "\<lparr>major = 0, minor = 9, patch = 0\<rparr>"])
qed code_simp+

text \<open>Version comparison is a total order that agrees with equality, and it is the lexicographic
  order of the components.\<close>

theorem compare_version_order:
  "(compare_version a b = 0 \<longleftrightarrow> a = b) \<and>
   (compare_version a b < 0 \<longleftrightarrow> compare_version b a > 0) \<and>
   (compare_version a b \<le> 0 \<or> compare_version b a \<le> 0) \<and>
   (compare_version a b \<le> 0 \<longleftrightarrow>
      major a < major b \<or> (major a = major b \<and>
        (minor a < minor b \<or> (minor a = minor b \<and> patch a \<le> patch b))))"
  by (intro conjI) (rule cv.cmp_eq cv.cmp_swap cv.total compare_version_le)+

end
