(* ===== verification/Regexp.thy ===== *)
theory Regexp
  imports GoText
begin

text \<open>
  The anchored regular expressions of the source, as syntax trees with a derivative matcher.
  All patterns are over ASCII classes, so Go's matching by runes and matching by bytes agree:
  no byte above 127 is in a class.  \<open>Rep\<close> is the counted repetition of a class.
\<close>

section \<open>Syntax and language\<close>

type_synonym byte_class = "(nat \<times> nat) list"

datatype rexp =
    Zero
  | One
  | Cls byte_class
  | Rep byte_class nat nat
  | Alt rexp rexp
  | Seq rexp rexp
  | Star rexp

definition in_class :: "byte_class \<Rightarrow> char \<Rightarrow> bool" where
  "in_class k c = list_ex (\<lambda>(lo, hi). lo \<le> byte c \<and> byte c \<le> hi) k"

inductive_set star :: "string set \<Rightarrow> string set" for A where
  star_Nil: "[] \<in> star A"
| star_append: "u \<in> A \<Longrightarrow> v \<in> star A \<Longrightarrow> u @ v \<in> star A"

primrec lang :: "rexp \<Rightarrow> string set" where
  "lang Zero = {}"
| "lang One = {[]}"
| "lang (Cls k) = {[c] |c. in_class k c}"
| "lang (Rep k lo hi) = {s. list_all (in_class k) s \<and> lo \<le> length s \<and> length s \<le> hi}"
| "lang (Alt r q) = lang r \<union> lang q"
| "lang (Seq r q) = {u @ v |u v. u \<in> lang r \<and> v \<in> lang q}"
| "lang (Star r) = star (lang r)"

section \<open>Matching by derivatives\<close>

primrec nullable :: "rexp \<Rightarrow> bool" where
  "nullable Zero = False"
| "nullable One = True"
| "nullable (Cls k) = False"
| "nullable (Rep k lo hi) = (lo = 0)"
| "nullable (Alt r q) = (nullable r \<or> nullable q)"
| "nullable (Seq r q) = (nullable r \<and> nullable q)"
| "nullable (Star r) = True"

fun mk_seq :: "rexp \<Rightarrow> rexp \<Rightarrow> rexp" where
  "mk_seq Zero q = Zero"
| "mk_seq One q = q"
| "mk_seq r q = Seq r q"

fun mk_alt :: "rexp \<Rightarrow> rexp \<Rightarrow> rexp" where
  "mk_alt Zero q = q"
| "mk_alt r Zero = r"
| "mk_alt r q = Alt r q"

primrec deriv :: "char \<Rightarrow> rexp \<Rightarrow> rexp" where
  "deriv c Zero = Zero"
| "deriv c One = Zero"
| "deriv c (Cls k) = (if in_class k c then One else Zero)"
| "deriv c (Rep k lo hi) = (if hi > 0 \<and> in_class k c then Rep k (lo - 1) (hi - 1) else Zero)"
| "deriv c (Alt r q) = mk_alt (deriv c r) (deriv c q)"
| "deriv c (Seq r q) =
     (if nullable r then mk_alt (mk_seq (deriv c r) q) (deriv c q) else mk_seq (deriv c r) q)"
| "deriv c (Star r) = mk_seq (deriv c r) (Star r)"

fun matches :: "rexp \<Rightarrow> string \<Rightarrow> bool" where
  "matches r [] = nullable r"
| "matches r (c # s) = matches (deriv c r) s"

text \<open>
  A repetition whose bounds are the wrong way round matches nothing; the patterns never have
  one, and \<open>good_rexp\<close> says so.
\<close>

primrec good_rexp :: "rexp \<Rightarrow> bool" where
  "good_rexp Zero = True"
| "good_rexp One = True"
| "good_rexp (Cls k) = True"
| "good_rexp (Rep k lo hi) = (lo \<le> hi)"
| "good_rexp (Alt r q) = (good_rexp r \<and> good_rexp q)"
| "good_rexp (Seq r q) = (good_rexp r \<and> good_rexp q)"
| "good_rexp (Star r) = good_rexp r"

lemma nullable_iff: "good_rexp r \<Longrightarrow> nullable r \<longleftrightarrow> [] \<in> lang r"
  by (induction r) (auto intro: star.intros)

lemma lang_mk_seq [simp]: "lang (mk_seq r q) = lang (Seq r q)"
  by (cases r) auto

lemma lang_mk_alt [simp]: "lang (mk_alt r q) = lang (Alt r q)"
  by (cases r; cases q) auto

lemma good_mk_seq [simp]: "good_rexp r \<Longrightarrow> good_rexp q \<Longrightarrow> good_rexp (mk_seq r q)"
  by (cases r) auto

lemma good_mk_alt [simp]: "good_rexp r \<Longrightarrow> good_rexp q \<Longrightarrow> good_rexp (mk_alt r q)"
  by (cases r; cases q) auto

lemma good_deriv [simp]: "good_rexp r \<Longrightarrow> good_rexp (deriv c r)"
  by (induction r) auto

lemma star_Cons:
  "c # s \<in> star A \<longleftrightarrow> (\<exists>u v. s = u @ v \<and> c # u \<in> A \<and> v \<in> star A)"
proof
  assume "c # s \<in> star A"
  then show "\<exists>u v. s = u @ v \<and> c # u \<in> A \<and> v \<in> star A"
  proof (induction "c # s" arbitrary: s rule: star.induct)
    case (star_append u v)
    then show ?case by (cases u) auto
  qed
next
  assume "\<exists>u v. s = u @ v \<and> c # u \<in> A \<and> v \<in> star A"
  then show "c # s \<in> star A"
    using star_append by (metis append_Cons)
qed

lemma lang_deriv: "good_rexp r \<Longrightarrow> s \<in> lang (deriv c r) \<longleftrightarrow> c # s \<in> lang r"
proof (induction r arbitrary: s)
  case (Seq r q)
  have "c # s \<in> lang (Seq r q) \<longleftrightarrow>
      ([] \<in> lang r \<and> c # s \<in> lang q) \<or> (\<exists>u v. s = u @ v \<and> c # u \<in> lang r \<and> v \<in> lang q)"
    by (simp add: Cons_eq_append_conv) blast
  with Seq show ?case by (auto simp: nullable_iff)
next
  case (Star r)
  then show ?case by (auto simp: star_Cons)
next
  case (Rep k lo hi)
  then show ?case by auto
qed auto

lemma matches_lang: "good_rexp r \<Longrightarrow> matches r s \<longleftrightarrow> s \<in> lang r"
  by (induction s arbitrary: r) (auto simp: nullable_iff lang_deriv)

declare matches.simps [simp del]

lemma lang_SeqI: "u \<in> lang r \<Longrightarrow> v \<in> lang q \<Longrightarrow> u @ v \<in> lang (Seq r q)"
  by auto

lemma lang_Seq_ClsI: "in_class k c \<Longrightarrow> v \<in> lang q \<Longrightarrow> c # v \<in> lang (Seq (Cls k) q)"
  by (simp del: append.simps) (metis append_Cons append_Nil)

section \<open>Building patterns\<close>

definition lit_char :: "char \<Rightarrow> rexp" where
  "lit_char c = Cls [(byte c, byte c)]"

fun lit :: "string \<Rightarrow> rexp" where
  "lit [] = One"
| "lit (c # s) = Seq (lit_char c) (lit s)"

definition plus :: "rexp \<Rightarrow> rexp" where
  "plus r = Seq r (Star r)"

lemma in_class_single [simp]: "in_class [(byte c, byte c)] x \<longleftrightarrow> x = c"
  unfolding in_class_def by simp (metis byte_inject le_antisym order_refl)

lemma lang_lit [simp]: "lang (lit s) = {s}"
  by (induction s) (simp_all add: lit_char_def)

lemma good_lit [simp]: "good_rexp (lit s)"
  by (induction s) (auto simp: lit_char_def)

lemma good_lit_char [simp]: "good_rexp (lit_char c)"
  by (simp add: lit_char_def)

declare lit.simps [simp del]

abbreviation lower_class :: byte_class where "lower_class \<equiv> [(97, 122)]"
abbreviation lower_digit_class :: byte_class where "lower_digit_class \<equiv> [(97, 122), (48, 57)]"
abbreviation hex_class :: byte_class where "hex_class \<equiv> [(97, 102), (48, 57)]"

lemma in_class_byte: "in_class k c \<longleftrightarrow> (\<exists>(lo, hi) \<in> set k. lo \<le> byte c \<and> byte c \<le> hi)"
  by (auto simp: in_class_def list_ex_iff)

end
