(* ===== verification/Manifest.thy ===== *)
theory Manifest
  imports Version Regexp
begin

text \<open>
  Module manifests and their validation: internal/modules/manifest.go, validate.go and
  frigate.go, with the image policies of internal/homeassistant/image.go and
  internal/frigate/upstream.go.  A Go slice is a list (nil and the empty slice are both the
  empty list), an int field is an \<open>int\<close>.
\<close>

section \<open>Data\<close>

record health_spec =
  health_port :: int
  health_path :: string

record runtime_spec =
  rt_type :: string
  docker_image :: string
  rt_health :: health_spec

record dependency =
  dep_id :: string
  dep_version :: string

record navigation_item =
  nav_id :: string
  nav_title :: string
  nav_route :: string
  nav_icon :: string
  nav_order :: int

record manifest =
  schema_version :: int
  mod_id :: string
  mod_name :: string
  description :: string
  mod_version :: string
  core_constraint :: string
  runtime :: runtime_spec
  dependencies :: "dependency list"
  conflicts :: "string list"
  permissions :: "string list"
  cap_requires :: "string list"
  cap_provides :: "string list"
  architectures :: "string list"
  api_namespace :: string
  ev_publishes :: "string list"
  ev_subscribes :: "string list"
  navigation :: "navigation_item list"
  lifecycle :: "string list"

section \<open>Patterns\<close>

definition segment_sep :: "byte_class \<Rightarrow> rexp" where
  "segment_sep seps = Seq (Cls seps) (plus (Cls lower_digit_class))"

definition module_id_pattern :: rexp where
  "module_id_pattern =
     Seq (Cls lower_class) (Seq (Star (Cls lower_digit_class))
       (Star (segment_sep [(46, 46), (45, 45)])))"

definition permission_pattern :: rexp where
  "permission_pattern =
     Seq (Cls lower_class) (Seq (Star (Cls lower_digit_class))
       (plus (segment_sep [(46, 46), (95, 95), (45, 45)])))"

definition hex64 :: rexp where
  "hex64 = Rep hex_class 64 64"

definition image_digest_pattern :: rexp where
  "image_digest_pattern =
     Seq (Cls [(65, 90), (97, 122), (48, 57)])
       (Seq (Rep [(65, 90), (97, 122), (48, 57), (46, 46), (95, 95), (58, 58), (47, 47), (45, 45)] 0 447)
         (Seq (lit ''@sha256:'') hex64))"

definition ha_image_pattern :: rexp where
  "ha_image_pattern = Seq (lit ''ghcr.io/home-assistant/home-assistant@sha256:'') hex64"

definition frigate_number :: rexp where
  "frigate_number = Alt (lit ''0'') (Seq (Cls [(49, 57)]) (Star (Cls [(48, 57)])))"

definition frigate_version_pattern :: rexp where
  "frigate_version_pattern =
     Seq frigate_number (Seq (lit ''.'') (Seq frigate_number (Seq (lit ''.'') frigate_number)))"

definition digest_pattern :: rexp where
  "digest_pattern = Seq (lit ''sha256:'') hex64"

section \<open>Image policies\<close>

definition ha_module_id :: string where "ha_module_id = ''homeassistant.module''"

definition ha_validate_image :: "string \<Rightarrow> go_error option" where
  "ha_validate_image img =
     fail_if (\<not> matches ha_image_pattern img)
       (Err ''Home Assistant requires the official ghcr.io/home-assistant/home-assistant image pinned by sha256'')"

definition frigate_module_id :: string where "frigate_module_id = ''frigate.module''"

definition frigate_image_repository :: string where
  "frigate_image_repository = ''ghcr.io/blakeblackshear/frigate''"

definition frigate_valid_image :: "string \<Rightarrow> bool" where
  "frigate_valid_image img =
     (has_prefix img (frigate_image_repository @ ''@'') \<and>
      matches digest_pattern (trim_prefix img (frigate_image_repository @ ''@'')))"

text \<open>\<open>strconv.ParseUint(part, 10, 64)\<close>.\<close>

definition parse_uint64 :: "string \<Rightarrow> nat option" where
  "parse_uint64 s =
     (if s \<noteq> [] \<and> list_all is_digit s \<and> digits_value s < 2 ^ 64 then Some (digits_value s) else None)"

fun parse_uints :: "string list \<Rightarrow> nat list option" where
  "parse_uints [] = Some []"
| "parse_uints (p # ps) =
     (case parse_uint64 p of None \<Rightarrow> None
      | Some n \<Rightarrow> (case parse_uints ps of None \<Rightarrow> None | Some ns \<Rightarrow> Some (n # ns)))"

definition frigate_parse_version :: "string \<Rightarrow> nat list option" where
  "frigate_parse_version value =
     (if matches frigate_version_pattern value then parse_uints (split_on CHR ''.'' value) else None)"

definition frigate_compatible_version :: "string \<Rightarrow> bool" where
  "frigate_compatible_version value =
     (case frigate_parse_version value of
        None \<Rightarrow> False
      | Some v \<Rightarrow> v ! 0 = 0 \<and> v ! 1 = 18 \<and> v ! 2 \<ge> 2)"

definition frigate_core_constraint :: string where
  "frigate_core_constraint = ''>=0.1.211 <1.0.0''"

record frigate_candidate =
  cand_version :: string
  cand_architecture :: string
  cand_image :: string

definition frigate_manifest :: "frigate_candidate \<Rightarrow> manifest" where
  "frigate_manifest c = \<lparr>
     schema_version = 2, mod_id = frigate_module_id, mod_name = ''Frigate NVR'',
     description = ''Official Frigate container; direct GitHub release discovery, verified platform digest, manual upgrades and configuration/database rollback. Independent of the Hikvision NVR module.'',
     mod_version = cand_version c, core_constraint = frigate_core_constraint,
     runtime = \<lparr>rt_type = ''docker'', docker_image = cand_image c,
                rt_health = \<lparr>health_port = 5000, health_path = ''/api/version''\<rparr>\<rparr>,
     dependencies = [], conflicts = [], permissions = [],
     cap_requires = [''host.docker''], cap_provides = [''frigate.nvr''],
     architectures = [cand_architecture c], api_namespace = frigate_module_id,
     ev_publishes = [], ev_subscribes = [],
     navigation = [\<lparr>nav_id = frigate_module_id, nav_title = ''Frigate'',
                    nav_route = ''/modules/frigate.module'', nav_icon = ''video'', nav_order = 30\<rparr>],
     lifecycle = [''install'', ''upgrade'', ''remove'', ''start'', ''stop'', ''restart'']\<rparr>"

definition validate_frigate_manifest :: "manifest \<Rightarrow> go_error option" where
  "validate_frigate_manifest m =
     (if mod_id m \<noteq> frigate_module_id then None
      else first_error [
        fail_if (\<not> frigate_valid_image (docker_image (runtime m)) \<or>
                 \<not> frigate_compatible_version (mod_version m))
          (Err ''Frigate requires an official immutable image and a supported stable version''),
        fail_if (core_constraint m \<noteq> frigate_core_constraint \<or>
                 health_port (rt_health (runtime m)) \<noteq> 5000 \<or>
                 health_path (rt_health (runtime m)) \<noteq> ''/api/version'' \<or>
                 api_namespace m \<noteq> frigate_module_id)
          (Err ''Frigate manifest does not match the reviewed Core integration contract''),
        fail_if (length (architectures m) \<noteq> 1 \<or>
                 (hd (architectures m) \<noteq> ''amd64'' \<and> hd (architectures m) \<noteq> ''arm64''))
          (Err ''Frigate image must pin exactly one supported Linux architecture'')])"

section \<open>Validation\<close>

definition manifest_schema_version :: int where "manifest_schema_version = 2"

definition lifecycle_ops :: "string list" where
  "lifecycle_ops = [''install'', ''upgrade'', ''remove'', ''backup'', ''restore'', ''start'',
                    ''stop'', ''restart'']"

text \<open>
  The loops with a \<open>seen\<close> map: for each value the checks before the duplicate test, the test
  itself, then the checks after it; the first failure decides.
\<close>

fun scan_seen ::
  "('a \<Rightarrow> go_error option) \<Rightarrow> ('a \<Rightarrow> string) \<Rightarrow> (string \<Rightarrow> go_error) \<Rightarrow> ('a \<Rightarrow> go_error option) \<Rightarrow>
   string list \<Rightarrow> 'a list \<Rightarrow> go_error option" where
  "scan_seen pre key dup post seen [] = None"
| "scan_seen pre key dup post seen (x # xs) =
     (case pre x of
        Some e \<Rightarrow> Some e
      | None \<Rightarrow>
          if key x \<in> set seen then Some (dup (key x))
          else (case post x of
                  Some e \<Rightarrow> Some e
                | None \<Rightarrow> scan_seen pre key dup post (key x # seen) xs))"

definition unique_strings :: "string \<Rightarrow> string list \<Rightarrow> rexp \<Rightarrow> go_error option" where
  "unique_strings label values pattern =
     scan_seen (\<lambda>v. fail_if (\<not> matches pattern v) (Errf ''invalid %s %q'' [label, v]))
       (\<lambda>v. v) (\<lambda>v. Errf ''duplicate %s %q'' [label, v]) (\<lambda>v. None) [] values"

definition validate_published_events :: "string \<Rightarrow> string list \<Rightarrow> go_error option" where
  "validate_published_events module_id values =
     (let pre = module_id @ ''.'' in
      scan_seen (\<lambda>v. fail_if (\<not> matches permission_pattern v \<or> \<not> has_prefix v pre)
                        (Errf ''published event %q must use module namespace %s*'' [v, pre]))
        (\<lambda>v. v) (\<lambda>v. Errf ''duplicate event publish %q'' [v]) (\<lambda>v. None) [] values)"

definition validate_event_topic :: "string \<Rightarrow> go_error option" where
  "validate_event_topic value =
     (if value = ''*'' then None
      else if has_suffix value ''.*''
      then fail_if (\<not> matches permission_pattern (trim_suffix value ''.*'' @ ''.event''))
             (Err ''invalid wildcard namespace'')
      else fail_if (\<not> matches permission_pattern value) (Err ''invalid event name''))"

definition validate_subscribed_events :: "string list \<Rightarrow> go_error option" where
  "validate_subscribed_events values =
     scan_seen (\<lambda>v. map_option (Wrapf ''invalid event subscription %q: '' [v]) (validate_event_topic v))
       (\<lambda>v. v) (\<lambda>v. Errf ''duplicate event subscription %q'' [v]) (\<lambda>v. None) [] values"

definition unique_allowed_architectures :: "string list \<Rightarrow> go_error option" where
  "unique_allowed_architectures values =
     scan_seen (\<lambda>v. fail_if (v \<noteq> ''amd64'' \<and> v \<noteq> ''arm64'') (Errf ''unsupported architecture %q'' [v]))
       (\<lambda>v. v) (\<lambda>v. Errf ''duplicate architecture %q'' [v]) (\<lambda>v. None) [] values"

text \<open>\<open>if _, err := satisfies("0.0.0", c); err != nil\<close>: the error, if any.\<close>

definition constraint_error :: "string \<Rightarrow> go_error option" where
  "constraint_error c = (case satisfies ''0.0.0'' c of Inl e \<Rightarrow> Some e | Inr _ \<Rightarrow> None)"

definition validate_dependencies :: "string \<Rightarrow> dependency list \<Rightarrow> go_error option" where
  "validate_dependencies mid deps =
     scan_seen
       (\<lambda>d. fail_if (dep_id d = mid \<or> \<not> matches module_id_pattern (dep_id d))
              (Errf ''invalid dependency %q'' [dep_id d]))
       dep_id (\<lambda>i. Errf ''duplicate dependency %q'' [i])
       (\<lambda>d. first_error [
          fail_if (trim_space (dep_version d) = [])
            (Errf ''dependency %q requires a version constraint'' [dep_id d]),
          map_option (Wrapf ''dependency %q has invalid version constraint: '' [dep_id d])
            (constraint_error (dep_version d))])
       [] deps"

definition validate_lifecycle :: "string list \<Rightarrow> go_error option" where
  "validate_lifecycle ops =
     scan_seen (\<lambda>op. fail_if (op \<notin> set lifecycle_ops) (Errf ''unsupported lifecycle operation %q'' [op]))
       (\<lambda>op. op) (\<lambda>op. Errf ''duplicate lifecycle operation %q'' [op]) (\<lambda>op. None) [] ops"

definition validate_navigation :: "string \<Rightarrow> navigation_item list \<Rightarrow> go_error option" where
  "validate_navigation mid items =
     (let expected = ''/modules/'' @ mid in
      scan_seen
        (\<lambda>i. fail_if (\<not> matches module_id_pattern (nav_id i)) (Errf ''invalid navigation id %q'' [nav_id i]))
        nav_id (\<lambda>i. Errf ''duplicate navigation id %q'' [i])
        (\<lambda>i. first_error [
           fail_if (trim_space (nav_title i) = []) (Err ''navigation title is required''),
           fail_if (nav_route i \<noteq> expected \<and> \<not> has_prefix (nav_route i) (expected @ ''/''))
             (Errf ''navigation route %q must be under %s'' [nav_route i, expected])])
        [] items)"

text \<open>The Home Assistant branch of \<open>ValidateManifest\<close>.\<close>

definition validate_ha :: "manifest \<Rightarrow> go_error option" where
  "validate_ha m =
     (if mod_id m \<noteq> ha_module_id then None
      else first_error [
        ha_validate_image (docker_image (runtime m)),
        fail_if (''host.network'' \<notin> set (permissions m) \<or> ''host.privileged'' \<notin> set (permissions m))
          (Err ''Home Assistant manifest must explicitly declare host.network and host.privileged permissions''),
        fail_if (health_port (rt_health (runtime m)) \<noteq> 8123 \<or>
                 health_path (rt_health (runtime m)) \<noteq> ''/'')
          (Err ''Home Assistant health endpoint must be port 8123 path /'')])"

definition validate_api :: "manifest \<Rightarrow> go_error option" where
  "validate_api m =
     (if api_namespace m = [] then None
      else first_error [
        fail_if (\<not> matches module_id_pattern (api_namespace m)) (Err ''invalid api namespace''),
        fail_if (has_prefix (api_namespace m) ''core'') (Err ''core api namespace is reserved'')])"

definition wrap_opt :: "string \<Rightarrow> go_error option \<Rightarrow> go_error option" where
  "wrap_opt s e = map_option (Wrap s) e"

definition version_error :: "string \<Rightarrow> go_error option" where
  "version_error v = (case parse_version v of Inl e \<Rightarrow> Some e | Inr _ \<Rightarrow> None)"

definition validate_manifest :: "manifest \<Rightarrow> go_error option" where
  "validate_manifest m =
     (let h = rt_health (runtime m) in
      first_error [
        validate_frigate_manifest m,
        fail_if (schema_version m \<noteq> manifest_schema_version)
          (Errf ''unsupported manifest schema version %d'' [int_text (schema_version m)]),
        fail_if (\<not> matches module_id_pattern (mod_id m) \<or> length (mod_id m) > 96)
          (Err ''invalid module id''),
        fail_if (trim_space (mod_name m) = [] \<or> rune_count (mod_name m) > 128)
          (Err ''invalid module name''),
        fail_if (rune_count (description m) > 1024) (Err ''module description is too long''),
        wrap_opt ''invalid module version: '' (version_error (mod_version m)),
        fail_if (trim_space (core_constraint m) = []) (Err ''core version constraint is required''),
        wrap_opt ''invalid core version constraint: '' (constraint_error (core_constraint m)),
        fail_if (lifecycle m = []) (Err ''at least one lifecycle operation is required''),
        fail_if (rt_type (runtime m) \<noteq> ''docker'') (Err ''runtime type must be docker''),
        fail_if (\<not> matches image_digest_pattern (trim_space (docker_image (runtime m))))
          (Err ''docker image must be an immutable @sha256 reference''),
        validate_ha m,
        fail_if (''host.docker'' \<notin> set (cap_requires m))
          (Err ''docker module must require host.docker capability''),
        fail_if (health_port h < 0 \<or> health_port h > 65535)
          (Err ''health port must be between 1 and 65535''),
        fail_if (health_path h \<noteq> [] \<and> \<not> has_prefix (health_path h) ''/'')
          (Err ''health path must start with /''),
        fail_if ((health_port h = 0) \<noteq> (health_path h = []))
          (Err ''health port and path must be declared together''),
        unique_strings ''conflict'' (conflicts m) module_id_pattern,
        unique_strings ''permission'' (permissions m) permission_pattern,
        unique_strings ''required capability'' (cap_requires m) permission_pattern,
        unique_strings ''provided capability'' (cap_provides m) permission_pattern,
        validate_published_events (mod_id m) (ev_publishes m),
        validate_subscribed_events (ev_subscribes m),
        validate_dependencies (mod_id m) (dependencies m),
        fail_if (mod_id m \<in> set (conflicts m)) (Err ''module cannot conflict with itself''),
        validate_lifecycle (lifecycle m),
        unique_allowed_architectures (architectures m),
        validate_api m,
        validate_navigation (mod_id m) (navigation m)])"

section \<open>What the scans accept\<close>

lemma scan_seen_None:
  "scan_seen pre key dup post seen xs = None \<longleftrightarrow>
     (\<forall>x\<in>set xs. pre x = None \<and> post x = None) \<and> distinct (map key xs) \<and>
     key ` set xs \<inter> set seen = {}"
  by (induction xs arbitrary: seen) (auto split: option.splits)

lemma unique_strings_None:
  "unique_strings label vs p = None \<longleftrightarrow> (\<forall>v\<in>set vs. matches p v) \<and> distinct vs"
  by (auto simp: unique_strings_def scan_seen_None)

lemma published_None:
  "validate_published_events mid vs = None \<longleftrightarrow>
     (\<forall>v\<in>set vs. matches permission_pattern v \<and> has_prefix v (mid @ ''.'')) \<and> distinct vs"
  by (auto simp: validate_published_events_def scan_seen_None Let_def)

lemma subscribed_None:
  "validate_subscribed_events vs = None \<longleftrightarrow>
     (\<forall>v\<in>set vs. validate_event_topic v = None) \<and> distinct vs"
  by (auto simp: validate_subscribed_events_def scan_seen_None)

lemma architectures_None:
  "unique_allowed_architectures vs = None \<longleftrightarrow> set vs \<subseteq> {''amd64'', ''arm64''} \<and> distinct vs"
  by (auto simp: unique_allowed_architectures_def scan_seen_None)

lemma dependencies_None:
  "validate_dependencies mid ds = None \<longleftrightarrow>
     (\<forall>d\<in>set ds. dep_id d \<noteq> mid \<and> matches module_id_pattern (dep_id d) \<and>
        trim_space (dep_version d) \<noteq> [] \<and> constraint_error (dep_version d) = None) \<and>
     distinct (map dep_id ds)"
  by (auto simp: validate_dependencies_def scan_seen_None err_simps)

lemma lifecycle_None:
  "validate_lifecycle ops = None \<longleftrightarrow> set ops \<subseteq> set lifecycle_ops \<and> distinct ops"
  by (auto simp: validate_lifecycle_def scan_seen_None)

lemma navigation_None:
  "validate_navigation mid items = None \<longleftrightarrow>
     (\<forall>i\<in>set items. matches module_id_pattern (nav_id i) \<and> trim_space (nav_title i) \<noteq> [] \<and>
        (nav_route i = ''/modules/'' @ mid \<or> has_prefix (nav_route i) (''/modules/'' @ mid @ ''/''))) \<and>
     distinct (map nav_id items)"
  by (auto simp: validate_navigation_def scan_seen_None err_simps Let_def)

lemmas scan_None = unique_strings_None published_None subscribed_None architectures_None
  dependencies_None lifecycle_None navigation_None

section \<open>What the patterns accept\<close>

lemma good_patterns [simp]:
  "good_rexp module_id_pattern" "good_rexp permission_pattern" "good_rexp hex64"
  "good_rexp image_digest_pattern" "good_rexp ha_image_pattern" "good_rexp digest_pattern"
  by (simp_all add: module_id_pattern_def permission_pattern_def segment_sep_def plus_def hex64_def
      image_digest_pattern_def ha_image_pattern_def digest_pattern_def)

lemma lang_hex64: "lang hex64 = {h. length h = 64 \<and> list_all (in_class hex_class) h}"
  by (auto simp: hex64_def)

text \<open>An image reference pinned by a digest: a name, the marker and 64 hexadecimal digits.\<close>

definition pinned_image :: "string \<Rightarrow> bool" where
  "pinned_image img \<longleftrightarrow>
     (\<exists>name h. img = name @ ''@sha256:'' @ h \<and> name \<noteq> [] \<and> CHR ''@'' \<notin> set name \<and>
        length h = 64 \<and> list_all (in_class hex_class) h)"

lemma image_digest_pinned:
  assumes "matches image_digest_pattern img"
  shows "pinned_image img"
proof -
  from assms obtain c u h where img: "img = [c] @ u @ ''@sha256:'' @ h"
    and c: "in_class [(65, 90), (97, 122), (48, 57)] c"
    and u: "list_all (in_class [(65, 90), (97, 122), (48, 57), (46, 46), (95, 95), (58, 58),
        (47, 47), (45, 45)]) u"
    and h: "length h = 64" "list_all (in_class hex_class) h"
    by (auto simp: matches_lang image_digest_pattern_def lang_hex64)
  have "CHR ''@'' \<notin> set u"
    using u by (auto simp: list_all_iff in_class_def byte_def)
  moreover have "c \<noteq> CHR ''@''"
    using c by (auto simp: in_class_def byte_def)
  ultimately show ?thesis
    unfolding pinned_image_def img using h
    by (intro exI [of _ "c # u"] exI [of _ h]) auto
qed

lemma module_id_ascii_lower:
  assumes "matches module_id_pattern i"
  shows "\<exists>c s. i = c # s \<and> in_class lower_class c"
  using assms matches_lang good_patterns(1) by (auto simp: module_id_pattern_def)

section \<open>Accepted manifests\<close>

lemma validate_manifest_None:
  assumes "validate_manifest m = None"
  shows "validate_frigate_manifest m = None" "validate_ha m = None" "validate_api m = None"
    and "matches module_id_pattern (mod_id m)" "length (mod_id m) \<le> 96"
    and "version_error (mod_version m) = None" "constraint_error (core_constraint m) = None"
    and "rt_type (runtime m) = ''docker''"
    and "matches image_digest_pattern (trim_space (docker_image (runtime m)))"
    and "''host.docker'' \<in> set (cap_requires m)"
    and "validate_published_events (mod_id m) (ev_publishes m) = None"
    and "validate_dependencies (mod_id m) (dependencies m) = None"
    and "mod_id m \<notin> set (conflicts m)"
    and "validate_lifecycle (lifecycle m) = None" "lifecycle m \<noteq> []"
    and "unique_allowed_architectures (architectures m) = None"
    and "validate_navigation (mod_id m) (navigation m) = None"
  using assms unfolding validate_manifest_def Let_def wrap_opt_def
  by (simp_all add: first_error_None_iff)

lemma version_error_None: "version_error v = None \<longleftrightarrow> (\<exists>x. parse_version v = Inr x)"
  by (auto simp: version_error_def split: sum.splits)

section \<open>The Frigate profile\<close>

lemma digest_pattern_iff:
  "matches digest_pattern d \<longleftrightarrow> (\<exists>h. d = ''sha256:'' @ h \<and> length h = 64 \<and> list_all (in_class hex_class) h)"
  by (auto simp: matches_lang digest_pattern_def lang_hex64)

lemma frigate_valid_image_iff:
  "frigate_valid_image img \<longleftrightarrow>
     (\<exists>h. img = frigate_image_repository @ ''@sha256:'' @ h \<and> length h = 64 \<and>
        list_all (in_class hex_class) h)"
  unfolding frigate_valid_image_def digest_pattern_iff has_prefix_iff
  by (auto simp: trim_prefix_def has_prefix_iff)

lemma frigate_image_trim:
  assumes "frigate_valid_image img"
  shows "trim_space img = img"
proof (rule trim_space_id)
  from assms obtain h where img: "img = frigate_image_repository @ ''@sha256:'' @ h"
    and h: "list_all (in_class hex_class) h"
    by (auto simp: frigate_valid_image_iff)
  have hex: "byte c < 128 \<and> \<not> ascii_space c" if "c \<in> set h" for c
    using h that by (auto simp: list_all_iff in_class_def ascii_space_def is_space_def)
  show "ascii img" and "\<forall>c\<in>set img. \<not> ascii_space c"
    using hex unfolding img frigate_image_repository_def
    by (auto simp: ascii_def list_all_iff byte_def ascii_space_def is_space_def)
qed

lemma image_digest_patternI:
  assumes "in_class [(65, 90), (97, 122), (48, 57)] c"
    and "list_all (in_class [(65, 90), (97, 122), (48, 57), (46, 46), (95, 95), (58, 58),
        (47, 47), (45, 45)]) u" and "length u \<le> 447"
    and "length h = 64" and "list_all (in_class hex_class) h"
  shows "matches image_digest_pattern (c # u @ ''@sha256:'' @ h)"
proof -
  have "c # u @ ''@sha256:'' @ h \<in> lang image_digest_pattern"
    unfolding image_digest_pattern_def using assms
    by (intro lang_Seq_ClsI lang_SeqI) (simp_all add: lang_hex64)
  then show ?thesis by (simp only: matches_lang [OF good_patterns(4)])
qed

lemma frigate_image_pinned:
  assumes "frigate_valid_image img"
  shows "matches image_digest_pattern img"
proof -
  from assms obtain h where img: "img = frigate_image_repository @ ''@sha256:'' @ h"
    and h: "length h = 64" "list_all (in_class hex_class) h"
    by (auto simp: frigate_valid_image_iff)
  have "matches image_digest_pattern (CHR ''g'' # tl frigate_image_repository @ ''@sha256:'' @ h)"
    using h by (intro image_digest_patternI)
      (simp_all add: frigate_image_repository_def in_class_def byte_def)
  then show ?thesis by (simp add: img frigate_image_repository_def)
qed

lemma frigate_core_constraint_valid: "constraint_error frigate_core_constraint = None"
  by code_simp

lemma frigate_ids_valid:
  "matches module_id_pattern frigate_module_id" "matches permission_pattern ''host.docker''"
  "matches permission_pattern ''frigate.nvr''"
  by code_simp+

lemma compatible_lengths: "frigate_compatible_version v \<Longrightarrow> \<exists>ns. frigate_parse_version v = Some ns"
  by (auto simp: frigate_compatible_version_def split: option.splits)

lemma frigate_title: "trim_space ''Frigate'' \<noteq> []"
  by code_simp

text \<open>A concrete Frigate release, for the witnesses.\<close>

definition sample_candidate :: frigate_candidate where
  "sample_candidate = \<lparr>cand_version = ''0.18.3'', cand_architecture = ''amd64'',
     cand_image = ''ghcr.io/blakeblackshear/frigate@sha256:'' @ replicate 64 CHR ''a''\<rparr>"

lemma sample_image_valid: "frigate_valid_image (cand_image sample_candidate)"
  by code_simp

lemma sample_version: "parse_version (cand_version sample_candidate) =
    Inr \<lparr>major = 0, minor = 18, patch = 3\<rparr>" "frigate_compatible_version (cand_version sample_candidate)"
  by code_simp+

lemma sample_manifest_valid: "validate_manifest (frigate_manifest sample_candidate) = None"
  by code_simp

section \<open>Properties\<close>

text \<open>C22. A manifest that passes validation names its image by an immutable digest, runs under
  Docker, has a parsable version and at least one supported lifecycle operation, publishes events
  only inside its own namespace, keeps its navigation routes under its own path, and neither
  depends on nor conflicts with itself.\<close>

theorem validated_manifest_confined:
  assumes "validate_manifest m = None"
  shows "pinned_image (trim_space (docker_image (runtime m))) \<and> rt_type (runtime m) = ''docker'' \<and>
    (\<exists>v. parse_version (mod_version m) = Inr v) \<and>
    (lifecycle m \<noteq> [] \<and> set (lifecycle m) \<subseteq> set lifecycle_ops \<and> distinct (lifecycle m)) \<and>
    (\<forall>e\<in>set (ev_publishes m). has_prefix e (mod_id m @ ''.'')) \<and>
    (\<forall>i\<in>set (navigation m). nav_route i = ''/modules/'' @ mod_id m \<or>
       has_prefix (nav_route i) (''/modules/'' @ mod_id m @ ''/'')) \<and>
    mod_id m \<notin> dep_id ` set (dependencies m) \<and> distinct (map dep_id (dependencies m)) \<and>
    mod_id m \<notin> set (conflicts m)"
  using validate_manifest_None [OF assms]
  by (auto simp: scan_None version_error_None intro: image_digest_pinned)

theorem validated_manifest_confined_witness:
  "pinned_image (trim_space (docker_image (runtime (frigate_manifest sample_candidate))))"
  using validated_manifest_confined [OF sample_manifest_valid] by simp

text \<open>The reserved identifiers of the built-in profiles cannot be taken by another image: an
  accepted Home Assistant manifest pins the official repository and declares its host permissions,
  an accepted Frigate manifest pins the official repository, a compatible version and exactly one
  supported architecture.\<close>

theorem reserved_modules_pinned:
  assumes "validate_manifest m = None"
  shows "(mod_id m = ha_module_id \<longrightarrow>
      matches ha_image_pattern (docker_image (runtime m)) \<and>
      {''host.network'', ''host.privileged''} \<subseteq> set (permissions m)) \<and>
    (mod_id m = frigate_module_id \<longrightarrow>
      (\<exists>h. docker_image (runtime m) = ''ghcr.io/blakeblackshear/frigate@sha256:'' @ h \<and> length h = 64) \<and>
      frigate_compatible_version (mod_version m) \<and>
      (architectures m = [''amd64''] \<or> architectures m = [''arm64'']))"
  using validate_manifest_None(1,2) [OF assms]
  by (auto simp: validate_ha_def validate_frigate_manifest_def ha_validate_image_def err_simps
      frigate_valid_image_iff frigate_image_repository_def length_Suc_conv)

theorem reserved_modules_pinned_witness:
  "architectures (frigate_manifest sample_candidate) = [''amd64''] \<or>
   architectures (frigate_manifest sample_candidate) = [''arm64'']"
  using reserved_modules_pinned [OF sample_manifest_valid] by (simp add: frigate_manifest_def)

text \<open>The manifest that Core itself builds for a resolved Frigate release always passes its own
  validation, for every official image digest, compatible version and supported architecture.\<close>

theorem frigate_manifest_valid:
  assumes "frigate_valid_image (cand_image c)" and "frigate_compatible_version (cand_version c)"
    and "parse_version (cand_version c) = Inr v"
    and "cand_architecture c \<in> {''amd64'', ''arm64''}"
  shows "validate_manifest (frigate_manifest c) = None"
proof -
  let ?m = "frigate_manifest c"
  have profile: "validate_frigate_manifest ?m = None" "validate_ha ?m = None" "validate_api ?m = None"
    using assms frigate_ids_valid(1)
    by (auto simp: validate_frigate_manifest_def validate_ha_def validate_api_def err_simps
        frigate_manifest_def ha_module_id_def frigate_module_id_def has_prefix_def)
  have scans: "validate_navigation (mod_id ?m) (navigation ?m) = None"
      "validate_lifecycle (lifecycle ?m) = None"
      "unique_allowed_architectures (architectures ?m) = None"
      "validate_dependencies (mod_id ?m) (dependencies ?m) = None"
      "validate_published_events (mod_id ?m) (ev_publishes ?m) = None"
      "validate_subscribed_events (ev_subscribes ?m) = None"
      "unique_strings l (conflicts ?m) p = None" "unique_strings l (permissions ?m) p = None"
      "unique_strings l (cap_requires ?m) permission_pattern = None"
      "unique_strings l (cap_provides ?m) permission_pattern = None" for l p
    using assms(4) frigate_ids_valid frigate_title
    by (auto simp: scan_None frigate_manifest_def lifecycle_ops_def frigate_module_id_def)
  have texts: "trim_space (mod_name ?m) \<noteq> []" "\<not> rune_count (mod_name ?m) > 128"
      "\<not> rune_count (description ?m) > 1024" "trim_space (core_constraint ?m) \<noteq> []"
      "constraint_error (core_constraint ?m) = None"
    using frigate_core_constraint_valid by (simp_all add: frigate_manifest_def) code_simp+
  have rest: "version_error (mod_version ?m) = None" "schema_version ?m = manifest_schema_version"
      "matches module_id_pattern (mod_id ?m)" "\<not> length (mod_id ?m) > 96" "lifecycle ?m \<noteq> []"
      "rt_type (runtime ?m) = ''docker''" "''host.docker'' \<in> set (cap_requires ?m)"
      "matches image_digest_pattern (trim_space (docker_image (runtime ?m)))"
      "rt_health (runtime ?m) = \<lparr>health_port = 5000, health_path = ''/api/version''\<rparr>"
      "conflicts ?m = []" "mod_id ?m \<notin> set (conflicts ?m)"
    using assms(3) frigate_ids_valid(1) frigate_image_trim [OF assms(1)] frigate_image_pinned [OF assms(1)]
    by (simp_all add: version_error_None frigate_manifest_def manifest_schema_version_def
        frigate_module_id_def)
  show ?thesis
    unfolding validate_manifest_def Let_def first_error_None_iff wrap_opt_def
    using profile scans texts rest by (simp add: has_prefix_def)
qed

theorem frigate_manifest_valid_witness:
  "validate_manifest (frigate_manifest sample_candidate) = None"
  by (rule frigate_manifest_valid [OF sample_image_valid sample_version(2) sample_version(1)])
    (simp add: sample_candidate_def)

text \<open>The validation of a version constraint is incomplete: it evaluates the constraint for the
  version 0.0.0 and stops at the first term that this version fails, so a constraint whose later
  terms cannot be parsed is accepted, and evaluating it for another version is an error.\<close>

theorem constraint_validation_gap:
  "constraint_error ''>=1.0.0 latest'' = None \<and> \<not> is_ok (satisfies ''1.2.0'' ''>=1.0.0 latest'')"
  by code_simp

end
