(* ===== verification/Planner.thy ===== *)
theory Planner
  imports Manifest
begin

text \<open>
  The installation planner: internal/modules/planner.go.  The closure \<open>visit\<close> and the variables
  it captures become a state record passed along; its recursion, whose depth the code does not
  bound explicitly, takes a fuel argument, and \<open>plan_terminates\<close> shows that the number of
  available modules plus one is always enough.  Maps of the source are association lists, so the
  order of iteration is a parameter of the input, as Go leaves it open.
\<close>

section \<open>Model\<close>

record plan_input =
  core_version :: string
  target :: string
  available :: "(string \<times> manifest) list"
  installed :: "(string \<times> string) list"
  host_capabilities :: "string list"
  architecture :: string

record plan_state =
  marks :: "string \<Rightarrow> nat"
  selected :: "(string \<times> manifest) list"
  order :: "manifest list"
  capabilities :: "string list"

definition is_installed :: "plan_input \<Rightarrow> string \<Rightarrow> bool" where
  "is_installed inp i = (map_of (installed inp) i \<noteq> None)"

definition constraint_met :: "string \<Rightarrow> string \<Rightarrow> bool" where
  "constraint_met v c = (satisfies v c = Inr True)"

text \<open>The capabilities known before the first visit.\<close>

definition initial_capabilities :: "plan_input \<Rightarrow> string list" where
  "initial_capabilities inp =
     fold (\<lambda>(i, v) caps.
             case map_of (available inp) i of
               None \<Rightarrow> caps
             | Some m \<Rightarrow> if mod_version m = v then set_add_all (cap_provides m) caps else caps)
       (installed inp) (set_add_all (host_capabilities inp) [])"

text \<open>The checks of \<open>visit\<close> before the module is marked.\<close>

definition visit_checks :: "plan_input \<Rightarrow> manifest \<Rightarrow> plan_state \<Rightarrow> go_error option" where
  "visit_checks inp m s = first_error ([
     map_option (Wrapf ''module %q: '' [mod_id m]) (validate_manifest m),
     fail_if (\<not> constraint_met (core_version inp) (core_constraint m))
       (Errf ''module %q is incompatible with Core %s'' [mod_id m, core_version inp]),
     fail_if (architectures m \<noteq> [] \<and> architecture inp \<notin> set (architectures m))
       (Errf ''module %q does not support architecture %s'' [mod_id m, architecture inp])]
     @ map (\<lambda>c. first_error [
         fail_if (is_installed inp c)
           (Errf ''module %q conflicts with installed module %q'' [mod_id m, c]),
         fail_if (marks s c \<noteq> 0)
           (Errf ''module %q conflicts with planned module %q'' [mod_id m, c])]) (conflicts m))"

definition mark :: "string \<Rightarrow> nat \<Rightarrow> plan_state \<Rightarrow> plan_state" where
  "mark i k s = s\<lparr>marks := (marks s)(i := k)\<rparr>"

text \<open>What follows the dependencies: required capabilities, then the module is planned.\<close>

definition finish_visit :: "plan_input \<Rightarrow> manifest \<Rightarrow> plan_state \<Rightarrow> plan_state res" where
  "finish_visit inp m s =
     (case List.find (\<lambda>c. c \<notin> set (capabilities s)) (cap_requires m) of
        Some c \<Rightarrow> Inl (Errf ''module %q requires unavailable capability %q'' [mod_id m, c])
      | None \<Rightarrow>
          Inr ((mark (mod_id m) 2 s)
            \<lparr>capabilities := set_add_all (cap_provides m) (capabilities s),
             selected := selected s @ [(mod_id m, m)],
             order := (if is_installed inp (mod_id m) then order s else order s @ [m])\<rparr>))"

definition visit_dep ::
  "(manifest \<Rightarrow> plan_state \<Rightarrow> plan_state res option) \<Rightarrow> plan_input \<Rightarrow> manifest \<Rightarrow> dependency \<Rightarrow>
   plan_state \<Rightarrow> plan_state res option" where
  "visit_dep step inp m d s =
     (case map_of (installed inp) (dep_id d) of
        Some v \<Rightarrow>
          if constraint_met v (dep_version d) then Some (Inr s)
          else Some (Inl (Errf ''installed dependency %q version %s does not satisfy %s''
                            [dep_id d, v, dep_version d]))
      | None \<Rightarrow>
          (case map_of (available inp) (dep_id d) of
             None \<Rightarrow> Some (Inl (Errf ''dependency %q required by %q is unavailable'' [dep_id d, mod_id m]))
           | Some dm \<Rightarrow>
               if constraint_met (mod_version dm) (dep_version d) then step dm s
               else Some (Inl (Errf ''dependency %q version %s does not satisfy %s''
                                 [dep_id d, mod_version dm, dep_version d]))))"

fun visit_deps ::
  "(manifest \<Rightarrow> plan_state \<Rightarrow> plan_state res option) \<Rightarrow> plan_input \<Rightarrow> manifest \<Rightarrow> dependency list \<Rightarrow>
   plan_state \<Rightarrow> plan_state res option" where
  "visit_deps step inp m [] s = Some (Inr s)"
| "visit_deps step inp m (d # ds) s =
     (case visit_dep step inp m d s of
        None \<Rightarrow> None
      | Some (Inl e) \<Rightarrow> Some (Inl e)
      | Some (Inr s') \<Rightarrow> visit_deps step inp m ds s')"

primrec visit :: "nat \<Rightarrow> plan_input \<Rightarrow> manifest \<Rightarrow> plan_state \<Rightarrow> plan_state res option" where
  "visit 0 inp m s = None"
| "visit (Suc n) inp m s =
     (if marks s (mod_id m) = 1
      then Some (Inl (Errf ''dependency cycle includes %q'' [mod_id m]))
      else if marks s (mod_id m) = 2 then Some (Inr s)
      else (case visit_checks inp m s of
              Some e \<Rightarrow> Some (Inl e)
            | None \<Rightarrow>
                (case visit_deps (visit n inp) inp m (sort_key dep_id (dependencies m))
                        (mark (mod_id m) 1 s) of
                   None \<Rightarrow> None
                 | Some (Inl e) \<Rightarrow> Some (Inl e)
                 | Some (Inr s') \<Rightarrow> Some (finish_visit inp m s'))))"

definition selected_conflict_errors :: "plan_input \<Rightarrow> (string \<times> manifest) list \<Rightarrow> string \<times> manifest \<Rightarrow> go_error option" where
  "selected_conflict_errors inp sel = (\<lambda>(i, m).
     first_error (
       map (\<lambda>c. first_error [
              fail_if (map_of sel c \<noteq> None) (Errf ''planned modules %q and %q conflict'' [i, c]),
              fail_if (is_installed inp c) (Errf ''module %q conflicts with installed module %q'' [i, c])])
         (conflicts m)
       @ map (\<lambda>(j, v).
              case map_of (available inp) j of
                None \<Rightarrow> None
              | Some im \<Rightarrow> fail_if (i \<in> set (conflicts im))
                  (Errf ''installed module %q conflicts with module %q'' [j, i]))
         (installed inp)))"

definition validate_selected_conflicts :: "plan_input \<Rightarrow> (string \<times> manifest) list \<Rightarrow> go_error option" where
  "validate_selected_conflicts inp sel = first_error (map (selected_conflict_errors inp sel) sel)"

definition initial_state :: "plan_input \<Rightarrow> plan_state" where
  "initial_state inp = \<lparr>marks = (\<lambda>_. 0), selected = [], order = [],
     capabilities = initial_capabilities inp\<rparr>"

text \<open>\<open>runtime.GOARCH\<close> is the argument \<open>goarch\<close>.\<close>

definition effective_input :: "string \<Rightarrow> plan_input \<Rightarrow> plan_input" where
  "effective_input goarch inp =
     (if architecture inp = [] then inp\<lparr>architecture := goarch\<rparr> else inp)"

definition plan_install :: "string \<Rightarrow> plan_input \<Rightarrow> manifest list res option" where
  "plan_install goarch inp0 =
     (let inp = effective_input goarch inp0 in
      case map_of (available inp) (target inp) of
        None \<Rightarrow> Some (Inl (Errf ''target module %q is unavailable'' [target inp]))
      | Some t \<Rightarrow>
          (case visit (Suc (length (available inp))) inp t (initial_state inp) of
             None \<Rightarrow> None
           | Some (Inl e) \<Rightarrow> Some (Inl e)
           | Some (Inr s) \<Rightarrow>
               (case validate_selected_conflicts inp (selected s) of
                  Some e \<Rightarrow> Some (Inl e)
                | None \<Rightarrow> Some (Inr (order s)))))"

section \<open>Marks only grow\<close>

definition marks_ok :: "plan_state \<Rightarrow> bool" where
  "marks_ok s \<longleftrightarrow> (\<forall>i. marks s i \<le> 2)"

definition marks_kept :: "plan_state \<Rightarrow> plan_state \<Rightarrow> bool" where
  "marks_kept s s' \<longleftrightarrow> (marks_ok s \<longrightarrow> marks_ok s' \<and>
     (\<forall>i. marks s i \<noteq> 0 \<longrightarrow> marks s' i = marks s i) \<and> (\<exists>zs. order s' = order s @ zs))"

lemma marks_kept_refl [simp]: "marks_kept s s"
  by (simp add: marks_kept_def)

lemma marks_kept_trans: "marks_kept s t \<Longrightarrow> marks_kept t u \<Longrightarrow> marks_kept s u"
  by (fastforce simp: marks_kept_def)

lemma marks_mark [simp]: "marks (mark i k s) = (marks s)(i := k)"
  "order (mark i k s) = order s" "selected (mark i k s) = selected s"
  "capabilities (mark i k s) = capabilities s"
  by (simp_all add: mark_def)

lemma visit_dep_Inr:
  assumes "visit_dep step inp m d s = Some (Inr s')"
  obtains (present) v where "map_of (installed inp) (dep_id d) = Some v"
      and "constraint_met v (dep_version d)" and "s' = s"
  | (visited) dm where "map_of (installed inp) (dep_id d) = None"
      and "map_of (available inp) (dep_id d) = Some dm"
      and "constraint_met (mod_version dm) (dep_version d)" and "step dm s = Some (Inr s')"
  using assms by (auto simp: visit_dep_def split: option.splits if_splits)

lemma visit_deps_kept:
  assumes "\<And>dm s s'. step dm s = Some (Inr s') \<Longrightarrow> marks_kept s s'"
  shows "visit_deps step inp m ds s = Some (Inr s') \<Longrightarrow> marks_kept s s'"
proof (induction ds arbitrary: s)
  case (Cons d ds)
  then obtain t where t: "visit_dep step inp m d s = Some (Inr t)"
    "visit_deps step inp m ds t = Some (Inr s')"
    by (auto split: option.splits sum.splits)
  from t(1) have "marks_kept s t"
    by (cases rule: visit_dep_Inr) (auto intro: assms)
  with Cons.IH [OF t(2)] show ?case by (rule marks_kept_trans [rotated])
qed simp

lemma finish_visit_Inr:
  "finish_visit inp m s = Inr s' \<longleftrightarrow>
     set (cap_requires m) \<subseteq> set (capabilities s) \<and>
     s' = (mark (mod_id m) 2 s)
            \<lparr>capabilities := set_add_all (cap_provides m) (capabilities s),
             selected := selected s @ [(mod_id m, m)],
             order := (if is_installed inp (mod_id m) then order s else order s @ [m])\<rparr>"
proof (cases "List.find (\<lambda>c. c \<notin> set (capabilities s)) (cap_requires m)")
  case None
  then have "set (cap_requires m) \<subseteq> set (capabilities s)" by (auto simp: find_None_iff)
  with None show ?thesis by (auto simp: finish_visit_def)
next
  case (Some c)
  then have "c \<in> set (cap_requires m)" "c \<notin> set (capabilities s)"
    by (auto simp: find_Some_iff)
  with Some show ?thesis by (auto simp: finish_visit_def)
qed

text \<open>What a visit that ends well has done.\<close>

lemma visit_Inr:
  assumes "visit n inp m s = Some (Inr s')"
  obtains (again) "marks s (mod_id m) = 2" and "s' = s"
  | (fresh) k t where "n = Suc k" and "marks s (mod_id m) \<noteq> 1" and "marks s (mod_id m) \<noteq> 2"
      and "visit_checks inp m s = None"
      and "visit_deps (visit k inp) inp m (sort_key dep_id (dependencies m)) (mark (mod_id m) 1 s)
             = Some (Inr t)"
      and "finish_visit inp m t = Inr s'"
  using assms by (cases n) (auto split: if_splits option.splits sum.splits)

lemma marks_ok_new: "marks_ok s \<Longrightarrow> marks s i \<noteq> 1 \<Longrightarrow> marks s i \<noteq> 2 \<Longrightarrow> marks s i = 0"
  unfolding marks_ok_def by (metis One_nat_def le_SucE le_zero_eq numeral_2_eq_2)

lemma visit_kept: "visit n inp m s = Some (Inr s') \<Longrightarrow> marks_kept s s'"
proof (induction n arbitrary: m s s')
  case (Suc n)
  from Suc.prems show ?case
  proof (cases rule: visit_Inr)
    case (fresh k t)
    then have t: "marks_kept (mark (mod_id m) 1 s) t"
      using Suc.IH by (auto intro: visit_deps_kept)
    show ?thesis unfolding marks_kept_def
    proof
      assume ok: "marks_ok s"
      have new: "marks s (mod_id m) = 0" using fresh ok by (auto intro: marks_ok_new)
      have "marks_ok (mark (mod_id m) 1 s)" using ok by (auto simp: marks_ok_def)
      with t fresh(6) new show "marks_ok s' \<and>
         (\<forall>i. marks s i \<noteq> 0 \<longrightarrow> marks s' i = marks s i) \<and> (\<exists>zs. order s' = order s @ zs)"
        by (auto simp: marks_kept_def finish_visit_Inr marks_ok_def)
    qed
  qed simp
qed simp

section \<open>Enough fuel\<close>

text \<open>The identifiers of the available modules that are still unmarked.\<close>

definition pending :: "plan_input \<Rightarrow> plan_state \<Rightarrow> string set" where
  "pending inp s = {i \<in> mod_id ` snd ` set (available inp). marks s i = 0}"

lemma finite_pending [simp]: "finite (pending inp s)"
  by (simp add: pending_def)

lemma pending_kept:
  assumes "marks_kept s t" and "marks_ok s"
  shows "card (pending inp t) \<le> card (pending inp s)"
proof (rule card_mono)
  show "pending inp t \<subseteq> pending inp s"
    using assms by (auto simp: marks_kept_def pending_def)
qed simp

lemma pending_mark:
  assumes "m \<in> snd ` set (available inp)" and "marks s (mod_id m) = 0"
  shows "card (pending inp (mark (mod_id m) 1 s)) < card (pending inp s)"
proof (rule psubset_card_mono)
  have "mod_id m \<in> pending inp s" "mod_id m \<notin> pending inp (mark (mod_id m) 1 s)"
    using assms by (auto simp: pending_def)
  then show "pending inp (mark (mod_id m) 1 s) \<subset> pending inp s"
    by (auto simp: pending_def split: if_splits)
qed simp

lemma visit_deps_enough:
  assumes "\<And>dm t. dm \<in> snd ` set (available inp) \<Longrightarrow> marks_ok t \<Longrightarrow> card (pending inp t) < n \<Longrightarrow>
      step dm t \<noteq> None"
    and "\<And>dm t t'. step dm t = Some (Inr t') \<Longrightarrow> marks_kept t t'"
  shows "marks_ok s \<Longrightarrow> card (pending inp s) < n \<Longrightarrow> visit_deps step inp m ds s \<noteq> None"
proof (induction ds arbitrary: s)
  case (Cons d ds)
  have 1: "visit_dep step inp m d s \<noteq> None"
    using assms(1) Cons.prems
    by (force simp: visit_dep_def split: option.splits dest!: map_of_SomeD)
  show ?case
  proof (cases "visit_dep step inp m d s")
    case (Some r)
    show ?thesis
    proof (cases r)
      case (Inr t)
      with Some have "marks_kept s t"
        by (auto elim!: visit_dep_Inr intro: assms(2))
      then have "marks_ok t" "card (pending inp t) < n"
        using Cons.prems pending_kept [of s t inp] by (auto simp: marks_kept_def)
      with Cons.IH Some Inr show ?thesis by simp
    qed (simp add: Some)
  qed (use 1 in simp)
qed simp

lemma visit_enough:
  "m \<in> snd ` set (available inp) \<Longrightarrow> marks_ok s \<Longrightarrow> card (pending inp s) < n \<Longrightarrow>
   visit n inp m s \<noteq> None"
proof (induction n arbitrary: m s)
  case (Suc n)
  let ?s1 = "mark (mod_id m) 1 s"
  show ?case
  proof (cases "marks s (mod_id m) = 1 \<or> marks s (mod_id m) = 2 \<or> visit_checks inp m s \<noteq> None")
    case False
    with Suc.prems have "marks s (mod_id m) = 0" by (auto intro: marks_ok_new)
    with Suc.prems have "card (pending inp ?s1) < n"
      using pending_mark [of m inp s] by simp
    moreover have "marks_ok ?s1" using Suc.prems by (auto simp: marks_ok_def)
    ultimately have "visit_deps (visit n inp) inp m ds ?s1 \<noteq> None" for ds
      using Suc.IH visit_kept by (intro visit_deps_enough)
    with False show ?thesis
      by (auto split: option.splits sum.splits)
  qed auto
qed simp

section \<open>Soundness of the plan\<close>

text \<open>A dependency is provided for when it is installed, or planned earlier, in a fitting version.\<close>

definition provided_for :: "plan_input \<Rightarrow> manifest list \<Rightarrow> dependency \<Rightarrow> bool" where
  "provided_for inp ms d \<longleftrightarrow>
     (\<exists>v. map_of (installed inp) (dep_id d) = Some v \<and> constraint_met v (dep_version d)) \<or>
     (\<exists>dm\<in>set ms. mod_id dm = dep_id d \<and> constraint_met (mod_version dm) (dep_version d))"

definition capabilities_of :: "plan_input \<Rightarrow> manifest list \<Rightarrow> string set" where
  "capabilities_of inp ms = set (initial_capabilities inp) \<union> (\<Union>m\<in>set ms. set (cap_provides m))"

text \<open>A module fits at its place in the order: the modules before it are \<open>ms\<close>.\<close>

definition fits :: "plan_input \<Rightarrow> manifest list \<Rightarrow> manifest \<Rightarrow> bool" where
  "fits inp ms m \<longleftrightarrow>
     validate_manifest m = None \<and> constraint_met (core_version inp) (core_constraint m) \<and>
     (architectures m = [] \<or> architecture inp \<in> set (architectures m)) \<and>
     (\<forall>d\<in>set (dependencies m). provided_for inp ms d) \<and>
     set (cap_requires m) \<subseteq> capabilities_of inp ms"

fun order_ok :: "plan_input \<Rightarrow> manifest list \<Rightarrow> manifest list \<Rightarrow> bool" where
  "order_ok inp pre [] = True"
| "order_ok inp pre (m # ms) = (fits inp pre m \<and> order_ok inp (pre @ [m]) ms)"

lemma order_ok_snoc:
  "order_ok inp pre (ms @ [m]) \<longleftrightarrow> order_ok inp pre ms \<and> fits inp (pre @ ms) m"
  by (induction ms arbitrary: pre) auto

lemma order_ok_nth:
  "order_ok inp pre ms \<Longrightarrow> i < length ms \<Longrightarrow> fits inp (pre @ take i ms) (ms ! i)"
proof (induction ms arbitrary: pre i)
  case (Cons m ms)
  then show ?case
    using Cons.IH [of "pre @ [m]" "i - 1"] by (cases i) auto
qed simp

definition well_keyed :: "plan_input \<Rightarrow> bool" where
  "well_keyed inp \<longleftrightarrow> list_all (\<lambda>(k, m). mod_id m = k) (available inp)"

text \<open>
  The invariant of the search: finished modules are exactly those planned, in an order that
  fits; a started module is marked 1.
\<close>

definition plan_inv :: "plan_input \<Rightarrow> plan_state \<Rightarrow> bool" where
  "plan_inv inp s \<longleftrightarrow> marks_ok s \<and> order_ok inp [] (order s) \<and>
     distinct (map mod_id (order s)) \<and>
     (\<forall>m\<in>set (order s). marks s (mod_id m) = 2 \<and> \<not> is_installed inp (mod_id m) \<and>
        (mod_id m, m) \<in> set (selected s) \<and> map_of (available inp) (mod_id m) = Some m) \<and>
     (\<forall>i. marks s i = 2 \<longrightarrow> (\<exists>m\<in>set (order s). mod_id m = i)) \<and>
     set (capabilities s) = capabilities_of inp (order s)"

lemma well_keyed_lookup:
  "well_keyed inp \<Longrightarrow> map_of (available inp) k = Some m \<Longrightarrow> mod_id m = k"
  by (auto simp: well_keyed_def list_all_iff dest!: map_of_SomeD)

lemma visit_checks_None:
  "visit_checks inp m s = None \<Longrightarrow>
     validate_manifest m = None \<and> constraint_met (core_version inp) (core_constraint m) \<and>
     (architectures m = [] \<or> architecture inp \<in> set (architectures m))"
  by (auto simp: visit_checks_def first_error_None_iff)

lemma provided_for_mono:
  "provided_for inp ms d \<Longrightarrow> set ms \<subseteq> set ns \<Longrightarrow> provided_for inp ns d"
  by (auto simp: provided_for_def)

text \<open>What one visit of an uninstalled available module establishes.\<close>

definition visit_post :: "plan_input \<Rightarrow> manifest \<Rightarrow> plan_state \<Rightarrow> bool" where
  "visit_post inp m s' \<longleftrightarrow> plan_inv inp s' \<and> m \<in> set (order s')"

lemma visit_deps_sound:
  assumes step: "\<And>dm t t'. map_of (available inp) (mod_id dm) = Some dm \<Longrightarrow>
      \<not> is_installed inp (mod_id dm) \<Longrightarrow> plan_inv inp t \<Longrightarrow> step dm t = Some (Inr t') \<Longrightarrow>
      visit_post inp dm t'"
    and kept: "\<And>dm t t'. step dm t = Some (Inr t') \<Longrightarrow> marks_kept t t'"
    and wk: "well_keyed inp"
  shows "plan_inv inp s \<Longrightarrow> visit_deps step inp m ds s = Some (Inr s') \<Longrightarrow>
    plan_inv inp s' \<and> (\<forall>d\<in>set ds. provided_for inp (order s') d)"
proof (induction ds arbitrary: s)
  case (Cons d ds)
  then obtain t where t: "visit_dep step inp m d s = Some (Inr t)"
    "visit_deps step inp m ds t = Some (Inr s')"
    by (auto split: option.splits sum.splits)
  from t(1) have inv: "plan_inv inp t \<and> provided_for inp (order t) d"
  proof (cases rule: visit_dep_Inr)
    case (present v)
    with Cons.prems(1) show ?thesis by (auto simp: provided_for_def)
  next
    case (visited dm)
    have "mod_id dm = dep_id d" using wk visited(2) by (rule well_keyed_lookup)
    with step [OF _ _ Cons.prems(1) visited(4)] visited show ?thesis
      by (auto simp: visit_post_def is_installed_def provided_for_def)
  qed
  from t(2) have "marks_kept t s'"
    by (rule visit_deps_kept [rotated]) (rule kept)
  with inv have "set (order t) \<subseteq> set (order s')"
    by (auto simp: marks_kept_def plan_inv_def)
  with Cons.IH [OF _ t(2)] inv show ?case
    by (auto intro: provided_for_mono)
qed simp

lemma plan_inv_mark:
  assumes "plan_inv inp s" and "marks s (mod_id m) = 0"
  shows "plan_inv inp (mark (mod_id m) 1 s)"
  using assms unfolding plan_inv_def marks_ok_def
  by (auto simp: capabilities_of_def)

lemma capabilities_of_snoc:
  "capabilities_of inp (ms @ [m]) = set (cap_provides m) \<union> capabilities_of inp ms"
  by (auto simp: capabilities_of_def)

lemma visit_sound:
  assumes wk: "well_keyed inp"
  shows "map_of (available inp) (mod_id m) = Some m \<Longrightarrow> \<not> is_installed inp (mod_id m) \<Longrightarrow>
    plan_inv inp s \<Longrightarrow> visit n inp m s = Some (Inr s') \<Longrightarrow> visit_post inp m s'"
proof (induction n arbitrary: m s s')
  case (Suc n)
  from Suc.prems(4) show ?case
  proof (cases rule: visit_Inr)
    case again
    then obtain m' where "m' \<in> set (order s)" "mod_id m' = mod_id m"
      using Suc.prems(3) by (auto simp: plan_inv_def)
    moreover from this Suc.prems(1,3) have "m' = m" by (auto simp: plan_inv_def)
    ultimately show ?thesis using again Suc.prems(3) by (simp add: visit_post_def)
  next
    case (fresh k t)
    have ok: "marks_ok s" using Suc.prems(3) by (simp add: plan_inv_def)
    have new: "marks s (mod_id m) = 0" using fresh ok by (auto intro: marks_ok_new)
    have "visit_post inp dm u'" if "map_of (available inp) (mod_id dm) = Some dm"
        "\<not> is_installed inp (mod_id dm)" "plan_inv inp u" "visit k inp dm u = Some (Inr u')" for dm u u'
      using Suc.IH that fresh(1) by blast
    then have t: "plan_inv inp t" "\<forall>d\<in>set (sort_key dep_id (dependencies m)). provided_for inp (order t) d"
      using visit_deps_sound [OF _ visit_kept wk plan_inv_mark [OF Suc.prems(3) new] fresh(5)] by auto
    from fresh(5) have "marks_kept (mark (mod_id m) 1 s) t"
      by (rule visit_deps_kept [rotated]) (rule visit_kept)
    moreover have "marks_ok (mark (mod_id m) 1 s)" using ok by (auto simp: marks_ok_def)
    ultimately have one: "marks t (mod_id m) = 1" by (auto simp: marks_kept_def)
    then have notin: "mod_id m \<notin> mod_id ` set (order t)"
      using t(1) by (auto simp: plan_inv_def)
    have "fits inp (order t) m"
      using t fresh(6) visit_checks_None [OF fresh(4)]
      by (auto simp: fits_def finish_visit_Inr plan_inv_def)
    then have "plan_inv inp s'"
      using t(1) fresh(6) notin Suc.prems(1,2)
      by (auto simp: plan_inv_def finish_visit_Inr order_ok_snoc marks_ok_def capabilities_of_snoc)
    moreover have "m \<in> set (order s')"
      using fresh(6) Suc.prems(2) by (auto simp: finish_visit_Inr)
    ultimately show ?thesis by (simp add: visit_post_def)
  qed
qed simp

section \<open>Every planned module is needed\<close>

text \<open>The modules the target needs: itself, and uninstalled dependencies of needed modules.\<close>

inductive needs :: "plan_input \<Rightarrow> manifest \<Rightarrow> manifest \<Rightarrow> bool" for inp t where
  needs_target: "needs inp t t"
| needs_dep: "needs inp t m \<Longrightarrow> d \<in> set (dependencies m) \<Longrightarrow>
    map_of (installed inp) (dep_id d) = None \<Longrightarrow> map_of (available inp) (dep_id d) = Some dm \<Longrightarrow>
    needs inp t dm"

lemma visit_deps_needed:
  assumes step: "\<And>dm u u'. step dm u = Some (Inr u') \<Longrightarrow> needs inp t dm \<Longrightarrow>
      \<forall>x\<in>set (order u). needs inp t x \<Longrightarrow> \<forall>x\<in>set (order u'). needs inp t x"
    and m: "needs inp t m"
  shows "visit_deps step inp m ds s = Some (Inr s') \<Longrightarrow> set ds \<subseteq> set (dependencies m) \<Longrightarrow>
    \<forall>x\<in>set (order s). needs inp t x \<Longrightarrow> \<forall>x\<in>set (order s'). needs inp t x"
proof (induction ds arbitrary: s)
  case (Cons d ds)
  then obtain u where u: "visit_dep step inp m d s = Some (Inr u)"
    "visit_deps step inp m ds u = Some (Inr s')"
    by (auto split: option.splits sum.splits)
  from u(1) have "\<forall>x\<in>set (order u). needs inp t x"
  proof (cases rule: visit_dep_Inr)
    case (visited dm)
    then have "needs inp t dm" using Cons.prems(2) m by (auto intro: needs_dep)
    with step [OF visited(4)] Cons.prems(3) show ?thesis by blast
  qed (use Cons.prems(3) in simp)
  with Cons.IH [OF u(2)] Cons.prems(2) show ?case by simp
qed simp

lemma visit_needed:
  "visit n inp m s = Some (Inr s') \<Longrightarrow> needs inp t m \<Longrightarrow> \<forall>x\<in>set (order s). needs inp t x \<Longrightarrow>
   \<forall>x\<in>set (order s'). needs inp t x"
proof (induction n arbitrary: m s s')
  case (Suc n)
  from Suc.prems(1) show ?case
  proof (cases rule: visit_Inr)
    case (fresh k u)
    have "\<forall>x\<in>set (order u). needs inp t x"
    proof (rule visit_deps_needed [OF _ Suc.prems(2) fresh(5)])
      show "set (sort_key dep_id (dependencies m)) \<subseteq> set (dependencies m)" by simp
      show "\<forall>x\<in>set (order (mark (mod_id m) 1 s)). needs inp t x" using Suc.prems(3) by simp
    qed (use Suc.IH fresh(1) in blast)
    with fresh(6) Suc.prems(2) show ?thesis by (auto simp: finish_visit_Inr)
  qed (use Suc.prems(3) in simp)
qed simp

section \<open>The whole planner\<close>

declare visit.simps [simp del]

lemma plan_install_Inr:
  assumes "plan_install goarch inp0 = Some (Inr ms)"
  obtains t s where "map_of (available (effective_input goarch inp0)) (target inp0) = Some t"
    and "visit (Suc (length (available inp0))) (effective_input goarch inp0) t
           (initial_state (effective_input goarch inp0)) = Some (Inr s)"
    and "validate_selected_conflicts (effective_input goarch inp0) (selected s) = None"
    and "ms = order s"
proof -
  have e: "target (effective_input goarch inp0) = target inp0"
      "available (effective_input goarch inp0) = available inp0"
    by (simp_all add: effective_input_def)
  show ?thesis
    using assms that unfolding plan_install_def Let_def
    by (auto simp: e split: option.splits sum.splits)
qed

lemma effective_simps [simp]:
  "available (effective_input a inp) = available inp" "target (effective_input a inp) = target inp"
  "installed (effective_input a inp) = installed inp"
  "core_version (effective_input a inp) = core_version inp"
  "is_installed (effective_input a inp) = is_installed inp"
  "well_keyed (effective_input a inp) = well_keyed inp"
  by (auto simp: effective_input_def is_installed_def fun_eq_iff well_keyed_def)

lemma plan_inv_initial: "plan_inv inp (initial_state inp)"
  by (simp add: plan_inv_def initial_state_def marks_ok_def capabilities_of_def)

text \<open>The visit of the target, which may itself be installed.\<close>

lemma visit_target:
  assumes wk: "well_keyed inp" and t: "map_of (available inp) (target inp) = Some t"
    and v: "visit n inp t (initial_state inp) = Some (Inr s)"
  shows "order_ok inp [] (order s) \<and> distinct (map mod_id (order s)) \<and>
    (\<forall>m\<in>set (order s). \<not> is_installed inp (mod_id m) \<and> (mod_id m, m) \<in> set (selected s)) \<and>
    (\<not> is_installed inp (target inp) \<longrightarrow> order s \<noteq> [] \<and> last (order s) = t)"
  using v
proof (cases rule: visit_Inr)
  case again
  then show ?thesis by (simp add: initial_state_def)
next
  case (fresh k u)
  have id: "mod_id t = target inp" using wk t by (rule well_keyed_lookup)
  have post: "visit_post inp dm u'" if "map_of (available inp) (mod_id dm) = Some dm"
      "\<not> is_installed inp (mod_id dm)" "plan_inv inp w" "visit k inp dm w = Some (Inr u')" for dm w u'
    using visit_sound [OF wk] that by blast
  have zero: "marks (initial_state inp) (mod_id t) = 0" by (simp add: initial_state_def)
  have u: "plan_inv inp u" "\<forall>d\<in>set (dependencies t). provided_for inp (order u) d"
    using visit_deps_sound [OF post visit_kept wk plan_inv_mark [OF plan_inv_initial zero] fresh(5)]
    by auto
  show ?thesis
  proof (cases "is_installed inp (target inp)")
    case True
    with u(1) fresh(6) id show ?thesis by (auto simp: plan_inv_def finish_visit_Inr)
  next
    case False
    have "visit_post inp t s"
      using visit_sound [OF wk _ _ plan_inv_initial v] t False by (simp add: id)
    moreover have "order s \<noteq> [] \<and> last (order s) = t"
      using fresh(6) False id by (auto simp: finish_visit_Inr)
    ultimately show ?thesis by (auto simp: visit_post_def plan_inv_def)
  qed
qed

lemma selected_conflicts_None:
  assumes "validate_selected_conflicts inp sel = None" and "(i, m) \<in> set sel"
  shows "\<forall>c\<in>set (conflicts m). c \<notin> fst ` set sel \<and> \<not> is_installed inp c"
    and "\<forall>(j, v)\<in>set (installed inp). \<forall>im. map_of (available inp) j = Some im \<longrightarrow> i \<notin> set (conflicts im)"
proof -
  have "selected_conflict_errors inp sel (i, m) = None"
    using assms by (auto simp: validate_selected_conflicts_def first_error_None_iff)
  then show "\<forall>c\<in>set (conflicts m). c \<notin> fst ` set sel \<and> \<not> is_installed inp c"
    and "\<forall>(j, v)\<in>set (installed inp). \<forall>im. map_of (available inp) j = Some im \<longrightarrow> i \<notin> set (conflicts im)"
    unfolding selected_conflict_errors_def first_error_None_iff map_of_eq_None_iff
    by (fastforce simp: first_error_None_iff ball_Un split: option.splits)+
qed

text \<open>A small catalogue for the witnesses: an application and the library it depends on.\<close>

definition sample_module :: "string \<Rightarrow> dependency list \<Rightarrow> manifest" where
  "sample_module i ds = \<lparr>
     schema_version = 2, mod_id = i, mod_name = ''Sample'', description = [], mod_version = ''1.2.0'',
     core_constraint = ''>=0.1.0'',
     runtime = \<lparr>rt_type = ''docker'', docker_image = ''r/i@sha256:'' @ replicate 64 CHR ''0'',
                rt_health = \<lparr>health_port = 0, health_path = []\<rparr>\<rparr>,
     dependencies = ds, conflicts = [], permissions = [], cap_requires = [''host.docker''],
     cap_provides = [], architectures = [], api_namespace = [], ev_publishes = [],
     ev_subscribes = [], navigation = [], lifecycle = [''install'']\<rparr>"

definition sample_library :: manifest where
  "sample_library = sample_module ''a.lib'' []"

definition sample_app :: manifest where
  "sample_app = sample_module ''b.app'' [\<lparr>dep_id = ''a.lib'', dep_version = ''>=1.0.0''\<rparr>]"

definition sample_input :: plan_input where
  "sample_input = \<lparr>core_version = ''0.1.175'', target = ''b.app'',
     available = [(''a.lib'', sample_library), (''b.app'', sample_app)], installed = [],
     host_capabilities = [''host.docker''], architecture = []\<rparr>"

lemma sample_plan: "plan_install ''amd64'' sample_input = Some (Inr [sample_library, sample_app])"
  by code_simp

lemma sample_input_keyed: "well_keyed sample_input"
  by code_simp

section \<open>Properties\<close>

text \<open>C28. The planner always returns: the search of the dependency graph ends on every input, cyclic
  or not, within the number of available modules.\<close>

theorem plan_terminates: "\<exists>r. plan_install goarch inp = Some r"
proof -
  let ?inp = "effective_input goarch inp"
  have "visit (Suc (length (available ?inp))) ?inp t (initial_state ?inp) \<noteq> None"
    if "map_of (available ?inp) (target ?inp) = Some t" for t
  proof (rule visit_enough)
    show "t \<in> snd ` set (available ?inp)" using map_of_SomeD [OF that] by force
    show "marks_ok (initial_state ?inp)" by (simp add: marks_ok_def initial_state_def)
    have "card (pending ?inp (initial_state ?inp)) \<le> card (mod_id ` snd ` set (available ?inp))"
      by (intro card_mono) (auto simp: pending_def)
    also have "\<dots> \<le> card (set (available ?inp))"
      by (metis List.finite_set card_image_le finite_imageI order_trans)
    also have "\<dots> \<le> length (available ?inp)" by (rule card_length)
    finally show "card (pending ?inp (initial_state ?inp)) < Suc (length (available ?inp))" by simp
  qed
  then show ?thesis
    unfolding plan_install_def Let_def by (auto split: option.splits sum.splits)
qed

text \<open>C7. A plan is sound: no module occurs twice or is installed already; every planned module is
  valid, fits the Core version and the architecture, and has each dependency installed or planned
  before it in a fitting version and each required capability known before it; no two planned
  modules conflict and none conflicts with an installed one; the last module is the target, unless
  that is installed.\<close>

theorem plan_sound:
  assumes "well_keyed inp" and "plan_install goarch inp = Some (Inr ms)"
  shows "distinct (map mod_id ms) \<and> (\<forall>m\<in>set ms. \<not> is_installed inp (mod_id m)) \<and>
    (\<forall>i<length ms. fits (effective_input goarch inp) (take i ms) (ms ! i)) \<and>
    (\<forall>m\<in>set ms. \<forall>m'\<in>set ms. mod_id m' \<notin> set (conflicts m)) \<and>
    (\<forall>m\<in>set ms. \<forall>c\<in>set (conflicts m). \<not> is_installed inp c) \<and>
    (\<not> is_installed inp (target inp) \<longrightarrow> ms \<noteq> [] \<and> mod_id (last ms) = target inp)"
proof -
  let ?inp = "effective_input goarch inp"
  obtain t s where t: "map_of (available ?inp) (target ?inp) = Some t"
    and v: "visit (Suc (length (available inp))) ?inp t (initial_state ?inp) = Some (Inr s)"
    and c: "validate_selected_conflicts ?inp (selected s) = None" and ms: "ms = order s"
    using assms(2) by (elim plan_install_Inr) simp
  have wk: "well_keyed ?inp" using assms(1) by simp
  note T = visit_target [OF wk t v]
  have "mod_id t = target inp" using well_keyed_lookup [OF wk t] by simp
  moreover have sel: "(mod_id m, m) \<in> set (selected s)" if "m \<in> set ms" for m
    using T that ms by blast
  moreover have nosel: "x \<notin> fst ` set (selected s) \<and> \<not> is_installed inp x"
    if "m \<in> set ms" "x \<in> set (conflicts m)" for m x
    using selected_conflicts_None(1) [OF c sel [OF that(1)]] that(2) by simp
  moreover have "\<forall>i<length ms. fits ?inp (take i ms) (ms ! i)"
    using order_ok_nth [of ?inp "[]" ms] T ms by simp
  moreover have "mod_id m' \<notin> set (conflicts m)" if "m \<in> set ms" "m' \<in> set ms" for m m'
    using sel [OF that(2)] nosel [OF that(1), of "mod_id m'"] by force
  ultimately show ?thesis using T ms by auto
qed

theorem plan_sound_witness:
  "distinct (map mod_id [sample_library, sample_app]) \<and>
   fits (effective_input ''amd64'' sample_input) [sample_library] sample_app"
  using plan_sound [OF sample_input_keyed sample_plan]
  by (auto dest: spec [of _ "1::nat"])

text \<open>A plan holds nothing superfluous: every planned module is the target or an uninstalled
  dependency, direct or not, of it.\<close>

theorem plan_minimal:
  assumes "plan_install goarch inp = Some (Inr ms)" and "m \<in> set ms"
  shows "\<exists>t. map_of (available inp) (target inp) = Some t \<and> needs inp t m"
proof -
  let ?inp = "effective_input goarch inp"
  obtain t s where t: "map_of (available ?inp) (target inp) = Some t"
    and v: "visit (Suc (length (available inp))) ?inp t (initial_state ?inp) = Some (Inr s)"
    and ms: "ms = order s"
    using assms(1) by (elim plan_install_Inr) simp
  have "needs ?inp t m"
    using visit_needed [OF v needs_target] assms(2) ms by (simp add: initial_state_def)
  then have "needs inp t m"
    by induction (auto intro: needs.intros)
  with t show ?thesis by auto
qed

theorem plan_minimal_witness:
  "\<exists>t. map_of (available sample_input) (target sample_input) = Some t \<and> needs sample_input t sample_library"
  by (rule plan_minimal [OF sample_plan]) simp

end
