(* ===== verification/Security.thy ===== *)
theory Security
  imports Accounts
begin

text \<open>
  The security service: internal/security/service.go, profiles.go, user_lifecycle.go,
  bootstrap_token.go and the length check of password.go, over the tables of Accounts.  What
  is outside the source is in \<open>crypto\<close>: the digest of secrets, the password function (argon2id with a
  salt), its verification, and the Unicode lower-case table.  Random values are arguments
  (\<open>fresh\<close>), the clock is the argument \<open>now\<close>; a failure of the random source or of the database
  itself is not modelled.  A request returns the new tables and its result, because a denied request
  still writes its audit row; a failure to write the audit row is ignored, as in the source.
\<close>

section \<open>Model\<close>

record crypto =
  hash_secret :: "string \<Rightarrow> string"
  argon :: "string \<Rightarrow> string \<Rightarrow> string"
  verify_password :: "string \<Rightarrow> string \<Rightarrow> bool res"
  lower_table :: "nat \<Rightarrow> nat"

record fresh =
  fr_user_id :: string
  fr_session_id :: string
  fr_token :: string
  fr_csrf :: string
  fr_audit_id :: string
  fr_salt :: string

record request_context =
  rc_request_id :: string
  rc_correlation_id :: string

record user_view =
  uv_id :: string
  uv_username :: string
  uv_display_name :: string
  uv_disabled :: bool
  uv_roles :: "string list"
  uv_profile :: string
  uv_permissions :: "string list"
  uv_scopes :: "permission_scope list"

record auth_result =
  auth_actor :: actor
  auth_token :: string
  auth_csrf :: string
  auth_expires :: gotime

type_synonym 'r request = "accounts \<times> 'r res"

definition session_lifetime :: nat where
  "session_lifetime = 24 * 3600 * nanos_per_second"

definition validate_password :: "string \<Rightarrow> go_error option" where
  "validate_password p =
     (if length p < 12 then Some (Errf ''password must be at least %d bytes'' [''12''])
      else if length p > 1024 then Some (Errf ''password must be at most %d bytes'' [''1024''])
      else None)"

definition hash_password :: "crypto \<Rightarrow> fresh \<Rightarrow> string \<Rightarrow> string res" where
  "hash_password cr fr p =
     (case validate_password p of Some e \<Rightarrow> Inl e | None \<Rightarrow> Inr (argon cr p (fr_salt fr)))"

definition user_from_record :: "account_record \<Rightarrow> user_view" where
  "user_from_record r =
     \<lparr>uv_id = usr_id (ar_user r), uv_username = usr_name (ar_user r), uv_display_name = usr_display (ar_user r),
      uv_disabled = usr_disabled (ar_user r), uv_roles = ar_roles r, uv_profile = profile_from_roles (ar_roles r),
      uv_permissions = ar_permissions r, uv_scopes = ar_scopes r\<rparr>"

definition actor_from_session :: "session_record \<Rightarrow> actor" where
  "actor_from_session r =
     \<lparr>act_type = ''user'', act_id = usr_id (ar_user (sr_account r)), act_username = usr_name (ar_user (sr_account r)),
      act_display_name = usr_display (ar_user (sr_account r)), act_session_id = ses_id (sr_session r),
      act_roles = ar_roles (sr_account r), act_permissions = ar_permissions (sr_account r),
      act_scopes = ar_scopes (sr_account r), act_csrf_hash = ses_csrf_hash (sr_session r)\<rparr>"

definition anonymous_actor :: "string \<Rightarrow> string \<Rightarrow> string \<Rightarrow> actor" where
  "anonymous_actor t i name =
     \<lparr>act_type = t, act_id = i, act_username = name, act_display_name = [], act_session_id = [],
      act_roles = [], act_permissions = [], act_scopes = [], act_csrf_hash = []\<rparr>"

definition audit ::
  "fresh \<Rightarrow> gotime \<Rightarrow> request_context \<Rightarrow> actor \<Rightarrow> string \<Rightarrow> string \<Rightarrow> string \<Rightarrow> string \<Rightarrow>
   (string \<times> string list) list \<Rightarrow> accounts \<Rightarrow> accounts" where
  "audit fr now meta who action ttype tid outcome metadata a =
     or_same a (write_audit
       \<lparr>aud_id = fr_audit_id fr, aud_at = now, aud_actor_type = act_type who, aud_actor_id = act_id who,
        aud_action = action, aud_target_type = ttype, aud_target_id = tid, aud_request_id = rc_request_id meta,
        aud_correlation_id = rc_correlation_id meta, aud_outcome = outcome, aud_metadata = metadata\<rparr> a)"

subsection \<open>Sessions\<close>

definition initialized :: "accounts \<Rightarrow> bool" where
  "initialized a = (user_count a > 0)"

definition create_session ::
  "crypto \<Rightarrow> fresh \<Rightarrow> gotime \<Rightarrow> user_row \<Rightarrow> accounts \<Rightarrow> auth_result request" where
  "create_session cr fr now u a =
     (let expires = now + session_lifetime
      in case create_session_row (fr_session_id fr) (usr_id u) (hash_secret cr (fr_token fr))
                (hash_secret cr (fr_csrf fr)) now expires a of
           Inl e \<Rightarrow> (a, Inl e)
         | Inr a' \<Rightarrow>
             (case session_by_token_hash (hash_secret cr (fr_token fr)) now a' of
                Inl e \<Rightarrow> (a', Inl e)
              | Inr r \<Rightarrow> (a', Inr \<lparr>auth_actor = actor_from_session r, auth_token = fr_token fr,
                                 auth_csrf = fr_csrf fr, auth_expires = expires\<rparr>)))"

definition authenticate :: "crypto \<Rightarrow> gotime \<Rightarrow> string \<Rightarrow> accounts \<Rightarrow> actor res" where
  "authenticate cr now token a =
     (if token = [] then Inl ErrUnauthorized
      else case session_by_token_hash (hash_secret cr token) now a of
             Inl e \<Rightarrow> (if errors_is e ErrNoRows then Inl ErrUnauthorized else Inl e)
           | Inr r \<Rightarrow> Inr (actor_from_session r))"

text \<open>\<open>Login\<close> up to the check of the password, and from there: other requests may run in between.\<close>

datatype login_decision =
    LoginDenied string string
  | LoginFails go_error
  | LoginAccepted user_row

definition login_check :: "crypto \<Rightarrow> string \<Rightarrow> string \<Rightarrow> accounts \<Rightarrow> login_decision" where
  "login_check cr username password a =
     (case normalize_username (lower_table cr) username of
        Inl _ \<Rightarrow> LoginDenied [] []
      | Inr name \<Rightarrow>
        (case user_by_username name a of
           Inl e \<Rightarrow> (if errors_is e ErrNoRows then LoginDenied [] [] else LoginFails e)
         | Inr u \<Rightarrow>
           (case verify_password cr (usr_hash u) password of
              Inl e \<Rightarrow> LoginFails e
            | Inr valid \<Rightarrow>
                if \<not> valid \<or> usr_disabled u then LoginDenied ''user'' (usr_id u) else LoginAccepted u)))"

definition login_finish ::
  "crypto \<Rightarrow> fresh \<Rightarrow> gotime \<Rightarrow> request_context \<Rightarrow> user_row \<Rightarrow> accounts \<Rightarrow> auth_result request" where
  "login_finish cr fr now meta u a =
     (case create_session cr fr now u (update_last_login (usr_id u) now a) of
        (a', Inl e) \<Rightarrow> (a', Inl e)
      | (a', Inr result) \<Rightarrow>
          (audit fr now meta (auth_actor result) ''auth.login'' ''session''
             (act_session_id (auth_actor result)) ''success'' [] a', Inr result))"

definition login ::
  "crypto \<Rightarrow> fresh \<Rightarrow> gotime \<Rightarrow> request_context \<Rightarrow> string \<Rightarrow> string \<Rightarrow> accounts \<Rightarrow> auth_result request" where
  "login cr fr now meta username password a =
     (case login_check cr username password a of
        LoginDenied t i \<Rightarrow>
          (audit fr now meta (anonymous_actor ''anonymous'' [] []) ''auth.login'' t i ''denied''
             [(''reason'', [''invalid_credentials''])] a, Inl ErrInvalidCredentials)
      | LoginFails e \<Rightarrow> (a, Inl e)
      | LoginAccepted u \<Rightarrow> login_finish cr fr now meta u a)"

definition logout :: "fresh \<Rightarrow> gotime \<Rightarrow> request_context \<Rightarrow> actor \<Rightarrow> accounts \<Rightarrow> unit request" where
  "logout fr now meta who a =
     (if act_session_id who = [] then (a, Inl ErrUnauthorized)
      else case revoke_session (act_session_id who) now a of
             Inl e \<Rightarrow>
               if errors_is e ErrNoRows
               then (audit fr now meta who ''auth.logout'' ''session'' (act_session_id who) ''success'' [] a, Inr ())
               else (a, Inl e)
           | Inr a' \<Rightarrow>
               (audit fr now meta who ''auth.logout'' ''session'' (act_session_id who) ''success'' [] a', Inr ()))"

subsection \<open>The first administrator\<close>

definition bootstrap ::
  "crypto \<Rightarrow> fresh \<Rightarrow> gotime \<Rightarrow> request_context \<Rightarrow> string \<Rightarrow> string \<Rightarrow> string \<Rightarrow> accounts \<Rightarrow> auth_result request" where
  "bootstrap cr fr now meta username display password a =
     (if initialized a then (a, Inl ErrAlreadyInitialized)
      else case normalize_username (lower_table cr) username of
        Inl e \<Rightarrow> (a, Inl e)
      | Inr name \<Rightarrow>
        (case normalize_display_name display name of
           Inl e \<Rightarrow> (a, Inl e)
         | Inr disp \<Rightarrow>
           (case hash_password cr fr password of
              Inl e \<Rightarrow> (a, Inl e)
            | Inr h \<Rightarrow>
              (case create_owner (fr_user_id fr) name disp h now a of
                 Inl e \<Rightarrow> (a, Inl (if errors_is e ErrAlreadyInitialized then ErrAlreadyInitialized else e))
               | Inr (a1, u) \<Rightarrow>
                 (case create_session cr fr now u a1 of
                    (a2, Inl e) \<Rightarrow> (a2, Inl e)
                  | (a2, Inr result) \<Rightarrow>
                      (audit fr now meta (anonymous_actor ''user'' (usr_id u) (usr_name u)) ''security.bootstrap''
                         ''user'' (usr_id u) ''success'' [] a2, Inr result))))))"

text \<open>The file of the setup token: absent, a private regular file with its content, or anything else.\<close>

datatype token_file = NoTokenFile | PrivateTokenFile string | UnsafeTokenFile

definition initialize_bootstrap_token ::
  "crypto \<Rightarrow> string \<Rightarrow> accounts \<Rightarrow> token_file \<Rightarrow> token_file \<times> string res" where
  "initialize_bootstrap_token cr secret a file =
     (if initialized a then (NoTokenFile, Inr [])
      else let file' = (case file of NoTokenFile \<Rightarrow> PrivateTokenFile (secret @ [CHR 0x0A]) | f \<Rightarrow> f)
           in case file' of
                PrivateTokenFile content \<Rightarrow>
                  (let v = trim_space content
                   in if length v < 32 \<or> length v > 128
                      then (file', Inl (Err ''invalid setup token file; regenerate it from the server console''))
                      else (file', Inr (hash_secret cr v)))
              | _ \<Rightarrow> (file', Inl (Err ''setup token must be a private regular file (mode 0600)'')))"

definition check_bootstrap_token :: "crypto \<Rightarrow> string \<Rightarrow> string \<Rightarrow> accounts \<Rightarrow> go_error option" where
  "check_bootstrap_token cr token_hash value a =
     (if initialized a then Some ErrAlreadyInitialized
      else if token_hash = [] \<or> length value > 128 \<or> token_hash \<noteq> hash_secret cr (trim_space value)
      then Some ErrInvalidBootstrapToken
      else None)"

subsection \<open>Administration of users\<close>

definition scope_texts :: "permission_scope list \<Rightarrow> string list" where
  "scope_texts ss = concat (map (\<lambda>s. [scope_permission s, scope_type s, scope_id s]) ss)"

definition create_user_request ::
  "crypto \<Rightarrow> fresh \<Rightarrow> gotime \<Rightarrow> request_context \<Rightarrow> (string \<times> string) list \<Rightarrow> actor \<Rightarrow> string \<Rightarrow> string \<Rightarrow> string \<Rightarrow>
   user_access_input \<Rightarrow> accounts \<Rightarrow> user_view request" where
  "create_user_request cr fr now meta folders who username display password access a =
     (if \<not> actor_is_administrator who then (a, Inl ErrAdministratorRequired)
      else case normalize_access (lower_table cr) (make_catalog (list_permissions a) folders) access of
        Inl e \<Rightarrow> (a, Inl e)
      | Inr (profile, ps, ss) \<Rightarrow>
        (case normalize_username (lower_table cr) username of
           Inl e \<Rightarrow> (a, Inl e)
         | Inr name \<Rightarrow>
           (case normalize_display_name display name of
              Inl e \<Rightarrow> (a, Inl e)
            | Inr disp \<Rightarrow>
              (case hash_password cr fr password of
                 Inl e \<Rightarrow> (a, Inl e)
               | Inr h \<Rightarrow>
                 (case profile_role_id profile of
                    Inl e \<Rightarrow> (a, Inl e)
                  | Inr role \<Rightarrow>
                    (case create_user_with_access (fr_user_id fr) name disp h role ps ss now a of
                       Inl e \<Rightarrow> (a, Inl (if errors_is e ErrUserExists then ErrUserExists else e))
                     | Inr (a1, u) \<Rightarrow>
                       (case user_account (usr_id u) a1 of
                          Inl e \<Rightarrow> (a1, Inl e)
                        | Inr r \<Rightarrow>
                          (let v = user_from_record r
                           in (audit fr now meta who ''security.user.create'' ''user'' (uv_id v) ''success''
                                [(''username'', [uv_username v]), (''profile'', [uv_profile v]),
                                 (''permissions'', uv_permissions v),
                                 (''resource_permissions'', scope_texts (uv_scopes v))] a1, Inr v))))))))) "

definition update_user_access ::
  "crypto \<Rightarrow> fresh \<Rightarrow> gotime \<Rightarrow> request_context \<Rightarrow> (string \<times> string) list \<Rightarrow> actor \<Rightarrow> string \<Rightarrow>
   user_access_input \<Rightarrow> accounts \<Rightarrow> user_view request" where
  "update_user_access cr fr now meta folders who uid0 access a =
     (if \<not> actor_is_administrator who then (a, Inl ErrAdministratorRequired)
      else let uid = trim_space uid0
      in if uid = [] then (a, Inl (Err ''user id is required''))
      else case user_account uid a of
        Inl e \<Rightarrow> (a, Inl (if errors_is e ErrNoRows then ErrNoRows else e))
      | Inr current \<Rightarrow>
        (case normalize_access (lower_table cr) (make_catalog (list_permissions a) folders) access of
           Inl e \<Rightarrow> (a, Inl e)
         | Inr (profile, ps, ss) \<Rightarrow>
           (let was_admin = (profile_from_roles (ar_roles current) = ''administrator'');
                loses = (profile \<noteq> ''administrator'' \<or> ua_disabled access)
            in if act_id who = uid \<and> was_admin \<and> loses
               then (a, Inl (Err ''administrator cannot remove or disable their own administrator access''))
               else if was_admin \<and> loses \<and> count_enabled_users_with_role ''role_owner'' a \<le> 1
               then (a, Inl ErrLastAdministrator)
               else case profile_role_id profile of
                 Inl e \<Rightarrow> (a, Inl e)
               | Inr role \<Rightarrow>
                 (case set_user_access uid role ps ss (ua_disabled access) now a of
                    Inl e \<Rightarrow> (a, Inl (if errors_is e ErrLastEnabledAdministrator then ErrLastAdministrator else e))
                  | Inr a1 \<Rightarrow>
                    (case user_account uid a1 of
                       Inl e \<Rightarrow> (a1, Inl e)
                     | Inr r \<Rightarrow>
                       (let v = user_from_record r
                        in (audit fr now meta who ''security.user.access.update'' ''user'' (uv_id v) ''success''
                             [(''profile'', [uv_profile v]), (''permissions'', uv_permissions v),
                              (''resource_permissions'', scope_texts (uv_scopes v)),
                              (''disabled'', [if uv_disabled v then ''true'' else ''false''])] a1, Inr v)))))))"

definition update_identity_request ::
  "crypto \<Rightarrow> fresh \<Rightarrow> gotime \<Rightarrow> request_context \<Rightarrow> actor \<Rightarrow> string \<Rightarrow> string \<Rightarrow> string \<Rightarrow> accounts \<Rightarrow> user_view request" where
  "update_identity_request cr fr now meta who uid username display a =
     (if \<not> actor_is_administrator who then (a, Inl ErrAdministratorRequired)
      else case normalize_username (lower_table cr) username of
        Inl e \<Rightarrow> (a, Inl e)
      | Inr name \<Rightarrow>
        (case normalize_display_name display name of
           Inl e \<Rightarrow> (a, Inl e)
         | Inr disp \<Rightarrow>
           (case update_user_identity (trim_space uid) name disp now a of
              Inl e \<Rightarrow> (a, Inl (if errors_is e ErrUserExists then ErrUserExists else e))
            | Inr a1 \<Rightarrow>
              (case user_account uid a1 of
                 Inl e \<Rightarrow> (a1, Inl e)
               | Inr r \<Rightarrow>
                 (audit fr now meta who ''security.user.identity.update'' ''user'' uid ''success''
                    [(''username'', [name]), (''display_name'', [disp])] a1, Inr (user_from_record r))))))"

definition set_user_password ::
  "crypto \<Rightarrow> fresh \<Rightarrow> gotime \<Rightarrow> request_context \<Rightarrow> actor \<Rightarrow> string \<Rightarrow> string \<Rightarrow> string \<Rightarrow> bool \<Rightarrow> accounts \<Rightarrow> unit request" where
  "set_user_password cr fr now meta who uid current password reset a =
     (case user_account uid a of
        Inl e \<Rightarrow> (a, Inl e)
      | Inr r \<Rightarrow>
        if \<not> reset \<and> verify_password cr (usr_hash (ar_user r)) current \<noteq> Inr True
        then (a, Inl ErrInvalidCredentials)
        else case hash_password cr fr password of
          Inl e \<Rightarrow> (a, Inl e)
        | Inr h \<Rightarrow>
          (case change_user_password uid (usr_hash (ar_user r)) h now a of
             Inl e \<Rightarrow> (a, Inl e)
           | Inr a1 \<Rightarrow>
             (audit fr now meta who
                (if reset then ''security.user.password.reset'' else ''security.user.password.change'')
                ''user'' uid ''success'' [(''sessions_revoked'', [''true''])] a1, Inr ())))"

definition reset_user_password ::
  "crypto \<Rightarrow> fresh \<Rightarrow> gotime \<Rightarrow> request_context \<Rightarrow> actor \<Rightarrow> string \<Rightarrow> string \<Rightarrow> accounts \<Rightarrow> unit request" where
  "reset_user_password cr fr now meta who uid password a =
     (if \<not> actor_is_administrator who then (a, Inl ErrAdministratorRequired)
      else if uid = act_id who
      then (a, Inl (Err ''use account password change with the current password for your own account''))
      else set_user_password cr fr now meta who uid [] password True a)"

definition change_password ::
  "crypto \<Rightarrow> fresh \<Rightarrow> gotime \<Rightarrow> request_context \<Rightarrow> actor \<Rightarrow> string \<Rightarrow> string \<Rightarrow> accounts \<Rightarrow> unit request" where
  "change_password cr fr now meta who current password a =
     set_user_password cr fr now meta who (act_id who) current password False a"

section \<open>Lemmas\<close>

text \<open>The audit only writes its own table.\<close>

lemma audit_frame: "\<exists>x. audit fr now meta who action t i outcome md a = a\<lparr>acc_audit := x\<rparr>"
proof -
  have "\<exists>x. or_same a (write_audit r a) = a\<lparr>acc_audit := x\<rparr>" for r
  proof (cases "aud_id r \<in> aud_id ` set (acc_audit a)")
    case True
    then show ?thesis by (intro exI [of _ "acc_audit a"]) (simp add: write_audit_def or_same_def)
  next
    case False
    then show ?thesis by (intro exI [of _ "acc_audit a @ [r]"]) (simp add: write_audit_def or_same_def)
  qed
  then show ?thesis unfolding audit_def .
qed

lemma account_of_audit [simp]: "account_of u (a\<lparr>acc_audit := x\<rparr>) = account_of u a"
  by (simp add: account_of_def user_access_def roles_of_def)

lemma audit_ignored:
  "session_by_token_hash tok now (a\<lparr>acc_audit := x\<rparr>) = session_by_token_hash tok now a"
  "user_account uid (a\<lparr>acc_audit := x\<rparr>) = user_account uid a"
  "accounts_ok (a\<lparr>acc_audit := x\<rparr>) = accounts_ok a"
  "has_administrator (a\<lparr>acc_audit := x\<rparr>) = has_administrator a"
  "enabled_owners (a\<lparr>acc_audit := x\<rparr>) = enabled_owners a"
  "initialized (a\<lparr>acc_audit := x\<rparr>) = initialized a"
  by (simp_all add: session_by_token_hash_def user_account_def
      accounts_ok_def users_ok_def sessions_ok_def has_administrator_def enabled_owners_def
      initialized_def user_count_def cong: option.case_cong)

lemma audit_session [simp]:
  "session_by_token_hash tok t (audit fr now meta who action ty i outcome md a) = session_by_token_hash tok t a"
  "has_administrator (audit fr now meta who action ty i outcome md a) = has_administrator a"
  "enabled_owners (audit fr now meta who action ty i outcome md a) = enabled_owners a"
  "accounts_ok (audit fr now meta who action ty i outcome md a) = accounts_ok a"
  "initialized (audit fr now meta who action ty i outcome md a) = initialized a"
  "acc_sessions (audit fr now meta who action ty i outcome md a) = acc_sessions a"
  "acc_users (audit fr now meta who action ty i outcome md a) = acc_users a"
  using audit_frame [of fr now meta who action ty i outcome md a] audit_ignored by auto

lemma authenticate_audit [simp]:
  "authenticate cr t tok (audit fr now meta who action ty i outcome md a) = authenticate cr t tok a"
  by (simp add: authenticate_def)

text \<open>The random values of a request are new.\<close>

definition fresh_session :: "crypto \<Rightarrow> fresh \<Rightarrow> accounts \<Rightarrow> bool" where
  "fresh_session cr fr a =
     (fr_token fr \<noteq> [] \<and> fr_session_id fr \<notin> ses_id ` set (acc_sessions a) \<and>
      hash_secret cr (fr_token fr) \<notin> ses_token_hash ` set (acc_sessions a))"

lemma create_session_ok:
  assumes "accounts_ok a" "fresh_session cr fr a" "v \<in> set (acc_users a)" "usr_id v = usr_id u" "\<not> usr_disabled v"
  obtains a' r where "create_session cr fr now u a = (a', Inr r)" "acc_users a' = acc_users a"
    "accounts_ok a'" "act_id (auth_actor r) = usr_id u" "auth_expires r = now + session_lifetime"
    "auth_token r = fr_token fr" "authenticate cr now (fr_token fr) a' = Inr (auth_actor r)"
    "enabled_owners a' = enabled_owners a"
proof -
  let ?s = "\<lparr>ses_id = fr_session_id fr, ses_user = usr_id u, ses_token_hash = hash_secret cr (fr_token fr),
     ses_csrf_hash = hash_secret cr (fr_csrf fr), ses_created = now, ses_expires = now + session_lifetime,
     ses_last_seen = now, ses_revoked = None\<rparr>"
  let ?a = "a\<lparr>acc_sessions := acc_sessions a @ [?s]\<rparr>"
  have row: "create_session_row (fr_session_id fr) (usr_id u) (hash_secret cr (fr_token fr))
                (hash_secret cr (fr_csrf fr)) now (now + session_lifetime) a = Inr ?a"
    using assms by (auto simp: create_session_row_def fresh_session_def intro: rev_image_eqI)
  have ok: "accounts_ok ?a"
    using keeps_session_ops(1) [OF row] assms(1) by (simp add: keeps_def)
  have "rfc3339_nano now < rfc3339_nano (now + session_lifetime)"
    by (rule rfc3339_later) (simp add: session_lifetime_def)
  then have live: "session_live now ?s" by (simp add: session_live_def)
  have found: "session_by_token_hash (hash_secret cr (fr_token fr)) now ?a =
      Inr \<lparr>sr_session = ?s, sr_account = account_of v ?a\<rparr>"
    using session_found [OF ok, of ?s now v] live assms(3-5) by simp
  show ?thesis
  proof (rule that)
    show "create_session cr fr now u a = (?a, Inr \<lparr>auth_actor = actor_from_session
        \<lparr>sr_session = ?s, sr_account = account_of v ?a\<rparr>, auth_token = fr_token fr,
        auth_csrf = fr_csrf fr, auth_expires = now + session_lifetime\<rparr>)"
      unfolding create_session_def Let_def row by (simp add: found)
    show "authenticate cr now (fr_token fr) ?a = Inr (auth_actor \<lparr>auth_actor = actor_from_session
        \<lparr>sr_session = ?s, sr_account = account_of v ?a\<rparr>, auth_token = fr_token fr,
        auth_csrf = fr_csrf fr, auth_expires = now + session_lifetime\<rparr>)"
      using assms(2) by (simp add: authenticate_def found fresh_session_def)
  qed (use ok assms(4) in \<open>simp_all add: actor_from_session_def enabled_owners_def\<close>)
qed

lemma last_login_frame:
  "accounts_ok a \<Longrightarrow> accounts_ok (update_last_login uid now a)"
  "acc_sessions (update_last_login uid now a) = acc_sessions a"
  "usr_id ` set (acc_users (update_last_login uid now a)) = usr_id ` set (acc_users a)"
  using keeps_last_login [of a uid now]
  by (simp_all add: keeps_def update_last_login_def image_update_where)

lemma last_login_mem:
  assumes "u \<in> set (acc_users a)" "\<not> usr_disabled u"
  shows "\<exists>v\<in>set (acc_users (update_last_login uid now a)). usr_id v = usr_id u \<and> \<not> usr_disabled v"
  using assms unfolding update_last_login_def
  by (intro bexI [of _ "if usr_id u = uid then u\<lparr>usr_last_login := Some now\<rparr> else u"])
    (auto simp: set_update_where)

lemma user_by_username_Inr:
  "user_by_username name a = Inr u \<Longrightarrow> u \<in> set (acc_users a) \<and> nocase (usr_name u) = nocase name"
  by (auto simp: user_by_username_def find_Some_iff split: option.splits)

lemma login_finish_ok:
  assumes "accounts_ok a" "fresh_session cr fr a" "u \<in> set (acc_users a)" "\<not> usr_disabled u"
  obtains a' r where "login_finish cr fr now meta u a = (a', Inr r)" "act_id (auth_actor r) = usr_id u"
    "auth_expires r = now + session_lifetime" "authenticate cr now (auth_token r) a' = Inr (auth_actor r)"
proof -
  let ?b = "update_last_login (usr_id u) now a"
  obtain v where v: "v \<in> set (acc_users ?b)" "usr_id v = usr_id u" "\<not> usr_disabled v"
    using last_login_mem [OF assms(3,4)] by blast
  have "fresh_session cr fr ?b" using assms(2) by (simp add: fresh_session_def last_login_frame)
  from last_login_frame(1) [OF assms(1)] this v show ?thesis
  proof (rule create_session_ok [of ?b cr fr v u now])
    fix a' r
    assume "create_session cr fr now u ?b = (a', Inr r)" "act_id (auth_actor r) = usr_id u"
      "auth_expires r = now + session_lifetime" "auth_token r = fr_token fr"
      "authenticate cr now (fr_token fr) a' = Inr (auth_actor r)"
    then show ?thesis
      by (intro that [of "audit fr now meta (auth_actor r) ''auth.login'' ''session''
             (act_session_id (auth_actor r)) ''success'' [] a'" r]) (simp_all add: login_finish_def)
  qed
qed

section \<open>Properties\<close>


definition sample_crypto :: crypto where
  "sample_crypto = \<lparr>hash_secret = (\<lambda>s. ''#'' @ s), argon = (\<lambda>p salt. p @ salt),
     verify_password = (\<lambda>h p. Inr (h = p)), lower_table = id\<rparr>"

definition sample_fresh :: fresh where
  "sample_fresh = \<lparr>fr_user_id = ''usr_9'', fr_session_id = ''ses_9'', fr_token = ''tok9'', fr_csrf = ''csrf9'',
     fr_audit_id = ''aud_9'', fr_salt = []\<rparr>"

definition sample_meta :: request_context where
  "sample_meta = \<lparr>rc_request_id = ''req_1'', rc_correlation_id = []\<rparr>"

lemma sample_fresh_session: "fresh_session sample_crypto sample_fresh owned_accounts"
  by code_simp


text \<open>A login that raced a password change survives it: the password is checked before the session
  is created and not bound to it, so a login checked against the old password and finished after the
  change yields a session that authenticates, although the change revoked all sessions.\<close>

theorem login_survives_password_change:
  "\<exists>u b c r. login_check sample_crypto ''ben'' ''h2'' owned_accounts = LoginAccepted u \<and>
     change_user_password (usr_id u) ''h2'' ''new'' 6 owned_accounts = Inr b \<and>
     login_check sample_crypto ''ben'' ''h2'' b = LoginDenied ''user'' (usr_id u) \<and>
     login_finish sample_crypto sample_fresh 7 sample_meta u b = (c, Inr r) \<and>
     authenticate sample_crypto 8 (auth_token r) c = Inr (auth_actor r)"
proof -
  have "case login_check sample_crypto ''ben'' ''h2'' owned_accounts of
      LoginAccepted u \<Rightarrow>
        (case change_user_password (usr_id u) ''h2'' ''new'' 6 owned_accounts of
           Inl _ \<Rightarrow> False
         | Inr b \<Rightarrow> login_check sample_crypto ''ben'' ''h2'' b = LoginDenied ''user'' (usr_id u) \<and>
             (case login_finish sample_crypto sample_fresh 7 sample_meta u b of
                (c, Inl _) \<Rightarrow> False
              | (c, Inr r) \<Rightarrow> authenticate sample_crypto 8 (auth_token r) c = Inr (auth_actor r)))
    | _ \<Rightarrow> False"
    by code_simp
  then show ?thesis by (auto split: login_decision.split_asm sum.split_asm prod.split_asm) (metis old.sum.exhaust)
qed

lemma users_never_removed:
  "acc_users a \<noteq> [] \<Longrightarrow> acc_users (run_account_op op a) \<noteq> []"
proof -
  assume ne: "acc_users a \<noteq> []"
  have len: "length (acc_users (run_account_op op a)) \<ge> length (acc_users a)"
  proof (cases op)
    case (CreateOwner i n d h t)
    then show ?thesis using ne by (simp add: create_owner_def user_count_def or_same_fst_def)
  next
    case (CreateUser i n d h r ps ss t)
    have "length (acc_users b) \<ge> length (acc_users a)"
      if "create_user_with_access i n d h r ps ss t a = Inr (b, u)" for b u
      using that by (rule create_user_frame) simp
    then show ?thesis unfolding CreateUser
      by (cases "create_user_with_access i n d h r ps ss t a") (auto simp: or_same_fst_def)
  next
    case (SetAccess i r ps ss dis t)
    have "length (acc_users b) = length (acc_users a)" if "set_user_access i r ps ss dis t a = Inr b" for b
      using that by (rule set_user_access_frame) (simp add: with_access_frame)
    then show ?thesis unfolding SetAccess
      by (cases "set_user_access i r ps ss dis t a") (auto simp: or_same_def)
  next
    case (UpdateIdentity i n d t)
    have "length (acc_users b) = length (acc_users a)" if "update_user_identity i n d t a = Inr b" for b
      using that by (rule identity_frame) (simp add: Let_def revoke_frame)
    then show ?thesis unfolding UpdateIdentity
      by (cases "update_user_identity i n d t a") (auto simp: or_same_def)
  next
    case (ChangePassword i p h t)
    have "length (acc_users b) = length (acc_users a)" if "change_user_password i p h t a = Inr b" for b
      unfolding password_frame [OF that] by (simp add: revoke_frame)
    then show ?thesis unfolding ChangePassword
      by (cases "change_user_password i p h t a") (auto simp: or_same_def)
  qed (auto simp: or_same_def update_last_login_def grant_role_resource_permission_def
      grant_user_resource_permission_def create_session_row_def revoke_session_def Let_def
      cleanup_expired_sessions_def write_audit_def split: sum.splits if_splits)
  then show ?thesis using ne by (cases "acc_users (run_account_op op a)") auto
qed

lemma initialized_iff: "initialized a \<longleftrightarrow> acc_users a \<noteq> []"
  by (simp add: initialized_def user_count_def)

lemma initialized_ops: "initialized a \<Longrightarrow> initialized (fold run_account_op ops a)"
  unfolding initialized_iff by (induction ops arbitrary: a) (simp_all add: users_never_removed)

text \<open>C27. The first administrator is created once: a successful bootstrap found no user, leaves an enabled
  administrator with a session that authenticates, and from then on, whatever the store does, every
  further bootstrap is refused and changes nothing.\<close>

theorem bootstrap_once:
  assumes "accounts_ok a" "fresh_session cr fr a"
    and "bootstrap cr fr now meta username display password a = (a', Inr r)"
  shows "\<not> initialized a \<and> has_administrator a' \<and> authenticate cr now (auth_token r) a' = Inr (auth_actor r) \<and>
    act_id (auth_actor r) \<in> set (enabled_owners a') \<and>
    bootstrap cr2 fr2 later meta2 username2 display2 password2 (fold run_account_op ops a') =
      (fold run_account_op ops a', Inl ErrAlreadyInitialized)"
proof -
  from assms(3) obtain name disp h a1 u a2 where
    new: "\<not> initialized a" and own: "create_owner (fr_user_id fr) name disp h now a = Inr (a1, u)"
    and ses: "create_session cr fr now u a1 = (a2, Inr r)"
    and a': "a' = audit fr now meta (anonymous_actor ''user'' (usr_id u) (usr_name u)) ''security.bootstrap''
        ''user'' (usr_id u) ''success'' [] a2"
    by (auto simp: bootstrap_def split: if_splits sum.splits prod.splits)
  note o = keeps_owner [OF own]
  have ok1: "accounts_ok a1" using o assms(1) by (simp add: keeps_def)
  have f1: "fresh_session cr fr a1" using o assms(2) by (simp add: fresh_session_def)
  have u1: "u \<in> set (acc_users a1)" "\<not> usr_disabled u" using o by (simp_all add: new_user_def)
  have own1: "enabled_owners a1 = [usr_id u]"
    using o by (simp add: enabled_owners_def new_user_def)
  show ?thesis
  proof (rule create_session_ok [OF ok1 f1 u1(1) refl u1(2), of now])
    fix b q
    assume s: "create_session cr fr now u a1 = (b, Inr q)" "acc_users b = acc_users a1"
      "act_id (auth_actor q) = usr_id u" "auth_token q = fr_token fr"
      "authenticate cr now (fr_token fr) b = Inr (auth_actor q)" "enabled_owners b = enabled_owners a1"
    have b: "b = a2" "q = r" using s(1) ses by simp_all
    have init: "initialized a'" using s(2) o by (simp add: a' b initialized_iff)
    have again: "bootstrap cr2 fr2 later meta2 username2 display2 password2 (fold run_account_op ops a') =
      (fold run_account_op ops a', Inl ErrAlreadyInitialized)"
      using initialized_ops [OF init, of ops] by (simp add: bootstrap_def)
    show ?thesis
      using new s(3-6) own1 again by (simp add: b a' has_administrator_def)
  qed
qed


theorem bootstrap_once_witness:
  "\<exists>a' r. bootstrap sample_crypto sample_fresh 7 sample_meta ''Anna'' [] ''long password'' seed_accounts = (a', Inr r) \<and>
     has_administrator a'"
proof -
  have ok: "accounts_ok seed_accounts"
    by (simp add: accounts_ok_def users_ok_def sessions_ok_def unique_key_def seed_accounts_def)
  have fr: "fresh_session sample_crypto sample_fresh seed_accounts" by code_simp
  have "is_ok (snd (bootstrap sample_crypto sample_fresh 7 sample_meta ''Anna'' [] ''long password'' seed_accounts))"
    by code_simp
  then obtain a' r where
    l: "bootstrap sample_crypto sample_fresh 7 sample_meta ''Anna'' [] ''long password'' seed_accounts = (a', Inr r)"
    by (metis is_ok_iff prod.collapse)
  then show ?thesis using bootstrap_once [OF ok fr l] by blast
qed

text \<open>Without the administrator profile nobody changes an account: the four administrative requests
  answer \<open>ErrAdministratorRequired\<close> and leave every table, the audit included, as it was.\<close>

theorem administration_needs_administrator:
  assumes "\<not> actor_is_administrator who"
  shows "create_user_request cr fr now meta folders who username display password access a =
      (a, Inl ErrAdministratorRequired) \<and>
    update_user_access cr fr now meta folders who uid access a = (a, Inl ErrAdministratorRequired) \<and>
    update_identity_request cr fr now meta who uid username display a = (a, Inl ErrAdministratorRequired) \<and>
    reset_user_password cr fr now meta who uid password a = (a, Inl ErrAdministratorRequired)"
  using assms
  by (simp add: create_user_request_def update_user_access_def update_identity_request_def reset_user_password_def)

theorem administration_needs_administrator_witness:
  "update_user_access sample_crypto sample_fresh 7 sample_meta [] (anonymous_actor ''user'' ''usr_2'' ''ben'') ''usr_1''
     sample_access owned_accounts = (owned_accounts, Inl ErrAdministratorRequired)"
  using administration_needs_administrator [of "anonymous_actor ''user'' ''usr_2'' ''ben''"]
  by (simp add: actor_is_administrator_def anonymous_actor_def)

text \<open>The roles of the database are the five of the migrations, one for each profile.\<close>

definition roles_seeded :: "accounts \<Rightarrow> bool" where
  "roles_seeded a = (set (acc_roles a) =
     {(''role_owner'', ''administrator''), (''role_parent'', ''parent''), (''role_child'', ''child''),
      (''role_guest'', ''guest''), (''role_member'', ''friend'')})"

lemma profile_single: "set rs = {p} \<Longrightarrow> p \<in> set profiles \<Longrightarrow> profile_from_roles rs = p"
  by (cases rs) (auto simp: profiles_def)

lemma role_pairs:
  "profile_role_id p = Inr role \<Longrightarrow>
   (role = ''role_owner'' \<and> p = ''administrator'') \<or> (role = ''role_parent'' \<and> p = ''parent'') \<or>
   (role = ''role_child'' \<and> p = ''child'') \<or> (role = ''role_guest'' \<and> p = ''guest'') \<or>
   (role = ''role_member'' \<and> p = ''friend'')"
  by (simp add: profile_role_id_def split: if_split_asm)

lemma role_names:
  assumes "profile_role_id p = Inr role" "roles_seeded a"
  shows "snd ` {r\<in>set (acc_roles a). fst r = role} = {p} \<and> p \<in> set profiles"
proof -
  have "p \<in> set profiles" using role_pairs [OF assms(1)] by (auto simp: profiles_def)
  have mem: "(role, n) \<in> set (acc_roles a) \<longleftrightarrow> n = p" for n
    using role_pairs [OF assms(1)] unfolding assms(2) [unfolded roles_seeded_def] by (elim disjE conjE) simp_all
  have "{r\<in>set (acc_roles a). fst r = role} = {(role, p)}"
  proof (rule set_eqI)
    fix x
    show "x \<in> {r\<in>set (acc_roles a). fst r = role} \<longleftrightarrow> x \<in> {(role, p)}"
      using mem [of "snd x"] by (cases x) fastforce
  qed
  with \<open>p \<in> set profiles\<close> show ?thesis by simp
qed

lemma access_profile:
  assumes "set_user_access uid role ps ss disabled now a = Inr b" "profile_role_id p = Inr role"
    "roles_seeded a" "user_account uid b = Inr r" "unique_key usr_id (acc_users a)"
  shows "profile_from_roles (ar_roles r) = p \<and> usr_disabled (ar_user r) = disabled \<and> usr_id (ar_user r) = uid"
  using assms(1)
proof (rule set_user_access_frame)
  assume users: "acc_users b = acc_users (with_access uid disabled now a)"
    and ur: "acc_user_roles b = delete_where (\<lambda>ur. fst ur = uid) (acc_user_roles a) @ [(uid, role)]"
    and roles: "acc_roles b = acc_roles a"
  obtain u where u: "select_key usr_id uid (acc_users b) = Some u" "r = account_of u b"
    using assms(4) by (auto simp: user_account_def split: option.splits)
  have id: "usr_id u = uid" using select_key_Some [OF u(1)] by simp
  obtain rs qs ts where acc: "user_access uid b = (rs, qs, ts)" by (metis prod_cases3)
  have "set rs = snd ` {x\<in>set (acc_roles b). (uid, fst x) \<in> set (acc_user_roles b)}"
    by (rule user_access_sets [OF acc, THEN conjunct1])
  also have "\<dots> = snd ` {x\<in>set (acc_roles a). fst x = role}"
    by (rule arg_cong [where f = "image snd"]) (auto simp: ur roles delete_where_def)
  finally have "profile_from_roles rs = p"
    using role_names [OF assms(2,3)] profile_single by simp
  moreover have "usr_disabled u = disabled"
  proof -
    have "map_option (\<lambda>x. if usr_id x = uid then x\<lparr>usr_disabled := disabled\<rparr> else x)
        (select_key usr_id uid (acc_users a)) = Some u"
      using u(1) unfolding users with_access_frame by (subst (asm) select_update_where) simp_all
    then obtain w where w: "select_key usr_id uid (acc_users a) = Some w"
      and "u = (if usr_id w = uid then w\<lparr>usr_disabled := disabled\<rparr> else w)" by auto
    moreover have "usr_id w = uid" using select_key_Some [OF w] by simp
    ultimately show ?thesis by simp
  qed
  ultimately show ?thesis using id acc by (simp add: u(2) account_of_def)
qed


definition sample_admin :: actor where
  "sample_admin = (anonymous_actor ''user'' ''usr_1'' ''anna'')\<lparr>act_roles := [''administrator'']\<rparr>"


text \<open>Renaming a user by an id with spaces around it changes the user and then reports that there is
  no such user: the update trims the id, the read after it does not.\<close>

theorem update_identity_untrimmed_id:
  "\<exists>a'. update_identity_request sample_crypto sample_fresh 7 sample_meta sample_admin ''usr_2 '' ''benny'' ''Ben'' owned_accounts =
      (a', Inl ErrNoRows) \<and> is_ok (user_by_username ''benny'' a') \<and> \<not> is_ok (user_by_username ''benny'' owned_accounts)"
proof -
  have "case update_identity_request sample_crypto sample_fresh 7 sample_meta sample_admin ''usr_2 '' ''benny'' ''Ben'' owned_accounts of
      (a', r) \<Rightarrow> (case r of Inr _ \<Rightarrow> False | Inl e \<Rightarrow> e = ErrNoRows) \<and> is_ok (user_by_username ''benny'' a') \<and>
        \<not> is_ok (user_by_username ''benny'' owned_accounts)"
    by code_simp
  then show ?thesis by (auto split: prod.split_asm sum.split_asm)
qed

text \<open>The setup token survives restarts: when the file is missing the service writes the secret; the
  next start reads the same token and accepts the secret (with spaces around it), and refuses every
  other value whose digest differs; once a user exists the file is removed and no token is accepted.\<close>

theorem bootstrap_token_roundtrip:
  assumes "32 \<le> length secret" "length secret \<le> 126" "ascii secret" "\<forall>c\<in>set secret. \<not> ascii_space c"
    and "hash_secret cr secret \<noteq> []" "\<not> initialized a"
  shows "initialize_bootstrap_token cr secret a NoTokenFile =
      (PrivateTokenFile (secret @ [CHR 0x0A]), Inr (hash_secret cr secret)) \<and>
    initialize_bootstrap_token cr other a (PrivateTokenFile (secret @ [CHR 0x0A])) =
      (PrivateTokenFile (secret @ [CHR 0x0A]), Inr (hash_secret cr secret)) \<and>
    check_bootstrap_token cr (hash_secret cr secret) ('' '' @ secret) a = None \<and>
    (hash_secret cr (trim_space value) \<noteq> hash_secret cr secret \<longrightarrow>
       check_bootstrap_token cr (hash_secret cr secret) value a = Some ErrInvalidBootstrapToken)"
proof -
  have ne: "secret \<noteq> []" using assms(1) by auto
  have sp: "ascii_space (CHR 0x0A)" "ascii_space (CHR '' '')" by (simp_all add: ascii_space_def is_space_def byte_def)
  have drop: "dropWhile ascii_space secret = secret" "dropWhile ascii_space (rev secret) = rev secret"
    using assms(4) ne by (auto simp: dropWhile_eq_self_iff hd_rev)
  have d: "dropWhile ascii_space (secret @ [CHR 0x0A]) = secret @ [CHR 0x0A]"
    using ne assms(4) by (cases secret) auto
  have t1: "trim_space (secret @ [CHR 0x0A]) = secret"
    using assms(3) by (subst trim_space_ascii) (simp_all add: byte_def d sp drop)
  have t2: "trim_space ('' '' @ secret) = secret"
    using assms(3) sp drop by (subst trim_space_ascii) (auto simp: byte_def)
  show ?thesis
    using assms t1 t2 by (simp add: initialize_bootstrap_token_def check_bootstrap_token_def Let_def)
qed

theorem bootstrap_token_roundtrip_witness:
  "check_bootstrap_token sample_crypto (hash_secret sample_crypto (replicate 40 CHR ''a''))
     ('' '' @ replicate 40 CHR ''a'') seed_accounts = None"
proof -
  have "\<forall>c\<in>set (replicate 40 CHR ''a''). \<not> ascii_space c" "ascii (replicate 40 CHR ''a'')"
    "hash_secret sample_crypto (replicate 40 CHR ''a'') \<noteq> []" "\<not> initialized seed_accounts"
    by code_simp+
  then show ?thesis
    using bootstrap_token_roundtrip [of "replicate 40 CHR ''a''" sample_crypto seed_accounts] by simp
qed

end
