(* ===== verification/JobTable.thy ===== *)
theory JobTable
  imports GoTime "HOL-Library.Multiset"
begin

text \<open>
  The table of persistent jobs: internal/state/jobs.go over the table of
  internal/state/migrations/003_jobs_events.sql.  Each store method is a function of the table;
  a transaction is one function, and a method that returns an error leaves the table as it was.
  A column that may be NULL and is read with COALESCE is a string, NULL being the empty one;
  inputs and results are the JSON texts of their objects.  Failures of the database itself are
  not values of these functions: the engine has them as separate steps.
\<close>

section \<open>Model\<close>

record job_record =
  job_id :: string
  job_node :: string
  job_type :: string
  job_status :: string
  job_progress :: int
  job_message :: string
  job_actor_type :: string
  job_actor_id :: string
  job_request_id :: string
  job_correlation_id :: string
  job_input :: string
  job_result :: string
  job_error_code :: string
  job_error_message :: string
  job_created_at :: gotime
  job_started_at :: "gotime option"
  job_completed_at :: "gotime option"
  job_cancel_requested_at :: "gotime option"

type_synonym jobs = "job_record list"

definition job_statuses :: "string list" where
  "job_statuses = [''queued'', ''running'', ''cancel_requested'', ''cancelled'', ''succeeded'', ''failed'']"

definition terminal_statuses :: "string list" where
  "terminal_statuses = [''cancelled'', ''succeeded'', ''failed'']"

abbreviation terminal :: "job_record \<Rightarrow> bool" where
  "terminal j \<equiv> job_status j \<in> set terminal_statuses"

definition active_job :: "job_record \<Rightarrow> bool" where
  "active_job j = (job_status j = ''running'' \<or> job_status j = ''cancel_requested'')"

text \<open>\<open>marshalObject\<close>: a nil map (the empty text here) is stored as the empty object.\<close>

definition marshal_object :: "string \<Rightarrow> string" where
  "marshal_object v = (if v = [] then ''{}'' else v)"

text \<open>
  The INSERT names the columns up to \<open>created_at\<close>; the others start as NULL.  It fails on the
  primary key and on the CHECK constraints of the table.
\<close>

definition create_job :: "job_record \<Rightarrow> jobs \<Rightarrow> jobs res" where
  "create_job j t =
     (if select_key job_id (job_id j) t \<noteq> None \<or> job_status j \<notin> set job_statuses \<or>
         job_progress j < 0 \<or> job_progress j > 10000
      then Inl (Wrap ''create job: '' (ErrDB ''constraint failed''))
      else Inr (t @ [j\<lparr>job_input := marshal_object (job_input j), job_result := [],
                       job_error_code := [], job_error_message := [], job_started_at := None,
                       job_completed_at := None, job_cancel_requested_at := None\<rparr>]))"

definition get_job :: "string \<Rightarrow> jobs \<Rightarrow> job_record res" where
  "get_job i t = (case select_key job_id i t of None \<Rightarrow> Inl ErrJobNotFound | Some j \<Rightarrow> Inr j)"

definition list_limit :: "int \<Rightarrow> nat" where
  "list_limit l = (if l \<le> 0 \<or> l > 500 then 100 else nat l)"

text \<open>Newest first, by the text of the creation time.\<close>

definition list_jobs :: "string \<Rightarrow> int \<Rightarrow> jobs \<Rightarrow> job_record list" where
  "list_jobs st l t =
     take (list_limit l)
       (rev (sort_key (rfc3339_nano \<circ> job_created_at)
          (filter (\<lambda>j. st = [] \<or> job_status j = st) t)))"

text \<open>\<open>SELECT id \<dots> WHERE node_id = ? AND status = 'queued' ORDER BY created_at ASC LIMIT 1\<close>.\<close>

definition next_queued :: "string \<Rightarrow> jobs \<Rightarrow> string option" where
  "next_queued node t =
     (case sort_key (rfc3339_nano \<circ> job_created_at)
             (filter (\<lambda>j. job_node j = node \<and> job_status j = ''queued'') t) of
        [] \<Rightarrow> None | j # _ \<Rightarrow> Some (job_id j))"

definition claim_next_job :: "string \<Rightarrow> gotime \<Rightarrow> jobs \<Rightarrow> (jobs \<times> job_record) res" where
  "claim_next_job node now t =
     (case next_queued node t of
        None \<Rightarrow> Inl ErrJobNotFound
      | Some i \<Rightarrow>
          (let c = (\<lambda>j. job_id j = i \<and> job_status j = ''queued'') in
           if rows_matching c t \<noteq> 1 then Inl ErrJobNotFound
           else (let t' = update_where c
                       (\<lambda>j. j\<lparr>job_status := ''running'', job_started_at := Some now, job_message := []\<rparr>) t
                 in case get_job i t' of Inl e \<Rightarrow> Inl e | Inr j \<Rightarrow> Inr (t', j))))"

text \<open>An UPDATE of one active job; no row is \<open>ErrJobNotFound\<close>.\<close>

definition update_active ::
  "(job_record \<Rightarrow> bool) \<Rightarrow> string \<Rightarrow> (job_record \<Rightarrow> job_record) \<Rightarrow> jobs \<Rightarrow> jobs res" where
  "update_active st i f t =
     (let c = (\<lambda>j. job_id j = i \<and> st j) in
      if rows_matching c t = 0 then Inl ErrJobNotFound else Inr (update_where c f t))"

definition update_job_progress :: "string \<Rightarrow> int \<Rightarrow> string \<Rightarrow> jobs \<Rightarrow> jobs res" where
  "update_job_progress i progress message t =
     (if progress < 0 \<or> progress > 10000
      then Inl (Err ''progress must be between 0 and 10000'')
      else update_active active_job i (\<lambda>j. j\<lparr>job_progress := progress, job_message := message\<rparr>) t)"

definition complete_job :: "string \<Rightarrow> string \<Rightarrow> gotime \<Rightarrow> jobs \<Rightarrow> jobs res" where
  "complete_job i result now t =
     update_active active_job i
       (\<lambda>j. j\<lparr>job_status := ''succeeded'', job_progress := 10000, job_result := result,
             job_completed_at := Some now, job_message := [], job_error_code := [],
             job_error_message := []\<rparr>) t"

definition fail_job :: "string \<Rightarrow> string \<Rightarrow> string \<Rightarrow> gotime \<Rightarrow> jobs \<Rightarrow> jobs res" where
  "fail_job i code message now t =
     update_active active_job i
       (\<lambda>j. j\<lparr>job_status := ''failed'', job_error_code := code, job_error_message := message,
             job_completed_at := Some now, job_message := message\<rparr>) t"

definition mark_job_cancelled :: "string \<Rightarrow> string \<Rightarrow> gotime \<Rightarrow> jobs \<Rightarrow> jobs res" where
  "mark_job_cancelled i message now t =
     update_active (\<lambda>j. job_status j = ''queued'' \<or> active_job j) i
       (\<lambda>j. j\<lparr>job_status := ''cancelled'', job_completed_at := Some now, job_message := message\<rparr>) t"

definition request_job_cancel :: "string \<Rightarrow> gotime \<Rightarrow> jobs \<Rightarrow> (jobs \<times> job_record) res" where
  "request_job_cancel i now t =
     (case select_key job_id i t of
        None \<Rightarrow> Inl ErrJobNotFound
      | Some j \<Rightarrow>
          (let upd = (\<lambda>f. update_where (\<lambda>r. job_id r = i) f t);
               result = (\<lambda>t'. case get_job i t' of Inl e \<Rightarrow> Inl e | Inr j' \<Rightarrow> Inr (t', j'))
           in if job_status j = ''queued'' then
                result (upd (\<lambda>r. r\<lparr>job_status := ''cancelled'', job_cancel_requested_at := Some now,
                                  job_completed_at := Some now,
                                  job_message := ''cancelled before start''\<rparr>))
              else if job_status j = ''running'' then
                result (upd (\<lambda>r. r\<lparr>job_status := ''cancel_requested'', job_cancel_requested_at := Some now\<rparr>))
              else if job_status j = ''cancel_requested'' then result t
              else if job_status j \<in> set terminal_statuses then Inl ErrJobTerminal
              else Inl (Errf ''unknown job status %q'' [job_status j])))"

definition clear_terminal_jobs :: "jobs \<Rightarrow> jobs \<times> nat" where
  "clear_terminal_jobs t =
     (delete_where (\<lambda>j. job_status j \<in> set [''succeeded'', ''failed'', ''cancelled'']) t,
      rows_matching (\<lambda>j. job_status j \<in> set [''succeeded'', ''failed'', ''cancelled'']) t)"

text \<open>The CASE expressions of the recovery UPDATE; each reads the old row.\<close>

definition recovered :: "gotime \<Rightarrow> job_record \<Rightarrow> job_record" where
  "recovered now j =
     (let cancelling = (job_status j = ''cancel_requested'');
          install = (job_type j = ''module.install'');
          resume = (job_status j = ''running'' \<and> job_type j = ''module.install'')
      in j\<lparr>job_status := (if cancelling then ''cancelled'' else if install then ''queued'' else ''failed''),
           job_error_code := (if cancelling then ''cancelled'' else if install then [] else ''interrupted''),
           job_error_message :=
             (if cancelling then ''cancelled before Core restart'' else if install then []
              else ''interrupted; verify the external result before retrying''),
           job_completed_at := (if resume then None else Some now),
           job_started_at := (if resume then None else job_started_at j),
           job_message := (if resume then ''resuming an idempotent module installation''
                           else ''interrupted operation was not replayed automatically'')\<rparr>)"

definition recover_interrupted_jobs :: "string \<Rightarrow> gotime \<Rightarrow> jobs \<Rightarrow> jobs \<times> nat" where
  "recover_interrupted_jobs node now t =
     (let c = (\<lambda>j. job_node j = node \<and> active_job j)
      in (update_where c (recovered now) t, rows_matching c t))"

section \<open>Operations as steps\<close>

datatype job_op =
    CreateJob job_record
  | ClaimNext string gotime
  | UpdateProgress string int string
  | Complete string string gotime
  | Fail string string string gotime
  | MarkCancelled string string gotime
  | RequestCancel string gotime
  | ClearTerminal
  | RecoverInterrupted string gotime

text \<open>The table after an operation; an error leaves it unchanged.\<close>

definition kept_on_error :: "jobs \<Rightarrow> jobs res \<Rightarrow> jobs" where
  "kept_on_error t r = (case r of Inl _ \<Rightarrow> t | Inr t' \<Rightarrow> t')"

fun run_job_op :: "job_op \<Rightarrow> jobs \<Rightarrow> jobs" where
  "run_job_op (CreateJob j) t = kept_on_error t (create_job j t)"
| "run_job_op (ClaimNext node now) t = (case claim_next_job node now t of Inl _ \<Rightarrow> t | Inr (t', _) \<Rightarrow> t')"
| "run_job_op (UpdateProgress i p m) t = kept_on_error t (update_job_progress i p m t)"
| "run_job_op (Complete i r now) t = kept_on_error t (complete_job i r now t)"
| "run_job_op (Fail i c m now) t = kept_on_error t (fail_job i c m now t)"
| "run_job_op (MarkCancelled i m now) t = kept_on_error t (mark_job_cancelled i m now t)"
| "run_job_op (RequestCancel i now) t = (case request_job_cancel i now t of Inl _ \<Rightarrow> t | Inr (t', _) \<Rightarrow> t')"
| "run_job_op ClearTerminal t = fst (clear_terminal_jobs t)"
| "run_job_op (RecoverInterrupted node now) t = fst (recover_interrupted_jobs node now t)"

text \<open>The changes of status the operations may make.\<close>

inductive status_step :: "job_record \<Rightarrow> job_record \<Rightarrow> bool" where
  start: "job_status a = ''queued'' \<Longrightarrow> job_status b = ''running'' \<Longrightarrow> status_step a b"
| cancel_queued: "job_status a = ''queued'' \<Longrightarrow> job_status b = ''cancelled'' \<Longrightarrow> status_step a b"
| ask_cancel: "job_status a = ''running'' \<Longrightarrow> job_status b = ''cancel_requested'' \<Longrightarrow> status_step a b"
| finish: "active_job a \<Longrightarrow> terminal b \<Longrightarrow> status_step a b"
| resume: "job_status a = ''running'' \<Longrightarrow> job_type a = ''module.install'' \<Longrightarrow>
    job_status b = ''queued'' \<Longrightarrow> status_step a b"

inductive_cases status_step_elim [elim]: "status_step a b"

section \<open>Lemmas\<close>

lemma statuses_eq [simp]:
  "set job_statuses = {''queued'', ''running'', ''cancel_requested'', ''cancelled'', ''succeeded'', ''failed''}"
  "set terminal_statuses = {''cancelled'', ''succeeded'', ''failed''}"
  by (simp_all add: job_statuses_def terminal_statuses_def)

text \<open>A row whose status agrees with its columns.\<close>

definition job_ok :: "job_record \<Rightarrow> bool" where
  "job_ok j =
     (job_status j \<in> set job_statuses \<and> 0 \<le> job_progress j \<and> job_progress j \<le> 10000 \<and>
      (job_completed_at j = None \<longleftrightarrow> \<not> terminal j) \<and>
      (active_job j \<longrightarrow> job_started_at j \<noteq> None) \<and>
      (job_status j = ''queued'' \<longrightarrow> job_started_at j = None) \<and>
      (job_status j = ''cancel_requested'' \<longrightarrow> job_cancel_requested_at j \<noteq> None) \<and>
      (job_status j = ''succeeded'' \<longrightarrow> job_progress j = 10000))"

definition jobs_ok :: "jobs \<Rightarrow> bool" where
  "jobs_ok t = (unique_key job_id t \<and> (\<forall>j\<in>set t. job_ok j))"

text \<open>What a job keeps for its whole life.\<close>

definition same_job :: "job_record \<Rightarrow> job_record \<Rightarrow> bool" where
  "same_job a b =
     (job_id b = job_id a \<and> job_node b = job_node a \<and> job_type b = job_type a \<and>
      job_actor_type b = job_actor_type a \<and> job_actor_id b = job_actor_id a \<and>
      job_request_id b = job_request_id a \<and> job_correlation_id b = job_correlation_id a \<and>
      job_input b = job_input a \<and> job_created_at b = job_created_at a)"

text \<open>
  \<open>row_change a b\<close>: what one operation may do to a row.  \<open>rows_change\<close> is the shape all the
  updates of the table have.
\<close>

definition row_change :: "job_record \<Rightarrow> job_record \<Rightarrow> bool" where
  "row_change a b =
     (b = a \<or> same_job a b \<and> \<not> terminal a \<and>
              (job_status b = job_status a \<and> active_job a \<or> status_step a b))"

definition rows_change :: "jobs \<Rightarrow> jobs \<Rightarrow> bool" where
  "rows_change t t' = (\<exists>f. t' = map f t \<and> (\<forall>j\<in>set t. row_change j (f j) \<and> (job_ok j \<longrightarrow> job_ok (f j))))"

lemma row_change_id: "row_change a b \<Longrightarrow> job_id b = job_id a"
  by (auto simp: row_change_def same_job_def)

lemma row_change_refl [simp]: "row_change a a"
  by (simp add: row_change_def)

lemma rows_change_refl [simp]: "rows_change t t"
  unfolding rows_change_def by (rule exI [of _ id]) simp

lemma rows_change_update:
  assumes "\<And>j. j \<in> set t \<Longrightarrow> c j \<Longrightarrow> row_change j (f j) \<and> (job_ok j \<longrightarrow> job_ok (f j))"
  shows "rows_change t (update_where c f t)"
  unfolding rows_change_def update_where_def
  by (rule exI [of _ "\<lambda>r. if c r then f r else r"]) (simp add: assms)

lemma rows_change_ids: "rows_change t t' \<Longrightarrow> map job_id t' = map job_id t"
  by (auto simp: rows_change_def row_change_id)

lemma rows_change_ok: "rows_change t t' \<Longrightarrow> jobs_ok t \<Longrightarrow> jobs_ok t'"
  using rows_change_ids [of t t'] by (auto simp: jobs_ok_def unique_key_def rows_change_def)

lemma select_map_same:
  "(\<And>j. j \<in> set t \<Longrightarrow> key (f j) = key j) \<Longrightarrow> select_key key k (map f t) = map_option f (select_key key k t)"
  by (induction t) (auto simp: select_key_Cons)

lemma rows_change_select:
  assumes "rows_change t t'"
  shows "case select_key job_id i t of
           None \<Rightarrow> select_key job_id i t' = None
         | Some j \<Rightarrow> (\<exists>j'. select_key job_id i t' = Some j' \<and> row_change j j')"
proof -
  obtain f where f: "t' = map f t" "\<forall>j\<in>set t. row_change j (f j)"
    using assms by (auto simp: rows_change_def)
  have "select_key job_id i t' = map_option f (select_key job_id i t)"
    unfolding f(1) by (rule select_map_same) (use f(2) row_change_id in blast)
  then show ?thesis
    using f(2) select_key_Some [of job_id i t] by (auto split: option.split)
qed

lemma update_active_change:
  assumes "\<And>j. st j \<Longrightarrow> row_change j (f j) \<and> (job_ok j \<longrightarrow> job_ok (f j))"
  shows "rows_change t (kept_on_error t (update_active st i f t))"
  by (auto simp: update_active_def kept_on_error_def Let_def intro!: rows_change_update assms)

lemma claim_change:
  "rows_change t (case claim_next_job node now t of Inl _ \<Rightarrow> t | Inr (t', _) \<Rightarrow> t')"
proof -
  have "rows_change t (update_where (\<lambda>j. job_id j = i \<and> job_status j = ''queued'')
      (\<lambda>j. j\<lparr>job_status := ''running'', job_started_at := Some now, job_message := []\<rparr>) t)" for i
    by (rule rows_change_update)
      (auto simp: row_change_def same_job_def status_step.simps job_ok_def active_job_def)
  then show ?thesis
    by (auto simp: claim_next_job_def Let_def split: option.split sum.split)
qed

lemma rows_change_one:
  assumes "unique_key job_id t" "select_key job_id i t = Some j"
    and "row_change j (f j)" "job_ok j \<longrightarrow> job_ok (f j)"
  shows "rows_change t (update_where (\<lambda>r. job_id r = i) f t)"
proof (rule rows_change_update)
  fix k
  assume "k \<in> set t" "job_id k = i"
  then have "k = j" using select_key_unique [OF assms(1), of k] assms(2) by simp
  then show "row_change k (f k) \<and> (job_ok k \<longrightarrow> job_ok (f k))" using assms(3,4) by simp
qed

lemma cancel_change:
  assumes "unique_key job_id t"
  shows "rows_change t (case request_job_cancel i now t of Inl _ \<Rightarrow> t | Inr (t', _) \<Rightarrow> t')"
proof (cases "select_key job_id i t")
  case (Some j)
  have q: "job_status j = ''queued'' \<Longrightarrow> rows_change t (update_where (\<lambda>r. job_id r = i)
      (\<lambda>r. r\<lparr>job_status := ''cancelled'', job_cancel_requested_at := Some now,
             job_completed_at := Some now, job_message := ''cancelled before start''\<rparr>) t)"
    by (rule rows_change_one [OF assms Some])
      (simp_all add: row_change_def same_job_def status_step.simps job_ok_def active_job_def)
  have r: "job_status j = ''running'' \<Longrightarrow> rows_change t (update_where (\<lambda>r. job_id r = i)
      (\<lambda>r. r\<lparr>job_status := ''cancel_requested'', job_cancel_requested_at := Some now\<rparr>) t)"
    by (rule rows_change_one [OF assms Some])
      (simp_all add: row_change_def same_job_def status_step.simps job_ok_def active_job_def)
  show ?thesis
    using q r unfolding request_job_cancel_def Let_def Some
    by (auto split: sum.split)
qed (simp add: request_job_cancel_def)

lemma recovered_change: "active_job j \<Longrightarrow> row_change j (recovered now j) \<and> (job_ok j \<longrightarrow> job_ok (recovered now j))"
  by (auto simp: recovered_def Let_def row_change_def same_job_def status_step.simps active_job_def
      job_ok_def)

lemma op_change:
  assumes "unique_key job_id t" "\<forall>j. op \<noteq> CreateJob j" "op \<noteq> ClearTerminal"
  shows "rows_change t (run_job_op op t)"
proof (cases op)
  case (UpdateProgress i p m)
  have "rows_change t (kept_on_error t (update_job_progress i p m t))"
  proof (cases "p < 0 \<or> p > 10000")
    case False
    then show ?thesis unfolding update_job_progress_def if_not_P [OF False]
      by (intro update_active_change)
        (auto simp: row_change_def same_job_def active_job_def job_ok_def)
  qed (simp add: update_job_progress_def kept_on_error_def)
  then show ?thesis by (simp add: UpdateProgress)
next
  case (Complete i r now)
  show ?thesis unfolding Complete run_job_op.simps complete_job_def
    by (rule update_active_change)
      (auto simp: row_change_def same_job_def active_job_def job_ok_def status_step.simps)
next
  case (Fail i c m now)
  show ?thesis unfolding Fail run_job_op.simps fail_job_def
    by (rule update_active_change)
      (auto simp: row_change_def same_job_def active_job_def job_ok_def status_step.simps)
next
  case (MarkCancelled i m now)
  show ?thesis unfolding MarkCancelled run_job_op.simps mark_job_cancelled_def
    by (rule update_active_change)
      (auto simp: row_change_def same_job_def active_job_def job_ok_def status_step.simps)
next
  case (RecoverInterrupted node now)
  show ?thesis unfolding RecoverInterrupted run_job_op.simps recover_interrupted_jobs_def Let_def fst_conv
    by (rule rows_change_update) (simp add: recovered_change)
qed (use assms in \<open>simp_all add: claim_change cancel_change\<close>)

lemma create_ok:
  assumes "jobs_ok t" "job_status j = ''queued''"
  shows "jobs_ok (kept_on_error t (create_job j t))"
  using assms
  by (auto simp: create_job_def kept_on_error_def jobs_ok_def table_simps job_ok_def active_job_def)

lemma clear_ok: "jobs_ok t \<Longrightarrow> jobs_ok (fst (clear_terminal_jobs t))"
  by (auto simp: clear_terminal_jobs_def jobs_ok_def unique_delete_where)
    (auto simp: delete_where_def)

text \<open>The engine is the only caller of \<open>CreateJob\<close>, and submits queued jobs.\<close>

fun submits_queued :: "job_op \<Rightarrow> bool" where
  "submits_queued (CreateJob j) = (job_status j = ''queued'')"
| "submits_queued _ = True"

lemma op_ok: "jobs_ok t \<Longrightarrow> submits_queued op \<Longrightarrow> jobs_ok (run_job_op op t)"
  by (cases op) (simp_all add: create_ok clear_ok jobs_ok_def [THEN iffD1, THEN conjunct1]
      rows_change_ok [OF op_change] del: run_job_op.simps(2-7,9))

lemma ops_ok: "jobs_ok t \<Longrightarrow> \<forall>op\<in>set ops. submits_queued op \<Longrightarrow> jobs_ok (fold run_job_op ops t)"
  by (induction ops arbitrary: t) (auto intro: op_ok)

lemma sort_key_hd_le:
  "sort_key f xs = y # ys \<Longrightarrow> y \<in> set xs \<and> (\<forall>z\<in>set xs. f y \<le> f z)"
proof -
  assume eq: "sort_key f xs = y # ys"
  have "sorted (map f (y # ys))" using sorted_sort_key [of f xs] eq by metis
  moreover have "set (y # ys) = set xs" using eq by (metis set_sort)
  ultimately show ?thesis by auto
qed

lemma next_queued_None:
  "next_queued node t = None \<longleftrightarrow> (\<forall>j\<in>set t. \<not> (job_node j = node \<and> job_status j = ''queued''))"
proof -
  have "next_queued node t = None \<longleftrightarrow>
      set (sort_key (rfc3339_nano \<circ> job_created_at)
        (filter (\<lambda>j. job_node j = node \<and> job_status j = ''queued'') t)) = {}"
    unfolding next_queued_def by (simp only: set_empty split: list.split) simp
  then show ?thesis by auto
qed

lemma next_queued_Some:
  "next_queued node t = Some i \<Longrightarrow>
   \<exists>j\<in>set t. job_id j = i \<and> job_node j = node \<and> job_status j = ''queued'' \<and>
     (\<forall>q\<in>set t. job_node q = node \<longrightarrow> job_status q = ''queued'' \<longrightarrow>
       rfc3339_nano (job_created_at j) \<le> rfc3339_nano (job_created_at q))"
  unfolding next_queued_def by (auto split: list.splits dest!: sort_key_hd_le)

text \<open>What claiming does to a table with unique ids.\<close>

lemma claim_cases:
  assumes uniq: "unique_key job_id t" and ok: "claim_next_job node now t = Inr (t', j')"
  obtains j where "j \<in> set t" "job_node j = node" "job_status j = ''queued''"
    "\<And>q. q \<in> set t \<Longrightarrow> job_node q = node \<Longrightarrow> job_status q = ''queued'' \<Longrightarrow>
       rfc3339_nano (job_created_at j) \<le> rfc3339_nano (job_created_at q)"
    "j' = j\<lparr>job_status := ''running'', job_started_at := Some now, job_message := []\<rparr>"
    "t' = update_where (\<lambda>r. job_id r = job_id j) (\<lambda>_. j') t"
proof -
  obtain i where i: "next_queued node t = Some i"
    using ok by (cases "next_queued node t") (simp_all add: claim_next_job_def)
  then obtain j where j: "j \<in> set t" "job_id j = i" "job_node j = node" "job_status j = ''queued''"
    "\<And>q. q \<in> set t \<Longrightarrow> job_node q = node \<Longrightarrow> job_status q = ''queued'' \<Longrightarrow>
       rfc3339_nano (job_created_at j) \<le> rfc3339_nano (job_created_at q)"
    using next_queued_Some by blast
  define f :: "job_record \<Rightarrow> job_record" where
    "f = (\<lambda>r. r\<lparr>job_status := ''running'', job_started_at := Some now, job_message := []\<rparr>)"
  have keeps: "job_id (f r) = job_id r" for r by (simp add: f_def)
  have sel: "select_key job_id i t = Some j" using select_key_unique [OF uniq j(1)] j(2) by simp
  have only: "r = j" if "r \<in> set t" "job_id r = i" for r
    using select_key_unique [OF uniq that(1)] that(2) sel by simp
  let ?c = "\<lambda>r. job_id r = i \<and> job_status r = ''queued''"
  have one: "rows_matching ?c t = 1"
    using rows_matching_key [OF uniq, of i "\<lambda>r. job_status r = ''queued''"] sel j(4) by simp
  have upd: "update_where ?c f t = update_where (\<lambda>r. job_id r = i) (\<lambda>_. f j) t"
    unfolding update_where_def by (rule map_cong [OF refl]) (use only j(4) in auto)
  have "get_job i (update_where ?c f t) = Inr (f j)"
    using j(4) by (simp add: get_job_def select_update_where [where key = job_id and f = f] keeps sel j(2))
  then have "claim_next_job node now t = Inr (update_where ?c f t, f j)"
    unfolding claim_next_job_def i option.case Let_def one f_def [symmetric] by simp
  then show ?thesis
    using ok upd j(2) by (intro that [OF j(1,3,4,5)]) (simp_all add: f_def)
qed

lemma recovered_simps:
  "active_job j \<Longrightarrow> job_status (recovered now j) =
     (if job_status j = ''cancel_requested'' then ''cancelled''
      else if job_type j = ''module.install'' then ''queued'' else ''failed'')"
  "job_id (recovered now j) = job_id j" "job_node (recovered now j) = job_node j"
  "job_type (recovered now j) = job_type j"
  by (simp_all add: recovered_def Let_def)

section \<open>Properties\<close>


definition sample_job :: job_record where
  "sample_job = \<lparr>job_id = ''job_1'', job_node = ''node_1'', job_type = ''module.install'',
     job_status = ''queued'', job_progress = 0, job_message = [], job_actor_type = ''user'',
     job_actor_id = ''usr_1'', job_request_id = [], job_correlation_id = [], job_input = [],
     job_result = [], job_error_code = [], job_error_message = [], job_created_at = 5000000000,
     job_started_at = None, job_completed_at = None, job_cancel_requested_at = None\<rparr>"

definition sample_ops :: "job_op list" where
  "sample_ops = [CreateJob sample_job, ClaimNext ''node_1'' 6000000000,
     UpdateProgress ''job_1'' 2500 ''pulling'', RequestCancel ''job_1'' 7000000000]"

lemma sample_ops_queued: "\<forall>op\<in>set sample_ops. submits_queued op"
  by (simp add: sample_ops_def sample_job_def)


text \<open>C19. The life of one job, for every operation of the store on a coherent table: a job only
  disappears when terminal jobs are cleared and it is one; otherwise its identity, type, input,
  actor and creation time stay, a terminal job is not touched at all, and its status stays or moves
  along \<open>status_step\<close> (queued to running or cancelled, running to cancel_requested, an active one to
  a terminal status, and back to the queue only for an interrupted module installation).\<close>

theorem job_status_discipline:
  assumes "unique_key job_id t" "select_key job_id i t = Some j"
  shows "case select_key job_id i (run_job_op op t) of
           None \<Rightarrow> op = ClearTerminal \<and> terminal j
         | Some j' \<Rightarrow> row_change j j'"
proof -
  have create: "select_key job_id i (kept_on_error t (create_job r t)) = Some j" for r
    using assms(2) by (auto simp: create_job_def kept_on_error_def select_key_append)
  have clear: "select_key job_id i (fst (clear_terminal_jobs t)) = (if terminal j then None else Some j)"
  proof -
    let ?t = "fst (clear_terminal_jobs t)"
    have mem: "r \<in> set ?t \<longleftrightarrow> r \<in> set t \<and> \<not> terminal r" for r
      by (auto simp: clear_terminal_jobs_def delete_where_def)
    have u: "unique_key job_id ?t"
      using assms(1) by (simp add: clear_terminal_jobs_def unique_delete_where)
    have j: "j \<in> set t" "job_id j = i" using select_key_Some [OF assms(2)] by auto
    have only: "r = j" if "r \<in> set t" "job_id r = i" for r
      using select_key_unique [OF assms(1) that(1)] that(2) assms(2) by simp
    show ?thesis
    proof (cases "terminal j")
      case True
      then have "i \<notin> job_id ` set ?t" unfolding image_iff Bex_def mem using only by blast
      with True show ?thesis unfolding if_P [OF True] by (simp only: select_key_None_iff) simp
    next
      case False
      have "j \<in> set ?t" using mem j(1) False by blast
      from select_key_unique [OF u this] False show ?thesis unfolding if_not_P [OF False] by (simp only: j(2))
    qed
  qed
  show ?thesis
  proof (cases "(\<exists>r. op = CreateJob r) \<or> op = ClearTerminal")
    case True
    then show ?thesis using create clear by auto
  next
    case False
    then have "rows_change t (run_job_op op t)" using assms(1) by (intro op_change) auto
    from rows_change_select [OF this, of i] show ?thesis using assms(2) by auto
  qed
qed

theorem job_status_discipline_witness:
  "case select_key job_id ''job_1'' (run_job_op (Complete ''job_1'' ''{}'' 8000000000)
       (fold run_job_op sample_ops [])) of
     None \<Rightarrow> False | Some j' \<Rightarrow> job_status j' = ''succeeded'' \<and> (\<exists>j. row_change j j' \<and> \<not> terminal j)"
proof -
  let ?t = "fold run_job_op sample_ops []"
  obtain j where j: "select_key job_id ''job_1'' ?t = Some j" "job_status j = ''cancel_requested''"
  proof -
    have "map_option job_status (select_key job_id ''job_1'' ?t) = Some ''cancel_requested''" by code_simp
    then show thesis using that by auto
  qed
  have u: "unique_key job_id ?t" unfolding unique_key_def by code_simp
  have "map_option job_status (select_key job_id ''job_1''
      (run_job_op (Complete ''job_1'' ''{}'' 8000000000) ?t)) = Some ''succeeded''" by code_simp
  then show ?thesis
    using job_status_discipline [OF u j(1), of "Complete ''job_1'' ''{}'' 8000000000"] j(2)
    by (auto split: option.splits simp: job_ok_def)
qed

text \<open>C29. Claiming: with no queued job of the node the answer is \<open>ErrJobNotFound\<close>; otherwise one
  queued job of the node, whose creation time is the least by its text, becomes running with the
  given start time, only that row changes, and the row returned is the stored one.  So a job that
  was created a second or more before the claimed one is never left waiting.\<close>

theorem claim_next_job_takes_oldest:
  assumes "unique_key job_id t"
  shows "case claim_next_job node now t of
      Inl e \<Rightarrow> e = ErrJobNotFound \<and> (\<forall>q\<in>set t. \<not> (job_node q = node \<and> job_status q = ''queued''))
    | Inr (t', j') \<Rightarrow>
        (\<exists>j\<in>set t. job_node j = node \<and> job_status j = ''queued'' \<and>
           j' = j\<lparr>job_status := ''running'', job_started_at := Some now, job_message := []\<rparr> \<and>
           t' = update_where (\<lambda>r. job_id r = job_id j) (\<lambda>_. j') t \<and>
           (\<forall>q\<in>set t. job_node q = node \<longrightarrow> job_status q = ''queued'' \<longrightarrow>
              rfc3339_nano (job_created_at j) \<le> rfc3339_nano (job_created_at q) \<and>
              job_created_at j < job_created_at q + nanos_per_second))"
proof (cases "claim_next_job node now t")
  case (Inr p)
  obtain t' j' where p: "p = (t', j')" by (cases p)
  show ?thesis
    using claim_cases [OF assms Inr [unfolded p]] rfc3339_le_bound unfolding Inr p sum.case prod.case
    by metis
next
  case (Inl e)
  show ?thesis
  proof (cases "next_queued node t")
    case None
    then show ?thesis
      using Inl next_queued_None [of node t] by (simp add: claim_next_job_def)
  next
    case (Some i)
    from next_queued_Some [OF this] obtain j where
      j: "j \<in> set t" "job_id j = i" "job_status j = ''queued''" by blast
    have sel: "select_key job_id i t = Some j" using select_key_unique [OF assms j(1)] j(2) by simp
    have one: "rows_matching (\<lambda>r. job_id r = i \<and> job_status r = ''queued'') t = 1"
      using rows_matching_key [OF assms, of i "\<lambda>r. job_status r = ''queued''"] sel j(3) by simp
    have "\<exists>x. claim_next_job node now t = Inr x"
      unfolding claim_next_job_def Some option.case Let_def one
      by (simp add: get_job_def select_update_where [where key = job_id] sel)
    with Inl show ?thesis by simp
  qed
qed

theorem claim_next_job_takes_oldest_witness:
  "\<exists>t' j'. claim_next_job ''node_1'' 9 [sample_job] = Inr (t', j') \<and> job_status j' = ''running''"
proof -
  have u: "unique_key job_id [sample_job]" by (simp add: unique_key_def)
  have "is_ok (claim_next_job ''node_1'' 9 [sample_job])" by code_simp
  then obtain t' j' where ok: "claim_next_job ''node_1'' 9 [sample_job] = Inr (t', j')"
    unfolding is_ok_iff by fastforce
  from claim_next_job_takes_oldest [OF u, of "''node_1''" 9, unfolded ok] show ?thesis
    unfolding sum.case prod.case using ok by auto
qed

text \<open>Claiming is not first-in first-out: the creation times are compared as texts, and
  RFC3339Nano drops trailing zeros, so of two jobs created in the same second the later one may be
  claimed first.\<close>

theorem claim_next_job_not_fifo:
  "\<exists>t t' j' q. unique_key job_id t \<and> claim_next_job ''node_1'' 9000000000 t = Inr (t', j') \<and>
     q \<in> set t' \<and> job_status q = ''queued'' \<and> job_created_at q < job_created_at j'"
proof -
  let ?late = "sample_job\<lparr>job_id := ''job_2'', job_created_at := 5500000000\<rparr>"
  let ?t = "[sample_job, ?late]"
  let ?j = "?late\<lparr>job_status := ''running'', job_started_at := Some 9000000000\<rparr>"
  have "claim_next_job ''node_1'' 9000000000 ?t = Inr ([sample_job, ?j], ?j)" by code_simp
  moreover have "unique_key job_id ?t" by (simp add: unique_key_def sample_job_def)
  moreover have "job_status sample_job = ''queued''" "job_created_at sample_job < job_created_at ?j"
    by (simp_all add: sample_job_def)
  ultimately show ?thesis
    by (intro exI [of _ ?t] exI [of _ "[sample_job, ?j]"] exI [of _ ?j] exI [of _ sample_job]) simp
qed

text \<open>Asking for a cancellation answers by the status of the job: unknown jobs and terminal jobs
  are errors, a queued job is cancelled at once and never starts, a running one is marked for its
  worker, and asking again changes nothing.  No other row changes.\<close>

theorem request_job_cancel_outcome:
  assumes "jobs_ok t"
  shows "request_job_cancel i now t =
    (case select_key job_id i t of
       None \<Rightarrow> Inl ErrJobNotFound
     | Some j \<Rightarrow>
         if terminal j then Inl ErrJobTerminal
         else let j' = (if job_status j = ''queued''
                        then j\<lparr>job_status := ''cancelled'', job_cancel_requested_at := Some now,
                               job_completed_at := Some now, job_message := ''cancelled before start''\<rparr>
                        else if job_status j = ''running''
                        then j\<lparr>job_status := ''cancel_requested'', job_cancel_requested_at := Some now\<rparr>
                        else j)
              in Inr (update_where (\<lambda>r. job_id r = i) (\<lambda>_. j') t, j'))"
proof (cases "select_key job_id i t")
  case (Some j)
  have mem: "j \<in> set t" "job_id j = i" using select_key_Some [OF Some] by simp_all
  have uniq: "unique_key job_id t" and ok: "job_ok j"
    using assms mem(1) unfolding jobs_ok_def by blast+
  have only: "r = j" if "r \<in> set t" "job_id r = i" for r
    using select_key_unique [OF uniq that(1)] that(2) Some by simp
  have upd: "update_where (\<lambda>r. job_id r = i) f t = update_where (\<lambda>r. job_id r = i) (\<lambda>_. f j) t" for f
    unfolding update_where_def by (rule map_cong [OF refl]) (use only in auto)
  have same: "update_where (\<lambda>r. job_id r = i) (\<lambda>_. j) t = t"
    by (rule update_where_id) (use only in auto)
  have get: "get_job i (update_where (\<lambda>r. job_id r = i) f t) = Inr (f j)"
    if "\<And>r. job_id (f r) = job_id r" for f
    using select_update_where [where key = job_id and f = f, OF that] by (simp add: get_job_def Some mem)
  from ok have "job_status j \<in> set job_statuses" by (simp only: job_ok_def)
  then consider "job_status j = ''queued''" | "job_status j = ''running''"
    | "job_status j = ''cancel_requested''" | "terminal j" by auto
  then show ?thesis
  proof cases
    case 1
    then show ?thesis
      unfolding request_job_cancel_def Some option.case Let_def by (simp add: get) (rule upd)
  next
    case 2
    then show ?thesis
      unfolding request_job_cancel_def Some option.case Let_def by (simp add: get) (rule upd)
  next
    case 3
    then show ?thesis
      unfolding request_job_cancel_def Some option.case Let_def by (simp add: get_job_def Some same)
  next
    case 4
    then show ?thesis
      unfolding request_job_cancel_def Some option.case Let_def by auto
  qed
qed (simp add: request_job_cancel_def)

theorem request_job_cancel_outcome_witness:
  "\<exists>t' j'. request_job_cancel ''job_1'' 8 [sample_job] = Inr (t', j') \<and> job_status j' = ''cancelled''"
proof -
  have ok: "jobs_ok [sample_job]"
    by (simp add: jobs_ok_def unique_key_def job_ok_def sample_job_def active_job_def)
  show ?thesis
    unfolding request_job_cancel_outcome [OF ok]
    by (simp add: select_key_def sample_job_def Let_def)
qed

text \<open>C30. Recovery at start-up: after it no job of the node is active; a job the previous process was
  running goes back to the queue without a start time if it is a module installation and fails with
  the code \<open>interrupted\<close> otherwise, one it was cancelling is cancelled, and every other row (terminal,
  queued, or of another node) is untouched.  The count returned is the number of active jobs, and a
  second recovery finds none.\<close>

theorem recovery_leaves_no_active_job:
  "(\<forall>j'\<in>set (fst (recover_interrupted_jobs node now t)). job_node j' = node \<longrightarrow> \<not> active_job j') \<and>
   list_all2 (\<lambda>j j'.
      if job_node j = node \<and> active_job j
      then same_job j j' \<and>
           (if job_status j = ''cancel_requested''
            then job_status j' = ''cancelled'' \<and> job_error_code j' = ''cancelled'' \<and> job_completed_at j' = Some now
            else if job_type j = ''module.install''
            then job_status j' = ''queued'' \<and> job_started_at j' = None \<and> job_completed_at j' = None
            else job_status j' = ''failed'' \<and> job_error_code j' = ''interrupted'' \<and> job_completed_at j' = Some now)
      else j' = j) t (fst (recover_interrupted_jobs node now t)) \<and>
   snd (recover_interrupted_jobs node now t) = length (filter (\<lambda>j. job_node j = node \<and> active_job j) t) \<and>
   recover_interrupted_jobs node later (fst (recover_interrupted_jobs node now t)) =
     (fst (recover_interrupted_jobs node now t), 0)"
proof -
  let ?c = "\<lambda>j. job_node j = node \<and> active_job j"
  let ?t = "fst (recover_interrupted_jobs node now t)"
  have t': "?t = update_where ?c (recovered now) t"
    by (simp add: recover_interrupted_jobs_def Let_def)
  have inactive: "\<not> active_job (recovered now j)" if "active_job j" for j
    using that by (simp add: active_job_def [of "recovered now j"] recovered_simps)
  have none: "\<forall>j'\<in>set ?t. \<not> ?c j'"
    unfolding t' set_update_where using inactive by auto
  have rows: "(if ?c j then same_job j j' \<and>
           (if job_status j = ''cancel_requested''
            then job_status j' = ''cancelled'' \<and> job_error_code j' = ''cancelled'' \<and> job_completed_at j' = Some now
            else if job_type j = ''module.install''
            then job_status j' = ''queued'' \<and> job_started_at j' = None \<and> job_completed_at j' = None
            else job_status j' = ''failed'' \<and> job_error_code j' = ''interrupted'' \<and> job_completed_at j' = Some now)
      else j' = j)" if "j' = (if ?c j then recovered now j else j)" for j j'
    using that by (auto simp: recovered_def Let_def same_job_def active_job_def)
  have again: "recover_interrupted_jobs node later ?t = (?t, 0)"
    unfolding recover_interrupted_jobs_def [of node later] Let_def
    using none by (simp add: update_where_none rows_matching_0_iff)
  show ?thesis
  proof (intro conjI)
    show "\<forall>j'\<in>set ?t. job_node j' = node \<longrightarrow> \<not> active_job j'" using none by blast
    show "snd (recover_interrupted_jobs node now t) = length (filter ?c t)"
      by (simp only: recover_interrupted_jobs_def Let_def snd_conv rows_matching_def)
    show "recover_interrupted_jobs node later ?t = (?t, 0)" by (rule again)
    show "list_all2 (\<lambda>j j'.
      if ?c j
      then same_job j j' \<and>
           (if job_status j = ''cancel_requested''
            then job_status j' = ''cancelled'' \<and> job_error_code j' = ''cancelled'' \<and> job_completed_at j' = Some now
            else if job_type j = ''module.install''
            then job_status j' = ''queued'' \<and> job_started_at j' = None \<and> job_completed_at j' = None
            else job_status j' = ''failed'' \<and> job_error_code j' = ''interrupted'' \<and> job_completed_at j' = Some now)
      else j' = j) t ?t"
      unfolding t' update_where_def list_all2_map2 by (rule list.rel_refl_strong, rule rows, rule refl)
  qed
qed

theorem recovery_leaves_no_active_job_witness:
  "map job_status (fst (recover_interrupted_jobs ''node_1'' 9000000000 (fold run_job_op sample_ops []))) = [''cancelled''] \<and>
   snd (recover_interrupted_jobs ''node_1'' 8000000000
     (fst (recover_interrupted_jobs ''node_1'' 9000000000 (fold run_job_op sample_ops [])))) = 0"
proof -
  let ?t = "fold run_job_op sample_ops []"
  have "snd (recover_interrupted_jobs ''node_1'' 8000000000 (fst (recover_interrupted_jobs ''node_1'' 9000000000 ?t))) = 0"
    using recovery_leaves_no_active_job [of "''node_1''" 9000000000 ?t 8000000000] by simp
  moreover have "map job_status (fst (recover_interrupted_jobs ''node_1'' 9000000000 ?t)) = [''cancelled'']" by code_simp
  ultimately show ?thesis by simp
qed

text \<open>Listing returns stored rows of the status asked for (of any status when none is given),
  newest first by the text of the creation time; it stops at the limit, 100 when the limit is out of
  1..500, and no row it leaves out is newer than one it returns.\<close>

theorem list_jobs_newest_first:
  "\<exists>rest. sorted_wrt (\<lambda>a b. rfc3339_nano (job_created_at b) \<le> rfc3339_nano (job_created_at a))
             (list_jobs st l t @ rest) \<and>
     mset (list_jobs st l t @ rest) = mset (filter (\<lambda>j. st = [] \<or> job_status j = st) t) \<and>
     length (list_jobs st l t) =
       min (if l \<le> 0 \<or> l > 500 then 100 else nat l)
           (length (filter (\<lambda>j. st = [] \<or> job_status j = st) t))"
proof -
  define f where "f = filter (\<lambda>j. st = [] \<or> job_status j = st) t"
  define r where "r = rev (sort_key (rfc3339_nano \<circ> job_created_at) f)"
  have l: "list_jobs st l t = take (list_limit l) r"
    by (simp only: list_jobs_def f_def r_def)
  have "sorted (map (rfc3339_nano \<circ> job_created_at) (rev r))" unfolding r_def by simp
  then have srt: "sorted_wrt (\<lambda>a b. rfc3339_nano (job_created_at b) \<le> rfc3339_nano (job_created_at a)) r"
    by (simp add: sorted_map sorted_wrt_rev del: rev_rev_ident)
  have m: "mset r = mset f" "length r = length f" by (simp_all add: r_def)
  show ?thesis
    unfolding l f_def [symmetric]
    by (rule exI [of _ "drop (list_limit l) r"])
      (simp only: append_take_drop_id srt m length_take list_limit_def min.commute simp_thms)
qed

end
