(* ===== verification/JobStore.thy ===== *)
theory JobStore
  imports JobTable
begin

text \<open>
  What the job engine relies on of its store (the interface \<open>Store\<close> of internal/jobs/engine.go),
  read through the status of each job, and the consequences the engine needs: jobs held by workers stay
  active whatever other workers and clients do, and a job is never handed out twice.  The job table is
  an instance.
\<close>

definition active_status :: "string option \<Rightarrow> bool" where
  "active_status st = (st = Some ''running'' \<or> st = Some ''cancel_requested'')"

text \<open>The final writes of a worker.\<close>

datatype final_write =
    WriteCompleted string
  | WriteFailed string string
  | WriteCancelled string

fun final_status :: "final_write \<Rightarrow> string" where
  "final_status (WriteCompleted _) = ''succeeded''"
| "final_status (WriteFailed _ _) = ''failed''"
| "final_status (WriteCancelled _) = ''cancelled''"

section \<open>The interface\<close>

locale job_store =
  fixes inv :: "'s \<Rightarrow> bool"
    and status :: "'s \<Rightarrow> string \<Rightarrow> string option"
    and id_of :: "'j \<Rightarrow> string"
    and create :: "'j \<Rightarrow> 's \<Rightarrow> 's res"
    and claim :: "string \<Rightarrow> gotime \<Rightarrow> 's \<Rightarrow> ('s \<times> 'j) res"
    and progress :: "string \<Rightarrow> int \<Rightarrow> string \<Rightarrow> 's \<Rightarrow> 's res"
    and finish :: "final_write \<Rightarrow> string \<Rightarrow> gotime \<Rightarrow> 's \<Rightarrow> 's res"
    and request :: "string \<Rightarrow> gotime \<Rightarrow> 's \<Rightarrow> ('s \<times> 'j) res"
    and clear :: "'s \<Rightarrow> 's"
    and new_job :: "'j \<Rightarrow> bool"
  assumes create_law: "inv s \<Longrightarrow> new_job j \<Longrightarrow> create j s = Inr s' \<Longrightarrow>
      inv s' \<and> status s (id_of j) = None \<and> status s' = (status s)(id_of j \<mapsto> ''queued'')"
    and claim_law: "inv s \<Longrightarrow> claim n t s = Inr (s', j) \<Longrightarrow>
      inv s' \<and> status s (id_of j) = Some ''queued'' \<and> status s' = (status s)(id_of j \<mapsto> ''running'')"
    and progress_law: "inv s \<Longrightarrow> progress i p m s = Inr s' \<Longrightarrow> inv s' \<and> status s' = status s"
    and finish_law: "inv s \<Longrightarrow> active_status (status s i) \<Longrightarrow>
      \<exists>s'. finish f i t s = Inr s' \<and> inv s' \<and> status s' = (status s)(i \<mapsto> final_status f)"
    and request_law: "inv s \<Longrightarrow> request i t s = Inr (s', j) \<Longrightarrow>
      inv s' \<and> id_of j = i \<and>
      (status s i = Some ''queued'' \<and> status s' = (status s)(i \<mapsto> ''cancelled'') \<or>
       active_status (status s i) \<and> status s' = (status s)(i \<mapsto> ''cancel_requested''))"
    and clear_law: "inv s \<Longrightarrow> inv (clear s) \<and>
      status (clear s) = (\<lambda>i. if status s i \<in> Some ` set terminal_statuses then None else status s i)"
begin

text \<open>Jobs held by workers.\<close>

definition held :: "string set \<Rightarrow> 's \<Rightarrow> bool" where
  "held H s = (inv s \<and> (\<forall>i\<in>H. active_status (status s i)))"

lemma held_inv: "held H s \<Longrightarrow> inv s"
  by (simp add: held_def)

lemma held_subset: "held H s \<Longrightarrow> K \<subseteq> H \<Longrightarrow> held K s"
  by (auto simp: held_def)

lemma held_create:
  assumes "held H s" "new_job j" "create j s = Inr s'"
  shows "held H s'"
  using create_law [OF held_inv [OF assms(1)] assms(2,3)] assms(1)
  by (auto simp: held_def active_status_def)

text \<open>A claimed job was not held: no two workers get the same one.\<close>

lemma held_claim:
  assumes "held H s" "claim n t s = Inr (s', j)"
  shows "id_of j \<notin> H \<and> held (insert (id_of j) H) s' \<and> status s' (id_of j) = Some ''running''"
  using claim_law [OF held_inv [OF assms(1)] assms(2)] assms(1)
  by (auto simp: held_def active_status_def)

lemma held_progress:
  assumes "held H s" "progress i p m s = Inr s'"
  shows "held H s'"
  using progress_law [OF held_inv [OF assms(1)] assms(2)] assms(1) by (simp add: held_def)

lemma held_request:
  assumes "held H s" "request i t s = Inr (s', j)"
  shows "held H s'"
proof -
  have inv: "inv s'" and upd: "status s i = Some ''queued'' \<and> status s' = (status s)(i \<mapsto> ''cancelled'') \<or>
       active_status (status s i) \<and> status s' = (status s)(i \<mapsto> ''cancel_requested'')"
    using request_law [OF held_inv [OF assms(1)] assms(2)] by simp_all
  have "active_status (status s' k)" if "k \<in> H" for k
  proof (cases "k = i")
    case True
    have "active_status (status s k)" using assms(1) that by (simp add: held_def)
    then show ?thesis using upd True by (auto simp: active_status_def)
  next
    case False
    have "active_status (status s k)" using assms(1) that by (simp add: held_def)
    then show ?thesis using upd False by auto
  qed
  with inv show ?thesis by (simp add: held_def)
qed

lemma held_clear:
  assumes "held H s"
  shows "held H (clear s)"
  using clear_law [OF held_inv [OF assms]] assms
  by (auto simp: held_def active_status_def terminal_statuses_def)

text \<open>The final write of a holder always finds its job.\<close>

lemma held_finish:
  assumes "held H s" "i \<in> H"
  shows "\<exists>s'. finish f i t s = Inr s' \<and> held (H - {i}) s' \<and> status s' = (status s)(i \<mapsto> final_status f)"
proof -
  have "active_status (status s i)" using assms by (simp add: held_def)
  from finish_law [OF held_inv [OF assms(1)] this, of f t] obtain s' where
    "finish f i t s = Inr s'" "inv s'" "status s' = (status s)(i \<mapsto> final_status f)" by blast
  then show ?thesis using assms(1) by (auto simp: held_def)
qed

end

section \<open>The job table is such a store\<close>

definition status_in :: "jobs \<Rightarrow> string \<Rightarrow> string option" where
  "status_in t i = map_option job_status (select_key job_id i t)"

definition finish_job :: "final_write \<Rightarrow> string \<Rightarrow> gotime \<Rightarrow> jobs \<Rightarrow> jobs res" where
  "finish_job f i now t =
     (case f of
        WriteCompleted r \<Rightarrow> complete_job i r now t
      | WriteFailed c m \<Rightarrow> fail_job i c m now t
      | WriteCancelled m \<Rightarrow> mark_job_cancelled i m now t)"

lemma status_in_update_where:
  "(\<And>j. job_id (f j) = job_id j) \<Longrightarrow>
   status_in (update_where c f t) k =
     map_option (\<lambda>j. job_status (if c j then f j else j)) (select_key job_id k t)"
  by (simp add: status_in_def select_update_where option.map_comp comp_def)

lemma status_update:
  assumes "\<And>j. job_id (f j) = job_id j" "\<And>j. job_status (f j) = st"
    and "select_key job_id i t = Some j" "c j"
  shows "status_in (update_where (\<lambda>j. job_id j = i \<and> c j) f t) = (status_in t)(i \<mapsto> st)"
proof
  fix k
  show "status_in (update_where (\<lambda>j. job_id j = i \<and> c j) f t) k = ((status_in t)(i \<mapsto> st)) k"
  proof (cases "k = i")
    case True
    have "job_id j = i" using select_key_Some [OF assms(3)] by simp
    then show ?thesis
      unfolding status_in_update_where [of f, OF assms(1)] True by (simp add: assms(2-4))
  next
    case False
    have "job_id r \<noteq> i" if "select_key job_id k t = Some r" for r
      using select_key_Some [OF that] False by simp
    then show ?thesis
      unfolding status_in_update_where [of f, OF assms(1)] using False
      by (cases "select_key job_id k t") (simp_all add: status_in_def)
  qed
qed

lemma active_status_select:
  assumes "active_status (status_in t i)"
  obtains j where "select_key job_id i t = Some j" "active_job j" "job_id j = i"
proof (cases "select_key job_id i t")
  case None
  then show thesis using assms by (simp add: status_in_def active_status_def)
next
  case (Some j)
  have "active_job j" using assms by (simp add: Some status_in_def active_status_def active_job_def)
  with Some show thesis using select_key_Some [OF Some] that by blast
qed

lemma update_active_law:
  assumes "select_key job_id i t = Some j" "c j"
    and "\<And>j. job_id (f j) = job_id j" "\<And>j. job_status (f j) = st"
  shows "update_active c i f t = Inr (update_where (\<lambda>j. job_id j = i \<and> c j) f t) \<and>
         status_in (update_where (\<lambda>j. job_id j = i \<and> c j) f t) = (status_in t)(i \<mapsto> st)"
proof -
  have "j \<in> set t" "job_id j = i" using select_key_Some [OF assms(1)] by simp_all
  then have "rows_matching (\<lambda>j. job_id j = i \<and> c j) t \<noteq> 0"
    unfolding rows_matching_0_iff using assms(2) by blast
  then have "update_active c i f t = Inr (update_where (\<lambda>j. job_id j = i \<and> c j) f t)"
    unfolding update_active_def Let_def by (rule if_not_P)
  then show ?thesis using status_update [of f st i t j c] assms by blast
qed

lemma finish_job_law:
  assumes "jobs_ok t" "active_status (status_in t i)"
  shows "\<exists>t'. finish_job f i now t = Inr t' \<and> jobs_ok t' \<and> status_in t' = (status_in t)(i \<mapsto> final_status f)"
proof -
  obtain j where j: "select_key job_id i t = Some j" "active_job j"
    using active_status_select [OF assms(2)] .
  have "\<exists>t'. finish_job f i now t = Inr t' \<and> status_in t' = (status_in t)(i \<mapsto> final_status f)"
  proof (cases f)
    case (WriteCompleted r)
    show ?thesis
      unfolding WriteCompleted finish_job_def final_write.case complete_job_def final_status.simps
      by (rule exI, rule update_active_law [where c = active_job and j = j]) (simp_all add: j)
  next
    case (WriteFailed c m)
    show ?thesis
      unfolding WriteFailed finish_job_def final_write.case fail_job_def final_status.simps
      by (rule exI, rule update_active_law [where c = active_job and j = j]) (simp_all add: j)
  next
    case (WriteCancelled m)
    show ?thesis
      unfolding WriteCancelled finish_job_def final_write.case mark_job_cancelled_def final_status.simps
      by (rule exI, rule update_active_law [where j = j]) (simp_all add: j)
  qed
  then obtain t' where t': "finish_job f i now t = Inr t'" "status_in t' = (status_in t)(i \<mapsto> final_status f)"
    by blast
  have "jobs_ok (kept_on_error t (finish_job f i now t))"
    using op_ok [OF assms(1), of "Complete i (case f of WriteCompleted r \<Rightarrow> r | _ \<Rightarrow> []) now"]
      op_ok [OF assms(1), of "Fail i (case f of WriteFailed c m \<Rightarrow> c | _ \<Rightarrow> []) (case f of WriteFailed c m \<Rightarrow> m | _ \<Rightarrow> []) now"]
      op_ok [OF assms(1), of "MarkCancelled i (case f of WriteCancelled m \<Rightarrow> m | _ \<Rightarrow> []) now"]
    by (cases f) (simp_all add: finish_job_def)
  then show ?thesis using t' by (simp add: kept_on_error_def)
qed

lemma create_job_law:
  assumes "jobs_ok t" "job_status j = ''queued''" "create_job j t = Inr t'"
  shows "jobs_ok t' \<and> status_in t (job_id j) = None \<and> status_in t' = (status_in t)(job_id j \<mapsto> ''queued'')"
proof -
  have ok: "jobs_ok t'"
    using create_ok [OF assms(1,2)] unfolding assms(3) kept_on_error_def by simp
  have none: "select_key job_id (job_id j) t = None"
    using assms(3) by (auto simp: create_job_def split: if_splits)
  obtain r where r: "t' = t @ [r]" "job_id r = job_id j" "job_status r = job_status j"
    using assms(3) unfolding create_job_def by (fastforce split: if_splits)
  have "status_in t' k = ((status_in t)(job_id j \<mapsto> ''queued'')) k" for k
    unfolding r(1) status_in_def select_key_append
    using none r(2,3) assms(2) by (auto simp: select_key_Cons split: option.split)
  then show ?thesis using ok none by (simp add: status_in_def fun_eq_iff)
qed

lemma claim_job_law:
  assumes "jobs_ok t" "claim_next_job n now t = Inr (t', j)"
  shows "jobs_ok t' \<and> status_in t (job_id j) = Some ''queued'' \<and>
         status_in t' = (status_in t)(job_id j \<mapsto> ''running'')"
proof -
  have u: "unique_key job_id t" using assms(1) by (simp add: jobs_ok_def)
  have ok: "jobs_ok t'"
    using op_ok [OF assms(1), of "ClaimNext n now"] assms(2) by simp
  obtain q where q: "q \<in> set t" "job_status q = ''queued''"
    "j = q\<lparr>job_status := ''running'', job_started_at := Some now, job_message := []\<rparr>"
    "t' = update_where (\<lambda>r. job_id r = job_id q) (\<lambda>_. j) t"
    using claim_cases [OF u assms(2)] by blast
  have id: "job_id j = job_id q" and st: "job_status j = ''running''" using q(3) by simp_all
  have sel: "select_key job_id (job_id q) t = Some q" by (rule select_key_unique [OF u q(1)])
  have "select_key job_id k t' = map_option (\<lambda>r. if job_id r = job_id q then j else r) (select_key job_id k t)" for k
    unfolding q(4) update_where_def by (rule select_map_same) (simp add: id)
  note select' = this
  have "status_in t' k = ((status_in t)(job_id q \<mapsto> ''running'')) k" for k
  proof (cases "k = job_id q")
    case True
    have "status_in t' (job_id q) = Some (job_status j)" unfolding status_in_def select' sel by simp
    then show ?thesis using True st by simp
  next
    case False
    have "job_id r \<noteq> job_id q" if "select_key job_id k t = Some r" for r
      using select_key_Some [OF that] False by simp
    then have "select_key job_id k t' = select_key job_id k t"
      unfolding select' by (cases "select_key job_id k t") simp_all
    then show ?thesis using False by (simp add: status_in_def)
  qed
  then have "status_in t' = (status_in t)(job_id q \<mapsto> ''running'')" by blast
  then show ?thesis using ok sel q(2) by (simp add: id status_in_def)
qed

lemma progress_job_law:
  assumes "jobs_ok t" "update_job_progress i p m t = Inr t'"
  shows "jobs_ok t' \<and> status_in t' = status_in t"
proof -
  have ok: "jobs_ok t'" using op_ok [OF assms(1), of "UpdateProgress i p m"] assms(2) by (simp add: kept_on_error_def)
  have t': "t' = update_where (\<lambda>j. job_id j = i \<and> active_job j) (\<lambda>j. j\<lparr>job_progress := p, job_message := m\<rparr>) t"
    using assms(2) by (auto simp: update_job_progress_def update_active_def Let_def split: if_splits)
  have "status_in t' k = status_in t k" for k
    unfolding t' by (subst status_in_update_where) (simp, cases "select_key job_id k t", simp_all add: status_in_def)
  then show ?thesis using ok by auto
qed

lemma request_job_law:
  assumes "jobs_ok t" "request_job_cancel i now t = Inr (t', j)"
  shows "jobs_ok t' \<and> job_id j = i \<and>
      (status_in t i = Some ''queued'' \<and> status_in t' = (status_in t)(i \<mapsto> ''cancelled'') \<or>
       active_status (status_in t i) \<and> status_in t' = (status_in t)(i \<mapsto> ''cancel_requested''))"
proof (cases "select_key job_id i t")
  case None
  then show ?thesis using assms(2) by (simp add: request_job_cancel_def)
next
  case (Some q)
  have ok: "jobs_ok t'" using op_ok [OF assms(1), of "RequestCancel i now"] assms(2) by simp
  have i: "job_id j = i"
    using assms(2) by (auto simp: request_job_cancel_def Let_def get_job_def
        split: option.splits if_splits dest: select_key_Some)
  have upd: "status_in (update_where (\<lambda>r. job_id r = i) f t) = (status_in t)(i \<mapsto> st)"
    if "\<And>r. job_id (f r) = job_id r" "\<And>r. job_status (f r) = st" for f st
    using status_update [of f st i t q "\<lambda>_. True"] that Some by simp
  have q: "status_in t i = Some (job_status q)" by (simp add: status_in_def Some)
  consider "job_status q = ''queued''" "status_in t' = (status_in t)(i \<mapsto> ''cancelled'')"
    | "job_status q = ''running''" "status_in t' = (status_in t)(i \<mapsto> ''cancel_requested'')"
    | "job_status q = ''cancel_requested''" "t' = t"
    using assms(2) unfolding request_job_cancel_def Some option.case Let_def
    by (auto simp: upd split: if_splits sum.splits)
  then show ?thesis
  proof cases
    case 1
    then show ?thesis using ok i q by simp
  next
    case 2
    then show ?thesis using ok i q by (simp add: active_status_def)
  next
    case 3
    then show ?thesis using ok i q by (simp add: active_status_def fun_upd_idem)
  qed
qed

lemma select_delete_where:
  assumes "unique_key key t"
  shows "select_key key i (delete_where c t) =
    (case select_key key i t of None \<Rightarrow> None | Some j \<Rightarrow> if c j then None else Some j)"
proof (cases "select_key key i (delete_where c t)")
  case None
  then have "i \<notin> key ` set (delete_where c t)" by (simp add: select_key_None_iff)
  then have "c j" if "select_key key i t = Some j" for j
    using select_key_Some [OF that] by (auto simp: delete_where_def)
  then show ?thesis using None by (auto split: option.split)
next
  case (Some j)
  have "j \<in> set t" "\<not> c j" "key j = i" using select_key_Some [OF Some] by (auto simp: delete_where_def)
  then have "select_key key i t = Some j" using select_key_unique [OF assms] by blast
  then show ?thesis using Some \<open>\<not> c j\<close> by simp
qed

lemma clear_jobs_law:
  assumes "jobs_ok t"
  shows "jobs_ok ((fst \<circ> clear_terminal_jobs) t) \<and>
    status_in ((fst \<circ> clear_terminal_jobs) t) =
      (\<lambda>i. if status_in t i \<in> Some ` set terminal_statuses then None else status_in t i)"
proof -
  have u: "unique_key job_id t" using assms by (simp add: jobs_ok_def)
  have "select_key job_id i (delete_where c t) =
      (case select_key job_id i t of None \<Rightarrow> None | Some j \<Rightarrow> if c j then None else Some j)" for c i
    by (rule select_delete_where [OF u])
  then show ?thesis
    using clear_ok [OF assms]
    by (auto simp: status_in_def clear_terminal_jobs_def fun_eq_iff split: option.split)
qed

interpretation js: job_store jobs_ok status_in job_id create_job claim_next_job update_job_progress
  finish_job request_job_cancel "fst \<circ> clear_terminal_jobs" "\<lambda>j. job_status j = ''queued''"
  using create_job_law claim_job_law progress_job_law finish_job_law request_job_law clear_jobs_law
  by unfold_locales blast+

end
