(* ===== verification/Events.thy ===== *)
theory Events
  imports Access GoTime
begin

text \<open>
  The event log: internal/state/events.go over the table \<open>event_log\<close> of migration 003, and who may see
  an event (internal/api/event_access.go).  The cursor is the table's AUTOINCREMENT key: it grows by one
  with each row and is never used again, up to the largest 64-bit integer, where SQLite refuses the row.
\<close>

section \<open>Event data\<close>

text \<open>JSON values; a Go map is an object, and a nil map is \<open>JNull\<close>.\<close>

datatype json =
    JNull
  | JBool bool
  | JNum int
  | JStr string
  | JArr "json list"
  | JObj "(string \<times> json) list"

fun json_string :: "json option \<Rightarrow> string" where
  "json_string (Some (JStr s)) = s"
| "json_string _ = []"

fun json_field :: "string \<Rightarrow> json \<Rightarrow> json option" where
  "json_field k (JObj fs) = map_of fs k"
| "json_field k _ = None"

section \<open>The log\<close>

record event_record =
  ev_cursor :: nat
  ev_id :: string
  ev_node :: string
  ev_component :: string
  ev_type :: string
  ev_actor_type :: string
  ev_actor_id :: string
  ev_request_id :: string
  ev_correlation_id :: string
  ev_job_id :: string
  ev_occurred_at :: gotime
  ev_data :: json

record event_log =
  log_rows :: "event_record list"
  log_seq :: nat

definition empty_log :: event_log where
  "empty_log = \<lparr>log_rows = [], log_seq = 0\<rparr>"

definition max_cursor :: nat where
  "max_cursor = 9223372036854775807"

definition stored_data :: "json \<Rightarrow> json" where
  "stored_data d = (if d = JNull then JObj [] else d)"

text \<open>
  \<open>AppendEvent\<close>: the row refers to a job that must exist (foreign keys are on); the record returned
  keeps the data as given.
\<close>

definition append_event ::
  "(string \<Rightarrow> bool) \<Rightarrow> event_record \<Rightarrow> event_log \<Rightarrow> (event_log \<times> event_record) res" where
  "append_event job_exists e l =
     (if ev_id e \<in> ev_id ` set (log_rows l) \<or> ev_job_id e \<noteq> [] \<and> \<not> job_exists (ev_job_id e)
      then Inl (Wrap ''append event: '' (ErrDB ''constraint failed''))
      else if log_seq l \<ge> max_cursor
      then Inl (Wrap ''append event: '' (ErrDB ''database or disk is full''))
      else let r = e\<lparr>ev_cursor := log_seq l + 1\<rparr>
           in Inr (\<lparr>log_rows = log_rows l @ [r\<lparr>ev_data := stored_data (ev_data r)\<rparr>], log_seq = log_seq l + 1\<rparr>, r))"

definition events_after :: "nat \<Rightarrow> event_log \<Rightarrow> event_record list" where
  "events_after c l = sort_key ev_cursor (filter (\<lambda>e. c < ev_cursor e) (log_rows l))"

definition list_events :: "int \<Rightarrow> int \<Rightarrow> event_log \<Rightarrow> event_record list" where
  "list_events after limit l =
     (let after' = (if after < 0 then 0 else nat after);
          limit' = (if limit \<le> 0 \<or> limit > 500 then 100 else nat limit)
      in take limit' (events_after after' l))"

definition get_event :: "string \<Rightarrow> event_log \<Rightarrow> event_record res" where
  "get_event i l = (case select_key ev_id i (log_rows l) of None \<Rightarrow> Inl ErrNoRows | Some e \<Rightarrow> Inr e)"

definition latest_event_cursor :: "event_log \<Rightarrow> nat" where
  "latest_event_cursor l = (if log_rows l = [] then 0 else Max (set (map ev_cursor (log_rows l))))"

text \<open>Deleting jobs clears the references to them.\<close>

definition forget_jobs :: "(string \<Rightarrow> bool) \<Rightarrow> event_log \<Rightarrow> event_log" where
  "forget_jobs gone l =
     l\<lparr>log_rows := update_where (\<lambda>e. ev_job_id e \<noteq> [] \<and> gone (ev_job_id e)) (\<lambda>e. e\<lparr>ev_job_id := []\<rparr>) (log_rows l)\<rparr>"

section \<open>Visibility\<close>

definition actor_allows_event :: "actor \<Rightarrow> string \<Rightarrow> json \<Rightarrow> bool" where
  "actor_allows_event a t data =
     (if has_prefix t ''core.'' then True
      else if has_prefix t ''files.'' then
        (if actor_has a ''files.manage'' then True
         else let i = json_string (json_field ''folder_id'' data)
              in i \<noteq> [] \<and> actor_allows a ''files.read'' ''file_folder'' i)
      else if has_prefix t ''security.'' then actor_has a ''security.users.read''
      else if has_prefix t ''storage.'' then actor_has a ''system.read''
      else if has_prefix t ''network.'' then actor_has a ''network.read''
      else if has_prefix t ''update.'' then actor_has a ''updates.read''
      else if has_prefix t ''modules.'' then actor_has a ''modules.read''
      else if has_prefix t ''jobs.'' then actor_has a ''jobs.read''
      else actor_has a ''system.read'')"

text \<open>The event history of the API: one page of the log, filtered for the actor.\<close>

definition visible_history :: "actor \<Rightarrow> int \<Rightarrow> int \<Rightarrow> event_log \<Rightarrow> event_record list \<times> nat" where
  "visible_history a after limit l =
     (filter (\<lambda>e. actor_allows_event a (ev_type e) (ev_data e)) (list_events after limit l), latest_event_cursor l)"

section \<open>Lemmas\<close>

definition log_ok :: "event_log \<Rightarrow> bool" where
  "log_ok l =
     (sorted_wrt (<) (map ev_cursor (log_rows l)) \<and> unique_key ev_id (log_rows l) \<and>
      (\<forall>e\<in>set (log_rows l). 0 < ev_cursor e \<and> ev_cursor e \<le> log_seq l))"

lemma empty_log_ok: "log_ok empty_log"
  by (simp add: log_ok_def empty_log_def unique_key_def)

lemma append_event_Inr:
  assumes "append_event je e l = Inr (l', r)"
  shows "r = e\<lparr>ev_cursor := log_seq l + 1\<rparr> \<and> log_seq l' = log_seq l + 1 \<and>
    log_rows l' = log_rows l @ [r\<lparr>ev_data := stored_data (ev_data r)\<rparr>] \<and> ev_id e \<notin> ev_id ` set (log_rows l) \<and>
    log_seq l < max_cursor"
  using assms by (auto simp: append_event_def Let_def split: if_split_asm)

lemma append_event_ok:
  assumes "append_event je e l = Inr (l', r)" "log_ok l"
  shows "log_ok l'"
  using append_event_Inr [OF assms(1)] assms(2)
  by (auto simp: log_ok_def unique_key_def sorted_wrt_append less_Suc_eq_le)

lemma ball_update_where:
  "(\<And>r. P (f r) = P r) \<Longrightarrow> (\<forall>r\<in>set (update_where c f t). P r) \<longleftrightarrow> (\<forall>r\<in>set t. P r)"
  unfolding update_where_def set_map ball_simps by (rule ball_cong) simp_all

lemma forget_jobs_ok: "log_ok (forget_jobs g l) = log_ok l"
  by (simp add: log_ok_def forget_jobs_def map_update_where unique_update_where
      ball_update_where [where P = "\<lambda>e. 0 < ev_cursor e \<and> ev_cursor e \<le> log_seq l"])

lemma events_after_filter:
  "log_ok l \<Longrightarrow> events_after c l = filter (\<lambda>e. c < ev_cursor e) (log_rows l)"
proof -
  assume "log_ok l"
  then have "sorted (map ev_cursor (log_rows l))"
    by (auto simp: log_ok_def intro: strict_sorted_imp_sorted)
  then have "sorted (map ev_cursor (filter (\<lambda>e. c < ev_cursor e) (log_rows l)))"
    by (rule sorted_filter)
  then show ?thesis unfolding events_after_def by (rule sort_key_id_if_sorted)
qed

lemma events_after_append:
  assumes "append_event je e l = Inr (l', r)" "log_ok l" "c \<le> log_seq l"
  shows "events_after c l' = events_after c l @ [r\<lparr>ev_data := stored_data (ev_data r)\<rparr>]"
  using append_event_Inr [OF assms(1)] assms
  by (simp add: events_after_filter append_event_ok [OF assms(1,2)])

text \<open>A page and the rest.\<close>

lemma events_after_step:
  assumes ok: "log_ok l" and p: "take n (events_after c l) = p" "p \<noteq> []"
  shows "events_after c l = p @ events_after (ev_cursor (last p)) l"
proof -
  let ?f = "\<lambda>e. c < ev_cursor e"
  have srt: "sorted_wrt (<) (map ev_cursor (events_after c l))"
    using ok unfolding events_after_filter [OF ok] log_ok_def
    by (simp add: sorted_wrt_map sorted_wrt_filter)
  define rest where "rest = drop n (events_after c l)"
  have e: "events_after c l = p @ rest" using p(1) unfolding rest_def by (metis append_take_drop_id)
  have lst: "last p \<in> set p" "c < ev_cursor (last p)"
  proof -
    show "last p \<in> set p" using p(2) by simp
    then have "last p \<in> set (events_after c l)" by (simp add: e)
    then show "c < ev_cursor (last p)" unfolding events_after_filter [OF ok] by simp
  qed
  have before: "\<forall>x\<in>set p. ev_cursor x \<le> ev_cursor (last p)" and after: "\<forall>x\<in>set rest. ev_cursor (last p) < ev_cursor x"
  proof -
    obtain q where q: "p = q @ [last p]" using p(2) by (metis append_butlast_last_id)
    have "sorted_wrt (<) (map ev_cursor (q @ last p # rest))" using srt e q by (metis append.assoc append_Cons append_Nil)
    then show "\<forall>x\<in>set rest. ev_cursor (last p) < ev_cursor x" "\<forall>x\<in>set p. ev_cursor x \<le> ev_cursor (last p)"
      by (auto simp: sorted_wrt_append, subst (asm) q, auto)
  qed
  have "events_after (ev_cursor (last p)) l = filter (\<lambda>e. ev_cursor (last p) < ev_cursor e) (events_after c l)"
    using lst(2) unfolding events_after_filter [OF ok] filter_filter by (auto intro!: filter_cong)
  also have "\<dots> = rest" unfolding e using before after by (auto simp: filter_empty_conv intro!: filter_True)
  finally show ?thesis using e by simp
qed

text \<open>The log a store reaches.\<close>

datatype log_op = AppendOp "string list" event_record | ForgetOp "string list"

fun run_log_op :: "log_op \<Rightarrow> event_log \<Rightarrow> event_log" where
  "run_log_op (AppendOp jobs e) l =
     (case append_event (\<lambda>j. j \<in> set jobs) e l of Inl _ \<Rightarrow> l | Inr (l', _) \<Rightarrow> l')"
| "run_log_op (ForgetOp jobs) l = forget_jobs (\<lambda>j. j \<in> set jobs) l"

lemma log_op_ok: "log_ok l \<Longrightarrow> log_ok (run_log_op op l)"
  by (cases op) (auto simp: forget_jobs_ok append_event_ok split: sum.split)

lemma log_ops_ok: "log_ok l \<Longrightarrow> log_ok (fold run_log_op ops l)"
  by (induction ops arbitrary: l) (simp_all add: log_op_ok)

section \<open>Properties\<close>

text \<open>C38. A client that pages through the history misses nothing and sees nothing twice: in every log the
  store reaches, a page and what follows its last cursor are together exactly the events after the
  cursor asked for, in the order of their cursors; an empty page means there is nothing left; and a
  page has at most 500 events.\<close>

theorem history_pages_complete:
  assumes "l = fold run_log_op ops empty_log" "page = list_events (int c) limit l"
  shows "events_after c l = page @ (if page = [] then [] else events_after (ev_cursor (last page)) l) \<and>
    sorted_wrt (<) (map ev_cursor (events_after c l)) \<and> length page \<le> 500 \<and>
    set (events_after c l) = {e\<in>set (log_rows l). c < ev_cursor e}"
proof -
  have ok: "log_ok l" unfolding assms(1) by (rule log_ops_ok [OF empty_log_ok])
  define n where "n = (if limit \<le> 0 \<or> limit > 500 then 100 else nat limit)"
  have n: "0 < n" "n \<le> 500" unfolding n_def by auto
  have page: "take n (events_after c l) = page" unfolding assms(2) list_events_def n_def by (simp add: Let_def)
  have "page = [] \<Longrightarrow> events_after c l = []" using page n(1) by (cases "events_after c l"; cases n) auto
  moreover have "page \<noteq> [] \<Longrightarrow> events_after c l = page @ events_after (ev_cursor (last page)) l"
    by (rule events_after_step [OF ok page])
  moreover have "sorted_wrt (<) (map ev_cursor (events_after c l))"
    using ok unfolding events_after_filter [OF ok] log_ok_def by (simp add: sorted_wrt_map sorted_wrt_filter)
  moreover have "length page \<le> 500" using page n(2) by (metis length_take min.boundedE min.cobounded2 order_trans)
  moreover have "set (events_after c l) = {e\<in>set (log_rows l). c < ev_cursor e}"
    by (auto simp: events_after_def)
  ultimately show ?thesis by auto
qed

definition sample_event :: event_record where
  "sample_event = \<lparr>ev_cursor = 0, ev_id = ''evt_1'', ev_node = ''node_1'', ev_component = ''jobs'', ev_type = ''job.queued'',
     ev_actor_type = ''user'', ev_actor_id = ''usr_1'', ev_request_id = [], ev_correlation_id = [], ev_job_id = ''job_1'',
     ev_occurred_at = 1, ev_data = JNull\<rparr>"

theorem history_pages_complete_witness:
  "length (list_events (int 0) 1 (fold run_log_op [AppendOp [''job_1''] sample_event,
      AppendOp [''job_1''] (sample_event\<lparr>ev_id := ''evt_2''\<rparr>)] empty_log)) \<le> 500 \<and>
   list_events (int 0) 1 (fold run_log_op [AppendOp [''job_1''] sample_event,
      AppendOp [''job_1''] (sample_event\<lparr>ev_id := ''evt_2''\<rparr>)] empty_log) \<noteq> []"
  by (rule conjI, rule history_pages_complete [OF refl refl, THEN conjunct2, THEN conjunct2, THEN conjunct1]) code_simp

text \<open>Job events are not guarded by the permission for jobs: the engine's events are named
  \<open>job.\<dots>\<close>, the rule for jobs matches \<open>jobs.\<dots>\<close>, so an actor who may read jobs but not the system
  sees none of them, and one who may read the system but not jobs sees all of them.\<close>

theorem job_events_guarded_by_system_read:
  assumes "has_prefix t ''job.''"
  shows "actor_allows_event a t data = actor_has a ''system.read''"
proof -
  obtain u where "t = ''job.'' @ u" using assms by (auto simp: has_prefix_iff)
  then show ?thesis by (simp add: actor_allows_event_def has_prefix_iff)
qed

definition child_actor :: actor where
  "child_actor = \<lparr>act_type = ''user'', act_id = ''usr_3'', act_username = ''cleo'', act_display_name = [],
     act_session_id = ''ses_3'', act_roles = [''child''], act_permissions = [''events.read'', ''system.read''],
     act_scopes = [], act_csrf_hash = []\<rparr>"

theorem job_events_guarded_by_system_read_witness:
  "actor_allows_event child_actor ''job.progress'' JNull \<and> \<not> actor_has child_actor ''jobs.read'' \<and>
   \<not> actor_allows_event (child_actor\<lparr>act_permissions := [''events.read'', ''jobs.read'']\<rparr>) ''job.progress'' JNull"
proof -
  have p: "has_prefix ''job.progress'' ''job.''" by code_simp
  show ?thesis
    unfolding job_events_guarded_by_system_read [OF p] by (simp add: actor_has_def child_actor_def)
qed

end
