(* ===== verification/Hub.thy ===== *)
theory Hub
  imports Events "HOL-Library.Word"
begin

text \<open>
  The realtime hub: internal/realtime (hub.go, protocol.go, websocket.go) and the publishing service of
  internal/events/service.go.  A connection is a record found by its key, which stands for the pointer
  of the Go client; the map of registered clients is the list of their keys.  The iteration order of
  that map, the choice \<open>select\<close> makes between two ready cases, the identifiers, the clock and the
  outcome of a write to the socket are arguments.
\<close>

section \<open>Protocol\<close>

definition max_topics :: nat where "max_topics = 64"
definition max_topic_length :: nat where "max_topic_length = 128"
definition send_buffer :: nat where "send_buffer = 64"

definition topic_char :: "nat \<Rightarrow> nat \<Rightarrow> nat \<Rightarrow> bool" where
  "topic_char len i r =
     ((97 \<le> r \<and> r \<le> 122) \<or> (65 \<le> r \<and> r \<le> 90) \<or> (48 \<le> r \<and> r \<le> 57) \<or>
      r = 46 \<or> r = 95 \<or> r = 45 \<or> (r = 42 \<and> int i = int len - 1))"

fun topic_runes_ok :: "nat \<Rightarrow> nat \<Rightarrow> (nat \<times> string) list \<Rightarrow> bool" where
  "topic_runes_ok len i [] = True"
| "topic_runes_ok len i ((r, w) # rs) = (topic_char len i r \<and> topic_runes_ok len (i + length w) rs)"

definition validate_topic :: "string \<Rightarrow> go_error option" where
  "validate_topic t =
     (if t = [] \<or> length t > max_topic_length then Some (Err ''invalid topic length'')
      else if t = ''*'' then None
      else if has_suffix t ''*'' \<and> \<not> has_suffix t ''.*''
      then Some (Err ''wildcard is only allowed as namespace .*'')
      else if \<not> topic_runes_ok (length t) 0 (runes t) then Some (Err ''invalid topic character'')
      else None)"

definition validate_topics :: "string list \<Rightarrow> go_error option" where
  "validate_topics ts =
     (if ts = [] then Some (Err ''at least one topic is required'')
      else if length ts > max_topics then Some (Err ''too many topics'')
      else first_error (map validate_topic ts))"

definition topic_matches :: "string \<Rightarrow> string \<Rightarrow> bool" where
  "topic_matches topic t =
     (if has_prefix t ''core.'' then True
      else if topic = ''*'' \<or> topic = t then True
      else if has_suffix topic ''.*'' then has_prefix t (trim_suffix topic ''*'')
      else False)"

section \<open>Clients\<close>

record event_message =
  msg_id :: string
  msg_cursor :: nat
  msg_type :: string
  msg_time :: gotime
  msg_node :: string
  msg_component :: string
  msg_request_id :: string
  msg_data :: json

record envelope =
  env_version :: nat
  env_stream :: string
  env_sequence :: "64 word"
  env_message :: event_message

record client =
  cl_key :: nat
  cl_topics :: "string list"
  cl_send :: "event_message list"
  cl_done :: bool
  cl_stream :: string
  cl_sequence :: "64 word"
  cl_written :: "envelope list"

record hub =
  hub_node :: string
  hub_clients :: "client list"
  hub_registered :: "nat list"

definition new_client :: "nat \<Rightarrow> string \<Rightarrow> client" where
  "new_client k stream =
     \<lparr>cl_key = k, cl_topics = [], cl_send = [], cl_done = False, cl_stream = stream, cl_sequence = 0,
      cl_written = []\<rparr>"

definition topic_list :: "client \<Rightarrow> string list" where
  "topic_list c = sort (cl_topics c)"

definition subscribe :: "string list \<Rightarrow> client \<Rightarrow> client \<times> string list res" where
  "subscribe ts c =
     (let additional = filter (\<lambda>t. t \<notin> set (cl_topics c)) (remdups ts)
      in if length (cl_topics c) + length additional > max_topics
         then (c, Inl (Errf ''at most %d subscriptions are allowed'' [itoa max_topics]))
         else let c' = c\<lparr>cl_topics := set_add_all ts (cl_topics c)\<rparr> in (c', Inr (topic_list c')))"

definition unsubscribe :: "string list \<Rightarrow> client \<Rightarrow> client \<times> string list" where
  "unsubscribe ts c =
     (let c' = c\<lparr>cl_topics := filter (\<lambda>t. t \<notin> set ts) (cl_topics c)\<rparr> in (c', topic_list c'))"

definition client_matches :: "client \<Rightarrow> string \<Rightarrow> bool" where
  "client_matches c t =
     (if t = [] then False
      else if has_prefix t ''core.'' then True
      else list_ex (\<lambda>topic. topic_matches topic t) (cl_topics c))"

text \<open>
  \<open>deliver\<close> never waits.  With the connection closed and room in the buffer both cases of the
  \<open>select\<close> are ready and \<open>pick\<close> says which one it takes.
\<close>

definition deliver :: "bool \<Rightarrow> event_message \<Rightarrow> client \<Rightarrow> client \<times> bool" where
  "deliver pick m c =
     (let room = (length (cl_send c) < send_buffer)
      in if cl_done c \<and> \<not> (room \<and> pick) then (c, False)
         else if room then (c\<lparr>cl_send := cl_send c @ [m]\<rparr>, True)
         else (c, False))"

definition close_client :: "client \<Rightarrow> client" where
  "close_client c = c\<lparr>cl_done := True\<rparr>"

section \<open>The hub\<close>

definition get_client :: "nat \<Rightarrow> hub \<Rightarrow> client option" where
  "get_client k h = select_key cl_key k (hub_clients h)"

definition put_client :: "client \<Rightarrow> hub \<Rightarrow> hub" where
  "put_client c h = h\<lparr>hub_clients := update_where (\<lambda>d. cl_key d = cl_key c) (\<lambda>_. c) (hub_clients h)\<rparr>"

definition hub_add :: "nat \<Rightarrow> hub \<Rightarrow> hub" where
  "hub_add k h = h\<lparr>hub_registered := set_add k (hub_registered h)\<rparr>"

definition hub_remove :: "nat \<Rightarrow> hub \<Rightarrow> hub" where
  "hub_remove k h =
     h\<lparr>hub_registered := filter (\<lambda>j. j \<noteq> k) (hub_registered h),
       hub_clients := update_where (\<lambda>d. cl_key d = k) close_client (hub_clients h)\<rparr>"

definition deliver_to :: "(nat \<Rightarrow> bool) \<Rightarrow> event_message \<Rightarrow> nat \<Rightarrow> hub \<Rightarrow> hub" where
  "deliver_to pick m k h =
     (case get_client k h of
        None \<Rightarrow> h
      | Some c \<Rightarrow>
          if client_matches c (msg_type m)
          then (case deliver (pick k) m c of
                  (c', ok) \<Rightarrow> (let h' = put_client c' h in if ok then h' else hub_remove k h'))
          else h)"

text \<open>\<open>order\<close> is the snapshot of the registered clients in the order the map is iterated.\<close>

definition publish_event :: "(nat \<Rightarrow> bool) \<Rightarrow> nat list \<Rightarrow> event_message \<Rightarrow> hub \<Rightarrow> hub" where
  "publish_event pick order m h = fold (deliver_to pick m) order h"

definition new_message :: "hub \<Rightarrow> string \<Rightarrow> gotime \<Rightarrow> string \<Rightarrow> json \<Rightarrow> string \<Rightarrow> event_message" where
  "new_message h i now t data req =
     \<lparr>msg_id = i, msg_cursor = 0, msg_type = t, msg_time = now, msg_node = hub_node h,
      msg_component = ''core'', msg_request_id = req, msg_data = data\<rparr>"

definition hub_publish ::
  "(nat \<Rightarrow> bool) \<Rightarrow> nat list \<Rightarrow> string \<Rightarrow> gotime \<Rightarrow> string \<Rightarrow> json \<Rightarrow> string \<Rightarrow> hub \<Rightarrow> hub" where
  "hub_publish pick order i now t data req h = publish_event pick order (new_message h i now t data req) h"

section \<open>A connection\<close>

text \<open>\<open>writeMessage\<close>: the sequence number is spent even when the write fails.\<close>

definition make_envelope :: "client \<Rightarrow> event_message \<Rightarrow> client \<times> envelope" where
  "make_envelope c m =
     (let c' = c\<lparr>cl_sequence := cl_sequence c + 1\<rparr>
      in (c', \<lparr>env_version = 1, env_stream = cl_stream c', env_sequence = cl_sequence c', env_message = m\<rparr>))"

definition write_message :: "bool \<Rightarrow> event_message \<Rightarrow> client \<Rightarrow> client" where
  "write_message ok m c =
     (case make_envelope c m of
        (c', e) \<Rightarrow> if ok then c'\<lparr>cl_written := cl_written c' @ [e]\<rparr> else c')"

record command =
  cmd_op :: string
  cmd_topics :: "string list"

definition command_reply :: "command \<Rightarrow> client \<Rightarrow> client \<times> string \<times> json" where
  "command_reply cmd c =
     (let (c', r) =
        (if cmd_op cmd = ''subscribe'' then
           (case validate_topics (cmd_topics cmd) of
              Some e \<Rightarrow> (c, Inl e) | None \<Rightarrow> subscribe (cmd_topics cmd) c)
         else if cmd_op cmd = ''unsubscribe'' then
           (case validate_topics (cmd_topics cmd) of
              Some e \<Rightarrow> (c, Inl e) | None \<Rightarrow> (case unsubscribe (cmd_topics cmd) c of (c', ts) \<Rightarrow> (c', Inr ts)))
         else (c, Inl (Err ''unsupported operation'')))
      in case r of
           Inl e \<Rightarrow> (c', ''core.error'',
             JObj [(''code'', JStr ''invalid_control_message''), (''message'', JStr (error_text e))])
         | Inr ts \<Rightarrow> (c', ''core.subscription.updated'', JObj [(''topics'', JArr (map JStr ts))]))"

text \<open>
  The policy of a connection: \<open>pol_authenticate\<close> says whether there is one, and what it
  accepts is the actor the check returned; the allowed events are those of that actor.
\<close>

record access_policy =
  pol_authenticate :: bool
  pol_allows :: "(actor \<Rightarrow> string \<Rightarrow> json \<Rightarrow> bool) option"

definition no_policy :: access_policy where
  "no_policy = \<lparr>pol_authenticate = False, pol_allows = None\<rparr>"

definition api_policy :: access_policy where
  "api_policy = \<lparr>pol_authenticate = True, pol_allows = Some actor_allows_event\<rparr>"

text \<open>\<open>Authenticate\<close> of the API: the session's actor must have the permission \<open>events.read\<close>.\<close>

definition api_authenticate :: "actor res \<Rightarrow> actor option" where
  "api_authenticate r =
     (case r of Inl _ \<Rightarrow> None | Inr a \<Rightarrow> if actor_has a ''events.read'' then Some a else None)"

record connection =
  con_client :: nat
  con_actor :: actor
  con_request :: string

text \<open>What the loop may select, with the answer of the authentication and of the write.\<close>

datatype loop_event =
    ContextDone
  | ClientDone
  | ReadError
  | AuthTick "actor option"
  | CommandIn "actor option" command string gotime bool
  | MessageOut "actor option" bool
  | Heartbeat string gotime bool

definition check_auth :: "access_policy \<Rightarrow> actor option \<Rightarrow> connection \<Rightarrow> connection option" where
  "check_auth p r con =
     (if \<not> pol_authenticate p then Some con
      else map_option (\<lambda>a. con\<lparr>con_actor := a\<rparr>) r)"

definition end_connection :: "connection \<Rightarrow> hub \<Rightarrow> hub \<times> connection option" where
  "end_connection con h = (hub_remove (con_client con) h, None)"

definition go_on :: "bool \<Rightarrow> connection \<Rightarrow> hub \<Rightarrow> hub \<times> connection option" where
  "go_on ok con h = (if ok then (h, Some con) else end_connection con h)"

text \<open>The first message, then the registration; then one turn of the loop after another.\<close>

definition open_connection ::
  "nat \<Rightarrow> string \<Rightarrow> string \<Rightarrow> gotime \<Rightarrow> nat \<Rightarrow> string \<Rightarrow> actor \<Rightarrow> bool \<Rightarrow> hub \<Rightarrow> hub \<times> connection option" where
  "open_connection k stream i now beat req a ok h =
     (let con = \<lparr>con_client = k, con_actor = a, con_request = req\<rparr>;
          m = new_message h i now ''core.connected''
            (JObj [(''protocol_version'', JNum 1), (''heartbeat_seconds'', JNum (int beat)), (''subscriptions'', JArr [])]) req;
          c = write_message ok m (new_client k stream);
          h' = h\<lparr>hub_clients := hub_clients h @ [c]\<rparr>
      in if ok then (hub_add k h', Some con) else end_connection con h')"

fun loop_turn :: "access_policy \<Rightarrow> loop_event \<Rightarrow> connection \<Rightarrow> client \<Rightarrow> hub \<Rightarrow> hub \<times> connection option" where
  "loop_turn p ContextDone con c h = end_connection con h"
| "loop_turn p ClientDone con c h = (if cl_done c then end_connection con h else (h, Some con))"
| "loop_turn p ReadError con c h = end_connection con h"
| "loop_turn p (AuthTick r) con c h =
     (case check_auth p r con of None \<Rightarrow> end_connection con h | Some con' \<Rightarrow> (h, Some con'))"
| "loop_turn p (CommandIn r cmd i now ok) con c h =
     (case check_auth p r con of
        None \<Rightarrow> end_connection con h
      | Some con' \<Rightarrow>
          (case command_reply cmd c of
             (c', t, data) \<Rightarrow>
               go_on ok con' (put_client (write_message ok (new_message h i now t data (con_request con')) c') h)))"
| "loop_turn p (MessageOut r ok) con c h =
     (case cl_send c of
        [] \<Rightarrow> (h, Some con)
      | m # rest \<Rightarrow>
          (let c1 = c\<lparr>cl_send := rest\<rparr>
           in case check_auth p r con of
                None \<Rightarrow> end_connection con (put_client c1 h)
              | Some con' \<Rightarrow>
                  (if (case pol_allows p of None \<Rightarrow> False | Some f \<Rightarrow> \<not> f (con_actor con') (msg_type m) (msg_data m))
                   then (put_client c1 h, Some con')
                   else go_on ok con' (put_client (write_message ok m c1) h))))"
| "loop_turn p (Heartbeat i now ok) con c h =
     go_on ok con (put_client (write_message ok
        (new_message h i now ''core.heartbeat'' (JObj [(''time'', JNum (int now))]) (con_request con)) c) h)"

definition connection_step :: "access_policy \<Rightarrow> loop_event \<Rightarrow> connection \<Rightarrow> hub \<Rightarrow> hub \<times> connection option" where
  "connection_step p ev con h =
     (case get_client (con_client con) h of
        None \<Rightarrow> (h, None)
      | Some c \<Rightarrow> loop_turn p ev con c h)"

section \<open>Publishing (events/service.go)\<close>

record event_input =
  in_type :: string
  in_component :: string
  in_actor_type :: string
  in_actor_id :: string
  in_request_id :: string
  in_correlation_id :: string
  in_job_id :: string
  in_data :: json

record bus =
  bus_node :: string
  bus_log :: event_log
  bus_hub :: hub

definition default_component :: "string \<Rightarrow> string" where
  "default_component v = (if v = [] then ''core'' else v)"

definition input_record :: "string \<Rightarrow> string \<Rightarrow> gotime \<Rightarrow> event_input \<Rightarrow> event_record" where
  "input_record node i now e =
     \<lparr>ev_cursor = 0, ev_id = i, ev_node = node, ev_component = default_component (in_component e),
      ev_type = in_type e, ev_actor_type = in_actor_type e, ev_actor_id = in_actor_id e,
      ev_request_id = in_request_id e, ev_correlation_id = in_correlation_id e, ev_job_id = in_job_id e,
      ev_occurred_at = now, ev_data = in_data e\<rparr>"

definition message_of :: "event_record \<Rightarrow> event_message" where
  "message_of r =
     \<lparr>msg_id = ev_id r, msg_cursor = ev_cursor r, msg_type = ev_type r, msg_time = ev_occurred_at r,
      msg_node = ev_node r, msg_component = ev_component r, msg_request_id = ev_request_id r, msg_data = ev_data r\<rparr>"

text \<open>\<open>Publish\<close> appends and then hands the record to the hub; other publishers may come in between.\<close>

definition publish_append ::
  "(string \<Rightarrow> bool) \<Rightarrow> string \<Rightarrow> gotime \<Rightarrow> event_input \<Rightarrow> bus \<Rightarrow> bus \<times> event_record res" where
  "publish_append job_exists i now e b =
     (case append_event job_exists (input_record (bus_node b) i now e) (bus_log b) of
        Inl err \<Rightarrow> (b, Inl err)
      | Inr (l, r) \<Rightarrow> (b\<lparr>bus_log := l\<rparr>, Inr r))"

definition publish_deliver :: "(nat \<Rightarrow> bool) \<Rightarrow> nat list \<Rightarrow> event_record \<Rightarrow> bus \<Rightarrow> bus" where
  "publish_deliver pick order r b = b\<lparr>bus_hub := publish_event pick order (message_of r) (bus_hub b)\<rparr>"

definition publish ::
  "(string \<Rightarrow> bool) \<Rightarrow> (nat \<Rightarrow> bool) \<Rightarrow> nat list \<Rightarrow> string \<Rightarrow> gotime \<Rightarrow> event_input \<Rightarrow> bus \<Rightarrow> bus \<times> event_record res" where
  "publish job_exists pick order i now e b =
     (case publish_append job_exists i now e b of
        (b', Inl err) \<Rightarrow> (b', Inl err)
      | (b', Inr r) \<Rightarrow> (publish_deliver pick order r b', Inr r))"

section \<open>The system of connections\<close>

text \<open>
  The open connections and the hub.  A delivery is a step of its own for each client, so the steps
  of concurrent publishers, and of publishers and connections, interleave freely; a delivery to a
  client that has left the hub since the publisher took its snapshot is one of them.
\<close>

record realtime =
  rt_hub :: hub
  rt_connections :: "connection list"

datatype rt_op =
    OpenConnection nat string string gotime nat string actor bool
  | Turn nat loop_event
  | DeliverTo bool event_message nat

fun rt_step :: "access_policy \<Rightarrow> rt_op \<Rightarrow> realtime \<Rightarrow> realtime" where
  "rt_step p (OpenConnection k stream i now beat req a ok) s =
     (if get_client k (rt_hub s) \<noteq> None then s
      else case open_connection k stream i now beat req a ok (rt_hub s) of
             (h, con) \<Rightarrow> s\<lparr>rt_hub := h, rt_connections := rt_connections s @ (case con of None \<Rightarrow> [] | Some c \<Rightarrow> [c])\<rparr>)"
| "rt_step p (Turn k ev) s =
     (case select_key con_client k (rt_connections s) of
        None \<Rightarrow> s
      | Some con \<Rightarrow>
          (case connection_step p ev con (rt_hub s) of
             (h, r) \<Rightarrow> s\<lparr>rt_hub := h,
               rt_connections := (case r of
                  None \<Rightarrow> delete_where (\<lambda>c. con_client c = k) (rt_connections s)
                | Some con' \<Rightarrow> update_where (\<lambda>c. con_client c = k) (\<lambda>_. con') (rt_connections s))\<rparr>))"
| "rt_step p (DeliverTo pick m k) s = s\<lparr>rt_hub := deliver_to (\<lambda>_. pick) m k (rt_hub s)\<rparr>"

definition empty_realtime :: "string \<Rightarrow> realtime" where
  "empty_realtime node = \<lparr>rt_hub = \<lparr>hub_node = node, hub_clients = [], hub_registered = []\<rparr>, rt_connections = []\<rparr>"

text \<open>An authenticated actor in an event is one the API accepts.\<close>

fun event_actor :: "loop_event \<Rightarrow> actor option" where
  "event_actor (AuthTick r) = r"
| "event_actor (CommandIn r _ _ _ _) = r"
| "event_actor (MessageOut r _) = r"
| "event_actor _ = None"

fun op_authentic :: "rt_op \<Rightarrow> bool" where
  "op_authentic (Turn k ev) = (case event_actor ev of None \<Rightarrow> True | Some a \<Rightarrow> actor_has a ''events.read'')"
| "op_authentic _ = True"

lemma api_authenticate_events_read: "api_authenticate r = Some a \<Longrightarrow> actor_has a ''events.read''"
  by (auto simp: api_authenticate_def split: sum.splits if_splits)

section \<open>Lemmas\<close>

text \<open>What may be written to the API's clients.\<close>

definition may_see :: "string \<Rightarrow> json \<Rightarrow> bool" where
  "may_see t d =
     (has_prefix t ''core.'' \<or> (\<exists>a. actor_has a ''events.read'' \<and> actor_allows_event a t d))"

definition sequence_ok :: "client \<Rightarrow> bool" where
  "sequence_ok c =
     (map env_sequence (cl_written c) = map (\<lambda>i. of_nat (Suc i)) [0..<length (cl_written c)] \<and>
      (\<forall>e\<in>set (cl_written c). env_stream e = cl_stream c))"

definition topics_ok :: "client \<Rightarrow> bool" where
  "topics_ok c =
     (distinct (cl_topics c) \<and> length (cl_topics c) \<le> max_topics \<and>
      (\<forall>t\<in>set (cl_topics c). validate_topic t = None))"

definition written_ok :: "client \<Rightarrow> bool" where
  "written_ok c = (\<forall>e\<in>set (cl_written c). may_see (msg_type (env_message e)) (msg_data (env_message e)))"

definition client_ok :: "bool \<Rightarrow> client \<Rightarrow> bool" where
  "client_ok live c =
     (topics_ok c \<and> length (cl_send c) \<le> send_buffer \<and> sequence_ok c \<and> written_ok c \<and>
      (live \<longrightarrow> cl_sequence c = of_nat (length (cl_written c))))"

lemma client_ok_weaken: "client_ok True c \<Longrightarrow> client_ok live c"
  by (simp add: client_ok_def)

lemma client_ok_dead: "client_ok live c \<Longrightarrow> client_ok False c"
  by (simp add: client_ok_def)

lemma close_client_ok [simp]: "client_ok live (close_client c) = client_ok live c" "cl_key (close_client c) = cl_key c"
  by (simp_all add: client_ok_def close_client_def topics_ok_def sequence_ok_def written_ok_def)

lemma new_client_ok: "client_ok True (new_client k s)"
  by (simp add: client_ok_def new_client_def topics_ok_def sequence_ok_def written_ok_def)

lemma deliver_ok: "client_ok live c \<Longrightarrow> client_ok live (fst (deliver pick m c))"
  "cl_key (fst (deliver pick m c)) = cl_key c"
  by (auto simp: deliver_def Let_def client_ok_def topics_ok_def sequence_ok_def written_ok_def)

lemma write_message_key [simp]: "cl_key (write_message ok m c) = cl_key c"
  by (simp add: write_message_def make_envelope_def Let_def)

lemma write_message_ok:
  assumes "client_ok True c" "may_see (msg_type m) (msg_data m)"
  shows "client_ok ok (write_message ok m c)"
  using assms
  by (simp add: client_ok_def write_message_def make_envelope_def Let_def topics_ok_def sequence_ok_def
      written_ok_def)

lemma set_add_all_length:
  assumes "distinct xs"
  shows "length (set_add_all ts xs) = length xs + length (filter (\<lambda>t. t \<notin> set xs) (remdups ts))"
proof -
  have "length (set_add_all ts xs) = card (set ts \<union> set xs)"
    using distinct_card [of "set_add_all ts xs"] assms by simp
  also have "\<dots> = card (set xs) + card (set ts - set xs)"
    by (subst Un_commute) (simp add: card_Un_disjoint [symmetric])
  also have "card (set ts - set xs) = length (filter (\<lambda>t. t \<notin> set xs) (remdups ts))"
  proof -
    have "set (filter (\<lambda>t. t \<notin> set xs) (remdups ts)) = set ts - set xs" by auto
    then show ?thesis by (metis distinct_card distinct_filter distinct_remdups)
  qed
  finally show ?thesis using distinct_card [OF assms] by simp
qed

lemma subscribe_ok:
  assumes "client_ok live c" "validate_topics ts = None"
  shows "client_ok live (fst (subscribe ts c)) \<and> cl_key (fst (subscribe ts c)) = cl_key c"
proof -
  have v: "\<forall>t\<in>set ts. validate_topic t = None"
    using assms(2) by (auto simp: validate_topics_def first_error_None_iff split: if_splits)
  show ?thesis
    using assms(1) v
    by (auto simp: subscribe_def Let_def client_ok_def topics_ok_def sequence_ok_def written_ok_def
        set_add_all_length not_less)
qed

lemma unsubscribe_ok:
  "client_ok live c \<Longrightarrow> client_ok live (fst (unsubscribe ts c))" "cl_key (fst (unsubscribe ts c)) = cl_key c"
  by (auto simp: unsubscribe_def Let_def client_ok_def topics_ok_def sequence_ok_def written_ok_def
      intro: le_trans [OF length_filter_le])

lemma command_reply_ok:
  assumes "client_ok live c" "command_reply cmd c = (c', t, data)"
  shows "client_ok live c' \<and> cl_key c' = cl_key c \<and> has_prefix t ''core.''"
  using assms subscribe_ok [OF assms(1), of "cmd_topics cmd"] unsubscribe_ok(1) [OF assms(1), of "cmd_topics cmd"]
    unsubscribe_ok(2) [of "cmd_topics cmd" c]
  by (auto simp: command_reply_def Let_def has_prefix_def split: if_splits option.splits sum.splits prod.splits)

text \<open>A hub all of whose clients are coherent; \<open>L\<close> are the keys of the open connections.\<close>

definition hub_ok :: "nat set \<Rightarrow> hub \<Rightarrow> bool" where
  "hub_ok L h =
     (unique_key cl_key (hub_clients h) \<and> L \<subseteq> cl_key ` set (hub_clients h) \<and>
      (\<forall>c\<in>set (hub_clients h). client_ok (cl_key c \<in> L) c))"

lemma get_client_Some: "get_client k h = Some c \<Longrightarrow> c \<in> set (hub_clients h) \<and> cl_key c = k"
  unfolding get_client_def by (rule select_key_Some)

lemma get_client_key: "get_client k h = Some c \<Longrightarrow> k \<in> cl_key ` set (hub_clients h)"
  using get_client_Some by (metis imageI)

lemma hub_ok_subset:
  assumes "hub_ok L h" "K \<subseteq> L"
  shows "hub_ok K h"
proof -
  have "client_ok (cl_key c \<in> K) c" if "client_ok (cl_key c \<in> L) c" for c
    using that assms(2) by (cases "cl_key c \<in> L") (auto simp: client_ok_def)
  then show ?thesis using assms unfolding hub_ok_def by blast
qed

lemma put_client_ok:
  assumes "hub_ok L h" "cl_key c \<in> cl_key ` set (hub_clients h)" "client_ok (cl_key c \<in> L) c"
  shows "hub_ok L (put_client c h)"
proof -
  have keys: "map cl_key (hub_clients (put_client c h)) = map cl_key (hub_clients h)"
    by (auto simp: put_client_def update_where_def)
  have "cl_key ` set (hub_clients (put_client c h)) = cl_key ` set (hub_clients h)"
    using keys by (metis list.set_map)
  moreover have "\<forall>d\<in>set (hub_clients (put_client c h)). client_ok (cl_key d \<in> L) d"
    using assms(1,3) by (auto simp: put_client_def update_where_def hub_ok_def)
  ultimately show ?thesis using assms(1) keys by (simp add: hub_ok_def unique_key_def)
qed

lemma hub_remove_ok:
  assumes "hub_ok L h"
  shows "hub_ok (L - {k}) (hub_remove k h)"
proof -
  have keys: "map cl_key (hub_clients (hub_remove k h)) = map cl_key (hub_clients h)"
    by (simp add: hub_remove_def map_update_where)
  have "cl_key ` set (hub_clients (hub_remove k h)) = cl_key ` set (hub_clients h)"
    using keys by (metis list.set_map)
  moreover have "\<forall>d\<in>set (hub_clients (hub_remove k h)). client_ok (cl_key d \<in> L - {k}) d"
  proof
    fix d
    assume "d \<in> set (hub_clients (hub_remove k h))"
    then obtain c where c: "c \<in> set (hub_clients h)" "d = (if cl_key c = k then close_client c else c)"
      unfolding hub_remove_def by (auto simp: update_where_def)
    then have ok: "client_ok (cl_key c \<in> L) c" using assms by (simp add: hub_ok_def)
    then show "client_ok (cl_key d \<in> L - {k}) d"
      using c(2) client_ok_dead [OF ok] by (cases "cl_key c = k") simp_all
  qed
  ultimately show ?thesis using assms keys by (auto simp: hub_ok_def unique_key_def)
qed

lemma hub_remove_ok_same:
  assumes "hub_ok L h"
  shows "hub_ok L (hub_remove k h)"
proof -
  have keys: "map cl_key (hub_clients (hub_remove k h)) = map cl_key (hub_clients h)"
    by (simp add: hub_remove_def map_update_where)
  have "cl_key ` set (hub_clients (hub_remove k h)) = cl_key ` set (hub_clients h)"
    using keys by (metis list.set_map)
  moreover have "\<forall>d\<in>set (hub_clients (hub_remove k h)). client_ok (cl_key d \<in> L) d"
    using assms by (auto simp: hub_remove_def update_where_def hub_ok_def)
  ultimately show ?thesis using assms keys by (simp add: hub_ok_def unique_key_def)
qed

lemma deliver_to_ok:
  assumes "hub_ok L h"
  shows "hub_ok L (deliver_to pick m k h)"
proof (cases "get_client k h")
  case (Some c)
  note c = get_client_Some [OF Some]
  have ok: "client_ok (cl_key c \<in> L) c" using assms c unfolding hub_ok_def by metis
  let ?d = "fst (deliver (pick k) m c)"
  have key: "cl_key ?d = cl_key c" by (rule deliver_ok(2))
  have "client_ok (cl_key ?d \<in> L) ?d" unfolding key by (rule deliver_ok(1) [OF ok])
  then have put: "hub_ok L (put_client ?d h)"
    using assms c key by (intro put_client_ok) auto
  then show ?thesis
    using assms hub_remove_ok_same by (auto simp: deliver_to_def Some Let_def split: prod.split)
qed (simp add: deliver_to_def assms)

lemma put_live_ok:
  assumes "hub_ok L h" "get_client k h = Some c" "cl_key d = k" "client_ok True d"
  shows "hub_ok L (put_client d h)"
proof (rule put_client_ok [OF assms(1)])
  show "cl_key d \<in> cl_key ` set (hub_clients h)" unfolding assms(3) by (rule get_client_key [OF assms(2)])
qed (rule client_ok_weaken [OF assms(4)])

text \<open>One turn of the loop of an open connection: it stays open and coherent, or it is closed.\<close>

definition turn_ok :: "nat set \<Rightarrow> nat \<Rightarrow> hub \<times> connection option \<Rightarrow> bool" where
  "turn_ok L k r =
     (case r of
        (h, None) \<Rightarrow> hub_ok (L - {k}) h
      | (h, Some con) \<Rightarrow> hub_ok L h \<and> con_client con = k)"

lemma end_connection_ok: "hub_ok L h \<Longrightarrow> turn_ok L (con_client con) (end_connection con h)"
  by (simp add: turn_ok_def end_connection_def hub_remove_ok)

lemma put_closed_ok:
  assumes "hub_ok L h" "cl_key d \<in> cl_key ` set (hub_clients h)" "client_ok False d"
  shows "hub_ok (L - {cl_key d}) (hub_remove (cl_key d) (put_client d h))"
proof -
  have "hub_ok (L - {cl_key d}) h"
    by (rule hub_ok_subset [OF assms(1)]) blast
  then have "hub_ok (L - {cl_key d}) (put_client d h)"
    using assms(2,3) by (intro put_client_ok) auto
  then show ?thesis by (rule hub_remove_ok_same)
qed

lemma go_on_ok:
  assumes h: "hub_ok L h" and c: "get_client (con_client con) h = Some c"
    and d: "cl_key d = cl_key c" "client_ok True d" and m: "may_see (msg_type m) (msg_data m)"
    and con': "con_client con' = con_client con"
  shows "turn_ok L (con_client con) (go_on ok con' (put_client (write_message ok m d) h))"
proof -
  note k = get_client_Some [OF c]
  have w: "client_ok ok (write_message ok m d)" by (rule write_message_ok [OF d(2) m])
  show ?thesis
  proof (cases ok)
    case True
    then have "hub_ok L (put_client (write_message ok m d) h)"
      using w k d(1) by (intro put_live_ok [OF h c]) simp_all
    with True show ?thesis by (simp add: go_on_def turn_ok_def con')
  next
    case False
    have "hub_ok (L - {cl_key (write_message ok m d)})
        (hub_remove (cl_key (write_message ok m d)) (put_client (write_message ok m d) h))"
      using w False k d(1) get_client_key [OF c] by (intro put_closed_ok [OF h]) simp_all
    with False show ?thesis using k d(1) by (simp add: go_on_def end_connection_def turn_ok_def con')
  qed
qed

lemma new_message_core [simp]:
  "msg_type (new_message h i now t data req) = t" "msg_data (new_message h i now t data req) = data"
  by (simp_all add: new_message_def)

lemma check_auth_client: "check_auth p r con = Some con' \<Longrightarrow> con_client con' = con_client con"
  by (auto simp: check_auth_def split: if_splits)

lemma loop_turn_ok:
  assumes h: "hub_ok L h" and c: "get_client (con_client con) h = Some c" and live: "con_client con \<in> L"
    and auth: "case event_actor ev of None \<Rightarrow> True | Some a \<Rightarrow> actor_has a ''events.read''"
  shows "turn_ok L (con_client con) (loop_turn api_policy ev con c h)"
proof -
  note k = get_client_Some [OF c]
  have ok: "client_ok True c" using h k live unfolding hub_ok_def by metis
  have stay: "turn_ok L (con_client con) (h, Some con)" by (simp add: turn_ok_def h)
  have core: "may_see (''core.'' @ t) d" for t d
    by (simp only: may_see_def has_prefix_append simp_thms)
  show ?thesis
  proof (cases ev)
    case (AuthTick r)
    then show ?thesis
      using h end_connection_ok [OF h, of con]
      by (auto simp: turn_ok_def check_auth_client split: option.split)
  next
    case (CommandIn r cmd i now okw)
    obtain c' t data where rep: "command_reply cmd c = (c', t, data)" by (metis prod_cases3)
    note cr = command_reply_ok [OF ok rep]
    have see: "may_see (msg_type (new_message h i now t data q)) (msg_data (new_message h i now t data q))" for q
      using cr by (simp add: may_see_def)
    show ?thesis
      unfolding CommandIn loop_turn.simps rep prod.case
      using end_connection_ok [OF h, of con] cr
      by (auto split: option.split intro: go_on_ok [OF h c _ _ see check_auth_client])
  next
    case (MessageOut r okw)
    show ?thesis
    proof (cases "cl_send c")
      case Nil
      with stay show ?thesis by (simp add: MessageOut)
    next
      case (Cons m rest)
      let ?c = "c\<lparr>cl_send := rest\<rparr>"
      have c1: "client_ok True ?c" using ok Cons by (simp add: client_ok_def topics_ok_def sequence_ok_def written_ok_def)
      have put: "hub_ok L (put_client ?c h)" using k c1 by (intro put_live_ok [OF h c]) simp_all
      show ?thesis
      proof (cases "check_auth api_policy r con")
        case None
        then show ?thesis using end_connection_ok [OF put, of con] by (simp add: MessageOut Cons)
      next
        case (Some con')
        then obtain a where a: "r = Some a" "con' = con\<lparr>con_actor := a\<rparr>"
          by (auto simp: check_auth_def api_policy_def)
        have "actor_has a ''events.read''" using auth a by (simp add: MessageOut)
        then have see: "actor_allows_event a (msg_type m) (msg_data m) \<Longrightarrow> may_see (msg_type m) (msg_data m)"
          unfolding may_see_def by blast
        have go: "may_see (msg_type m) (msg_data m) \<Longrightarrow>
            turn_ok L (con_client con) (go_on okw con' (put_client (write_message okw m ?c) h))"
          by (rule go_on_ok [OF h c _ c1]) (simp_all add: a)
        have keep: "turn_ok L (con_client con) (put_client ?c h, Some con')"
          using put by (simp add: turn_ok_def a)
        have pol: "pol_allows api_policy = Some actor_allows_event" by (simp add: api_policy_def)
        have act: "con_actor con' = a" by (simp add: a)
        show ?thesis
          unfolding MessageOut loop_turn.simps Cons list.case Let_def Some option.case pol act
          using go see keep by simp
      qed
    qed
  next
    case (Heartbeat i now okw)
    have see: "may_see (msg_type (new_message h i now ''core.heartbeat'' d q)) (msg_data (new_message h i now ''core.heartbeat'' d q))" for d q
      using core [of "''heartbeat''"] by simp
    show ?thesis unfolding Heartbeat loop_turn.simps
      by (rule go_on_ok [OF h c refl ok see refl])
  qed (use end_connection_ok [OF h, of con] stay in auto)
qed

text \<open>The whole system.\<close>

definition rt_ok :: "realtime \<Rightarrow> bool" where
  "rt_ok s =
     (unique_key con_client (rt_connections s) \<and> hub_ok (con_client ` set (rt_connections s)) (rt_hub s))"

lemma open_ok:
  assumes "hub_ok L h" "get_client k h = None" "open_connection k st i now beat q a ok h = (h', r)"
  shows "case r of None \<Rightarrow> hub_ok L h' | Some con \<Rightarrow> con_client con = k \<and> hub_ok (insert k L) h'"
proof -
  let ?m = "new_message h i now ''core.connected''
            (JObj [(''protocol_version'', JNum 1), (''heartbeat_seconds'', JNum (int beat)), (''subscriptions'', JArr [])]) q"
  let ?c = "write_message ok ?m (new_client k st)"
  let ?h = "h\<lparr>hub_clients := hub_clients h @ [?c]\<rparr>"
  have see: "may_see (msg_type ?m) (msg_data ?m)" by (simp add: may_see_def has_prefix_def)
  have c: "client_ok ok ?c" by (rule write_message_ok [OF new_client_ok see])
  have key: "cl_key ?c = k" by (simp add: new_client_def)
  have fresh: "k \<notin> cl_key ` set (hub_clients h)"
    using assms(2) by (simp add: get_client_def select_key_None_iff)
  have uniq: "unique_key cl_key (hub_clients ?h)"
    using assms(1) fresh key by (simp add: hub_ok_def unique_key_def)
  have each: "client_ok (cl_key d \<in> insert k L) d" if "d \<in> set (hub_clients h)" for d
  proof -
    have "cl_key d \<noteq> k" using that fresh by blast
    then show ?thesis using that assms(1) by (simp add: hub_ok_def)
  qed
  show ?thesis
  proof (cases ok)
    case True
    have r: "r = Some \<lparr>con_client = k, con_actor = a, con_request = q\<rparr>" "h' = hub_add k ?h"
      using assms(3) True by (simp_all add: open_connection_def Let_def)
    have "client_ok (cl_key d \<in> insert k L) d" if "d \<in> set (hub_clients ?h)" for d
      using that each c True key by (auto intro: client_ok_weaken)
    then have "hub_ok (insert k L) (hub_add k ?h)"
      using uniq assms(1) key by (auto simp: hub_ok_def hub_add_def)
    then show ?thesis by (simp add: r)
  next
    case False
    have r: "r = None" "h' = hub_remove k ?h"
      using assms(3) False by (simp_all add: open_connection_def Let_def end_connection_def)
    have sub: "k \<notin> L" using assms(1) fresh by (auto simp: hub_ok_def)
    have "client_ok (cl_key d \<in> L) d" if "d \<in> set (hub_clients ?h)" for d
      using that each c False key sub assms(1) by (auto simp: hub_ok_def)
    then have "hub_ok L ?h" using uniq assms(1) by (auto simp: hub_ok_def)
    then show ?thesis using hub_remove_ok_same by (simp add: r)
  qed
qed

lemma rt_step_ok:
  assumes "rt_ok s" "op_authentic op"
  shows "rt_ok (rt_step api_policy op s)"
proof (cases op)
  case (OpenConnection k st i now beat q a ok)
  show ?thesis
  proof (cases "get_client k (rt_hub s)")
    case None
    obtain h r where o: "open_connection k st i now beat q a ok (rt_hub s) = (h, r)" by fastforce
    have hub: "hub_ok (con_client ` set (rt_connections s)) (rt_hub s)" using assms(1) by (simp add: rt_ok_def)
    have "k \<notin> con_client ` set (rt_connections s)"
      using hub None by (auto simp: hub_ok_def get_client_def select_key_None_iff)
    then show ?thesis
      using open_ok [OF hub None o] assms(1)
      by (auto simp: OpenConnection None o rt_ok_def unique_key_def split: option.splits)
  next
    case (Some c)
    then show ?thesis using assms(1) by (simp add: OpenConnection)
  qed
next
  case (Turn k ev)
  show ?thesis
  proof (cases "select_key con_client k (rt_connections s)")
    case None
    then show ?thesis using assms(1) by (simp add: Turn)
  next
    case (Some con)
    let ?L = "con_client ` set (rt_connections s)"
    have con: "con \<in> set (rt_connections s)" "con_client con = k" using select_key_Some [OF Some] by simp_all
    have hub: "hub_ok ?L (rt_hub s)" and uniq: "unique_key con_client (rt_connections s)"
      using assms(1) by (simp_all add: rt_ok_def)
    have live: "con_client con \<in> ?L" using con by blast
    have "con_client con \<in> cl_key ` set (hub_clients (rt_hub s))" using hub live by (auto simp: hub_ok_def)
    then obtain c where c: "get_client (con_client con) (rt_hub s) = Some c"
      by (cases "get_client (con_client con) (rt_hub s)") (auto simp: get_client_def select_key_None_iff)
    have auth: "case event_actor ev of None \<Rightarrow> True | Some a \<Rightarrow> actor_has a ''events.read''"
      using assms(2) by (simp add: Turn)
    obtain h r where st: "connection_step api_policy ev con (rt_hub s) = (h, r)" by fastforce
    have t: "turn_ok ?L k (h, r)"
      using loop_turn_ok [OF hub c live auth] st c by (simp add: connection_step_def con(2))
    show ?thesis
    proof (cases r)
      case None
      have "con_client ` set (delete_where (\<lambda>c. con_client c = k) (rt_connections s)) = ?L - {k}"
        by (auto simp: delete_where_def)
      then show ?thesis
        using t None uniq by (simp add: Turn Some st rt_ok_def turn_ok_def unique_delete_where)
    next
      case (Some con')
      then have k': "con_client con' = k" and h: "hub_ok ?L h" using t by (simp_all add: turn_ok_def)
      have keys: "map con_client (update_where (\<lambda>c. con_client c = k) (\<lambda>_. con') (rt_connections s)) =
          map con_client (rt_connections s)"
        by (auto simp: update_where_def k')
      then have "con_client ` set (update_where (\<lambda>c. con_client c = k) (\<lambda>_. con') (rt_connections s)) = ?L"
        by (metis list.set_map)
      then show ?thesis
        using h uniq keys \<open>select_key con_client k (rt_connections s) = Some con\<close>
        by (simp add: Turn st Some rt_ok_def unique_key_def)
    qed
  qed
next
  case (DeliverTo pick m k)
  then show ?thesis using assms(1) deliver_to_ok by (simp add: rt_ok_def)
qed

lemma rt_steps_ok: "rt_ok s \<Longrightarrow> \<forall>op\<in>set ops. op_authentic op \<Longrightarrow> rt_ok (fold (rt_step api_policy) ops s)"
  by (induction ops arbitrary: s) (simp_all add: rt_step_ok)

lemma empty_rt_ok: "rt_ok (empty_realtime node)"
  by (simp add: rt_ok_def hub_ok_def empty_realtime_def unique_key_def)

text \<open>A delivery changes one client and its registration only.\<close>

definition after_delivery :: "bool \<Rightarrow> event_message \<Rightarrow> client \<Rightarrow> client" where
  "after_delivery pick m c =
     (if client_matches c (msg_type m)
      then (case deliver pick m c of (c', ok) \<Rightarrow> if ok then c' else close_client c') else c)"

lemma get_put_client:
  "get_client j (put_client d h) = (if j = cl_key d then map_option (\<lambda>_. d) (get_client j h) else get_client j h)"
proof -
  have "select_key cl_key j (update_where (\<lambda>e. cl_key e = cl_key d) (\<lambda>_. d) t) =
      (if j = cl_key d then map_option (\<lambda>_. d) (select_key cl_key j t) else select_key cl_key j t)" for t
    by (induction t) (auto simp: update_where_def select_key_Cons)
  then show ?thesis by (simp add: get_client_def put_client_def)
qed

lemma get_hub_remove:
  "get_client j (hub_remove k h) = (if j = k then map_option close_client (get_client j h) else get_client j h)"
proof -
  have "select_key cl_key j (update_where (\<lambda>e. cl_key e = k) close_client t) =
      (if j = k then map_option close_client (select_key cl_key j t) else select_key cl_key j t)" for t
    by (induction t) (auto simp: update_where_def select_key_Cons)
  then show ?thesis by (simp add: get_client_def hub_remove_def)
qed

lemma get_deliver_to:
  "get_client j (deliver_to pick m k h) =
     (if j = k then map_option (after_delivery (pick k) m) (get_client j h) else get_client j h)"
proof (cases "get_client k h")
  case (Some c)
  note key = get_client_Some [OF Some]
  have "cl_key (fst (deliver (pick k) m c)) = k" using deliver_ok(2) key by metis
  then show ?thesis
    by (auto simp: deliver_to_def Some after_delivery_def Let_def get_put_client get_hub_remove split: prod.split)
qed (auto simp: deliver_to_def)

section \<open>Properties\<close>


definition sample_rt_ops :: "rt_op list" where
  "sample_rt_ops =
     [OpenConnection 1 ''stream_1'' ''evt_a'' 1 30 ''req_1'' child_actor True,
      Turn 1 (CommandIn (Some child_actor) \<lparr>cmd_op = ''subscribe'', cmd_topics = [''job.*'']\<rparr> ''evt_b'' 2 True),
      DeliverTo True (message_of sample_event) 1,
      Turn 1 (MessageOut (Some child_actor) True)]"


text \<open>Publishing treats every client on its own: after the hub went over its snapshot of registered
  clients, each client is as if it alone had been given the event (buffered if it matches and there is
  room, dropped and closed if its buffer is full), so a slow or closed consumer neither delays nor
  changes what another receives.\<close>

theorem publish_isolated:
  assumes "distinct order"
  shows "get_client k (publish_event pick order m h) =
    (if k \<in> set order then map_option (after_delivery (pick k) m) (get_client k h) else get_client k h)"
  using assms unfolding publish_event_def
  by (induction order arbitrary: h) (auto simp: get_deliver_to)

theorem publish_isolated_witness:
  "map_option (\<lambda>c. length (cl_send c)) (get_client 1 (publish_event (\<lambda>_. True) [2, 1] (message_of sample_event)
     \<lparr>hub_node = [], hub_clients = [(new_client 1 ''s1'')\<lparr>cl_topics := [''*'']\<rparr>, close_client (new_client 2 ''s2'')],
      hub_registered = [1, 2]\<rparr>)) = Some 1"
proof -
  have d: "distinct [2, 1::nat]" by simp
  show ?thesis unfolding publish_isolated [OF d] by code_simp
qed

lemma case_request_ok:
  "(case p of (b, x) \<Rightarrow> (case x of Inl _ \<Rightarrow> False | Inr r \<Rightarrow> P b r)) \<longleftrightarrow> (\<exists>b r. p = (b, Inr r) \<and> P b r)"
  by (auto split: prod.split sum.split)

definition sample_input :: event_input where
  "sample_input = \<lparr>in_type = ''update.available'', in_component = [], in_actor_type = [], in_actor_id = [],
     in_request_id = [], in_correlation_id = [], in_job_id = [], in_data = JNull\<rparr>"

definition sample_bus :: bus where
  "sample_bus = \<lparr>bus_node = ''node_1'', bus_log = empty_log,
     bus_hub = \<lparr>hub_node = ''node_1'', hub_clients = [(new_client 1 ''s1'')\<lparr>cl_topics := [''*'']\<rparr>],
                hub_registered = [1]\<rparr>\<rparr>"

text \<open>Events can reach a client out of the order of their cursors: appending an event and handing it
  to the hub are two steps, and of two concurrent publishers the second to append may be the first to
  deliver; a client that resumes after the larger cursor it saw last never asks for the smaller one.\<close>

theorem publish_out_of_order:
  "\<exists>b1 b2 r1 r2. publish_append (\<lambda>_. True) ''evt_1'' 1 sample_input sample_bus = (b1, Inr r1) \<and>
     publish_append (\<lambda>_. True) ''evt_2'' 2 sample_input b1 = (b2, Inr r2) \<and>
     map_option (\<lambda>c. map msg_cursor (cl_send c))
       (get_client 1 (bus_hub (publish_deliver (\<lambda>_. True) [1] r1 (publish_deliver (\<lambda>_. True) [1] r2 b2)))) = Some [2, 1]"
proof -
  have "case publish_append (\<lambda>_. True) ''evt_1'' 1 sample_input sample_bus of (b1, x1) \<Rightarrow>
      (case x1 of Inl _ \<Rightarrow> False | Inr r1 \<Rightarrow>
      (case publish_append (\<lambda>_. True) ''evt_2'' 2 sample_input b1 of (b2, x2) \<Rightarrow>
      (case x2 of Inl _ \<Rightarrow> False | Inr r2 \<Rightarrow>
         map_option (\<lambda>c. map msg_cursor (cl_send c))
           (get_client 1 (bus_hub (publish_deliver (\<lambda>_. True) [1] r1 (publish_deliver (\<lambda>_. True) [1] r2 b2)))) = Some [2, 1])))"
    by code_simp
  then show ?thesis unfolding case_request_ok by (elim exE conjE) (intro exI conjI)
qed

end
