(* ===== verification/JobEngine.thy ===== *)
theory JobEngine
  imports JobStore Hub
begin

text \<open>
  The job engine: internal/jobs/engine.go over the job table and the event bus.  A worker's
  \<open>runOne\<close> is cut at its store calls and publications into phases; a step moves one worker, one
  client call that is under way (a submission or a cancellation), or restarts the process, so every
  interleaving of workers and clients is a sequence of steps.  The environment of a step says whether
  the database call succeeds, the time, and what publishing needs.  Handlers are not in the source of
  the engine: what they report and return is part of the step.
\<close>

section \<open>Model\<close>

text \<open>What a handler returns: a result (its JSON text, empty for a nil map) or an error.\<close>

datatype outcome = Finished string | Failed go_error

datatype phase =
    Idle
  | Claimed job_record
  | Starting job_record
  | Running job_record bool
  | Reporting job_record bool int string
  | Returned job_record outcome
  | Deciding job_record outcome "job_record option"
  | Emitting job_record string "(string \<times> json) list"

text \<open>Client calls between their store call and their end.\<close>

datatype client_task =
    SubmitEmit job_record
  | CancelSignal job_record
  | CancelEmit job_record

record engine =
  eng_node :: string
  eng_handlers :: "string list"
  eng_jobs :: jobs
  eng_bus :: bus
  eng_workers :: "phase list"
  eng_active :: "(string \<times> nat) list"
  eng_tasks :: "client_task list"
  eng_wake :: bool

record environment =
  io_ok :: bool
  io_now :: gotime
  io_event_id :: string
  io_order :: "nat list"

definition new_engine :: "string \<Rightarrow> jobs \<Rightarrow> bus \<Rightarrow> int \<Rightarrow> engine" where
  "new_engine node t b workers =
     \<lparr>eng_node = node, eng_handlers = [], eng_jobs = t, eng_bus = b,
      eng_workers = replicate (if workers \<le> 0 then 2 else nat workers) Idle,
      eng_active = [], eng_tasks = [], eng_wake = False\<rparr>"

text \<open>A nil handler is not represented: \<open>present\<close> says whether the handler given is one.\<close>

definition register :: "string \<Rightarrow> bool \<Rightarrow> engine \<Rightarrow> engine res" where
  "register t present e =
     (if t = [] \<or> \<not> present then Inl (Err ''job type and handler are required'')
      else if t \<in> set (eng_handlers e) then Inl (Errf ''job handler %q already registered'' [t])
      else Inr (e\<lparr>eng_handlers := eng_handlers e @ [t]\<rparr>))"

definition job_exists :: "jobs \<Rightarrow> string \<Rightarrow> bool" where
  "job_exists t i = (select_key job_id i t \<noteq> None)"

definition event_of :: "job_record \<Rightarrow> string \<Rightarrow> (string \<times> json) list \<Rightarrow> event_input" where
  "event_of j t data =
     \<lparr>in_type = t, in_component = ''jobs'', in_actor_type = job_actor_type j, in_actor_id = job_actor_id j,
      in_request_id = job_request_id j, in_correlation_id = job_correlation_id j, in_job_id = job_id j,
      in_data = JObj data\<rparr>"

text \<open>\<open>emit\<close> ignores the errors of \<open>Publish\<close>.\<close>

definition emit :: "environment \<Rightarrow> job_record \<Rightarrow> string \<Rightarrow> (string \<times> json) list \<Rightarrow> engine \<Rightarrow> engine" where
  "emit io j t data e =
     (if io_ok io
      then e\<lparr>eng_bus := fst (publish (job_exists (eng_jobs e)) (\<lambda>_. True) (io_order io) (io_event_id io) (io_now io)
              (event_of j t data) (eng_bus e))\<rparr>
      else e)"

text \<open>A store call: \<open>None\<close> is a failure of the database.\<close>

definition store_call :: "environment \<Rightarrow> (jobs \<Rightarrow> jobs res) \<Rightarrow> engine \<Rightarrow> engine" where
  "store_call io f e = (if io_ok io then e\<lparr>eng_jobs := kept_on_error (eng_jobs e) (f (eng_jobs e))\<rparr> else e)"

definition set_phase :: "nat \<Rightarrow> phase \<Rightarrow> engine \<Rightarrow> engine" where
  "set_phase w ph e = e\<lparr>eng_workers := (eng_workers e)[w := ph]\<rparr>"

subsection \<open>Submitting and cancelling\<close>

text \<open>The record \<open>Submit\<close> stores, with the identifier it generates when there is none.\<close>

definition submitted :: "string \<Rightarrow> string \<Rightarrow> gotime \<Rightarrow> job_record \<Rightarrow> job_record" where
  "submitted node new_id now j =
     j\<lparr>job_id := (if job_id j = [] then new_id else job_id j), job_node := node, job_status := ''queued'',
       job_progress := 0, job_created_at := now,
       job_actor_type := (if job_actor_type j = [] then ''system'' else job_actor_type j)\<rparr>"

definition submit_store :: "environment \<Rightarrow> string \<Rightarrow> job_record \<Rightarrow> engine \<Rightarrow> engine \<times> go_error option" where
  "submit_store io new_id j e =
     (if job_type j = [] then (e, Some (Err ''job type is required''))
      else let r = submitted (eng_node e) new_id (io_now io) j
      in if \<not> io_ok io then (e, Some (Wrap ''create job: '' (ErrDB ''failed'')))
         else case create_job r (eng_jobs e) of
                Inl err \<Rightarrow> (e, Some err)
              | Inr t \<Rightarrow> (e\<lparr>eng_jobs := t, eng_tasks := eng_tasks e @ [SubmitEmit r]\<rparr>, None))"

definition cancel_store :: "environment \<Rightarrow> string \<Rightarrow> engine \<Rightarrow> engine \<times> go_error option" where
  "cancel_store io i e =
     (if \<not> io_ok io then (e, Some (Wrap ''begin job cancellation: '' (ErrDB ''failed'')))
      else case request_job_cancel i (io_now io) (eng_jobs e) of
             Inl err \<Rightarrow> (e, Some err)
           | Inr (t, j) \<Rightarrow> (e\<lparr>eng_jobs := t, eng_tasks := eng_tasks e @ [CancelSignal j]\<rparr>, None))"

text \<open>Cancelling the context of a running handler.\<close>

fun cancel_context :: "phase \<Rightarrow> phase" where
  "cancel_context (Running j _) = Running j True"
| "cancel_context (Reporting j _ p m) = Reporting j True p m"
| "cancel_context ph = ph"

definition signal_cancel :: "string \<Rightarrow> engine \<Rightarrow> engine" where
  "signal_cancel i e =
     (case map_of (eng_active e) i of
        None \<Rightarrow> e
      | Some w \<Rightarrow> if w < length (eng_workers e) then set_phase w (cancel_context (eng_workers e ! w)) e else e)"

definition drop_task :: "nat \<Rightarrow> engine \<Rightarrow> engine" where
  "drop_task n e = e\<lparr>eng_tasks := take n (eng_tasks e) @ drop (Suc n) (eng_tasks e)\<rparr>"

definition client_step :: "environment \<Rightarrow> nat \<Rightarrow> engine \<Rightarrow> engine" where
  "client_step io n e =
     (if n < length (eng_tasks e) then
        (case eng_tasks e ! n of
           SubmitEmit j \<Rightarrow>
             drop_task n ((emit io j ''job.queued'' [(''status'', JStr (job_status j))] e)\<lparr>eng_wake := True\<rparr>)
         | CancelSignal j \<Rightarrow> (signal_cancel (job_id j) e)\<lparr>eng_tasks := (eng_tasks e)[n := CancelEmit j]\<rparr>
         | CancelEmit j \<Rightarrow>
             drop_task n (emit io j ''job.cancel_requested'' [(''status'', JStr (job_status j))] e))
      else e)"

subsection \<open>A worker\<close>

definition worker_claim :: "environment \<Rightarrow> nat \<Rightarrow> engine \<Rightarrow> engine" where
  "worker_claim io w e =
     (if io_ok io then
        (case claim_next_job (eng_node e) (io_now io) (eng_jobs e) of
           Inl _ \<Rightarrow> e
         | Inr (t, j) \<Rightarrow> set_phase w (Claimed j) (e\<lparr>eng_jobs := t\<rparr>))
      else e)"

definition worker_start :: "environment \<Rightarrow> nat \<Rightarrow> job_record \<Rightarrow> engine \<Rightarrow> engine" where
  "worker_start io w j e =
     (if job_type j \<notin> set (eng_handlers e)
      then set_phase w (Emitting j ''job.failed'' [(''code'', JStr ''handler_not_registered'')])
             (store_call io (fail_job (job_id j) ''handler_not_registered'' ''job handler is not registered'' (io_now io)) e)
      else set_phase w (Starting j) (e\<lparr>eng_active := AList.update (job_id j) w (eng_active e)\<rparr>))"

definition worker_report :: "environment \<Rightarrow> nat \<Rightarrow> job_record \<Rightarrow> bool \<Rightarrow> int \<Rightarrow> string \<Rightarrow> engine \<Rightarrow> engine" where
  "worker_report io w j c p m e =
     (if io_ok io then
        (case update_job_progress (job_id j) p m (eng_jobs e) of
           Inl _ \<Rightarrow> e
         | Inr t \<Rightarrow> set_phase w (Reporting j c p m) (e\<lparr>eng_jobs := t\<rparr>))
      else e)"

definition worker_return :: "nat \<Rightarrow> job_record \<Rightarrow> outcome \<Rightarrow> engine \<Rightarrow> engine" where
  "worker_return w j out e =
     set_phase w (Returned j out) (e\<lparr>eng_active := AList.delete (job_id j) (eng_active e)\<rparr>)"

definition worker_read :: "environment \<Rightarrow> nat \<Rightarrow> job_record \<Rightarrow> outcome \<Rightarrow> engine \<Rightarrow> engine" where
  "worker_read io w j out e =
     set_phase w (Deciding j out
        (if io_ok io then (case get_job (job_id j) (eng_jobs e) of Inl _ \<Rightarrow> None | Inr cur \<Rightarrow> Some cur) else None)) e"

definition failure_code :: "go_error \<Rightarrow> string \<times> string" where
  "failure_code err =
     (if errors_is err ErrCanceled then (''cancelled'', ''job cancelled'') else (''job_failed'', error_text err))"

definition worker_finish :: "environment \<Rightarrow> nat \<Rightarrow> job_record \<Rightarrow> outcome \<Rightarrow> job_record option \<Rightarrow> engine \<Rightarrow> engine" where
  "worker_finish io w j out cur e =
     (if (case cur of None \<Rightarrow> False | Some c \<Rightarrow> job_status c = ''cancel_requested'')
      then set_phase w (Emitting (the cur) ''job.cancelled'' [(''status'', JStr ''cancelled'')])
             (store_call io (mark_job_cancelled (job_id j) ''cancelled'' (io_now io)) e)
      else case out of
        Failed err \<Rightarrow>
          (case failure_code err of
             (code, message) \<Rightarrow>
               set_phase w (Emitting j ''job.failed'' [(''code'', JStr code), (''message'', JStr message)])
                 (store_call io (fail_job (job_id j) code message (io_now io)) e))
      | Finished result \<Rightarrow>
          set_phase w (Emitting j ''job.succeeded'' [(''status'', JStr ''succeeded'')])
            (store_call io (complete_job (job_id j) result (io_now io)) e))"

text \<open>What a handler does while it runs: it reports progress, or it returns.\<close>

datatype handler_move = Report int string | Return outcome | NoMove

definition worker_step :: "environment \<Rightarrow> nat \<Rightarrow> handler_move \<Rightarrow> engine \<Rightarrow> engine" where
  "worker_step io w mv e =
     (if w < length (eng_workers e) then
        (case eng_workers e ! w of
           Idle \<Rightarrow> worker_claim io w e
         | Claimed j \<Rightarrow> worker_start io w j e
         | Starting j \<Rightarrow> set_phase w (Running j False) (emit io j ''job.started'' [(''status'', JStr ''running'')] e)
         | Running j c \<Rightarrow>
             (case mv of
                Report p m \<Rightarrow> worker_report io w j c p m e
              | Return out \<Rightarrow> worker_return w j out e
              | NoMove \<Rightarrow> e)
         | Reporting j c p m \<Rightarrow>
             set_phase w (Running j c) (emit io j ''job.progress'' [(''progress'', JNum p), (''message'', JStr m)] e)
         | Returned j out \<Rightarrow> worker_read io w j out e
         | Deciding j out cur \<Rightarrow> worker_finish io w j out cur e
         | Emitting j t data \<Rightarrow> set_phase w Idle (emit io j t data e))
      else e)"

subsection \<open>The engine\<close>

text \<open>Clearing terminal jobs also clears the references of the event log.\<close>

definition clear_jobs :: "engine \<Rightarrow> engine" where
  "clear_jobs e =
     (let t = fst (clear_terminal_jobs (eng_jobs e))
      in e\<lparr>eng_jobs := t,
           eng_bus := (eng_bus e)\<lparr>bus_log := forget_jobs (\<lambda>i. job_exists (eng_jobs e) i \<and> \<not> job_exists t i) (bus_log (eng_bus e))\<rparr>\<rparr>)"

text \<open>A restart of the process: nothing in memory survives, and \<open>Run\<close> begins with the recovery.\<close>

definition restart :: "gotime \<Rightarrow> engine \<Rightarrow> engine" where
  "restart now e =
     e\<lparr>eng_jobs := fst (recover_interrupted_jobs (eng_node e) now (eng_jobs e)),
       eng_workers := map (\<lambda>_. Idle) (eng_workers e), eng_active := [], eng_tasks := [], eng_wake := False\<rparr>"

datatype engine_op =
    RegisterHandler string bool
  | Submit string job_record
  | Cancel string
  | Client nat
  | Worker nat handler_move
  | ClearJobs
  | Restart

fun engine_step :: "environment \<Rightarrow> engine_op \<Rightarrow> engine \<Rightarrow> engine" where
  "engine_step io (RegisterHandler t present) e = (case register t present e of Inl _ \<Rightarrow> e | Inr e' \<Rightarrow> e')"
| "engine_step io (Submit i j) e = fst (submit_store io i j e)"
| "engine_step io (Cancel i) e = fst (cancel_store io i e)"
| "engine_step io (Client n) e = client_step io n e"
| "engine_step io (Worker w mv) e = worker_step io w mv e"
| "engine_step io ClearJobs e = clear_jobs e"
| "engine_step io Restart e = restart (io_now io) e"

text \<open>A schedule: every step with what the environment does in it.\<close>

definition run_engine :: "(environment \<times> engine_op) list \<Rightarrow> engine \<Rightarrow> engine" where
  "run_engine sched e = fold (\<lambda>(io, op). engine_step io op) sched e"

text \<open>The states of all schedules.\<close>

inductive reachable :: "engine \<Rightarrow> engine \<Rightarrow> bool" for e0 where
  start: "reachable e0 e0"
| step: "reachable e0 e \<Longrightarrow> reachable e0 (engine_step io op e)"

section \<open>The abstract engine\<close>

text \<open>
  What the engine is about, without rows, events and signals: the status of each job and the job each
  worker holds, from its claim to the final write.  A worker may lose its job without a write when the
  database fails.
\<close>

type_synonym job_map = "string \<Rightarrow> string option"
type_synonym holders = "nat \<Rightarrow> string option"

fun held_id :: "phase \<Rightarrow> string option" where
  "held_id Idle = None"
| "held_id (Claimed j) = Some (job_id j)"
| "held_id (Starting j) = Some (job_id j)"
| "held_id (Running j _) = Some (job_id j)"
| "held_id (Reporting j _ _ _) = Some (job_id j)"
| "held_id (Returned j _) = Some (job_id j)"
| "held_id (Deciding j _ _) = Some (job_id j)"
| "held_id (Emitting _ _ _) = None"

definition workers_hold :: "phase list \<Rightarrow> holders" where
  "workers_hold ws w = (if w < length ws then held_id (ws ! w) else None)"

text \<open>The jobs whose context is registered in \<open>active\<close>.\<close>

fun running_id :: "phase \<Rightarrow> string option" where
  "running_id (Starting j) = Some (job_id j)"
| "running_id (Running j _) = Some (job_id j)"
| "running_id (Reporting j _ _ _) = Some (job_id j)"
| "running_id _ = None"

definition workers_run :: "phase list \<Rightarrow> holders" where
  "workers_run ws w = (if w < length ws then running_id (ws ! w) else None)"

inductive abstract_step :: "job_map \<times> holders \<Rightarrow> job_map \<times> holders \<Rightarrow> bool" where
  stutter: "abstract_step (st, h) (st, h)"
| submit: "st i = None \<Longrightarrow> abstract_step (st, h) (st(i \<mapsto> ''queued''), h)"
| claim: "st i = Some ''queued'' \<Longrightarrow> h w = None \<Longrightarrow> i \<notin> ran h \<Longrightarrow>
    abstract_step (st, h) (st(i \<mapsto> ''running''), h(w \<mapsto> i))"
| cancel_queued: "st i = Some ''queued'' \<Longrightarrow> abstract_step (st, h) (st(i \<mapsto> ''cancelled''), h)"
| cancel_active: "active_status (st i) \<Longrightarrow> abstract_step (st, h) (st(i \<mapsto> ''cancel_requested''), h)"
| finish: "h w = Some i \<Longrightarrow> active_status (st i) \<Longrightarrow> x \<in> set terminal_statuses \<Longrightarrow>
    abstract_step (st, h) (st(i \<mapsto> x), h(w := None))"
| lose: "h w = Some i \<Longrightarrow> abstract_step (st, h) (st, h(w := None))"
| clear: "abstract_step (st, h) (\<lambda>i. if st i \<in> Some ` set terminal_statuses then None else st i, h)"
| restart: "\<forall>i. st' i = st i \<or> active_status (st i) \<and> st' i \<in> Some ` {''queued'', ''cancelled'', ''failed''} \<Longrightarrow>
    abstract_step (st, h) (st', \<lambda>_. None)"

definition abstraction :: "engine \<Rightarrow> job_map \<times> holders" where
  "abstraction e = (status_in (eng_jobs e), workers_hold (eng_workers e))"

text \<open>The invariant: held jobs are active and held once, and \<open>active\<close> is the registered contexts.\<close>

definition held_ok :: "jobs \<Rightarrow> holders \<Rightarrow> bool" where
  "held_ok t h = (js.held (ran h) t \<and> inj_on h (dom h))"

definition active_ok :: "(string \<times> nat) list \<Rightarrow> holders \<Rightarrow> bool" where
  "active_ok act r = (\<forall>i w. map_of act i = Some w \<longleftrightarrow> r w = Some i)"

definition engine_ok :: "engine \<Rightarrow> bool" where
  "engine_ok e =
     (held_ok (eng_jobs e) (workers_hold (eng_workers e)) \<and>
      active_ok (eng_active e) (workers_run (eng_workers e)))"

section \<open>Lemmas\<close>

lemma workers_hold_update [simp]:
  "w < length ws \<Longrightarrow> workers_hold (ws[w := ph]) = (workers_hold ws)(w := held_id ph)"
  by (auto simp: workers_hold_def fun_eq_iff)

lemma workers_run_update [simp]:
  "w < length ws \<Longrightarrow> workers_run (ws[w := ph]) = (workers_run ws)(w := running_id ph)"
  by (auto simp: workers_run_def fun_eq_iff)

lemma workers_hold_at [simp]: "w < length ws \<Longrightarrow> workers_hold ws w = held_id (ws ! w)"
  by (simp add: workers_hold_def)

lemma workers_run_at [simp]: "w < length ws \<Longrightarrow> workers_run ws w = running_id (ws ! w)"
  by (simp add: workers_run_def)

lemma running_held: "running_id ph = Some i \<Longrightarrow> held_id ph = Some i"
  by (cases ph) auto

lemma set_phase_simps [simp]:
  "eng_jobs (set_phase w ph e) = eng_jobs e" "eng_active (set_phase w ph e) = eng_active e"
  "eng_workers (set_phase w ph e) = (eng_workers e)[w := ph]" "eng_tasks (set_phase w ph e) = eng_tasks e"
  "eng_node (set_phase w ph e) = eng_node e" "eng_handlers (set_phase w ph e) = eng_handlers e"
  by (simp_all add: set_phase_def)

lemma emit_simps [simp]:
  "eng_jobs (emit io j t d e) = eng_jobs e" "eng_active (emit io j t d e) = eng_active e"
  "eng_workers (emit io j t d e) = eng_workers e" "eng_tasks (emit io j t d e) = eng_tasks e"
  "eng_node (emit io j t d e) = eng_node e" "eng_handlers (emit io j t d e) = eng_handlers e"
  by (simp_all add: emit_def)

lemma store_call_simps [simp]:
  "eng_jobs (store_call io f e) = (if io_ok io then kept_on_error (eng_jobs e) (f (eng_jobs e)) else eng_jobs e)"
  "eng_active (store_call io f e) = eng_active e"
  "eng_workers (store_call io f e) = eng_workers e" "eng_tasks (store_call io f e) = eng_tasks e"
  "eng_node (store_call io f e) = eng_node e" "eng_handlers (store_call io f e) = eng_handlers e"
  by (simp_all add: store_call_def)

lemma held_ok_jobs: "held_ok t h \<Longrightarrow> jobs_ok t"
  unfolding held_ok_def using js.held_inv by blast

lemma held_ok_active: "held_ok t h \<Longrightarrow> h w = Some i \<Longrightarrow> active_status (status_in t i)"
  by (auto simp: held_ok_def js.held_def ran_def)

lemma ran_release: "inj_on h (dom h) \<Longrightarrow> h w = Some i \<Longrightarrow> ran (h(w := None)) = ran h - {i}"
  unfolding ran_def inj_on_def dom_def by (auto, metis option.inject)

lemma inj_release: "inj_on h (dom h) \<Longrightarrow> inj_on (h(w := None)) (dom h - {w})"
  by (auto simp: inj_on_def dom_def)

lemma held_ok_lose: "held_ok t h \<Longrightarrow> h w = Some i \<Longrightarrow> held_ok t (h(w := None))"
  by (auto simp: held_ok_def ran_release inj_release intro: js.held_subset)

text \<open>The final write of a holder.\<close>

lemma held_ok_finish:
  assumes "held_ok t h" "h w = Some i"
  obtains t' where "finish_job f i now t = Inr t'" "held_ok t' (h(w := None))"
    "status_in t' = (status_in t)(i \<mapsto> final_status f)"
proof -
  have "i \<in> ran h" using assms(2) by (rule ranI)
  with assms(1) obtain t' where "finish_job f i now t = Inr t'" "js.held (ran h - {i}) t'"
    "status_in t' = (status_in t)(i \<mapsto> final_status f)"
    unfolding held_ok_def using js.held_finish [of "ran h" t i f now] by blast
  then show thesis using assms by (intro that) (simp_all add: held_ok_def ran_release inj_release)
qed

lemma held_ok_claim:
  assumes "held_ok t h" "h w = None" "claim_next_job n now t = Inr (t', j)"
  shows "job_id j \<notin> ran h \<and> held_ok t' (h(w \<mapsto> job_id j))"
proof -
  have held: "js.held (ran h) t" and inj: "inj_on h (dom h)" using assms(1) by (simp_all add: held_ok_def)
  note c = js.held_claim [OF held assms(3)]
  have "inj_on (h(w \<mapsto> job_id j)) (dom (h(w \<mapsto> job_id j)))"
    using inj c by (auto simp: inj_on_def dom_def ran_def)
  then show ?thesis using c assms(2) by (simp add: held_ok_def ran_map_upd)
qed


lemma active_ok_register:
  "active_ok act r \<Longrightarrow> r w = None \<Longrightarrow> i \<notin> ran r \<Longrightarrow> active_ok (AList.update i w act) (r(w \<mapsto> i))"
  unfolding active_ok_def update_conv' by (auto simp: ran_def)

lemma active_ok_release:
  assumes "active_ok act r" "r w = Some i"
  shows "active_ok (AList.delete i act) (r(w := None))"
proof -
  have "map_of act i = Some w" using assms by (simp add: active_ok_def)
  moreover have "map_of act i = Some v" if "r v = Some i" for v using assms(1) that by (simp add: active_ok_def)
  ultimately have "v = w" if "r v = Some i" for v using that by fastforce
  then show ?thesis using assms unfolding active_ok_def delete_conv' by (auto simp: assms(2))
qed

text \<open>\<open>sound e e'\<close>: the invariant holds after the step, and the abstract engine makes it too.\<close>

definition sound :: "engine \<Rightarrow> engine \<Rightarrow> bool" where
  "sound e e' = (engine_ok e' \<and> abstract_step (abstraction e) (abstraction e'))"

lemma sound_stutter:
  assumes "engine_ok e" "eng_jobs e' = eng_jobs e"
    and "workers_hold (eng_workers e') = workers_hold (eng_workers e)"
    and "active_ok (eng_active e') (workers_run (eng_workers e'))"
  shows "sound e e'"
  using assms by (simp add: sound_def engine_ok_def abstraction_def abstract_step.stutter)

lemma sound_refl: "engine_ok e \<Longrightarrow> sound e e"
  by (rule sound_stutter) (simp_all add: engine_ok_def)

lemma engine_ok_parts:
  "engine_ok e \<Longrightarrow> held_ok (eng_jobs e) (workers_hold (eng_workers e))"
  "engine_ok e \<Longrightarrow> active_ok (eng_active e) (workers_run (eng_workers e))"
  "engine_ok e \<Longrightarrow> jobs_ok (eng_jobs e)"
  unfolding engine_ok_def using held_ok_jobs by blast+

text \<open>A worker keeps its job and only its phase and the table change.\<close>

lemma sound_same_hold:
  assumes "engine_ok e" "w < length (eng_workers e)"
    and "held_id ph = held_id (eng_workers e ! w)" "running_id ph = running_id (eng_workers e ! w)"
    and "eng_jobs e' = eng_jobs e" "eng_active e' = eng_active e" "eng_workers e' = eng_workers e"
  shows "sound e (set_phase w ph e')" (is "sound e ?e")
proof (rule sound_stutter [OF assms(1)])
  show "eng_jobs ?e = eng_jobs e" by (simp add: assms(5))
  show "workers_hold (eng_workers ?e) = workers_hold (eng_workers e)"
    using assms(2,3) by (simp add: assms(7) fun_upd_idem)
  have "workers_run (eng_workers ?e) = workers_run (eng_workers e)"
    using assms(2,4) by (simp add: assms(7) fun_upd_idem)
  then show "active_ok (eng_active ?e) (workers_run (eng_workers ?e))"
    using engine_ok_parts(2) [OF assms(1)] by (simp add: assms(6))
qed

text \<open>A worker gives its job up: with a final write, or without one when the database fails.\<close>

lemma sound_finish:
  assumes ok: "engine_ok e" and w: "w < length (eng_workers e)"
    and held: "held_id (eng_workers e ! w) = Some i" and "running_id (eng_workers e ! w) = None"
    and ph: "held_id ph = None"
  shows "sound e (set_phase w ph (store_call io (finish_job f i now) e))" (is "sound e ?e")
    and "io_ok io \<Longrightarrow> status_in (eng_jobs (set_phase w ph (store_call io (finish_job f i now) e))) i = Some (final_status f)"
proof -
  note parts = engine_ok_parts [OF ok]
  have hw: "workers_hold (eng_workers e) w = Some i" using w held by simp
  have "running_id ph = None" using ph running_held [of ph] by (cases "running_id ph") auto
  then have run: "workers_run (eng_workers ?e) = workers_run (eng_workers e)"
    using assms(4) w by (simp add: fun_upd_idem)
  have hold: "workers_hold (eng_workers ?e) = (workers_hold (eng_workers e))(w := None)"
    using w ph by simp
  obtain t' where t': "finish_job f i now (eng_jobs e) = Inr t'"
      "held_ok t' ((workers_hold (eng_workers e))(w := None))"
      "status_in t' = (status_in (eng_jobs e))(i \<mapsto> final_status f)"
    by (rule held_ok_finish [OF parts(1) hw])
  have act: "active_ok (eng_active ?e) (workers_run (eng_workers ?e))" using parts(2) unfolding run by simp
  have x: "final_status f \<in> set terminal_statuses" by (cases f) simp_all
  show "sound e ?e"
  proof (cases "io_ok io")
    case True
    have jobs: "eng_jobs ?e = t'" using True t'(1) by (simp add: kept_on_error_def)
    show ?thesis
      unfolding sound_def engine_ok_def abstraction_def hold jobs t'(3)
      using t'(2) act abstract_step.finish [of "workers_hold (eng_workers e)" w i "status_in (eng_jobs e)" "final_status f"]
        hw held_ok_active [OF parts(1) hw] x by simp
  next
    case False
    have jobs: "eng_jobs ?e = eng_jobs e" using False by simp
    show ?thesis
      unfolding sound_def engine_ok_def abstraction_def hold jobs
      using held_ok_lose [OF parts(1) hw] act abstract_step.lose [of "workers_hold (eng_workers e)", OF hw]
      by simp
  qed
  show "status_in (eng_jobs ?e) i = Some (final_status f)" if "io_ok io"
    using that t'(1,3) by (simp add: kept_on_error_def)
qed

lemma job_writes:
  "complete_job i r now = finish_job (WriteCompleted r) i now"
  "fail_job i c m now = finish_job (WriteFailed c m) i now"
  "mark_job_cancelled i m now = finish_job (WriteCancelled m) i now"
  by (simp_all add: finish_job_def fun_eq_iff)

lemma sound_claim:
  assumes ok: "engine_ok e" and w: "w < length (eng_workers e)" and idle: "eng_workers e ! w = Idle"
  shows "sound e (worker_claim io w e)"
proof (cases "io_ok io")
  case True
  show ?thesis
  proof (cases "claim_next_job (eng_node e) (io_now io) (eng_jobs e)")
    case (Inl err)
    then show ?thesis using ok by (simp add: worker_claim_def True sound_refl)
  next
    case (Inr p)
    obtain t j where p: "p = (t, j)" by (cases p)
    note claim = Inr [unfolded p]
    note parts = engine_ok_parts [OF ok]
    have hw: "workers_hold (eng_workers e) w = None" using w idle by simp
    note h = held_ok_claim [OF parts(1) hw claim]
    note c = js.claim_law [OF parts(3) claim]
    have run: "(workers_run (eng_workers e))(w := None) = workers_run (eng_workers e)"
      using w idle by (simp add: fun_upd_idem)
    show ?thesis
      unfolding worker_claim_def if_P [OF True] claim sum.case prod.case sound_def engine_ok_def abstraction_def
      using h parts(2) w c abstract_step.claim [of "status_in (eng_jobs e)" "job_id j" "workers_hold (eng_workers e)" w, OF _ hw]
      by (simp add: run)
  qed
qed (simp add: worker_claim_def sound_refl ok)

lemma sound_start:
  assumes ok: "engine_ok e" and w: "w < length (eng_workers e)" and ph: "eng_workers e ! w = Claimed j"
  shows "sound e (worker_start io w j e)"
proof (cases "job_type j \<in> set (eng_handlers e)")
  case False
  then show ?thesis unfolding worker_start_def job_writes
    using sound_finish(1) [OF ok w, of "job_id j"] by (simp add: ph)
next
  case True
  note parts = engine_ok_parts [OF ok]
  have hw: "workers_hold (eng_workers e) w = Some (job_id j)" using w ph by simp
  have "job_id j \<notin> ran (workers_run (eng_workers e))"
  proof
    assume "job_id j \<in> ran (workers_run (eng_workers e))"
    then obtain v where v: "workers_run (eng_workers e) v = Some (job_id j)" by (auto simp: ran_def)
    then have "workers_hold (eng_workers e) v = Some (job_id j)"
      by (auto simp: workers_run_def workers_hold_def running_held split: if_splits)
    then have "v = w" using parts(1) hw by (auto simp: held_ok_def inj_on_def dom_def)
    with v show False using w ph by simp
  qed
  then have act: "active_ok (AList.update (job_id j) w (eng_active e)) ((workers_run (eng_workers e))(w \<mapsto> job_id j))"
    using active_ok_register [OF parts(2)] w ph by simp
  have "(workers_hold (eng_workers e))(w \<mapsto> job_id j) = workers_hold (eng_workers e)"
    using hw by (simp add: fun_upd_idem)
  then show ?thesis
    unfolding worker_start_def using True w act by (intro sound_stutter [OF ok]) simp_all
qed


lemma sound_report:
  assumes ok: "engine_ok e" and w: "w < length (eng_workers e)" and ph: "eng_workers e ! w = Running j c"
  shows "sound e (worker_report io w j c p m e)"
proof (cases "io_ok io")
  case True
  note parts = engine_ok_parts [OF ok]
  show ?thesis
  proof (cases "update_job_progress (job_id j) p m (eng_jobs e)")
    case (Inl err)
    then show ?thesis using ok by (simp add: worker_report_def True sound_refl)
  next
    case (Inr t)
    have st: "status_in t = status_in (eng_jobs e)" and held: "held_ok t (workers_hold (eng_workers e))"
      using js.progress_law [OF parts(3) Inr] js.held_progress [OF _ Inr] parts(1) by (simp_all add: held_ok_def)
    have same: "(workers_hold (eng_workers e))(w \<mapsto> job_id j) = workers_hold (eng_workers e)"
      "(workers_run (eng_workers e))(w \<mapsto> job_id j) = workers_run (eng_workers e)"
      using w ph by (simp_all add: fun_upd_idem)
    show ?thesis
      unfolding worker_report_def if_P [OF True] Inr sum.case sound_def engine_ok_def abstraction_def
      using held parts(2) w by (simp add: st same abstract_step.stutter)
  qed
qed (simp add: worker_report_def sound_refl ok)

lemma sound_return:
  assumes ok: "engine_ok e" and w: "w < length (eng_workers e)" and ph: "eng_workers e ! w = Running j c"
  shows "sound e (worker_return w j out e)"
proof -
  have "active_ok (AList.delete (job_id j) (eng_active e)) ((workers_run (eng_workers e))(w := None))"
    by (rule active_ok_release [OF engine_ok_parts(2) [OF ok]]) (use w ph in simp)
  then show ?thesis
    unfolding worker_return_def using w ph by (intro sound_stutter [OF ok]) (simp_all add: fun_upd_idem)
qed

lemma sound_worker_finish:
  assumes ok: "engine_ok e" and w: "w < length (eng_workers e)" and ph: "eng_workers e ! w = Deciding j out cur"
  shows "sound e (worker_finish io w j out cur e)"
proof -
  have held: "held_id (eng_workers e ! w) = Some (job_id j)" "running_id (eng_workers e ! w) = None"
    by (simp_all add: ph)
  note fin = sound_finish(1) [OF ok w held]
  show ?thesis
    unfolding worker_finish_def job_writes
    by (auto simp: fin split: outcome.split prod.split)
qed

lemma sound_worker:
  assumes ok: "engine_ok e"
  shows "sound e (worker_step io w mv e)"
proof (cases "w < length (eng_workers e)")
  case w: True
  show ?thesis
  proof (cases "eng_workers e ! w")
    case Idle
    then show ?thesis using sound_claim [OF ok w] by (simp add: worker_step_def w)
  next
    case (Claimed j)
    then show ?thesis using sound_start [OF ok w] by (simp add: worker_step_def w)
  next
    case (Running j c)
    then show ?thesis using sound_report [OF ok w] sound_return [OF ok w] sound_refl [OF ok]
      by (auto simp: worker_step_def w split: handler_move.split)
  next
    case (Deciding j out cur)
    then show ?thesis using sound_worker_finish [OF ok w] by (simp add: worker_step_def w)
  qed (auto simp: worker_step_def w worker_read_def intro!: sound_same_hold [OF ok w])
qed (simp add: worker_step_def sound_refl ok)

lemma cancel_context_ids [simp]:
  "held_id (cancel_context ph) = held_id ph" "running_id (cancel_context ph) = running_id ph"
  by (cases ph; simp)+

lemma signal_cancel_simps [simp]:
  "eng_jobs (signal_cancel i e) = eng_jobs e" "eng_active (signal_cancel i e) = eng_active e"
  "workers_hold (eng_workers (signal_cancel i e)) = workers_hold (eng_workers e)"
  "workers_run (eng_workers (signal_cancel i e)) = workers_run (eng_workers e)"
  "length (eng_workers (signal_cancel i e)) = length (eng_workers e)"
  by (auto simp: signal_cancel_def fun_upd_idem split: option.split)

lemma drop_task_simps [simp]:
  "eng_jobs (drop_task n e) = eng_jobs e" "eng_active (drop_task n e) = eng_active e"
  "eng_workers (drop_task n e) = eng_workers e"
  by (simp_all add: drop_task_def)

lemma sound_client: "engine_ok e \<Longrightarrow> sound e (client_step io n e)"
  unfolding client_step_def
  by (auto simp: sound_refl engine_ok_parts intro!: sound_stutter split: client_task.split)

lemma sound_submit:
  assumes ok: "engine_ok e"
  shows "sound e (fst (submit_store io i j e))"
proof (cases "job_type j = [] \<or> \<not> io_ok io")
  case True
  then show ?thesis using ok by (auto simp: submit_store_def Let_def sound_refl)
next
  case False
  let ?r = "submitted (eng_node e) i (io_now io) j"
  note parts = engine_ok_parts [OF ok]
  have q: "job_status ?r = ''queued''" by (simp add: submitted_def)
  show ?thesis
  proof (cases "create_job ?r (eng_jobs e)")
    case (Inl err)
    then show ?thesis using False ok by (simp add: submit_store_def Let_def sound_refl)
  next
    case (Inr t)
    have st: "status_in (eng_jobs e) (job_id ?r) = None"
      "status_in t = (status_in (eng_jobs e))(job_id ?r \<mapsto> ''queued'')"
      using js.create_law [OF parts(3) q Inr] by simp_all
    have held: "held_ok t (workers_hold (eng_workers e))"
      using js.held_create [OF _ q Inr] parts(1) by (simp add: held_ok_def)
    show ?thesis
      using False held parts(2) abstract_step.submit [of "status_in (eng_jobs e)", OF st(1)]
      by (simp add: submit_store_def Let_def Inr sound_def engine_ok_def abstraction_def st(2))
  qed
qed

lemma sound_cancel:
  assumes ok: "engine_ok e"
  shows "sound e (fst (cancel_store io i e))"
proof (cases "io_ok io")
  case True
  note parts = engine_ok_parts [OF ok]
  show ?thesis
  proof (cases "request_job_cancel i (io_now io) (eng_jobs e)")
    case (Inl err)
    then show ?thesis using ok by (simp add: cancel_store_def True sound_refl)
  next
    case (Inr p)
    obtain t j where p: "p = (t, j)" by (cases p)
    note req = Inr [unfolded p]
    have held: "held_ok t (workers_hold (eng_workers e))"
      using js.held_request [OF _ req] parts(1) by (simp add: held_ok_def)
    have "abstract_step (status_in (eng_jobs e), workers_hold (eng_workers e)) (status_in t, workers_hold (eng_workers e))"
      using js.request_law [OF parts(3) req] abstract_step.cancel_queued abstract_step.cancel_active by metis
    then show ?thesis
      using held parts(2) by (simp add: cancel_store_def True req sound_def engine_ok_def abstraction_def)
  qed
qed (simp add: cancel_store_def sound_refl ok)

lemma sound_clear:
  assumes ok: "engine_ok e"
  shows "sound e (clear_jobs e)"
proof -
  note parts = engine_ok_parts [OF ok]
  have held: "held_ok (fst (clear_terminal_jobs (eng_jobs e))) (workers_hold (eng_workers e))"
    using js.held_clear parts(1) by (simp add: held_ok_def)
  have "status_in (fst (clear_terminal_jobs (eng_jobs e))) =
      (\<lambda>i. if status_in (eng_jobs e) i \<in> Some ` set terminal_statuses then None else status_in (eng_jobs e) i)"
    using js.clear_law [OF parts(3)] by (simp add: comp_def del: statuses_eq)
  then show ?thesis
    unfolding sound_def engine_ok_def abstraction_def
    using held parts(2) abstract_step.clear [of "status_in (eng_jobs e)" "workers_hold (eng_workers e)"]
    by (simp add: clear_jobs_def Let_def del: statuses_eq)
qed

lemma recover_status:
  assumes "jobs_ok t"
  shows "status_in (fst (recover_interrupted_jobs n now t)) i = status_in t i \<or>
    active_status (status_in t i) \<and>
    status_in (fst (recover_interrupted_jobs n now t)) i \<in> Some ` {''queued'', ''cancelled'', ''failed''}"
proof -
  have id: "job_id (recovered now j) = job_id j" for j by (simp add: recovered_def Let_def)
  have st: "job_status (recovered now j) \<in> {''queued'', ''cancelled'', ''failed''}" for j
    by (simp add: recovered_def Let_def)
  have "status_in (fst (recover_interrupted_jobs n now t)) i =
      map_option (\<lambda>j. job_status (if job_node j = n \<and> active_job j then recovered now j else j)) (select_key job_id i t)"
    unfolding recover_interrupted_jobs_def Let_def fst_conv by (rule status_in_update_where) (rule id)
  then show ?thesis
  proof (cases "select_key job_id i t")
    case (Some j)
    note u = \<open>status_in _ i = _\<close> [unfolded Some option.map]
    show ?thesis
    proof (cases "job_node j = n \<and> active_job j")
      case True
      then show ?thesis
        unfolding u using st [of j] by (auto simp: status_in_def Some active_status_def active_job_def)
    qed (unfold u, auto simp: status_in_def Some)
  qed (simp add: status_in_def)
qed

lemma sound_restart:
  assumes ok: "engine_ok e"
  shows "sound e (restart now e)"
proof -
  note parts = engine_ok_parts [OF ok]
  have "jobs_ok (fst (recover_interrupted_jobs (eng_node e) now (eng_jobs e)))"
    using op_ok [OF parts(3), of "RecoverInterrupted (eng_node e) now"] by simp
  then have held: "held_ok (fst (recover_interrupted_jobs (eng_node e) now (eng_jobs e))) (\<lambda>_. None)"
    by (simp add: held_ok_def js.held_def)
  have none: "workers_hold (map (\<lambda>_. Idle) ws) = (\<lambda>_. None)" "workers_run (map (\<lambda>_. Idle) ws) = (\<lambda>_. None)" for ws
    by (auto simp: workers_hold_def workers_run_def)
  show ?thesis
    unfolding sound_def engine_ok_def abstraction_def restart_def
    using held abstract_step.restart [of _ "status_in (eng_jobs e)" "workers_hold (eng_workers e)"]
      recover_status [OF parts(3), of "eng_node e" now]
    by (simp add: none active_ok_def)
qed

lemma sound_register: "engine_ok e \<Longrightarrow> register t present e = Inr e' \<Longrightarrow> sound e e'"
  by (rule sound_stutter) (auto simp: register_def engine_ok_parts split: if_splits)

lemma engine_sound: "engine_ok e \<Longrightarrow> sound e (engine_step io op e)"
  by (cases op) (auto simp: sound_refl sound_register split: sum.split
      simp: sound_submit sound_cancel sound_client sound_worker sound_clear sound_restart)

lemma engine_step_ok: "engine_ok e \<Longrightarrow> engine_ok (engine_step io op e)"
  using engine_sound by (simp add: sound_def)

lemma engine_ok_start:
  assumes "jobs_ok t"
  shows "engine_ok (new_engine n t b k)"
proof -
  have none: "workers_hold (replicate m Idle) = (\<lambda>_. None)" "workers_run (replicate m Idle) = (\<lambda>_. None)" for m
    by (auto simp: workers_hold_def workers_run_def)
  show ?thesis
    unfolding engine_ok_def new_engine_def engine.simps none
    using assms by (simp add: held_ok_def active_ok_def js.held_def)
qed

lemma reachable_ok: "reachable e0 e \<Longrightarrow> engine_ok e0 \<Longrightarrow> engine_ok e"
  by (induction rule: reachable.induct) (simp_all add: engine_step_ok)


lemma run_engine_simps [simp]:
  "run_engine [] e = e"
  "run_engine ((io, op) # sched) e = run_engine sched (engine_step io op e)"
  "run_engine (s1 @ s2) e = run_engine s2 (run_engine s1 e)"
  by (simp_all add: run_engine_def)

lemma reachable_run: "reachable e0 e \<Longrightarrow> reachable e0 (run_engine sched e)"
proof (induction sched arbitrary: e)
  case (Cons x sched)
  then show ?case by (cases x) (simp add: reachable.step)
qed simp

lemma run_engine_ok: "engine_ok e \<Longrightarrow> engine_ok (run_engine sched e)"
  using reachable_ok [OF reachable_run [OF reachable.start]] .

text \<open>What a step of the abstract engine leaves to a holder.\<close>

lemma abstract_cancel_stays:
  assumes "abstract_step (st, h) (st', h')" "inj_on h (dom h)" "h w = Some i" "h' w = Some i"
    and "st i = Some ''cancel_requested''"
  shows "st' i = Some ''cancel_requested''"
  using assms(1)
proof cases
  case (finish v k x)
  have "k \<noteq> i"
  proof
    assume "k = i"
    then have "v = w" using finish(3) assms(2,3) by (auto simp: inj_on_def dom_def)
    then show False using finish(2) assms(4) by simp
  qed
  then show ?thesis using finish(1) assms(5) by simp
qed (use assms(3-5) in auto)


text \<open>Steps that are not of worker \<open>w\<close> leave its phase, but for the cancellation of its context.\<close>

definition own_step :: "nat \<Rightarrow> engine_op \<Rightarrow> bool" where
  "own_step w op = (case op of Worker v _ \<Rightarrow> v = w | _ \<Rightarrow> False)"

lemma worker_other [simp]:
  "v \<noteq> w \<Longrightarrow> eng_workers (worker_step io v mv e) ! w = eng_workers e ! w"
  "length (eng_workers (worker_step io v mv e)) = length (eng_workers e)"
  by (auto simp: worker_step_def worker_claim_def worker_start_def worker_report_def worker_return_def
      worker_read_def worker_finish_def
      split: phase.split sum.split prod.split handler_move.split outcome.split)

lemma signal_other:
  "eng_workers (signal_cancel i e) ! w \<in> {eng_workers e ! w, cancel_context (eng_workers e ! w)}"
  by (auto simp: signal_cancel_def nth_list_update split: option.split)

lemma client_other:
  "eng_workers (client_step io n e) ! w \<in> {eng_workers e ! w, cancel_context (eng_workers e ! w)}"
  "length (eng_workers (client_step io n e)) = length (eng_workers e)"
  using signal_other by (auto simp: client_step_def split: client_task.split)

lemma other_step:
  assumes "op \<noteq> Restart" "\<not> own_step w op"
  shows "eng_workers (engine_step io op e) ! w \<in> {eng_workers e ! w, cancel_context (eng_workers e ! w)}"
    and "length (eng_workers (engine_step io op e)) = length (eng_workers e)"
proof -
  show "eng_workers (engine_step io op e) ! w \<in> {eng_workers e ! w, cancel_context (eng_workers e ! w)}"
    using assms client_other(1)
    by (cases op) (auto simp: own_step_def register_def submit_store_def cancel_store_def clear_jobs_def Let_def
        split: sum.split prod.split if_splits)
  show "length (eng_workers (engine_step io op e)) = length (eng_workers e)"
    using assms(1) client_other(2)
    by (cases op) (auto simp: register_def submit_store_def cancel_store_def clear_jobs_def Let_def
        split: sum.split prod.split if_splits)
qed

text \<open>Own steps a worker needs at most, once its handler returns when it runs.\<close>

fun remaining :: "phase \<Rightarrow> nat" where
  "remaining (Claimed _) = 5"
| "remaining (Starting _) = 4"
| "remaining (Reporting _ _ _ _) = 4"
| "remaining (Running _ _) = 3"
| "remaining (Returned _ _) = 2"
| "remaining (Deciding _ _ _) = 1"
| "remaining _ = 0"

lemma remaining_cancel_context [simp]: "remaining (cancel_context ph) = remaining ph"
  by (cases ph) auto

definition final_of :: "outcome \<Rightarrow> job_record option \<Rightarrow> final_write" where
  "final_of out cur =
     (if (case cur of None \<Rightarrow> False | Some c \<Rightarrow> job_status c = ''cancel_requested'') then WriteCancelled ''cancelled''
      else case out of Failed err \<Rightarrow> (case failure_code err of (c, m) \<Rightarrow> WriteFailed c m)
           | Finished r \<Rightarrow> WriteCompleted r)"

lemma worker_finish_final:
  "\<exists>j' ev data. worker_finish io w j out cur e =
     set_phase w (Emitting j' ev data) (store_call io (finish_job (final_of out cur) (job_id j) (io_now io)) e)"
  unfolding worker_finish_def job_writes final_of_def by (auto split: outcome.split prod.split)

lemma finish_status:
  assumes "engine_ok e" "w < length (eng_workers e)" "eng_workers e ! w = Deciding j out cur" "io_ok io"
  shows "status_in (eng_jobs (worker_finish io w j out cur e)) (job_id j) = Some (final_status (final_of out cur))"
proof -
  obtain j' ev data where eq: "worker_finish io w j out cur e =
      set_phase w (Emitting j' ev data) (store_call io (finish_job (final_of out cur) (job_id j) (io_now io)) e)"
    using worker_finish_final by blast
  show ?thesis unfolding eq
    by (rule sound_finish(2) [OF assms(1,2) _ _ _ assms(4)]) (simp_all add: assms(3))
qed

lemma start_unregistered_status:
  assumes "engine_ok e" "w < length (eng_workers e)" "eng_workers e ! w = Claimed j" "io_ok io"
    and "job_type j \<notin> set (eng_handlers e)"
  shows "status_in (eng_jobs (worker_start io w j e)) (job_id j) = Some ''failed''"
proof -
  have "status_in (eng_jobs (worker_start io w j e)) (job_id j) =
      Some (final_status (WriteFailed ''handler_not_registered'' ''job handler is not registered''))"
    unfolding worker_start_def if_P [OF assms(5)] job_writes
    by (rule sound_finish(2) [OF assms(1,2) _ _ _ assms(4)]) (simp_all add: assms(3))
  then show ?thesis by simp
qed

lemma final_terminal: "final_status f \<in> set terminal_statuses"
  by (cases f) simp_all

lemma own_step_progress:
  assumes ok: "engine_ok e" and w: "w < length (eng_workers e)" and held: "held_id (eng_workers e ! w) = Some i"
    and io: "io_ok io"
  shows "status_in (eng_jobs (worker_step io w (Return out) e)) i \<in> Some ` set terminal_statuses \<or>
    held_id (eng_workers (worker_step io w (Return out) e) ! w) = Some i \<and>
    Suc (remaining (eng_workers (worker_step io w (Return out) e) ! w)) = remaining (eng_workers e ! w)"
proof (cases "eng_workers e ! w")
  case (Claimed j)
  show ?thesis
  proof (cases "job_type j \<in> set (eng_handlers e)")
    case True
    then show ?thesis using held w by (simp add: worker_step_def Claimed worker_start_def)
  next
    case False
    have "i = job_id j" using held by (simp add: Claimed)
    then show ?thesis using start_unregistered_status [OF ok w Claimed io False]
      by (simp add: worker_step_def w Claimed)
  qed
next
  case (Deciding j o' cur)
  have "i = job_id j" using held by (simp add: Deciding)
  then show ?thesis using finish_status [OF ok w Deciding io] final_terminal
    by (simp add: worker_step_def w Deciding del: statuses_eq)
qed (use held w in \<open>simp_all add: worker_step_def worker_return_def worker_read_def\<close>)

text \<open>\<open>first_at P Q sched e\<close>: some state of the schedule is the first with \<open>Q\<close>, and \<open>P\<close> holds before it.\<close>

definition first_at :: "(engine \<Rightarrow> bool) \<Rightarrow> (engine \<Rightarrow> bool) \<Rightarrow> (environment \<times> engine_op) list \<Rightarrow> engine \<Rightarrow> bool" where
  "first_at P Q sched e =
     (\<exists>k\<le>length sched. Q (run_engine (take k sched) e) \<and> (\<forall>m<k. P (run_engine (take m sched) e)))"

lemma first_at_now: "Q e \<Longrightarrow> first_at P Q sched e"
  unfolding first_at_def by (rule exI [of _ 0]) simp

lemma first_at_later:
  assumes "P e" "first_at P Q sched (engine_step io op e)"
  shows "first_at P Q ((io, op) # sched) e"
proof -
  obtain k where k: "k \<le> length sched" "Q (run_engine (take k sched) (engine_step io op e))"
    "\<And>m. m < k \<Longrightarrow> P (run_engine (take m sched) (engine_step io op e))"
    using assms(2) unfolding first_at_def by blast
  have "P (run_engine (take m ((io, op) # sched)) e)" if "m < Suc k" for m
    using that assms(1) k(3) by (cases m) simp_all
  then show ?thesis using k(1,2) unfolding first_at_def by (intro exI [of _ "Suc k"]) simp
qed

text \<open>A schedule in which worker \<open>w\<close> is not stopped: its handler returns when it runs, and its database
  calls succeed.\<close>

definition lets_finish :: "nat \<Rightarrow> (environment \<times> engine_op) list \<Rightarrow> bool" where
  "lets_finish w sched =
     (\<forall>(io, op)\<in>set sched. op \<noteq> Restart \<and> (own_step w op \<longrightarrow> io_ok io \<and> (\<exists>out. op = Worker w (Return out))))"

definition own_steps :: "nat \<Rightarrow> (environment \<times> engine_op) list \<Rightarrow> nat" where
  "own_steps w sched = length (filter (\<lambda>(_, op). own_step w op) sched)"

lemma schedule_simps [simp]:
  "own_steps w [] = 0" "own_steps w ((io, op) # sched) = of_bool (own_step w op) + own_steps w sched"
  "lets_finish w []"
  "lets_finish w ((io, op) # sched) =
     (op \<noteq> Restart \<and> (own_step w op \<longrightarrow> io_ok io \<and> (\<exists>out. op = Worker w (Return out))) \<and> lets_finish w sched)"
  by (simp_all add: own_steps_def lets_finish_def)

text \<open>
  Progress of a worker over a schedule, for a condition \<open>C\<close> of the engine that every step of another
  keeps and that an own step keeps with one phase less, or turns into \<open>Q\<close>.
\<close>

lemma schedule_progress:
  assumes other: "\<And>e io op. engine_ok e \<Longrightarrow> C e \<Longrightarrow> op \<noteq> Restart \<Longrightarrow> \<not> own_step w op \<Longrightarrow>
      C (engine_step io op e)"
    and own: "\<And>e io out. engine_ok e \<Longrightarrow> C e \<Longrightarrow> io_ok io \<Longrightarrow>
      Q (worker_step io w (Return out) e) \<or>
      C (worker_step io w (Return out) e) \<and>
        Suc (remaining (eng_workers (worker_step io w (Return out) e) ! w)) = remaining (eng_workers e ! w)"
    and busy: "\<And>e. C e \<Longrightarrow> 0 < remaining (eng_workers e ! w)"
    and pre: "\<And>e. engine_ok e \<Longrightarrow> C e \<Longrightarrow> P e"
  shows "engine_ok e \<Longrightarrow> C e \<Longrightarrow> lets_finish w sched \<Longrightarrow>
    remaining (eng_workers e ! w) \<le> own_steps w sched \<Longrightarrow> first_at P Q sched e"
proof (induction sched arbitrary: e)
  case Nil
  then show ?case using busy [of e] by simp
next
  case (Cons x sched)
  obtain io op where x: "x = (io, op)" by (cases x)
  let ?e = "engine_step io op e"
  note ok' = engine_step_ok [OF Cons.prems(1), of io op]
  have fin: "lets_finish w sched" using Cons.prems(3) x by simp
  note later = first_at_later [of P, OF pre [OF Cons.prems(1,2)], of Q sched io op, folded x]
  show ?case
  proof (cases "own_step w op")
    case False
    have nr: "op \<noteq> Restart" using Cons.prems(3) x by simp
    have "remaining (eng_workers ?e ! w) = remaining (eng_workers e ! w)"
      using other_step(1) [OF nr False, of io e] by auto
    then show ?thesis
      using Cons.IH [OF ok' other [OF Cons.prems(1,2) nr False] fin] Cons.prems(4) False later x by simp
  next
    case True
    then obtain out where io: "io_ok io" and op: "op = Worker w (Return out)" using Cons.prems(3) x by auto
    from own [OF Cons.prems(1,2) io, of out] have "Q ?e \<or>
        C ?e \<and> Suc (remaining (eng_workers ?e ! w)) = remaining (eng_workers e ! w)"
      by (simp add: op)
    then have "first_at P Q sched ?e"
    proof
      assume "C ?e \<and> Suc (remaining (eng_workers ?e ! w)) = remaining (eng_workers e ! w)"
      then show ?thesis using Cons.IH [OF ok' _ fin] Cons.prems(4) True x by simp
    qed (rule first_at_now)
    then show ?thesis by (rule later)
  qed
qed

lemma held_progresses:
  assumes "engine_ok e" "workers_hold (eng_workers e) w = Some i" "lets_finish w sched"
    and "remaining (eng_workers e ! w) \<le> own_steps w sched"
  shows "first_at (\<lambda>e. active_status (status_in (eng_jobs e) i))
    (\<lambda>e. status_in (eng_jobs e) i \<in> Some ` set terminal_statuses) sched e"
proof (rule schedule_progress [where C = "\<lambda>e. workers_hold (eng_workers e) w = Some i", OF _ _ _ _ assms])
  fix e :: engine and io :: environment and op
  assume h: "workers_hold (eng_workers e) w = Some i" and op: "op \<noteq> Restart" "\<not> own_step w op"
  show "workers_hold (eng_workers (engine_step io op e)) w = Some i"
    using other_step [OF op, of io e] h by (auto simp: workers_hold_def split: if_splits)
next
  fix e :: engine and io :: environment and out
  assume ok: "engine_ok e" and h: "workers_hold (eng_workers e) w = Some i" and io: "io_ok io"
  then have w: "w < length (eng_workers e)" "held_id (eng_workers e ! w) = Some i"
    by (simp_all add: workers_hold_def split: if_splits)
  show "status_in (eng_jobs (worker_step io w (Return out) e)) i \<in> Some ` set terminal_statuses \<or>
    workers_hold (eng_workers (worker_step io w (Return out) e)) w = Some i \<and>
    Suc (remaining (eng_workers (worker_step io w (Return out) e) ! w)) = remaining (eng_workers e ! w)"
    using own_step_progress [OF ok w io, of out] w by (simp del: statuses_eq)
next
  fix e :: engine
  assume "workers_hold (eng_workers e) w = Some i"
  then show "0 < remaining (eng_workers e ! w)"
    by (cases "eng_workers e ! w") (simp_all add: workers_hold_def split: if_splits)
next
  fix e :: engine
  assume "engine_ok e" "workers_hold (eng_workers e) w = Some i"
  then show "active_status (status_in (eng_jobs e) i)"
    using held_ok_active engine_ok_parts(1) by blast
qed

text \<open>A worker that will see the cancellation: it has not read the status, or has read it as cancelled.\<close>

fun sees_cancel :: "string \<Rightarrow> phase \<Rightarrow> bool" where
  "sees_cancel i (Starting j) = (job_id j = i)"
| "sees_cancel i (Running j _) = (job_id j = i)"
| "sees_cancel i (Reporting j _ _ _) = (job_id j = i)"
| "sees_cancel i (Returned j _) = (job_id j = i)"
| "sees_cancel i (Deciding j _ cur) =
     (job_id j = i \<and> (case cur of None \<Rightarrow> False | Some c \<Rightarrow> job_status c = ''cancel_requested''))"
| "sees_cancel i _ = False"

definition cancelling :: "nat \<Rightarrow> string \<Rightarrow> engine \<Rightarrow> bool" where
  "cancelling w i e =
     (w < length (eng_workers e) \<and> sees_cancel i (eng_workers e ! w) \<and>
      status_in (eng_jobs e) i = Some ''cancel_requested'')"

lemma sees_cancel_held: "sees_cancel i ph \<Longrightarrow> held_id ph = Some i"
  by (cases ph) auto

lemma sees_cancel_context [simp]: "sees_cancel i (cancel_context ph) = sees_cancel i ph"
  by (cases ph) auto

lemma cancelling_stays:
  assumes ok: "engine_ok e" and c: "cancelling w i e"
    and w: "w < length (eng_workers (engine_step io op e))"
    and sees: "sees_cancel i (eng_workers (engine_step io op e) ! w)"
  shows "cancelling w i (engine_step io op e)"
proof -
  have "abstract_step (abstraction e) (abstraction (engine_step io op e))"
    using engine_sound [OF ok] by (simp add: sound_def)
  then have step: "abstract_step (status_in (eng_jobs e), workers_hold (eng_workers e))
      (status_in (eng_jobs (engine_step io op e)), workers_hold (eng_workers (engine_step io op e)))"
    by (simp only: abstraction_def)
  have inj: "inj_on (workers_hold (eng_workers e)) (dom (workers_hold (eng_workers e)))"
    using engine_ok_parts(1) [OF ok] by (simp add: held_ok_def)
  have h: "workers_hold (eng_workers e) w = Some i" "workers_hold (eng_workers (engine_step io op e)) w = Some i"
    using c w sees by (simp_all only: cancelling_def workers_hold_at sees_cancel_held)
  have st: "status_in (eng_jobs e) i = Some ''cancel_requested''" using c by (simp only: cancelling_def)
  have "status_in (eng_jobs (engine_step io op e)) i = Some ''cancel_requested''"
    by (rule abstract_cancel_stays [OF step inj h st])
  then show ?thesis using w sees by (simp add: cancelling_def)
qed


lemma cancelling_read:
  assumes "status_in (eng_jobs e) (job_id j) = Some ''cancel_requested''" "io_ok io" "w < length (eng_workers e)"
  shows "sees_cancel (job_id j) (eng_workers (worker_read io w j out e) ! w)"
proof -
  obtain c where "select_key job_id (job_id j) (eng_jobs e) = Some c" "job_status c = ''cancel_requested''"
    using assms(1) by (cases "select_key job_id (job_id j) (eng_jobs e)") (simp_all add: status_in_def)
  then show ?thesis using assms(2,3) by (simp add: worker_read_def get_job_def)
qed

lemma cancelling_own:
  assumes ok: "engine_ok e" and c: "cancelling w i e" and io: "io_ok io"
  shows "status_in (eng_jobs (worker_step io w (Return out) e)) i = Some ''cancelled'' \<or>
    cancelling w i (worker_step io w (Return out) e) \<and>
    Suc (remaining (eng_workers (worker_step io w (Return out) e) ! w)) = remaining (eng_workers e ! w)"
proof -
  have w: "w < length (eng_workers e)" and sees: "sees_cancel i (eng_workers e ! w)"
    and st: "status_in (eng_jobs e) i = Some ''cancel_requested''" using c by (simp_all only: cancelling_def)
  note stays = cancelling_stays [OF ok c, of io "Worker w (Return out)", unfolded engine_step.simps worker_other(2), OF w]
  have next': ?thesis if "sees_cancel i (eng_workers (worker_step io w (Return out) e) ! w)"
    "Suc (remaining (eng_workers (worker_step io w (Return out) e) ! w)) = remaining (eng_workers e ! w)"
    using stays [OF that(1)] that(2) by blast
  show ?thesis
  proof (cases "eng_workers e ! w")
    case (Returned j o')
    have i: "i = job_id j" using sees by (simp add: Returned)
    have step: "worker_step io w (Return out) e = worker_read io w j o' e" by (simp add: worker_step_def w Returned)
    show ?thesis
    proof (rule next')
      show "sees_cancel i (eng_workers (worker_step io w (Return out) e) ! w)"
        unfolding step i by (rule cancelling_read [OF st [unfolded i] io w])
    qed (simp add: worker_step_def w Returned worker_read_def)
  next
    case (Deciding j o' cur)
    have i: "i = job_id j" and cur: "case cur of None \<Rightarrow> False | Some c \<Rightarrow> job_status c = ''cancel_requested''"
      using sees by (simp_all add: Deciding)
    have f: "final_of o' cur = WriteCancelled ''cancelled''" unfolding final_of_def by (rule if_P [OF cur])
    show ?thesis using finish_status [OF ok w Deciding io] by (simp add: worker_step_def w Deciding f i)
  next
    case (Starting j)
    show ?thesis by (rule next') (use sees w Starting in \<open>simp_all add: worker_step_def\<close>)
  next
    case (Running j c)
    show ?thesis by (rule next') (use sees w Running in \<open>simp_all add: worker_step_def worker_return_def\<close>)
  next
    case (Reporting j c p m)
    show ?thesis by (rule next') (use sees w Reporting in \<open>simp_all add: worker_step_def\<close>)
  qed (use sees in simp_all)
qed

lemma cancelling_progresses:
  assumes "engine_ok e" "cancelling w i e" "lets_finish w sched"
    and "remaining (eng_workers e ! w) \<le> own_steps w sched"
  shows "first_at (\<lambda>e. status_in (eng_jobs e) i = Some ''cancel_requested'')
    (\<lambda>e. status_in (eng_jobs e) i = Some ''cancelled'') sched e"
proof (rule schedule_progress [where C = "cancelling w i", OF _ _ _ _ assms])
  fix e :: engine and io :: environment and op
  assume ok: "engine_ok e" and c: "cancelling w i e" and op: "op \<noteq> Restart" "\<not> own_step w op"
  show "cancelling w i (engine_step io op e)"
    by (rule cancelling_stays [OF ok c]) (use other_step [OF op, of io e] c in \<open>auto simp: cancelling_def\<close>)
next
  fix e :: engine and io :: environment and out
  assume "engine_ok e" "cancelling w i e" "io_ok io"
  then show "status_in (eng_jobs (worker_step io w (Return out) e)) i = Some ''cancelled'' \<or>
    cancelling w i (worker_step io w (Return out) e) \<and>
    Suc (remaining (eng_workers (worker_step io w (Return out) e) ! w)) = remaining (eng_workers e ! w)"
    by (rule cancelling_own)
next
  fix e :: engine
  assume "cancelling w i e"
  then show "0 < remaining (eng_workers e ! w)"
    by (cases "eng_workers e ! w") (simp_all add: cancelling_def)
next
  fix e :: engine
  assume "cancelling w i e"
  then show "status_in (eng_jobs e) i = Some ''cancel_requested''" by (simp only: cancelling_def)
qed


section \<open>Properties\<close>

definition sample_io :: environment where
  "sample_io = \<lparr>io_ok = True, io_now = 9000000000, io_event_id = ''evt_1'', io_order = []\<rparr>"

definition sample_engine :: engine where
  "sample_engine = new_engine ''node_1'' [sample_job] sample_bus 0"

text \<open>Up to the claim and the start of the sample job by the first worker.\<close>

definition sample_run :: "(environment \<times> engine_op) list" where
  "sample_run = [(sample_io, RegisterHandler ''module.install'' True), (sample_io, Worker 0 NoMove),
     (sample_io, Worker 1 NoMove), (sample_io, Worker 0 NoMove)]"

lemma sample_jobs_ok: "jobs_ok [sample_job]"
  by (simp add: jobs_ok_def unique_key_def job_ok_def sample_job_def active_job_def)

lemma sample_reachable: "reachable (new_engine ''node_1'' [sample_job] sample_bus 0) (run_engine sched sample_engine)"
  unfolding sample_engine_def by (rule reachable_run) (rule reachable.start)

text \<open>C1. In every state the engine reaches from an empty start over a coherent job table, whatever
  the interleaving of workers, submissions, cancellations, database failures and restarts: every job a
  worker holds is running or being cancelled in the store, no two workers hold the same job, and the
  \<open>active\<close> map has exactly the contexts of the handlers that run, each under its job and its worker.\<close>

theorem jobs_are_held_once:
  assumes "jobs_ok t" "reachable (new_engine n t b k) e"
  shows "jobs_ok (eng_jobs e) \<and>
    (\<forall>w i. workers_hold (eng_workers e) w = Some i \<longrightarrow> active_status (status_in (eng_jobs e) i)) \<and>
    (\<forall>v w i. workers_hold (eng_workers e) v = Some i \<longrightarrow> workers_hold (eng_workers e) w = Some i \<longrightarrow> v = w) \<and>
    (\<forall>i w. map_of (eng_active e) i = Some w \<longleftrightarrow> workers_run (eng_workers e) w = Some i)"
proof -
  note parts = engine_ok_parts [OF reachable_ok [OF assms(2) engine_ok_start [OF assms(1)]]]
  from parts(1) have "inj_on (workers_hold (eng_workers e)) (dom (workers_hold (eng_workers e)))"
    by (simp only: held_ok_def)
  then have "v = w" if "workers_hold (eng_workers e) v = Some i" "workers_hold (eng_workers e) w = Some i" for v w i
    using that by (auto simp: inj_on_def dom_def)
  with parts held_ok_active [OF parts(1)] show ?thesis unfolding active_ok_def by blast
qed

theorem jobs_are_held_once_witness:
  "map_of (eng_active (run_engine sample_run sample_engine)) ''job_1'' = Some 0 \<and>
   workers_hold (eng_workers (run_engine sample_run sample_engine)) 1 = None \<and>
   active_status (status_in (eng_jobs (run_engine sample_run sample_engine)) ''job_1'')"
proof -
  note inv = jobs_are_held_once [OF sample_jobs_ok sample_reachable]
  have "workers_hold (eng_workers (run_engine sample_run sample_engine)) 0 = Some ''job_1''"
    "workers_hold (eng_workers (run_engine sample_run sample_engine)) 1 = None"
    "workers_run (eng_workers (run_engine sample_run sample_engine)) 0 = Some ''job_1''" by code_simp+
  then show ?thesis using inv [of sample_run] by blast
qed



text \<open>C9. A claimed job ends: once a worker holds a job, in any schedule without a restart in which that
  worker's handler returns when it runs and its database calls succeed, five steps of that worker are
  enough for the job to become cancelled, succeeded or failed, whatever the other workers and the
  clients do in between; until then it is running or being cancelled.\<close>

theorem claimed_job_ends:
  assumes "jobs_ok t" "reachable (new_engine n t b k) e"
    and "workers_hold (eng_workers e) w = Some i" "lets_finish w sched" "5 \<le> own_steps w sched"
  shows "first_at (\<lambda>e. active_status (status_in (eng_jobs e) i))
    (\<lambda>e. status_in (eng_jobs e) i \<in> {Some ''cancelled'', Some ''succeeded'', Some ''failed''}) sched e"
proof -
  have "remaining (eng_workers e ! w) \<le> 5" by (cases "eng_workers e ! w") simp_all
  then have "remaining (eng_workers e ! w) \<le> own_steps w sched" using assms(5) by simp
  from held_progresses [OF reachable_ok [OF assms(2) engine_ok_start [OF assms(1)]] assms(3,4) this]
  show ?thesis by (simp only: statuses_eq image_insert image_empty)
qed

theorem claimed_job_ends_witness:
  "first_at (\<lambda>e. active_status (status_in (eng_jobs e) ''job_1''))
    (\<lambda>e. status_in (eng_jobs e) ''job_1'' \<in> {Some ''cancelled'', Some ''succeeded'', Some ''failed''})
    (replicate 5 (sample_io, Worker 0 (Return (Finished ''{}'')))) (run_engine sample_run sample_engine)"
proof -
  have "workers_hold (eng_workers (run_engine sample_run sample_engine)) 0 = Some ''job_1''" by code_simp
  from claimed_job_ends [OF sample_jobs_ok sample_reachable this]
  show ?thesis by (simp add: lets_finish_def own_steps_def own_step_def sample_io_def)
qed





text \<open>The errors of the final write are ignored: when the database fails at that moment only, the log
  announces \<open>job.succeeded\<close> while the job stays running, held by no worker and by no client call; the
  restart of the process fails it as interrupted (a module installation is queued again).\<close>

theorem lost_final_write:
  "\<exists>sched. let e = run_engine sched sample_engine in
     eng_workers e = [Idle, Idle] \<and> eng_tasks e = [] \<and> eng_active e = [] \<and>
     ''job.succeeded'' \<in> set (map ev_type (log_rows (bus_log (eng_bus e)))) \<and>
     status_in (eng_jobs e) ''job_1'' = Some ''running'' \<and>
     status_in (eng_jobs (engine_step sample_io Restart e)) ''job_1'' = Some ''queued''"
proof -
  let ?io = "\<lambda>x. sample_io\<lparr>io_event_id := x\<rparr>"
  let ?s = "sample_run @ [(?io ''evt_2'', Worker 0 NoMove), (sample_io, Worker 0 (Return (Finished ''{}''))),
     (sample_io, Worker 0 NoMove), (sample_io\<lparr>io_ok := False\<rparr>, Worker 0 NoMove), (?io ''evt_3'', Worker 0 NoMove)]"
  show ?thesis unfolding Let_def by (rule exI [of _ ?s], intro conjI) (code_simp | simp)+
qed

end
