(* ===== verification/ModuleTable.thy ===== *)
theory ModuleTable
  imports Manifest GoTime
begin

text \<open>
  The table of registered modules: internal/state/modules.go over the table of
  internal/state/migrations/004_modules.sql, as functions of the table, and the interface
  \<open>Store\<close> of internal/modules/registry.go that the registry uses.  The column manifest_json holds
  JSON text; a text that encodes a manifest stands as that manifest, and \<open>Garbled\<close> is a text that
  does not decode.
\<close>

section \<open>The table\<close>

datatype manifest_json = Encoded manifest | Garbled string

definition unmarshal_manifest :: "manifest_json \<Rightarrow> manifest res" where
  "unmarshal_manifest d =
     (case d of Encoded m \<Rightarrow> Inr m | Garbled _ \<Rightarrow> Inl (Err ''invalid character in JSON text''))"

record module_row =
  mr_id :: string
  mr_version :: string
  mr_status :: string
  mr_manifest :: manifest_json
  mr_error :: string
  mr_created :: gotime
  mr_updated :: gotime

type_synonym modules = "module_row list"

definition module_statuses :: "string list" where
  "module_statuses = [''registered'', ''enabled'', ''disabled'', ''error'']"

lemma module_statuses_eq [simp]:
  "set module_statuses = {''registered'', ''enabled'', ''disabled'', ''error''}"
  by (simp add: module_statuses_def)

text \<open>The conflict clause keeps status, error and creation time of the stored row.\<close>

definition upsert_module :: "gotime \<Rightarrow> module_row \<Rightarrow> modules \<Rightarrow> modules res" where
  "upsert_module now r t =
     (if mr_status r \<notin> set module_statuses then Inl (Wrap ''upsert module: '' (ErrDB ''constraint failed''))
      else Inr (case select_key mr_id (mr_id r) t of
                  None \<Rightarrow> t @ [r\<lparr>mr_created := now, mr_updated := now\<rparr>]
                | Some _ \<Rightarrow>
                    update_where (\<lambda>q. mr_id q = mr_id r)
                      (\<lambda>q. q\<lparr>mr_version := mr_version r, mr_manifest := mr_manifest r, mr_updated := now\<rparr>) t))"

definition delete_module :: "string \<Rightarrow> modules \<Rightarrow> modules res" where
  "delete_module i t =
     (if rows_matching (\<lambda>r. mr_id r = i) t = 0 then Inl ErrModuleNotFound
      else Inr (delete_where (\<lambda>r. mr_id r = i) t))"

definition set_module_status :: "gotime \<Rightarrow> string \<Rightarrow> string \<Rightarrow> string \<Rightarrow> modules \<Rightarrow> modules res" where
  "set_module_status now i status message t =
     (if rows_matching (\<lambda>r. mr_id r = i) t = 0 then Inl ErrModuleNotFound
      else if status \<notin> set module_statuses then Inl (Wrap ''set module status: '' (ErrDB ''constraint failed''))
      else Inr (update_where (\<lambda>r. mr_id r = i) (\<lambda>r. r\<lparr>mr_status := status, mr_error := message, mr_updated := now\<rparr>) t))"

definition get_module :: "string \<Rightarrow> modules \<Rightarrow> module_row res" where
  "get_module i t = (case select_key mr_id i t of None \<Rightarrow> Inl ErrModuleNotFound | Some r \<Rightarrow> Inr r)"

definition list_modules :: "modules \<Rightarrow> module_row list" where
  "list_modules t = sort_key mr_id t"

section \<open>The interface of the registry\<close>

text \<open>What the registry reads of a module: its manifest and its status.\<close>

type_synonym module_entry = "manifest_json \<times> string"

locale module_store =
  fixes inv :: "'s \<Rightarrow> bool"
    and lookup :: "'s \<Rightarrow> string \<Rightarrow> module_entry option"
    and upsert :: "string \<Rightarrow> module_entry \<Rightarrow> 's \<Rightarrow> 's res"
    and set_status :: "string \<Rightarrow> string \<Rightarrow> string \<Rightarrow> 's \<Rightarrow> 's res"
    and delete :: "string \<Rightarrow> 's \<Rightarrow> 's res"
  assumes upsert_law: "inv s \<Longrightarrow> upsert i (d, st) s = Inr s' \<Longrightarrow>
      inv s' \<and> st \<in> set module_statuses \<and>
      lookup s' = (lookup s)(i \<mapsto> (d, case lookup s i of None \<Rightarrow> st | Some (_, old) \<Rightarrow> old))"
    and set_status_law: "inv s \<Longrightarrow> set_status i st m s = Inr s' \<Longrightarrow>
      inv s' \<and> st \<in> set module_statuses \<and>
      (\<exists>d old. lookup s i = Some (d, old) \<and> lookup s' = (lookup s)(i \<mapsto> (d, st)))"
    and delete_law: "inv s \<Longrightarrow> delete i s = Inr s' \<Longrightarrow> inv s' \<and> lookup s i \<noteq> None \<and> lookup s' = (lookup s)(i := None)"
    and upsert_total: "inv s \<Longrightarrow> st \<in> set module_statuses \<Longrightarrow> is_ok (upsert i (d, st) s)"
    and set_status_total: "inv s \<Longrightarrow> st \<in> set module_statuses \<Longrightarrow> lookup s i \<noteq> None \<Longrightarrow> is_ok (set_status i st m s)"
begin

text \<open>Every entry is the valid manifest of its identifier, in one of the four statuses.\<close>

definition entries_ok :: "'s \<Rightarrow> bool" where
  "entries_ok s =
     (inv s \<and> (\<forall>i d st. lookup s i = Some (d, st) \<longrightarrow>
        st \<in> set module_statuses \<and> (\<exists>m. d = Encoded m \<and> mod_id m = i \<and> validate_manifest m = None)))"

lemma entries_ok_inv: "entries_ok s \<Longrightarrow> inv s"
  by (simp add: entries_ok_def)

lemma entries_ok_upsert:
  assumes "entries_ok s" "validate_manifest m = None" "upsert (mod_id m) (Encoded m, st) s = Inr s'"
  shows "entries_ok s'"
proof -
  note u = upsert_law [OF entries_ok_inv [OF assms(1)] assms(3)]
  have "st' \<in> set module_statuses \<and> (\<exists>m. d = Encoded m \<and> mod_id m = i \<and> validate_manifest m = None)"
    if "lookup s' i = Some (d, st')" for i d st'
  proof (cases "i = mod_id m")
    case True
    then have "d = Encoded m" "st' = (case lookup s i of None \<Rightarrow> st | Some (_, old) \<Rightarrow> old)"
      using that u by auto
    then show ?thesis
      using u assms(1,2) True by (auto simp: entries_ok_def simp del: module_statuses_eq split: option.splits)
  next
    case False
    then show ?thesis using that u assms(1) by (simp add: entries_ok_def del: module_statuses_eq)
  qed
  then show ?thesis using u by (simp add: entries_ok_def del: module_statuses_eq)
qed

lemma entries_ok_set_status:
  assumes "entries_ok s" "set_status i st m s = Inr s'"
  shows "entries_ok s'"
proof -
  note u = set_status_law [OF entries_ok_inv [OF assms(1)] assms(2)]
  then obtain d old where d: "lookup s i = Some (d, old)" "lookup s' = (lookup s)(i \<mapsto> (d, st))" by blast
  have "st' \<in> set module_statuses \<and> (\<exists>m. d' = Encoded m \<and> mod_id m = k \<and> validate_manifest m = None)"
    if "lookup s' k = Some (d', st')" for k d' st'
  proof (cases "k = i")
    case True
    then have "d' = d" "st' = st" using that d(2) by simp_all
    then show ?thesis using u assms(1) d(1) True by (simp add: entries_ok_def del: module_statuses_eq)
  next
    case False
    then show ?thesis using that d(2) assms(1) by (simp add: entries_ok_def del: module_statuses_eq)
  qed
  then show ?thesis using u by (simp add: entries_ok_def del: module_statuses_eq)
qed

lemma entries_ok_delete:
  assumes "entries_ok s" "delete i s = Inr s'"
  shows "entries_ok s'"
  using delete_law [OF entries_ok_inv [OF assms(1)] assms(2)] assms(1)
  by (auto simp: entries_ok_def simp del: module_statuses_eq split: if_splits)

end

section \<open>The table is such a store\<close>

definition module_view :: "modules \<Rightarrow> string \<Rightarrow> module_entry option" where
  "module_view t i = map_option (\<lambda>r. (mr_manifest r, mr_status r)) (select_key mr_id i t)"

abbreviation modules_ok :: "modules \<Rightarrow> bool" where
  "modules_ok \<equiv> module_store.entries_ok (unique_key mr_id) module_view"

definition new_row :: "string \<Rightarrow> string \<Rightarrow> module_entry \<Rightarrow> module_row" where
  "new_row i v e =
     \<lparr>mr_id = i, mr_version = v, mr_status = snd e, mr_manifest = fst e, mr_error = [], mr_created = 0, mr_updated = 0\<rparr>"

lemma module_view_update:
  assumes "\<And>r. mr_id (f r) = mr_id r" "select_key mr_id i t = Some r"
  shows "module_view (update_where (\<lambda>r. mr_id r = i) f t) = (module_view t)(i \<mapsto> (mr_manifest (f r), mr_status (f r)))"
proof
  fix k
  have id: "mr_id r = k" if "select_key mr_id k t = Some r" for r k using select_key_Some [OF that] by simp
  show "module_view (update_where (\<lambda>r. mr_id r = i) f t) k =
    ((module_view t)(i \<mapsto> (mr_manifest (f r), mr_status (f r)))) k"
    unfolding module_view_def select_update_where [of mr_id f, OF assms(1)]
    using id assms(2) by (cases "select_key mr_id k t") auto
qed

lemma rows_matching_id:
  "unique_key mr_id t \<Longrightarrow> rows_matching (\<lambda>r. mr_id r = i) t = 0 \<longleftrightarrow> module_view t i = None"
  using rows_matching_key [of mr_id t i "\<lambda>_. True"] by (simp add: module_view_def split: option.split)

interpretation ms: module_store "unique_key mr_id" module_view "\<lambda>i e. upsert_module now (new_row i v e)"
  "set_module_status now" delete_module for now v
proof (unfold_locales, goal_cases)
  case (1 s i d st s')
  show ?case
  proof (cases "select_key mr_id i s")
    case None
    then have s': "s' = s @ [(new_row i v (d, st))\<lparr>mr_created := now, mr_updated := now\<rparr>]" "st \<in> set module_statuses"
      using 1(2) by (simp_all add: upsert_module_def new_row_def split: if_splits)
    have "module_view s' k = ((module_view s)(i \<mapsto> (d, st))) k" for k
      unfolding s'(1) module_view_def select_key_append using None
      by (auto simp: select_key_Cons new_row_def split: option.split)
    then show ?thesis
      using 1(1) None s' by (auto simp: unique_snoc new_row_def module_view_def fun_eq_iff)
  next
    case (Some r)
    then have s': "s' = update_where (\<lambda>q. mr_id q = i) (\<lambda>q. q\<lparr>mr_version := v, mr_manifest := d, mr_updated := now\<rparr>) s"
      "st \<in> set module_statuses"
      using 1(2) by (simp_all add: upsert_module_def new_row_def split: if_splits)
    have view: "module_view s' = (module_view s)(i \<mapsto> (d, mr_status r))"
      unfolding s'(1) by (subst module_view_update [OF _ Some]) simp_all
    have "unique_key mr_id s'" using 1(1) unfolding s'(1) by (simp add: table_simps)
    then show ?thesis using s'(2) unfolding view by (simp add: module_view_def Some)
  qed
next
  case (2 s i st m s')
  then have s': "s' = update_where (\<lambda>r. mr_id r = i) (\<lambda>r. r\<lparr>mr_status := st, mr_error := m, mr_updated := now\<rparr>) s"
    "st \<in> set module_statuses" "module_view s i \<noteq> None"
    using rows_matching_id [OF 2(1)] by (simp_all add: set_module_status_def split: if_splits)
  then obtain r where r: "select_key mr_id i s = Some r" by (auto simp: module_view_def)
  have view: "module_view s' = (module_view s)(i \<mapsto> (mr_manifest r, st))"
    unfolding s'(1) by (subst module_view_update [OF _ r]) simp_all
  have "unique_key mr_id s'" using 2(1) unfolding s'(1) by (simp add: table_simps)
  then show ?case using s'(2) r unfolding view by (simp add: module_view_def)
next
  case (3 s i s')
  then have s': "s' = delete_where (\<lambda>r. mr_id r = i) s" "module_view s i \<noteq> None"
    using rows_matching_id [OF 3(1)] by (simp_all add: delete_module_def split: if_splits)
  then show ?case
    using 3(1) unfolding s'(1) by (auto simp: unique_delete_where module_view_def select_delete_key)
next
  case (4 s st i d)
  then show ?case by (simp add: upsert_module_def new_row_def)
next
  case (5 s st i m)
  then show ?case using rows_matching_id [OF 5(1)] by (simp add: set_module_status_def)
qed

lemma modules_ok_iff:
  "modules_ok t \<longleftrightarrow> unique_key mr_id t \<and>
     (\<forall>i d st. module_view t i = Some (d, st) \<longrightarrow>
        st \<in> set module_statuses \<and> (\<exists>m. d = Encoded m \<and> mod_id m = i \<and> validate_manifest m = None))"
  by (rule ms.entries_ok_def)

lemma modules_ok_Nil: "modules_ok []"
  by (simp add: modules_ok_iff unique_key_def module_view_def)

lemma get_module_view:
  "get_module i t = Inr r \<Longrightarrow> module_view t i = Some (mr_manifest r, mr_status r)"
  "get_module i t = Inl e \<Longrightarrow> e = ErrModuleNotFound \<and> module_view t i = None"
  by (auto simp: get_module_def module_view_def split: option.splits)

end
