(* ===== verification/Registry.thy ===== *)
theory Registry
  imports ModuleTable
begin

text \<open>
  The module registry: internal/modules/registry.go, capabilities.go, the final check of frigate.go and
  the decoding of helper answers in runtime_client.go and runtime_status.go.  A lifecycle operation is
  cut at its calls of the privileged helper: it begins (checks, reads, and the write that precedes the
  call), the helper answers, and it ends or calls again.  Between the two the process may die.  The
  mutex of the registry is the task under way.  The containers the helper manages are part of the
  state; what an answer does to them is part of the step.
\<close>

section \<open>Model\<close>

record registered =
  rg_manifest :: manifest
  rg_status :: string
  rg_error :: string

datatype module_task =
    Installing manifest
  | Upgrading manifest registered
  | RollingBack manifest registered go_error
  | Committing manifest registered
  | Controlling string string registered
  | Removing string registered

type_synonym containers = "string \<Rightarrow> string option"

record registry =
  reg_core :: string
  reg_os :: string
  reg_arch :: string
  reg_rows :: modules
  reg_task :: "module_task option"
  reg_containers :: containers

text \<open>What a step gets from outside: the context, the upstream of Frigate, the database, the clock.\<close>

record reg_env =
  env_ctx :: "go_error option"
  env_resolved :: "frigate_candidate res"
  env_read_ok :: bool
  env_write_ok :: bool
  env_reread_ok :: bool
  env_now :: gotime

definition new_registry :: "string \<Rightarrow> string \<Rightarrow> string \<Rightarrow> modules \<Rightarrow> registry" where
  "new_registry core os arch t =
     \<lparr>reg_core = trim_space core, reg_os = os, reg_arch = arch, reg_rows = t, reg_task = None,
      reg_containers = (\<lambda>_. None)\<rparr>"

subsection \<open>Reading\<close>

definition registered_from_record :: "module_row \<Rightarrow> registered res" where
  "registered_from_record r =
     (case unmarshal_manifest (mr_manifest r) of
        Inl e \<Rightarrow> Inl (Wrapf ''decode registered manifest %q: '' [mr_id r] e)
      | Inr m \<Rightarrow> Inr \<lparr>rg_manifest = m, rg_status = mr_status r, rg_error = mr_error r\<rparr>)"

definition read_module :: "bool \<Rightarrow> string \<Rightarrow> modules \<Rightarrow> module_row res" where
  "read_module ok i t = (if ok then get_module i t else Inl (Wrap ''read module: '' (ErrDB ''failed'')))"

text \<open>The store and the registry have a sentinel \<open>ErrModuleNotFound\<close> each, with the same text; here
  they are one.\<close>

definition registry_get :: "bool \<Rightarrow> string \<Rightarrow> modules \<Rightarrow> registered res" where
  "registry_get ok i t =
     (case read_module ok i t of Inl e \<Rightarrow> Inl e | Inr r \<Rightarrow> registered_from_record r)"

fun collect :: "'a res list \<Rightarrow> 'a list res" where
  "collect [] = Inr []"
| "collect (Inl e # rs) = Inl e"
| "collect (Inr x # rs) = (case collect rs of Inl e \<Rightarrow> Inl e | Inr xs \<Rightarrow> Inr (x # xs))"

definition registry_list :: "modules \<Rightarrow> registered list res" where
  "registry_list t =
     (case collect (map registered_from_record (list_modules t)) of
        Inl e \<Rightarrow> Inl e
      | Inr items \<Rightarrow> Inr (sort_key (mod_id \<circ> rg_manifest) items))"

definition registry_capabilities :: "string list \<Rightarrow> modules \<Rightarrow> string list res" where
  "registry_capabilities host t =
     (case registry_list t of
        Inl e \<Rightarrow> Inl e
      | Inr items \<Rightarrow>
          Inr (sort (fold (\<lambda>item caps. if rg_status item \<noteq> ''enabled'' then caps
                             else set_add_all (cap_provides (rg_manifest item)) caps)
                 items (set_add_all host []))))"

subsection \<open>Checks\<close>

definition core_compatible :: "string \<Rightarrow> manifest \<Rightarrow> go_error option" where
  "core_compatible core m =
     (if core = [] then None
      else let current = before_any ''+-'' (trim_prefix core ''v'')
      in case parse_version current of
           Inl _ \<Rightarrow> None
         | Inr _ \<Rightarrow>
             (case satisfies current (core_constraint m) of
                Inl e \<Rightarrow> Some e
              | Inr ok \<Rightarrow> fail_if (\<not> ok) (Errf ''module %q is incompatible with Core %s'' [mod_id m, core])))"

definition verify_official_frigate :: "string \<Rightarrow> string \<Rightarrow> frigate_candidate res \<Rightarrow> manifest \<Rightarrow> go_error option" where
  "verify_official_frigate os arch resolved m =
     (if mod_id m \<noteq> frigate_module_id then None
      else case validate_frigate_manifest m of
        Some e \<Rightarrow> Some e
      | None \<Rightarrow>
          if os \<noteq> ''linux'' \<or> hd (architectures m) \<noteq> arch
          then Some (Err ''Frigate image is incompatible with this host'')
          else (case resolved of
                  Inl e \<Rightarrow> Some e
                | Inr c \<Rightarrow> fail_if (cand_image c \<noteq> docker_image (runtime m))
                    (Err ''official Frigate digest changed after approval; refresh and review the new image'')))"

text \<open>The common beginning of the operations: the context, then the mutex.\<close>

definition enter :: "reg_env \<Rightarrow> registry \<Rightarrow> go_error option" where
  "enter env s = first_error [env_ctx env, fail_if (reg_task s \<noteq> None) ErrModuleBusy]"

definition manifest_checks :: "reg_env \<Rightarrow> manifest \<Rightarrow> registry \<Rightarrow> go_error option" where
  "manifest_checks env m s = first_error [
     validate_manifest m,
     verify_official_frigate (reg_os s) (reg_arch s) (env_resolved env) m,
     core_compatible (reg_core s) m]"

definition supports_upgrade :: "manifest \<Rightarrow> bool" where
  "supports_upgrade m = list_ex (\<lambda>op. op = ''upgrade'') (lifecycle m)"

text \<open>A write of the store; the database may refuse it.\<close>

definition store_write :: "reg_env \<Rightarrow> string \<Rightarrow> modules res \<Rightarrow> modules res" where
  "store_write env what r = (if env_write_ok env then r else Inl (Wrap what (ErrDB ''failed'')))"

definition store_status :: "reg_env \<Rightarrow> string \<Rightarrow> string \<Rightarrow> string \<Rightarrow> registry \<Rightarrow> modules res" where
  "store_status env i status message s =
     store_write env ''set module status: '' (set_module_status (env_now env) i status message (reg_rows s))"

definition store_manifest :: "reg_env \<Rightarrow> manifest \<Rightarrow> string \<Rightarrow> registry \<Rightarrow> modules res" where
  "store_manifest env m status s =
     store_write env ''upsert module: ''
       (upsert_module (env_now env) (new_row (mod_id m) (mod_version m) (Encoded m, status)) (reg_rows s))"

definition rows_after :: "modules res \<Rightarrow> registry \<Rightarrow> registry" where
  "rows_after r s = (case r of Inl _ \<Rightarrow> s | Inr t \<Rightarrow> s\<lparr>reg_rows := t\<rparr>)"

type_synonym answer = "registered res option"

subsection \<open>Installing\<close>

definition begin_install :: "reg_env \<Rightarrow> manifest \<Rightarrow> registry \<Rightarrow> registry \<times> answer" where
  "begin_install env m s =
     (case first_error [enter env s, manifest_checks env m s] of
        Some e \<Rightarrow> (s, Some (Inl e))
      | None \<Rightarrow>
          (case read_module (env_read_ok env) (mod_id m) (reg_rows s) of
             Inr r \<Rightarrow>
               (case unmarshal_manifest (mr_manifest r) of
                  Inl e \<Rightarrow> (s, Some (Inl e))
                | Inr previous \<Rightarrow>
                    if previous \<noteq> m then (s, Some (Inl ErrModuleAlreadyInstalled))
                    else if mr_status r = ''enabled''
                    then (s, Some (registry_get (env_reread_ok env) (mod_id m) (reg_rows s)))
                    else if mr_status r \<noteq> ''registered'' then (s, Some (Inl ErrModuleAlreadyInstalled))
                    else (s\<lparr>reg_task := Some (Installing m)\<rparr>, None))
           | Inl e \<Rightarrow>
               if errors_is e ErrModuleNotFound
               then (case store_manifest env m ''registered'' s of
                       Inl e' \<Rightarrow> (s, Some (Inl e'))
                     | Inr t \<Rightarrow> (s\<lparr>reg_rows := t, reg_task := Some (Installing m)\<rparr>, None))
               else (s, Some (Inl e))))"

text \<open>An operation that ends releases the mutex and answers.\<close>

definition end_task :: "registry \<Rightarrow> registered res \<Rightarrow> registry \<times> answer" where
  "end_task s r = (s\<lparr>reg_task := None\<rparr>, Some r)"

definition finish_install :: "reg_env \<Rightarrow> go_error option \<Rightarrow> manifest \<Rightarrow> registry \<Rightarrow> registry \<times> answer" where
  "finish_install env helper_error m s =
     (case helper_error of
        Some e \<Rightarrow>
          (let w = store_status env (mod_id m) ''registered''
                     (''install incomplete; retry the same manifest or remove: '' @ error_text e) s
           in end_task (rows_after w s) (Inl (case w of Inl e' \<Rightarrow> Join e e' | Inr _ \<Rightarrow> e)))
      | None \<Rightarrow>
          (case store_status env (mod_id m) ''enabled'' [] s of
             Inl e \<Rightarrow> end_task s (Inl (Wrap ''module started; final registration incomplete, retry the same manifest: '' e))
           | Inr t \<Rightarrow> end_task (s\<lparr>reg_rows := t\<rparr>) (registry_get (env_reread_ok env) (mod_id m) t)))"

subsection \<open>Upgrading\<close>

definition upgrade_checks :: "registered \<Rightarrow> manifest \<Rightarrow> go_error option" where
  "upgrade_checks old m =
     (if rg_status old \<noteq> ''enabled'' then Some (Err ''module must be running to upgrade safely'')
      else if \<not> supports_upgrade (rg_manifest old) \<or> \<not> supports_upgrade m
      then Some (Err ''module or candidate does not declare upgrade capability'')
      else case parse_version (mod_version (rg_manifest old)) of
        Inl e \<Rightarrow> Some e
      | Inr old_version \<Rightarrow>
          (case parse_version (mod_version m) of
             Inl e \<Rightarrow> Some e
           | Inr new_version \<Rightarrow>
               if compare_version new_version old_version \<le> 0
               then Some (Err ''upgrade requires a newer module version'')
               else fail_if (docker_image (runtime m) = docker_image (runtime (rg_manifest old)))
                 (Err ''upgrade requires a new immutable Docker image'')))"

definition begin_upgrade :: "reg_env \<Rightarrow> manifest \<Rightarrow> registry \<Rightarrow> registry \<times> answer" where
  "begin_upgrade env m s =
     (case first_error [enter env s, manifest_checks env m s] of
        Some e \<Rightarrow> (s, Some (Inl e))
      | None \<Rightarrow>
          (case registry_get (env_read_ok env) (mod_id m) (reg_rows s) of
             Inl e \<Rightarrow> (s, Some (Inl e))
           | Inr old \<Rightarrow>
               (case upgrade_checks old m of
                  Some e \<Rightarrow> (s, Some (Inl e))
                | None \<Rightarrow> (s\<lparr>reg_task := Some (Upgrading m old)\<rparr>, None))))"

text \<open>The helper has switched to the candidate: its manifest is stored, or the switch is undone.\<close>

definition finish_upgrade :: "reg_env \<Rightarrow> go_error option \<Rightarrow> manifest \<Rightarrow> registered \<Rightarrow> registry \<Rightarrow> registry \<times> answer" where
  "finish_upgrade env helper_error m old s =
     (case helper_error of
        Some e \<Rightarrow> end_task s (Inl e)
      | None \<Rightarrow>
          (case store_manifest env m (rg_status old) s of
             Inl e \<Rightarrow> (s\<lparr>reg_task := Some (RollingBack m old e)\<rparr>, None)
           | Inr t \<Rightarrow> (s\<lparr>reg_rows := t, reg_task := Some (Committing m old)\<rparr>, None)))"

definition finish_rollback :: "go_error option \<Rightarrow> go_error \<Rightarrow> registry \<Rightarrow> registry \<times> answer" where
  "finish_rollback helper_error cause s =
     (let e = Wrap ''failed to persist upgraded module: '' cause
      in end_task s (Inl (case helper_error of None \<Rightarrow> e | Some e' \<Rightarrow> Join e e')))"

definition finish_commit :: "reg_env \<Rightarrow> manifest \<Rightarrow> registry \<Rightarrow> registry \<times> answer" where
  "finish_commit env m s = end_task s (registry_get (env_reread_ok env) (mod_id m) (reg_rows s))"

subsection \<open>Control and removal\<close>

text \<open>The helper operation and the next status of a control operation.\<close>

definition control_plan :: "string \<Rightarrow> string \<Rightarrow> string \<Rightarrow> (string \<times> string) res" where
  "control_plan i operation status =
     (if operation = ''enable'' then Inr (''docker.module.start'', ''enabled'')
      else if operation = ''disable'' then Inr (''docker.module.stop'', ''disabled'')
      else if operation = ''restart'' then Inr (''docker.module.restart'', ''enabled'')
      else if operation = ''recover_upgrade'' then
        (if i \<noteq> ''frigate.module'' then Inl (Err ''upgrade recovery is restricted to Frigate'')
         else Inr (''docker.module.recover'', status))
      else if operation = ''activate_storage'' then
        (if i \<noteq> ''nvr.module'' \<or> status \<noteq> ''enabled''
         then Inl (Err ''assigned storage can be activated only for enabled NVR'')
         else Inr (''docker.module.storage.activate'', ''enabled''))
      else Inl (Errf ''unsupported module control operation %q'' [operation]))"

definition begin_control :: "reg_env \<Rightarrow> string \<Rightarrow> string \<Rightarrow> registry \<Rightarrow> registry \<times> answer" where
  "begin_control env i operation s =
     (case enter env s of
        Some e \<Rightarrow> (s, Some (Inl e))
      | None \<Rightarrow>
          (case registry_get (env_read_ok env) i (reg_rows s) of
             Inl e \<Rightarrow> (s, Some (Inl e))
           | Inr item \<Rightarrow>
               if rt_type (runtime (rg_manifest item)) \<noteq> ''docker''
               then (s, Some (Inl (Err ''module runtime is not Docker'')))
               else (case control_plan i operation (rg_status item) of
                       Inl e \<Rightarrow> (s, Some (Inl e))
                     | Inr _ \<Rightarrow> (s\<lparr>reg_task := Some (Controlling i operation item)\<rparr>, None))))"

definition record_failure :: "reg_env \<Rightarrow> string \<Rightarrow> registered \<Rightarrow> go_error \<Rightarrow> registry \<Rightarrow> registry \<times> answer" where
  "record_failure env i item e s =
     end_task (rows_after (store_status env i (rg_status item) (error_text e) s) s) (Inl e)"

definition finish_control ::
  "reg_env \<Rightarrow> go_error option \<Rightarrow> string \<Rightarrow> string \<Rightarrow> registered \<Rightarrow> registry \<Rightarrow> registry \<times> answer" where
  "finish_control env helper_error i operation item s =
     (case helper_error of
        Some e \<Rightarrow> record_failure env i item e s
      | None \<Rightarrow>
          (case control_plan i operation (rg_status item) of
             Inl e \<Rightarrow> end_task s (Inl e)
           | Inr (_, next) \<Rightarrow>
               (case store_status env i next [] s of
                  Inl e \<Rightarrow> end_task s (Inl (Wrapf ''module %q operation %q completed in Docker but status persistence failed; inspect the module before retrying: '' [i, operation] e))
                | Inr t \<Rightarrow> end_task (s\<lparr>reg_rows := t\<rparr>) (registry_get (env_reread_ok env) i t))))"

definition begin_remove :: "reg_env \<Rightarrow> string \<Rightarrow> registry \<Rightarrow> registry \<times> answer" where
  "begin_remove env i s =
     (case enter env s of
        Some e \<Rightarrow> (s, Some (Inl e))
      | None \<Rightarrow>
          (case registry_get (env_read_ok env) i (reg_rows s) of
             Inl e \<Rightarrow> (s, Some (Inl e))
           | Inr item \<Rightarrow>
               if rt_type (runtime (rg_manifest item)) \<noteq> ''docker''
               then (s, Some (Inl (Err ''module runtime is not Docker'')))
               else (s\<lparr>reg_task := Some (Removing i item)\<rparr>, None)))"

text \<open>\<open>Remove\<close> answers with an error or none; a success is the answer with the item removed.\<close>

definition finish_remove :: "reg_env \<Rightarrow> go_error option \<Rightarrow> string \<Rightarrow> registered \<Rightarrow> registry \<Rightarrow> registry \<times> answer" where
  "finish_remove env helper_error i item s =
     (case helper_error of
        Some e \<Rightarrow> record_failure env i item e s
      | None \<Rightarrow>
          (case store_write env ''delete module: '' (delete_module i (reg_rows s)) of
             Inl e \<Rightarrow>
               end_task s (Inl (if errors_is e ErrModuleNotFound then ErrModuleNotFound
                 else Wrapf ''module %q container removed but registry cleanup failed; inspect state before retrying: '' [i] e))
           | Inr t \<Rightarrow> end_task (s\<lparr>reg_rows := t\<rparr>) (Inr item)))"

definition set_status_request :: "reg_env \<Rightarrow> string \<Rightarrow> string \<Rightarrow> string \<Rightarrow> registry \<Rightarrow> registry \<times> answer" where
  "set_status_request env i status message s =
     (case enter env s of
        Some e \<Rightarrow> (s, Some (Inl e))
      | None \<Rightarrow>
          if status \<notin> set module_statuses then (s, Some (Inl (Errf ''invalid module status %q'' [status])))
          else (case registry_get (env_read_ok env) i (reg_rows s) of
                  Inl e \<Rightarrow> (s, Some (Inl e))
                | Inr item \<Rightarrow>
                    (case store_status env i status message s of
                       Inl e \<Rightarrow> (s, Some (Inl (if errors_is e ErrModuleNotFound then ErrModuleNotFound else e)))
                     | Inr t \<Rightarrow> (s\<lparr>reg_rows := t\<rparr>, Some (Inr item)))))"

subsection \<open>Steps\<close>

text \<open>What is asked of the helper: operation, module, image and previous image.\<close>

definition helper_request :: "module_task \<Rightarrow> string \<times> string \<times> string \<times> string" where
  "helper_request task =
     (case task of
        Installing m \<Rightarrow> (''docker.module.install'', mod_id m, docker_image (runtime m), [])
      | Upgrading m old \<Rightarrow>
          (''docker.module.upgrade'', mod_id m, docker_image (runtime m), docker_image (runtime (rg_manifest old)))
      | RollingBack m old _ \<Rightarrow>
          (''docker.module.upgrade.rollback'', mod_id m, docker_image (runtime m), docker_image (runtime (rg_manifest old)))
      | Committing m old \<Rightarrow>
          (''docker.module.upgrade.commit'', mod_id m, docker_image (runtime m), docker_image (runtime (rg_manifest old)))
      | Controlling i operation item \<Rightarrow>
          (case control_plan i operation (rg_status item) of Inl _ \<Rightarrow> [] | Inr (op, _) \<Rightarrow> op, i,
           if operation = ''recover_upgrade'' then docker_image (runtime (rg_manifest item)) else [], [])
      | Removing i _ \<Rightarrow> (''docker.module.remove'', i, [], []))"

datatype reg_op =
    Install manifest
  | Upgrade manifest
  | Control string string
  | Remove string
  | SetStatus string string string
  | HelperAnswer "go_error option" containers
  | Die

definition helper_answered :: "reg_env \<Rightarrow> go_error option \<Rightarrow> registry \<Rightarrow> registry \<times> answer" where
  "helper_answered env err s =
     (case reg_task s of
        None \<Rightarrow> (s, None)
      | Some (Installing m) \<Rightarrow> finish_install env err m s
      | Some (Upgrading m old) \<Rightarrow> finish_upgrade env err m old s
      | Some (RollingBack m old cause) \<Rightarrow> finish_rollback err cause s
      | Some (Committing m old) \<Rightarrow> finish_commit env m s
      | Some (Controlling i operation item) \<Rightarrow> finish_control env err i operation item s
      | Some (Removing i item) \<Rightarrow> finish_remove env err i item s)"

fun registry_step :: "reg_env \<Rightarrow> reg_op \<Rightarrow> registry \<Rightarrow> registry \<times> answer" where
  "registry_step env (Install m) s = begin_install env m s"
| "registry_step env (Upgrade m) s = begin_upgrade env m s"
| "registry_step env (Control i operation) s = begin_control env i operation s"
| "registry_step env (Remove i) s = begin_remove env i s"
| "registry_step env (SetStatus i status message) s = set_status_request env i status message s"
| "registry_step env (HelperAnswer err c) s =
     (if reg_task s = None then (s, None) else helper_answered env err (s\<lparr>reg_containers := c\<rparr>))"
| "registry_step env Die s = (s\<lparr>reg_task := None\<rparr>, None)"

text \<open>
  What the registry relies on of the helper (cmd/home-ai-core-updater): a call touches the container of
  its module only; a confirmed installation, upgrade or rollback leaves the image asked for, a confirmed
  commit leaves the image as it was, a confirmed removal leaves none.  A refused or lost call may have
  done anything to that one container.
\<close>

definition helper_contract :: "module_task \<Rightarrow> go_error option \<Rightarrow> containers \<Rightarrow> containers \<Rightarrow> bool" where
  "helper_contract task err c c' =
     (case helper_request task of (_, i, img, previous) \<Rightarrow>
        (\<forall>j. j \<noteq> i \<longrightarrow> c' j = c j) \<and>
        (err = None \<longrightarrow>
          (case task of
             Installing _ \<Rightarrow> c' i = Some img
           | Upgrading _ _ \<Rightarrow> c' i = Some img
           | RollingBack _ _ _ \<Rightarrow> c' i = Some previous
           | Committing _ _ \<Rightarrow> c' i = c i
           | Controlling _ _ _ \<Rightarrow> True
           | Removing _ _ \<Rightarrow> c' i = None)))"

definition op_contract :: "reg_op \<Rightarrow> registry \<Rightarrow> bool" where
  "op_contract op s =
     (case op of
        HelperAnswer err c \<Rightarrow>
          (case reg_task s of None \<Rightarrow> True | Some task \<Rightarrow> helper_contract task err (reg_containers s) c)
      | _ \<Rightarrow> True)"

inductive registry_run :: "registry \<Rightarrow> registry \<Rightarrow> bool" for s0 where
  start: "registry_run s0 s0"
| step: "registry_run s0 s \<Longrightarrow> op_contract op s \<Longrightarrow> registry_run s0 (fst (registry_step env op s))"

section \<open>Lemmas\<close>

abbreviation view :: "registry \<Rightarrow> string \<Rightarrow> module_entry option" where
  "view s \<equiv> module_view (reg_rows s)"

text \<open>The task under way agrees with the row of its module.\<close>

definition task_ok :: "module_task option \<Rightarrow> modules \<Rightarrow> bool" where
  "task_ok task t =
     (case task of
        None \<Rightarrow> True
      | Some (Installing m) \<Rightarrow> module_view t (mod_id m) = Some (Encoded m, ''registered'')
      | Some (Upgrading m old) \<Rightarrow>
          validate_manifest m = None \<and> upgrade_checks old m = None \<and>
          module_view t (mod_id m) = Some (Encoded (rg_manifest old), rg_status old)
      | Some (RollingBack m old _) \<Rightarrow> module_view t (mod_id m) = Some (Encoded (rg_manifest old), rg_status old)
      | Some (Committing m old) \<Rightarrow> module_view t (mod_id m) = Some (Encoded m, rg_status old)
      | Some (Controlling i operation item) \<Rightarrow>
          module_view t i = Some (Encoded (rg_manifest item), rg_status item) \<and>
          is_ok (control_plan i operation (rg_status item))
      | Some (Removing i item) \<Rightarrow> module_view t i = Some (Encoded (rg_manifest item), rg_status item))"

definition registry_ok :: "registry \<Rightarrow> bool" where
  "registry_ok s =
     (modules_ok (reg_rows s) \<and> task_ok (reg_task s) (reg_rows s) \<and>
      (\<forall>i. reg_containers s i \<noteq> None \<longrightarrow> view s i \<noteq> None))"

text \<open>How one step may change the row of a module.\<close>

definition row_evolves :: "module_task option \<Rightarrow> string \<Rightarrow> module_entry option \<Rightarrow> module_entry option \<Rightarrow> bool" where
  "row_evolves task i e e' =
     (case e of
        None \<Rightarrow> True
      | Some (d, st) \<Rightarrow>
          (case e' of
             None \<Rightarrow> (\<exists>item. task = Some (Removing i item))
           | Some (d', st') \<Rightarrow>
               d' = d \<or>
               (\<exists>m old. task = Some (Upgrading m old) \<and> mod_id m = i \<and> d = Encoded (rg_manifest old) \<and>
                  d' = Encoded m \<and> upgrade_checks old m = None \<and> st' = st)))"

definition rows_evolve :: "registry \<Rightarrow> registry \<Rightarrow> bool" where
  "rows_evolve s s' = (\<forall>i. row_evolves (reg_task s) i (view s i) (view s' i))"

definition good_step :: "registry \<Rightarrow> registry \<Rightarrow> bool" where
  "good_step s s' = (registry_ok s' \<and> rows_evolve s s')"

lemma row_evolves_refl [simp]: "row_evolves task i e e"
  by (auto simp: row_evolves_def split: option.split)

lemma rows_evolve_same: "reg_rows s' = reg_rows s \<Longrightarrow> rows_evolve s s'"
  by (simp add: rows_evolve_def)

lemma registry_ok_parts:
  "registry_ok s \<Longrightarrow> modules_ok (reg_rows s)" "registry_ok s \<Longrightarrow> task_ok (reg_task s) (reg_rows s)"
  "registry_ok s \<Longrightarrow> reg_containers s i \<noteq> None \<Longrightarrow> view s i \<noteq> None"
  "registry_ok s \<Longrightarrow> unique_key mr_id (reg_rows s)"
  by (auto simp: registry_ok_def modules_ok_iff)

lemma good_refl: "registry_ok s \<Longrightarrow> good_step s s"
  by (simp add: good_step_def rows_evolve_same)

lemma task_ok_None [simp]: "task_ok None t"
  by (simp add: task_ok_def)

text \<open>Only the task changes.\<close>

lemma good_task:
  assumes "registry_ok s" "task_ok task (reg_rows s)"
  shows "good_step s (s\<lparr>reg_task := task\<rparr>)"
  using assms by (simp add: good_step_def registry_ok_def rows_evolve_def)

lemma store_write_Inr: "store_write env what r = Inr t \<longleftrightarrow> env_write_ok env \<and> r = Inr t"
  by (simp add: store_write_def)

lemma store_status_Inr:
  assumes "store_status env i st message s = Inr t" "registry_ok s"
  obtains d old where "view s i = Some (d, old)" "module_view t = (view s)(i \<mapsto> (d, st))" "modules_ok t"
proof -
  have w: "set_module_status (env_now env) i st message (reg_rows s) = Inr t"
    using assms(1) by (simp add: store_status_def store_write_Inr)
  note ok = registry_ok_parts(1) [OF assms(2)]
  from ms.set_status_law [OF registry_ok_parts(4) [OF assms(2)] w] ms.entries_ok_set_status [OF ok w]
  show thesis using that by blast
qed

lemma store_manifest_Inr:
  assumes "store_manifest env m st s = Inr t" "registry_ok s" "validate_manifest m = None"
  shows "module_view t = (view s)(mod_id m \<mapsto> (Encoded m, case view s (mod_id m) of None \<Rightarrow> st | Some (_, old) \<Rightarrow> old))"
    and "modules_ok t"
proof -
  have w: "upsert_module (env_now env) (new_row (mod_id m) (mod_version m) (Encoded m, st)) (reg_rows s) = Inr t"
    using assms(1) by (simp add: store_manifest_def store_write_Inr)
  show "module_view t = (view s)(mod_id m \<mapsto> (Encoded m, case view s (mod_id m) of None \<Rightarrow> st | Some (_, old) \<Rightarrow> old))"
    using ms.upsert_law [OF registry_ok_parts(4) [OF assms(2)] w] by blast
  show "modules_ok t"
    by (rule ms.entries_ok_upsert [OF registry_ok_parts(1) [OF assms(2)] assms(3) w])
qed

text \<open>A status write, the mutex released.\<close>

lemma good_status:
  assumes "registry_ok s" "store_status env i st message s = Inr t"
  shows "good_step s (s\<lparr>reg_rows := t, reg_task := None\<rparr>)"
proof -
  obtain d old where v: "view s i = Some (d, old)" "module_view t = (view s)(i \<mapsto> (d, st))" "modules_ok t"
    using store_status_Inr [OF assms(2,1)] by blast
  have "row_evolves (reg_task s) k (view s k) (module_view t k)" for k
    using v(1) unfolding v(2) by (cases "k = i") (simp_all add: row_evolves_def)
  moreover have "module_view t k \<noteq> None" if "reg_containers s k \<noteq> None" for k
    using registry_ok_parts(3) [OF assms(1) that] v(2) by (cases "k = i") simp_all
  ultimately show ?thesis using v(3) by (simp add: good_step_def registry_ok_def rows_evolve_def)
qed

lemma good_release: "registry_ok s \<Longrightarrow> good_step s (s\<lparr>reg_task := None\<rparr>)"
  by (rule good_task) simp_all

lemma good_status_kept:
  assumes "registry_ok s"
  shows "good_step s (rows_after (store_status env i st message s) s\<lparr>reg_task := None\<rparr>)"
  using good_status [OF assms] good_release [OF assms]
  by (cases "store_status env i st message s") (simp_all add: rows_after_def)

lemma end_task_fst [simp]: "fst (end_task s r) = s\<lparr>reg_task := None\<rparr>"
  by (simp add: end_task_def)


lemma unmarshal_Inr [simp]: "unmarshal_manifest d = Inr m \<longleftrightarrow> d = Encoded m"
  by (cases d) (simp_all add: unmarshal_manifest_def)

lemma registry_get_Inr:
  assumes "registry_get ok i t = Inr item"
  shows "module_view t i = Some (Encoded (rg_manifest item), rg_status item)"
proof -
  obtain r where r: "get_module i t = Inr r" "registered_from_record r = Inr item"
    using assms by (auto simp: registry_get_def read_module_def split: sum.splits if_splits)
  from r(2) have "unmarshal_manifest (mr_manifest r) = Inr (rg_manifest item)" "rg_status item = mr_status r"
    unfolding registered_from_record_def by (auto split: sum.splits)
  then show ?thesis using get_module_view(1) [OF r(1)] by simp
qed

lemma good_begin_install:
  assumes ok: "registry_ok s"
  shows "good_step s (fst (begin_install env m s))"
proof (cases "first_error [enter env s, manifest_checks env m s]")
  case (Some e)
  then show ?thesis using ok by (simp add: begin_install_def good_refl)
next
  case None
  have valid: "validate_manifest m = None"
    using None by (simp add: err_simps manifest_checks_def)
  show ?thesis
  proof (cases "read_module (env_read_ok env) (mod_id m) (reg_rows s)")
    case (Inl e)
    show ?thesis
    proof (cases "errors_is e ErrModuleNotFound \<and> is_ok (store_manifest env m ''registered'' s)")
      case False
      then show ?thesis
        using ok by (auto simp: begin_install_def None Inl good_refl split: sum.split)
    next
      case True
      then obtain t where t: "store_manifest env m ''registered'' s = Inr t" by (auto simp: is_ok_iff)
      have none: "view s (mod_id m) = None"
        using Inl True get_module_view(2) by (auto simp: read_module_def split: if_splits)
      note w = store_manifest_Inr [OF t ok valid]
      have v: "module_view t = (view s)(mod_id m \<mapsto> (Encoded m, ''registered''))" using w(1) none by simp
      have "registry_ok (s\<lparr>reg_rows := t, reg_task := Some (Installing m)\<rparr>)"
        using w(2) registry_ok_parts(3) [OF ok] by (simp add: registry_ok_def task_ok_def v)
      moreover have "rows_evolve s (s\<lparr>reg_rows := t, reg_task := Some (Installing m)\<rparr>)"
        using none by (simp add: rows_evolve_def v) (simp add: row_evolves_def)
      ultimately show ?thesis
        using True by (simp add: begin_install_def None Inl t good_step_def)
    qed
  next
    case (Inr r)
    then have g: "get_module (mod_id m) (reg_rows s) = Inr r" by (simp add: read_module_def split: if_splits)
    have "good_step s (s\<lparr>reg_task := Some (Installing m)\<rparr>)" if "mr_manifest r = Encoded m" "mr_status r = ''registered''"
      by (rule good_task [OF ok]) (use get_module_view(1) [OF g] that in \<open>simp add: task_ok_def\<close>)
    then show ?thesis
      using good_refl [OF ok] by (auto simp: begin_install_def None Inr split: sum.split)
  qed
qed

lemma good_finish_install:
  assumes ok: "registry_ok s"
  shows "good_step s (fst (finish_install env err m s))"
  using good_status_kept [OF ok] good_release [OF ok] good_status [OF ok]
  by (auto simp: finish_install_def Let_def split: option.split sum.split)

lemma good_begin_upgrade:
  assumes ok: "registry_ok s"
  shows "good_step s (fst (begin_upgrade env m s))"
proof (cases "first_error [enter env s, manifest_checks env m s]")
  case (Some e)
  then show ?thesis using ok by (simp add: begin_upgrade_def good_refl)
next
  case None
  have valid: "validate_manifest m = None"
    using None by (simp add: err_simps manifest_checks_def)
  show ?thesis
  proof (cases "registry_get (env_read_ok env) (mod_id m) (reg_rows s)")
    case (Inr old)
    have "good_step s (s\<lparr>reg_task := Some (Upgrading m old)\<rparr>)" if "upgrade_checks old m = None"
      by (rule good_task [OF ok]) (use registry_get_Inr [OF Inr] that valid in \<open>simp add: task_ok_def\<close>)
    then show ?thesis using good_refl [OF ok] by (auto simp: begin_upgrade_def None Inr split: option.split)
  qed (simp add: begin_upgrade_def None good_refl ok)
qed

lemma good_finish_upgrade:
  assumes ok: "registry_ok s" and task: "reg_task s = Some (Upgrading m old)"
  shows "good_step s (fst (finish_upgrade env err m old s))"
proof (cases err)
  case (Some e)
  then show ?thesis using ok by (simp add: finish_upgrade_def good_release)
next
  case None
  have t: "validate_manifest m = None" "upgrade_checks old m = None"
    "view s (mod_id m) = Some (Encoded (rg_manifest old), rg_status old)"
    using registry_ok_parts(2) [OF ok] by (simp_all add: task task_ok_def)
  show ?thesis
  proof (cases "store_manifest env m (rg_status old) s")
    case (Inl e)
    have "good_step s (s\<lparr>reg_task := Some (RollingBack m old e)\<rparr>)"
      by (rule good_task [OF ok]) (simp add: task_ok_def t)
    then show ?thesis by (simp add: finish_upgrade_def None Inl)
  next
    case (Inr r)
    note w = store_manifest_Inr [OF Inr ok t(1)]
    have v: "module_view r = (view s)(mod_id m \<mapsto> (Encoded m, rg_status old))" using w(1) t(3) by simp
    have "registry_ok (s\<lparr>reg_rows := r, reg_task := Some (Committing m old)\<rparr>)"
      using w(2) registry_ok_parts(3) [OF ok] by (simp add: registry_ok_def task_ok_def v)
    moreover have "row_evolves (reg_task s) k (view s k) (module_view r k)" for k
      using t unfolding v by (cases "k = mod_id m") (simp_all add: row_evolves_def task)
    ultimately show ?thesis
      by (simp add: finish_upgrade_def None Inr good_step_def rows_evolve_def)
  qed
qed

lemma good_begin_control:
  assumes ok: "registry_ok s"
  shows "good_step s (fst (begin_control env i operation s))"
proof (cases "registry_get (env_read_ok env) i (reg_rows s)")
  case (Inr item)
  have "good_step s (s\<lparr>reg_task := Some (Controlling i operation item)\<rparr>)"
    if "control_plan i operation (rg_status item) = Inr x" for x
    by (rule good_task [OF ok]) (use registry_get_Inr [OF Inr] that in \<open>simp add: task_ok_def\<close>)
  then show ?thesis
    using good_refl [OF ok] by (auto simp: begin_control_def Inr split: option.split sum.split)
qed (auto simp: begin_control_def good_refl ok split: option.split)

lemma good_begin_remove:
  assumes ok: "registry_ok s"
  shows "good_step s (fst (begin_remove env i s))"
proof (cases "registry_get (env_read_ok env) i (reg_rows s)")
  case (Inr item)
  have "good_step s (s\<lparr>reg_task := Some (Removing i item)\<rparr>)"
    by (rule good_task [OF ok]) (use registry_get_Inr [OF Inr] in \<open>simp add: task_ok_def\<close>)
  then show ?thesis using good_refl [OF ok] by (auto simp: begin_remove_def Inr split: option.split)
qed (auto simp: begin_remove_def good_refl ok split: option.split)

lemma good_record_failure: "registry_ok s \<Longrightarrow> good_step s (fst (record_failure env i item e s))"
  by (simp add: record_failure_def good_status_kept)

lemma good_finish_control:
  assumes ok: "registry_ok s"
  shows "good_step s (fst (finish_control env err i operation item s))"
  using good_record_failure [OF ok] good_release [OF ok] good_status [OF ok]
  by (auto simp: finish_control_def split: option.split sum.split prod.split)

lemma good_finish_remove:
  assumes ok: "registry_ok s" and task: "reg_task s = Some (Removing i item)"
    and gone: "err = None \<Longrightarrow> reg_containers s i = None"
  shows "good_step s (fst (finish_remove env err i item s))"
proof (cases err)
  case (Some e)
  then show ?thesis by (simp add: finish_remove_def good_record_failure ok)
next
  case None
  show ?thesis
  proof (cases "store_write env ''delete module: '' (delete_module i (reg_rows s))")
    case (Inl e)
    then show ?thesis by (simp add: finish_remove_def None good_release ok)
  next
    case (Inr t)
    then have w: "delete_module i (reg_rows s) = Inr t" by (simp add: store_write_Inr)
    have v: "module_view t = (view s)(i := None)"
      using ms.delete_law [OF registry_ok_parts(4) [OF ok] w] by blast
    have "modules_ok t" by (rule ms.entries_ok_delete [OF registry_ok_parts(1) [OF ok] w])
    moreover have "module_view t k \<noteq> None" if "reg_containers s k \<noteq> None" for k
      using registry_ok_parts(3) [OF ok that] gone [OF None] that v by (cases "k = i") simp_all
    moreover have "row_evolves (reg_task s) k (view s k) (module_view t k)" for k
      unfolding v by (cases "k = i") (simp_all add: row_evolves_def task split: option.split)
    ultimately show ?thesis
      by (simp add: finish_remove_def None Inr good_step_def registry_ok_def rows_evolve_def)
  qed
qed

lemma good_set_status:
  assumes ok: "registry_ok s" 
  shows "good_step s (fst (set_status_request env i status message s))"
proof (cases "enter env s")
  case None
  then have idle: "reg_task s = None" by (simp add: enter_def err_simps)
  have "good_step s (s\<lparr>reg_rows := t\<rparr>)" if "store_status env i status message s = Inr t" for t
  proof -
    have "s\<lparr>reg_rows := t, reg_task := None\<rparr> = s\<lparr>reg_rows := t\<rparr>" using idle by (cases s) simp
    then show ?thesis using good_status [OF ok that] by simp
  qed
  then show ?thesis
    using good_refl [OF ok] by (auto simp: set_status_request_def None simp del: module_statuses_eq split: sum.split)
qed (simp add: set_status_request_def good_refl ok)


definition task_id :: "module_task \<Rightarrow> string" where
  "task_id task = fst (snd (helper_request task))"

lemma task_id_simps [simp]:
  "task_id (Installing m) = mod_id m" "task_id (Upgrading m old) = mod_id m"
  "task_id (RollingBack m old e) = mod_id m" "task_id (Committing m old) = mod_id m"
  "task_id (Controlling i operation item) = i" "task_id (Removing i item) = i"
  by (simp_all add: task_id_def helper_request_def)

lemma task_ok_view: "task_ok (Some task) t \<Longrightarrow> module_view t (task_id task) \<noteq> None"
  by (cases task) (simp_all add: task_ok_def)

lemma contract_parts:
  assumes "helper_contract task err c c'"
  shows "j \<noteq> task_id task \<Longrightarrow> c' j = c j"
    and "task = Removing i item \<Longrightarrow> err = None \<Longrightarrow> c' i = None"
    and "task = Installing m \<Longrightarrow> err = None \<Longrightarrow> c' (mod_id m) = Some (docker_image (runtime m))"
    and "task = Upgrading m old \<Longrightarrow> err = None \<Longrightarrow> c' (mod_id m) = Some (docker_image (runtime m))"
    and "task = RollingBack m old e \<Longrightarrow> err = None \<Longrightarrow> c' (mod_id m) = Some (docker_image (runtime (rg_manifest old)))"
    and "task = Committing m old \<Longrightarrow> err = None \<Longrightarrow> c' (mod_id m) = c (mod_id m)"
  using assms by (auto simp: helper_contract_def task_id_def helper_request_def split: prod.splits)

lemma good_helper_answer:
  assumes ok: "registry_ok s" and contract: "op_contract (HelperAnswer err c) s"
  shows "good_step s (fst (registry_step env (HelperAnswer err c) s))"
proof (cases "reg_task s")
  case (Some task)
  let ?s = "s\<lparr>reg_containers := c\<rparr>"
  have con: "helper_contract task err (reg_containers s) c" using contract Some by (simp add: op_contract_def)
  have "view s j \<noteq> None" if "c j \<noteq> None" for j
  proof (cases "j = task_id task")
    case True
    then show ?thesis using task_ok_view registry_ok_parts(2) [OF ok] Some by simp
  next
    case False
    then have "reg_containers s j \<noteq> None" using contract_parts(1) [OF con] that by metis
    then show ?thesis by (rule registry_ok_parts(3) [OF ok])
  qed
  then have ok': "registry_ok ?s" using ok by (simp add: registry_ok_def)
  have task: "reg_task ?s = Some task" by (simp add: Some)
  have "good_step ?s (fst (helper_answered env err ?s))"
  proof (cases task)
    case (Installing m)
    then show ?thesis using good_finish_install [OF ok'] by (simp add: helper_answered_def Some)
  next
    case (Upgrading m old)
    then show ?thesis using good_finish_upgrade [OF ok'] by (simp add: helper_answered_def Some)
  next
    case (RollingBack m old e)
    then show ?thesis using good_release [OF ok'] by (simp add: helper_answered_def Some finish_rollback_def Let_def)
  next
    case (Committing m old)
    then show ?thesis using good_release [OF ok'] by (simp add: helper_answered_def Some finish_commit_def)
  next
    case (Controlling i operation item)
    then show ?thesis using good_finish_control [OF ok'] by (simp add: helper_answered_def Some)
  next
    case (Removing i item)
    then show ?thesis
      using good_finish_remove [OF ok', of i item err env] contract_parts(2) [OF con Removing] Some
      by (simp add: helper_answered_def)
  qed
  then show ?thesis by (simp add: Some good_step_def rows_evolve_def)
qed (simp add: good_refl ok)

lemma registry_step_good:
  assumes "registry_ok s" "op_contract op s"
  shows "good_step s (fst (registry_step env op s))"
proof (cases op)
  case (HelperAnswer err c)
  then show ?thesis using good_helper_answer assms by simp
qed (use assms(1) in \<open>simp_all add: good_begin_install good_begin_upgrade good_begin_control
    good_begin_remove good_set_status good_release\<close>)

lemma registry_run_ok: "registry_run s0 s \<Longrightarrow> registry_ok s0 \<Longrightarrow> registry_ok s"
  by (induction rule: registry_run.induct) (use registry_step_good in \<open>auto simp: good_step_def\<close>)

lemma registry_ok_start: "registry_ok (new_registry core os arch [])"
  by (simp add: registry_ok_def new_registry_def modules_ok_Nil)

lemmas run_ok = registry_run_ok [OF _ registry_ok_start]


text \<open>A task under way refuses every other operation.\<close>

lemma busy_refuses:
  assumes "reg_task s = Some task" "\<forall>err c. op \<noteq> HelperAnswer err c" "op \<noteq> Die"
  shows "fst (registry_step env op s) = s"
proof -
  obtain e where e: "enter env s = Some e"
    using assms(1) by (cases "env_ctx env") (simp_all add: enter_def first_error_Cons fail_if_def)
  then show ?thesis
    using assms(2,3)
    by (cases op) (simp_all add: begin_install_def begin_upgrade_def begin_control_def begin_remove_def
        set_status_request_def first_error_Cons)
qed

lemma upgrade_checks_None:
  assumes "upgrade_checks old m = None"
  obtains v w where "rg_status old = ''enabled''" "supports_upgrade (rg_manifest old)" "supports_upgrade m"
    "parse_version (mod_version (rg_manifest old)) = Inr v" "parse_version (mod_version m) = Inr w"
    "0 < compare_version w v" "docker_image (runtime m) \<noteq> docker_image (runtime (rg_manifest old))"
proof -
  have st: "rg_status old = ''enabled''" and up: "supports_upgrade (rg_manifest old) \<and> supports_upgrade m"
    using assms unfolding upgrade_checks_def by (simp_all split: if_split_asm)
  obtain v where v: "parse_version (mod_version (rg_manifest old)) = Inr v"
    using assms st up by (cases "parse_version (mod_version (rg_manifest old))") (simp_all add: upgrade_checks_def)
  obtain w where w: "parse_version (mod_version m) = Inr w"
    using assms st up v by (cases "parse_version (mod_version m)") (simp_all add: upgrade_checks_def)
  have "0 < compare_version w v \<and> docker_image (runtime m) \<noteq> docker_image (runtime (rg_manifest old))"
    using assms st up v w by (simp add: upgrade_checks_def split: if_splits)
  then show thesis using st up v w that by blast
qed

lemma begin_install_containers [simp]: "reg_containers (fst (begin_install env m s)) = reg_containers s"
proof (cases "first_error [enter env s, manifest_checks env m s]")
  case None
  show ?thesis
  proof (cases "read_module (env_read_ok env) (mod_id m) (reg_rows s)")
    case (Inl e)
    then show ?thesis
      by (cases "store_manifest env m ''registered'' s") (simp_all add: begin_install_def None)
  next
    case (Inr r)
    then show ?thesis by (cases "mr_manifest r") (simp_all add: begin_install_def None unmarshal_manifest_def)
  qed
qed (simp add: begin_install_def)

lemma begin_upgrade_containers [simp]: "reg_containers (fst (begin_upgrade env m s)) = reg_containers s"
  by (simp add: begin_upgrade_def split: option.split sum.split)

lemma finish_upgrade_rows:
  "fst (finish_upgrade env (Some e) m old s) = s\<lparr>reg_task := None\<rparr>"
  "reg_containers (fst (finish_upgrade env err m old s)) = reg_containers s"
  by (auto simp: finish_upgrade_def split: option.split sum.split)

section \<open>Properties\<close>

definition sample_module :: manifest where
  "sample_module = frigate_manifest sample_candidate"

definition sample_env :: reg_env where
  "sample_env = \<lparr>env_ctx = None, env_resolved = Inr sample_candidate, env_read_ok = True, env_write_ok = True,
     env_reread_ok = True, env_now = 1\<rparr>"

definition sample_registry :: registry where
  "sample_registry = new_registry ''v0.60.0'' ''linux'' ''amd64'' []"

definition sample_installing :: registry where
  "sample_installing = fst (registry_step sample_env (Install sample_module) sample_registry)"

definition sample_containers :: containers where
  "sample_containers = [mod_id sample_module \<mapsto> docker_image (runtime sample_module)]"

lemma sample_installing_run: "registry_run (new_registry ''v0.60.0'' ''linux'' ''amd64'' []) sample_installing"
  unfolding sample_installing_def sample_registry_def
  by (rule registry_run.step [OF registry_run.start]) (simp add: op_contract_def)

lemma sample_installing_task: "reg_task sample_installing = Some (Installing sample_module)"
  by code_simp

lemma sample_answer_contract: "op_contract (HelperAnswer None sample_containers) sample_installing"
proof -
  have none: "reg_containers sample_installing = (\<lambda>_. None)"
    by (simp add: sample_installing_def sample_registry_def new_registry_def)
  show ?thesis
    by (simp add: op_contract_def sample_installing_task helper_contract_def helper_request_def
        sample_containers_def none)
qed


text \<open>The sample module installed, and its upgrade to the next patch under way.\<close>

definition sample_installed :: registry where
  "sample_installed = fst (registry_step sample_env (HelperAnswer None sample_containers) sample_installing)"

definition next_candidate :: frigate_candidate where
  "next_candidate = \<lparr>cand_version = ''0.18.4'', cand_architecture = ''amd64'',
     cand_image = ''ghcr.io/blakeblackshear/frigate@sha256:'' @ replicate 64 CHR ''b''\<rparr>"

definition next_env :: reg_env where
  "next_env = sample_env\<lparr>env_resolved := Inr next_candidate\<rparr>"

definition sample_upgrading :: registry where
  "sample_upgrading = fst (registry_step next_env (Upgrade (frigate_manifest next_candidate)) sample_installed)"

definition next_containers :: containers where
  "next_containers = [mod_id sample_module \<mapsto> docker_image (runtime (frigate_manifest next_candidate))]"

lemma sample_installed_run: "registry_run (new_registry ''v0.60.0'' ''linux'' ''amd64'' []) sample_installed"
  unfolding sample_installed_def
  by (rule registry_run.step [OF sample_installing_run sample_answer_contract])

lemma sample_upgrading_run: "registry_run (new_registry ''v0.60.0'' ''linux'' ''amd64'' []) sample_upgrading"
  unfolding sample_upgrading_def
  by (rule registry_run.step [OF sample_installed_run]) (simp add: op_contract_def)

lemma sample_installed_containers: "reg_containers sample_installed = sample_containers"
  by (simp add: sample_installed_def sample_installing_task helper_answered_def finish_install_def end_task_def
      split: sum.split)

definition sample_registered :: registered where
  "sample_registered = \<lparr>rg_manifest = sample_module, rg_status = ''enabled'', rg_error = []\<rparr>"

lemma sample_upgrading_task:
  "reg_task sample_upgrading = Some (Upgrading (frigate_manifest next_candidate) sample_registered)"
  by code_simp

lemma sample_upgrading_rows:
  "reg_rows sample_upgrading = [\<lparr>mr_id = mod_id sample_module, mr_version = ''0.18.3'', mr_status = ''enabled'',
     mr_manifest = Encoded sample_module, mr_error = [], mr_created = 1, mr_updated = 1\<rparr>]"
  by code_simp

lemma sample_ids: "mod_id (frigate_manifest next_candidate) = mod_id sample_module"
  by (simp add: frigate_manifest_def sample_module_def)

lemma next_answer_contract: "op_contract (HelperAnswer None next_containers) sample_upgrading"
proof -
  have "reg_containers sample_upgrading = sample_containers"
    by (simp add: sample_upgrading_def sample_installed_containers)
  then show ?thesis
    by (simp add: op_contract_def sample_upgrading_task helper_contract_def helper_request_def
        next_containers_def sample_containers_def sample_ids)
qed



text \<open>C25. The manifest of a registered module is replaced only by a confirmed upgrade: while the module
  has a row, one step leaves its manifest or stores one of a strictly newer version with another image,
  where both declare the upgrade operation, the module is enabled and stays so, and its container
  already runs the new image.\<close>

theorem manifest_replaced_only_by_upgrade:
  assumes "registry_run (new_registry core os arch []) s" "op_contract op s"
    and "module_view (reg_rows s) i = Some (Encoded m0, st)"
    and "module_view (reg_rows (fst (registry_step env op s))) i = Some (Encoded m1, st')" "m1 \<noteq> m0"
  shows "supports_upgrade m0 \<and> supports_upgrade m1 \<and> docker_image (runtime m1) \<noteq> docker_image (runtime m0) \<and>
    (\<exists>v w. parse_version (mod_version m0) = Inr v \<and> parse_version (mod_version m1) = Inr w \<and> 0 < compare_version w v) \<and>
    st = ''enabled'' \<and> st' = ''enabled'' \<and>
    reg_containers (fst (registry_step env op s)) i = Some (docker_image (runtime m1))"
proof -
  let ?s = "fst (registry_step env op s)"
  note ok = run_ok [OF assms(1)]
  have "row_evolves (reg_task s) i (Some (Encoded m0, st)) (Some (Encoded m1, st'))"
    using registry_step_good [OF ok assms(2), of env] assms(3,4)
    unfolding good_step_def rows_evolve_def by metis
  then obtain old where up: "reg_task s = Some (Upgrading m1 old)" "mod_id m1 = i" "m0 = rg_manifest old"
    "upgrade_checks old m1 = None" "st' = st"
    using assms(5) by (auto simp: row_evolves_def)
  have st: "st = rg_status old"
    using registry_ok_parts(2) [OF ok] up(1,2) assms(3) by (simp add: task_ok_def)
  have "?s \<noteq> s" using assms(3-5) by auto
  then have "(\<exists>err c. op = HelperAnswer err c) \<or> op = Die" using busy_refuses [OF up(1)] by blast
  moreover have "op \<noteq> Die" using assms(3-5) by auto
  ultimately obtain err c where op: "op = HelperAnswer err c" by blast
  have s': "?s = fst (finish_upgrade env err m1 old (s\<lparr>reg_containers := c\<rparr>))"
    by (simp add: op up(1) helper_answered_def)
  have "err = None"
  proof (rule ccontr)
    assume "err \<noteq> None"
    then obtain e where "err = Some e" by blast
    then have "reg_rows ?s = reg_rows s" by (simp add: s' finish_upgrade_rows(1))
    then show False using assms(3-5) by simp
  qed
  then have "c (mod_id m1) = Some (docker_image (runtime m1))"
    using contract_parts(4) [of "Upgrading m1 old" err "reg_containers s" c] assms(2)
    by (simp add: op op_contract_def up(1))
  then have "reg_containers ?s i = Some (docker_image (runtime m1))"
    by (simp add: s' finish_upgrade_rows(2) up(2))
  then show ?thesis
    using up(5) st by (rule_tac upgrade_checks_None [OF up(4)]) (simp add: up(3))
qed

theorem manifest_replaced_only_by_upgrade_witness:
  "docker_image (runtime (frigate_manifest next_candidate)) \<noteq> docker_image (runtime sample_module) \<and>
   reg_containers (fst (registry_step next_env (HelperAnswer None next_containers) sample_upgrading)) (mod_id sample_module) =
     Some (docker_image (runtime (frigate_manifest next_candidate)))"
proof -
  have before: "module_view (reg_rows sample_upgrading) (mod_id sample_module) = Some (Encoded sample_module, ''enabled'')"
    by (simp add: sample_upgrading_rows module_view_def select_key_Cons)
  have after': "module_view (reg_rows (fst (registry_step next_env (HelperAnswer None next_containers) sample_upgrading)))
      (mod_id sample_module) = Some (Encoded (frigate_manifest next_candidate), ''enabled'')"
    by (simp add: sample_upgrading_task helper_answered_def finish_upgrade_def store_manifest_def store_write_def
        next_env_def sample_env_def upsert_module_def new_row_def sample_upgrading_rows sample_ids module_view_def
        select_key_Cons update_where_def sample_registered_def)
  have ne: "frigate_manifest next_candidate \<noteq> sample_module" by code_simp
  show ?thesis
    using manifest_replaced_only_by_upgrade [OF sample_upgrading_run next_answer_contract before after' ne] by blast
qed

text \<open>An installation that stopped halfway is taken up by the same manifest: whatever happened before
  (a refused helper call, a database failure, the death of the process), if the row is still
  \<open>registered\<close> and nothing is under way, installing the manifest again calls the helper again, and a
  confirmed call ends with the module enabled; any other manifest of that identifier is refused and
  changes nothing.\<close>

theorem interrupted_install_resumes:
  assumes "registry_run (new_registry core os arch []) s" "reg_task s = None"
    and "module_view (reg_rows s) (mod_id m) = Some (Encoded m, ''registered'')"
    and "env_ctx env = None" "env_read_ok env"
  shows "(manifest_checks env m s = None \<longrightarrow>
      registry_step env (Install m) s = (s\<lparr>reg_task := Some (Installing m)\<rparr>, None) \<and>
      (\<forall>env' c. env_write_ok env' \<longrightarrow> env_reread_ok env' \<longrightarrow>
        (let r = registry_step env' (HelperAnswer None c) (s\<lparr>reg_task := Some (Installing m)\<rparr>)
         in snd r = Some (Inr \<lparr>rg_manifest = m, rg_status = ''enabled'', rg_error = []\<rparr>) \<and>
            module_view (reg_rows (fst r)) (mod_id m) = Some (Encoded m, ''enabled'') \<and> reg_task (fst r) = None))) \<and>
    (\<forall>m'. mod_id m' = mod_id m \<longrightarrow> m' \<noteq> m \<longrightarrow> manifest_checks env m' s = None \<longrightarrow>
      registry_step env (Install m') s = (s, Some (Inl ErrModuleAlreadyInstalled)))"
proof -
  note ok = run_ok [OF assms(1)]
  obtain r where r: "select_key mr_id (mod_id m) (reg_rows s) = Some r" "mr_manifest r = Encoded m"
    "mr_status r = ''registered''"
    using assms(3) by (auto simp: module_view_def)
  have enter: "enter env s = None" using assms(2,4) by (simp add: enter_def err_simps)
  have read: "read_module (env_read_ok env) (mod_id m) (reg_rows s) = Inr r"
    using assms(5) r(1) by (simp add: read_module_def get_module_def)
  have resume: "registry_step env (Install m) s = (s\<lparr>reg_task := Some (Installing m)\<rparr>, None)"
    if "manifest_checks env m s = None"
    by (simp add: begin_install_def err_simps enter that read r unmarshal_manifest_def)
  have refuse: "registry_step env (Install m') s = (s, Some (Inl ErrModuleAlreadyInstalled))"
    if "mod_id m' = mod_id m" "m' \<noteq> m" "manifest_checks env m' s = None" for m'
    using that(2) by (simp add: begin_install_def err_simps enter that(1,3) read r unmarshal_manifest_def)
  have done': "let x = registry_step env' (HelperAnswer None c) (s\<lparr>reg_task := Some (Installing m)\<rparr>)
     in snd x = Some (Inr \<lparr>rg_manifest = m, rg_status = ''enabled'', rg_error = []\<rparr>) \<and>
        module_view (reg_rows (fst x)) (mod_id m) = Some (Encoded m, ''enabled'') \<and> reg_task (fst x) = None"
    if "env_write_ok env'" "env_reread_ok env'" for env' c
  proof -
    let ?t = "update_where (\<lambda>q. mr_id q = mod_id m)
      (\<lambda>q. q\<lparr>mr_status := ''enabled'', mr_error := [], mr_updated := env_now env'\<rparr>) (reg_rows s)"
    have "rows_matching (\<lambda>q. mr_id q = mod_id m) (reg_rows s) \<noteq> 0"
      using rows_matching_id [OF registry_ok_parts(4) [OF ok]] assms(3) by simp
    then have w: "set_module_status (env_now env') (mod_id m) ''enabled'' [] (reg_rows s) = Inr ?t"
      by (simp add: set_module_status_def)
    have sel: "select_key mr_id (mod_id m) ?t =
        Some (r\<lparr>mr_status := ''enabled'', mr_error := [], mr_updated := env_now env'\<rparr>)"
      using select_key_Some [OF r(1)] by (simp add: select_update_where r(1))
    show ?thesis
      by (simp add: helper_answered_def finish_install_def store_status_def store_write_def that w end_task_def
          registry_get_def read_module_def get_module_def sel registered_from_record_def r(2)
          unmarshal_manifest_def module_view_def)
  qed
  show ?thesis using resume refuse done' by blast
qed


theorem interrupted_install_resumes_witness:
  "registry_step sample_env (Install sample_module) (sample_installing\<lparr>reg_task := None\<rparr>) =
     (sample_installing\<lparr>reg_task := Some (Installing sample_module)\<rparr>, None)"
proof -
  have run: "registry_run (new_registry ''v0.60.0'' ''linux'' ''amd64'' []) (sample_installing\<lparr>reg_task := None\<rparr>)"
    using registry_run.step [OF sample_installing_run, of Die sample_env] by (simp add: op_contract_def)
  have row: "module_view (reg_rows (sample_installing\<lparr>reg_task := None\<rparr>)) (mod_id sample_module) =
      Some (Encoded sample_module, ''registered'')" by code_simp
  have checks: "manifest_checks sample_env sample_module (sample_installing\<lparr>reg_task := None\<rparr>) = None" by code_simp
  have env: "env_ctx sample_env = None" "env_read_ok sample_env" by (simp_all add: sample_env_def)
  show ?thesis
    using interrupted_install_resumes [OF run _ row env] checks by simp
qed

text \<open>The two ways an upgrade goes on once the helper has switched.\<close>

lemma upgrade_stored:
  assumes ok: "registry_ok s" and task: "reg_task s = Some (Upgrading m old)"
    and con: "op_contract (HelperAnswer None c) s" and w: "env_write_ok env"
    and s1: "s1 = fst (registry_step env (HelperAnswer None c) s)"
    and con2: "op_contract (HelperAnswer err2 c2) s1"
    and s2: "s2 = fst (registry_step env2 (HelperAnswer err2 c2) s1)"
  shows "module_view (reg_rows s2) (mod_id m) = Some (Encoded m, rg_status old) \<and> reg_task s2 = None \<and>
    (err2 = None \<longrightarrow> reg_containers s2 (mod_id m) = Some (docker_image (runtime m)))"
proof -
  have row: "view s (mod_id m) = Some (Encoded (rg_manifest old), rg_status old)"
    using registry_ok_parts(2) [OF ok] by (simp add: task task_ok_def)
  have st: "rg_status old \<in> set module_statuses"
    using registry_ok_parts(1) [OF ok] row unfolding modules_ok_iff by blast
  have "is_ok (upsert_module (env_now env) (new_row (mod_id m) (mod_version m) (Encoded m, rg_status old)) (reg_rows s))"
    by (rule ms.upsert_total [OF registry_ok_parts(4) [OF ok] st])
  then obtain t where up: "upsert_module (env_now env) (new_row (mod_id m) (mod_version m) (Encoded m, rg_status old)) (reg_rows s) = Inr t"
    by (auto simp: is_ok_iff)
  have v: "module_view t (mod_id m) = Some (Encoded m, rg_status old)"
    using ms.upsert_law [OF registry_ok_parts(4) [OF ok] up] row by simp
  have s1': "s1 = s\<lparr>reg_containers := c, reg_rows := t, reg_task := Some (Committing m old)\<rparr>"
    unfolding s1 by (simp add: task helper_answered_def finish_upgrade_def w store_manifest_def store_write_def up)
  have "helper_contract (Upgrading m old) None (reg_containers s) c"
    using con by (simp add: op_contract_def task)
  then have "c (mod_id m) = Some (docker_image (runtime m))" by (rule contract_parts(4)) simp_all
  moreover have "helper_contract (Committing m old) err2 c c2"
    using con2 by (simp add: op_contract_def s1')
  then have "c2 (mod_id m) = c (mod_id m)" if "err2 = None" using contract_parts(6) [OF _ refl that] by blast
  ultimately show ?thesis unfolding s2 s1' by (simp add: helper_answered_def finish_commit_def end_task_def v)
qed

lemma upgrade_undone:
  assumes ok: "registry_ok s" and task: "reg_task s = Some (Upgrading m old)" and w: "\<not> env_write_ok env"
    and s1: "s1 = fst (registry_step env (HelperAnswer None c) s)"
    and con2: "op_contract (HelperAnswer err2 c2) s1"
    and s2: "s2 = fst (registry_step env2 (HelperAnswer err2 c2) s1)"
  shows "(\<exists>e. snd (registry_step env2 (HelperAnswer err2 c2) s1) = Some (Inl e)) \<and>
    reg_rows s2 = reg_rows s \<and> reg_task s2 = None \<and>
    module_view (reg_rows s2) (mod_id m) = Some (Encoded (rg_manifest old), rg_status old) \<and>
    (err2 = None \<longrightarrow> reg_containers s2 (mod_id m) = Some (docker_image (runtime (rg_manifest old))))"
proof -
  have row: "view s (mod_id m) = Some (Encoded (rg_manifest old), rg_status old)"
    using registry_ok_parts(2) [OF ok] by (simp add: task task_ok_def)
  define e where "e = Wrap ''upsert module: '' (ErrDB ''failed'')"
  have s1': "s1 = s\<lparr>reg_containers := c, reg_task := Some (RollingBack m old e)\<rparr>"
    unfolding e_def s1 by (simp add: task helper_answered_def finish_upgrade_def w store_manifest_def store_write_def)
  have "helper_contract (RollingBack m old e) err2 c c2"
    using con2 by (simp add: op_contract_def s1')
  then have "c2 (mod_id m) = Some (docker_image (runtime (rg_manifest old)))" if "err2 = None"
    using contract_parts(5) [OF _ refl that] by blast
  then show ?thesis
    unfolding s2 s1' using row by (simp add: helper_answered_def finish_rollback_def Let_def end_task_def)
qed



end
