(* ===== verification/HelperClient.thy ===== *)
theory HelperClient
  imports GoText
begin

text \<open>
  What Core makes of the answers of its privileged helper: internal/modules/runtime_client.go (the frames
  of a module operation), runtime_status.go, ai_gpu.go and nvr_endpoint.go.  The connection is the list
  of the frames it still delivers; decoding fails at its end.
\<close>

section \<open>Model\<close>

record response =
  rs_ok :: bool
  rs_error :: string
  rs_protocol :: int
  rs_stage :: string
  rs_detail :: string
  rs_state :: string
  rs_container :: string
  rs_message :: string
  rs_address :: string
  rs_gpus :: "string list"
  rs_docker_available :: bool
  rs_docker_active :: bool
  rs_docker_version :: string
  rs_docker_network :: bool
  rs_docker_error :: string

definition protocol_version :: int where "protocol_version = 8"

record helper_result =
  hr_state :: string
  hr_container :: string
  hr_message :: string

definition max_frames :: nat where "max_frames = 4096"

text \<open>Progress frames are reported; the first other frame is the answer.\<close>

fun read_frames :: "nat \<Rightarrow> response list \<Rightarrow> (string \<times> string) list \<times> helper_result res" where
  "read_frames 0 frames = ([], Inl (Err ''too many module progress frames''))"
| "read_frames (Suc n) [] = ([], Inl (Wrap ''read module helper response: '' (ErrHelper ''EOF'')))"
| "read_frames (Suc n) (r # frames) =
     (if rs_stage r \<noteq> []
      then (case read_frames n frames of (reported, x) \<Rightarrow> ((rs_stage r, rs_detail r) # reported, x))
      else if \<not> rs_ok r
      then ([], Inl (Err (if rs_error r = [] then ''privileged module helper rejected operation'' else rs_error r)))
      else ([], Inr \<lparr>hr_state = rs_state r, hr_container = rs_container r, hr_message = rs_message r\<rparr>))"

definition call_module_helper :: "response list \<Rightarrow> (string \<times> string) list \<times> helper_result res" where
  "call_module_helper frames = read_frames max_frames frames"

record runtime_status =
  rst_available :: bool
  rst_active :: bool
  rst_engine_ready :: bool
  rst_network_ready :: bool
  rst_version :: string
  rst_error :: string

definition runtime_status_from_response :: "response \<Rightarrow> runtime_status res" where
  "runtime_status_from_response r =
     (if \<not> rs_ok r then Inl (Err ''privileged helper rejected Docker inspection'')
      else if rs_protocol r \<noteq> protocol_version then Inl (Err ''incompatible Docker helper protocol'')
      else let engine = (rs_docker_available r \<and> rs_docker_active r \<and> rs_docker_version r \<noteq> [])
           in Inr \<lparr>rst_available = rs_docker_available r, rst_active = rs_docker_active r, rst_engine_ready = engine,
                   rst_network_ready = (engine \<and> rs_docker_network r), rst_version = rs_docker_version r,
                   rst_error = rs_docker_error r\<rparr>)"

definition ai_gpu_result :: "response \<Rightarrow> string list res" where
  "ai_gpu_result r =
     (if \<not> rs_ok r then Inl (Err (if rs_error r = [] then ''AI GPU runtime rejected operation'' else rs_error r))
      else if rs_protocol r \<noteq> protocol_version then Inl (Err ''GPU helper protocol mismatch'')
      else Inr (rs_gpus r))"

definition ai_gpu_image_cached :: "response list \<Rightarrow> bool res" where
  "ai_gpu_image_cached frames =
     (case snd (call_module_helper frames) of
        Inl e \<Rightarrow> Inl e
      | Inr h \<Rightarrow>
          if hr_state h = ''downloaded'' then Inr True
          else if hr_state h = ''missing'' then Inr False
          else Inl (Err ''unexpected GPU image status''))"

definition prepare_ai_gpu_image :: "response list \<Rightarrow> go_error option" where
  "prepare_ai_gpu_image frames =
     (case snd (call_module_helper frames) of
        Inl e \<Rightarrow> Some e
      | Inr h \<Rightarrow> fail_if (hr_state h \<noteq> ''downloaded'') (Err ''GPU runtime download did not complete''))"

text \<open>
  \<open>netip.ParseAddr\<close> followed by \<open>Is4\<close>: four decimal fields without superfluous zeros, each at most
  255; any other accepted text is not an IPv4 address.
\<close>

definition parse_ipv4 :: "string \<Rightarrow> nat list option" where
  "parse_ipv4 s =
     (let fields = split_on CHR ''.'' s
      in if length fields = 4 \<and> list_all (\<lambda>f. canonical_digits f \<and> digits_value f \<le> 255) fields
         then Some (map digits_value fields) else None)"

definition is_private :: "nat list \<Rightarrow> bool" where
  "is_private a =
     (a ! 0 = 10 \<or> a ! 0 = 172 \<and> 16 \<le> a ! 1 \<and> a ! 1 \<le> 31 \<or> a ! 0 = 192 \<and> a ! 1 = 168)"

definition is_loopback :: "nat list \<Rightarrow> bool" where
  "is_loopback a = (a ! 0 = 127)"

definition ipv4_text :: "nat list \<Rightarrow> string" where
  "ipv4_text a = join_on CHR ''.'' (map itoa a)"

definition endpoint_modules :: "string list" where
  "endpoint_modules = [''nvr.module'', ''ai.agent'', ''frigate.module'']"

definition resolve_module_endpoint :: "string \<Rightarrow> response \<Rightarrow> string res" where
  "resolve_module_endpoint i r =
     (if i \<notin> set endpoint_modules then Inl (Err ''unsupported module endpoint'')
      else if \<not> rs_ok r then Inl (Err (if rs_error r = [] then ''module endpoint is unavailable'' else rs_error r))
      else (case parse_ipv4 (rs_address r) of
              None \<Rightarrow> Inl (Err ''helper returned an invalid managed container address'')
            | Some a \<Rightarrow>
                if \<not> is_private a \<or> is_loopback a
                then Inl (Err ''helper returned an invalid managed container address'')
                else Inr (ipv4_text a)))"

section \<open>Lemmas\<close>

text \<open>The answer is the first frame that is not progress, when it comes in time.\<close>

lemma read_frames_answer:
  "\<forall>p\<in>set ps. rs_stage p \<noteq> [] \<Longrightarrow> rs_stage r = [] \<Longrightarrow> length ps < n \<Longrightarrow>
   read_frames n (ps @ r # rest) =
     (map (\<lambda>p. (rs_stage p, rs_detail p)) ps, snd (read_frames 1 [r]))"
proof (induction ps arbitrary: n)
  case Nil
  then show ?case by (cases n) simp_all
next
  case (Cons p ps)
  then show ?case by (cases n) simp_all
qed

lemma read_frames_too_many:
  "\<forall>p\<in>set ps. rs_stage p \<noteq> [] \<Longrightarrow> length ps = n \<Longrightarrow>
   read_frames n (ps @ rest) =
     (map (\<lambda>p. (rs_stage p, rs_detail p)) ps, Inl (Err ''too many module progress frames''))"
  by (induction ps arbitrary: n) auto

lemma read_frames_bounded: "length (fst (read_frames n frames)) \<le> n"
  by (induction n frames rule: read_frames.induct) (auto split: prod.splits)

lemma split_four:
  assumes "split_on c s = [w, x, y, z]"
  shows "s = w @ c # x @ c # y @ c # z"
  using join_split [of c s] unfolding assms by simp

lemma no_dot_in_itoa: "CHR ''.'' \<notin> set (itoa n)"
proof
  assume "CHR ''.'' \<in> set (itoa n)"
  then have "is_digit CHR ''.''" using itoa_digits [of n] by (simp add: list_all_iff)
  then show False by (simp add: is_digit_def byte_in_def byte_def)
qed

lemma split_itoas:
  "split_on CHR ''.'' (itoa w @ CHR ''.'' # itoa x @ CHR ''.'' # itoa y @ CHR ''.'' # itoa z) =
     [itoa w, itoa x, itoa y, itoa z]"
  by (simp add: split_on_append split_on_no_sep no_dot_in_itoa)

text \<open>The accepted texts are exactly the canonical ones.\<close>

lemma parse_ipv4_iff:
  "parse_ipv4 s = Some a \<longleftrightarrow>
     (\<exists>w x y z. a = [w, x, y, z] \<and> w \<le> 255 \<and> x \<le> 255 \<and> y \<le> 255 \<and> z \<le> 255 \<and>
        s = itoa w @ CHR ''.'' # itoa x @ CHR ''.'' # itoa y @ CHR ''.'' # itoa z)"
proof
  assume "parse_ipv4 s = Some a"
  then have len: "length (split_on CHR ''.'' s) = 4"
    and ok: "\<forall>f\<in>set (split_on CHR ''.'' s). canonical_digits f \<and> digits_value f \<le> 255"
    and a: "a = map digits_value (split_on CHR ''.'' s)"
    by (simp_all add: parse_ipv4_def Let_def list_all_iff split: if_splits)
  obtain w x y z where fs: "split_on CHR ''.'' s = [w, x, y, z]"
    using len by (auto simp: length_Suc_conv eval_nat_numeral)
  have it: "itoa (digits_value f) = f" if "f \<in> {w, x, y, z}" for f
    using ok that by (intro itoa_digits_value) (auto simp: fs)
  show "\<exists>w x y z. a = [w, x, y, z] \<and> w \<le> 255 \<and> x \<le> 255 \<and> y \<le> 255 \<and> z \<le> 255 \<and>
        s = itoa w @ CHR ''.'' # itoa x @ CHR ''.'' # itoa y @ CHR ''.'' # itoa z"
    by (rule exI [of _ "digits_value w"], rule exI [of _ "digits_value x"],
        rule exI [of _ "digits_value y"], rule exI [of _ "digits_value z"])
      (use ok fs a it split_four [OF fs] in simp)
next
  assume "\<exists>w x y z. a = [w, x, y, z] \<and> w \<le> 255 \<and> x \<le> 255 \<and> y \<le> 255 \<and> z \<le> 255 \<and>
        s = itoa w @ CHR ''.'' # itoa x @ CHR ''.'' # itoa y @ CHR ''.'' # itoa z"
  then show "parse_ipv4 s = Some a" by (auto simp: parse_ipv4_def split_itoas)
qed

section \<open>Properties\<close>

text \<open>The address of a module is resolved only for the three built-in modules, and what Core connects
  to is exactly the text the helper answered with, which is the canonical text of an IPv4 address in
  one of the private ranges; every other answer is an error.\<close>

theorem resolved_endpoint_is_private:
  "resolve_module_endpoint i r = Inr a \<longleftrightarrow>
     i \<in> {''nvr.module'', ''ai.agent'', ''frigate.module''} \<and> rs_ok r \<and> a = rs_address r \<and>
     (\<exists>w x y z. a = itoa w @ CHR ''.'' # itoa x @ CHR ''.'' # itoa y @ CHR ''.'' # itoa z \<and>
        (w = 10 \<or> w = 172 \<and> 16 \<le> x \<and> x \<le> 31 \<or> w = 192 \<and> x = 168) \<and> x \<le> 255 \<and> y \<le> 255 \<and> z \<le> 255)"
proof -
  have mods: "set endpoint_modules = {''nvr.module'', ''ai.agent'', ''frigate.module''}"
    by (simp add: endpoint_modules_def)
  have addr: "ipv4_text [w, x, y, z] = itoa w @ CHR ''.'' # itoa x @ CHR ''.'' # itoa y @ CHR ''.'' # itoa z" for w x y z
    by (simp add: ipv4_text_def)
  have "(case parse_ipv4 (rs_address r) of None \<Rightarrow> Inl (Err ''helper returned an invalid managed container address'')
      | Some p \<Rightarrow> if \<not> is_private p \<or> is_loopback p
          then Inl (Err ''helper returned an invalid managed container address'') else Inr (ipv4_text p)) = Inr a \<longleftrightarrow>
     (\<exists>p. parse_ipv4 (rs_address r) = Some p \<and> is_private p \<and> \<not> is_loopback p \<and> a = ipv4_text p)"
    by (auto split: option.split)
  also have "\<dots> \<longleftrightarrow> a = rs_address r \<and>
     (\<exists>w x y z. a = itoa w @ CHR ''.'' # itoa x @ CHR ''.'' # itoa y @ CHR ''.'' # itoa z \<and>
        (w = 10 \<or> w = 172 \<and> 16 \<le> x \<and> x \<le> 31 \<or> w = 192 \<and> x = 168) \<and> x \<le> 255 \<and> y \<le> 255 \<and> z \<le> 255)"
    (is "?l \<longleftrightarrow> ?r")
  proof
    assume ?l
    then obtain w x y z where p: "is_private [w, x, y, z]" "a = ipv4_text [w, x, y, z]"
      "x \<le> 255" "y \<le> 255" "z \<le> 255"
      "rs_address r = itoa w @ CHR ''.'' # itoa x @ CHR ''.'' # itoa y @ CHR ''.'' # itoa z"
      unfolding parse_ipv4_iff by blast
    from p(1) have "w = 10 \<or> w = 172 \<and> 16 \<le> x \<and> x \<le> 31 \<or> w = 192 \<and> x = 168"
      by (simp add: is_private_def)
    moreover have "a = rs_address r" using p(2,6) addr by simp
    ultimately show ?r using p(3-6) by metis
  next
    assume r: ?r
    then obtain w x y z where a: "a = itoa w @ CHR ''.'' # itoa x @ CHR ''.'' # itoa y @ CHR ''.'' # itoa z"
      and ranges: "w = 10 \<or> w = 172 \<and> 16 \<le> x \<and> x \<le> 31 \<or> w = 192 \<and> x = 168" "x \<le> 255" "y \<le> 255" "z \<le> 255"
      by blast
    have "w \<le> 255" using ranges(1) by auto
    then have "parse_ipv4 (rs_address r) = Some [w, x, y, z]"
      unfolding parse_ipv4_iff using r a ranges(2-4) by blast
    moreover have "is_private [w, x, y, z]" "\<not> is_loopback [w, x, y, z]"
      using ranges by (auto simp: is_private_def is_loopback_def)
    ultimately show ?l using addr a by metis
  qed
  finally show ?thesis unfolding resolve_module_endpoint_def mods by (auto split: if_splits)
qed

end
