(* ===== verification/Spec2Isabelle.thy ===== *)
theory Spec2Isabelle
  imports Capacity BundleSafety InstallSafety Planner Security JobEngine Registry HelperClient
begin

text \<open>
  A verification library for HomeAiCore, a home server written in Go.

  THE PROGRAM.  Core keeps its state in one SQLite database (internal/state): accounts, jobs, events and
  modules.  Services work on it: accounts and sessions (internal/security), the job engine that runs
  long operations on background workers (internal/jobs), the publication of events to a log and to
  connected clients (internal/events, internal/realtime), and the registry of installable modules
  (internal/modules) with its manifests, version constraints, installation planner and lifecycle.  The
  files of shared folders, their resumable uploads and their trash (internal/filedata) are kept on the
  file system of the host.
  Privileged work is done by a helper process that Core reaches over a local socket.  The HTTP API
  (internal/api) sits on top; of it the rule that says who may see an event is modelled.

  THE MODEL.  The theories follow the packages.

    Prelude      error values of the source, results as a sum, tables as lists of rows
    GoText       strings as bytes, UTF-8 runes, the functions of strings and strconv the source uses
    GoTime       times and their RFC3339Nano text, by which SQL compares them
    Regexp       regular expressions by derivatives, for the patterns of the source
    Version      internal/modules/version.go
    Manifest     internal/modules/manifest.go, validate.go, frigate.go; the image rules of
                 internal/homeassistant and internal/frigate
    Planner      internal/modules/planner.go
    ModuleTable  internal/state/modules.go, and the interface the registry uses of it
    Registry     internal/modules/registry.go, capabilities.go, frigate.go (the final check)
    HelperClient internal/modules/runtime_client.go, runtime_status.go, ai_gpu.go, nvr_endpoint.go
    JobTable     internal/state/jobs.go
    JobStore     the interface the engine uses of the job table
    Events       internal/state/events.go, internal/api/event_access.go and event_history.go
    Hub          internal/realtime, internal/events/service.go
    JobEngine    internal/jobs/engine.go over JobTable and Hub
    Access       internal/security/profiles.go: permissions, profiles, scopes, names
    Accounts     internal/state/security.go and user_lifecycle.go: users, sessions, audit
    Security     internal/security: service, bootstrap, account life cycle
    FileTree     paths and trees of directories, files and symbolic links
    Disk         the calls of os the source makes, on a tree, with failing calls; weakest preconditions
    UserPaths    internal/filedata/service.go: how a path of a user becomes a path of the host
    FileData     internal/filedata/service.go: the operations on files
    Uploads      internal/filedata/upload.go, upload_commit.go, upload_commit_linux.go
    UploadSafety the properties of uploads
    Trash        internal/filedata/trash.go
    TrashSafety  the properties of the trash
    FolderRemoval  internal/filedata/remove_folder.go, usage.go
    NasTables    internal/state/nas.go, nas_management.go: pools, folders, access, quotas
    Capacity     internal/api: what may be written (pool_reservations.go, smb_capacity.go and the
                 capacity functions of files.go and nas_management.go); the limit of the helper
    UpdateBundle  internal/updater/manifest.go, verify.go, signed_archive.go and the extraction of service.go
    BundleSafety  the properties of update bundles
    UpdateInstall cmd/home-ai-core-updater/update_ops.go: installing an update and going back
    InstallSafety the properties of both, with a number of failing calls

  Each operation of the source is a function with its name in the style of the logic.  A store method is a
  function of the table that returns an error or the new table, so a transaction is one function and a
  failed one changes nothing.  A service is explicit state passing.  What runs concurrently is cut into
  steps at its store calls and messages: a worker of the job engine has phases, a client call has a
  task, a delivery to one client of the hub is a step of its own, a lifecycle operation of a module
  waits for the helper between two steps; any sequence of steps is an interleaving, and a restart or the
  death of the process is one of the steps.  Failures of the database and of the helper, the clock, random values
  and the choice between ready channels come with the step.

  The file service runs on a disk: a tree, and the list of the failures of the calls to come, each
  with the bytes a failing write left behind; when the list is used up no call fails.  So a statement
  for every disk holds for every failing of system calls, and one for a disk with no failures
  left says what happens when nothing goes wrong.  \<open>wp m Q t\<close> says that \<open>Q\<close> holds of the result and the tree
  after \<open>m\<close> on \<open>t\<close>, whichever calls fail; the rules for calls carry the proofs of this part.
  The installation of updates works on a fixed set of places instead, each a file or the files of a folder,
  and its assertions \<open>hwp\<close> count the calls that may still fail, so that "after a single failing call" can be said.

  THE INTERFACES.  The locale \<open>job_store\<close> (JobStore) holds the laws the engine relies on, read through the
  status of each job, and the lemmas about jobs held by workers; the job table interprets it.  The locale
  \<open>module_store\<close> (ModuleTable) holds those of the registry, read through the manifest and the status of each
  module, and the invariant of valid entries; the module table interprets it.

  WHAT IS SHOWN.  Invariants: of the job table, the accounts, the hub with its connections, the registry with its
  containers, and the engine, each for all sequences of operations.  A refinement: every step of the
  engine is a step of an abstract engine of statuses and holders.  Liveness: a claimed job ends, a
  cancellation in time is honoured, an interrupted installation is completed by a retry.  Functional behaviour on
  every branch: login, access changes, claiming, cancelling, recovery, planning, upgrading, paging.
  Round trips: version texts, the setup token, IPv4 texts, a file through the trash.  Of the files: requests
  never leave their folder, uploads commit exactly what was acknowledged, chunks are atomic and refine a
  list of chunks, a removal of a folder loses nothing, the usage is exact.  Some theorems show defects: they are named
  by what goes wrong (a lost final write, races of the cancellation, times compared as texts, the wrong
  prefix of the job events, a constraint validated only up to its first failing term, reserved names that
  can be reached, uploads that cannot be cancelled, restores and removals of folders that cannot be retried,
  a staged helper that outlives its failed update).

  BOUNDS AND FUEL.  The search of the planner takes fuel, one more than the number of available modules;
  \<open>plan_terminates\<close> shows that it never runs out.  The frames of a helper answer are bounded by 4096 in the
  source.  Event cursors are bounded by the largest 64-bit integer, sequence numbers of a stream wrap as
  64-bit words, versions are 64-bit integers with the range check of \<open>strconv.Atoi\<close>.  Buffers of 64 events and
  64 topics are the constants of the source.

  NOT MODELLED.  The encodings of JSON and of password hashes, random generators and the network are
  arguments, with the round trip a verifier promises as a hypothesis where it is used.  Outside the model
  are: the tables of disks, the privileged operations of the helper (cmd/home-ai-core-updater), of which
  \<open>helper_contract\<close> states what the registry relies on, the Windows client, and the HTTP layer around the
  services.  They are the plan for what follows: first the tables of NAS pools and the file handlers of
  the API, then the updater's state machine, then the validation of helper requests.
\<close>

end
